(* ===== verification/Prelude.thy ===== *)
theory Prelude
  imports Main "HOL-Library.AList" "HOL-Library.Sublist" "HOL-Library.Char_ord"
    "HOL-Library.List_Lexorder"
begin

text \<open>
  What the components of the development share: the Python values the code passes around
  (strings, JSON-shaped data, insertion-ordered dictionaries), the string operations it calls
  on them, results that may be errors, and the generic lemmas the component proofs rest on.
  Python's \<open>str\<close> is \<^typ>\<open>string\<close> (the identifiers the code compares are ASCII), an unbounded
  Python \<open>int\<close> is \<^typ>\<open>int\<close>, a \<open>dict\<close> whose order matters is an association list written with
  \<^const>\<open>AList.update\<close> (overwrite in place, append when new: Python's insertion order) and read
  with \<^const>\<open>map_of\<close>; a \<open>dict\<close> whose order is never read is a map.
\<close>

named_theorems py_simps \<open>unfolding of Python string and dictionary operations\<close>
named_theorems invs \<open>preservation of a component's invariant by one operation\<close>

section \<open>Results that may be errors\<close>

text \<open>A function that may raise returns \<open>Inl\<close> of the exception or \<open>Inr\<close> of its value.\<close>

fun sbind :: "'e + 'a \<Rightarrow> ('a \<Rightarrow> 'e + 'b) \<Rightarrow> 'e + 'b" where
  "sbind (Inl e) f = Inl e"
| "sbind (Inr x) f = f x"

lemma sbind_Inr_iff [simp]: "sbind r f = Inr y \<longleftrightarrow> (\<exists>x. r = Inr x \<and> f x = Inr y)"
  by (cases r) auto

text \<open>A list comprehension whose element expression may raise: the first error wins.\<close>

fun mapM_sum :: "('a \<Rightarrow> 'e + 'b) \<Rightarrow> 'a list \<Rightarrow> 'e + 'b list" where
  "mapM_sum f [] = Inr []"
| "mapM_sum f (x # xs) = sbind (f x) (\<lambda>y. sbind (mapM_sum f xs) (\<lambda>ys. Inr (y # ys)))"

lemma sbind_Inl_iff: "sbind r f = Inl e \<longleftrightarrow> r = Inl e \<or> (\<exists>x. r = Inr x \<and> f x = Inl e)"
  by (cases r) auto

lemma mapM_sum_cong [fundef_cong]:
  "xs = ys \<Longrightarrow> (\<And>x. x \<in> set ys \<Longrightarrow> f x = g x) \<Longrightarrow> mapM_sum f xs = mapM_sum g ys"
  by (induction xs arbitrary: ys) auto

lemma mapM_sum_Inr:
  "mapM_sum f xs = Inr ys \<longleftrightarrow> list_all2 (\<lambda>x y. f x = Inr y) xs ys"
  by (induction xs arbitrary: ys) (auto simp: list_all2_Cons1)

lemma mapM_sum_length: "mapM_sum f xs = Inr ys \<Longrightarrow> length ys = length xs"
  by (auto simp: mapM_sum_Inr dest: list_all2_lengthD)

lemma mapM_sum_set:
  "mapM_sum f xs = Inr ys \<Longrightarrow> y \<in> set ys \<Longrightarrow> \<exists>x \<in> set xs. f x = Inr y"
  by (induction xs arbitrary: ys) auto

lemma mapM_sum_set2:
  "mapM_sum f xs = Inr ys \<Longrightarrow> x \<in> set xs \<Longrightarrow> \<exists>y \<in> set ys. f x = Inr y"
  by (induction xs arbitrary: ys) auto

text \<open>A \<open>for\<close> loop over a state whose body may raise.\<close>

fun sfold :: "('s \<Rightarrow> 'a \<Rightarrow> 'e + 's) \<Rightarrow> 's \<Rightarrow> 'a list \<Rightarrow> 'e + 's" where
  "sfold f s [] = Inr s"
| "sfold f s (x # xs) = sbind (f s x) (\<lambda>s'. sfold f s' xs)"

lemma sfold_append: "sfold f s (xs @ ys) = sbind (sfold f s xs) (\<lambda>s'. sfold f s' ys)"
proof (induction xs arbitrary: s)
  case (Cons x xs)
  then show ?case by (cases "f s x") auto
qed simp

lemma sfold_invariant:
  assumes "sfold f s xs = Inr t" "I s"
    and "\<And>s x s'. x \<in> set xs \<Longrightarrow> I s \<Longrightarrow> f s x = Inr s' \<Longrightarrow> I s'"
  shows "I t"
  using assms
proof (induction xs arbitrary: s)
  case (Cons x xs)
  from Cons.prems(1) obtain s' where s': "f s x = Inr s'" "sfold f s' xs = Inr t" by auto
  have "I s'" by (rule Cons.prems(3) [OF _ Cons.prems(2) s'(1)]) simp
  then show ?case by (rule Cons.IH [OF s'(2)]) (auto intro: Cons.prems(3))
qed simp

text \<open>The same for a body that may also run out of fuel (\<open>None\<close>).\<close>

fun efold :: "('s \<Rightarrow> 'a \<Rightarrow> ('e + 's) option) \<Rightarrow> 's \<Rightarrow> 'a list \<Rightarrow> ('e + 's) option" where
  "efold f s [] = Some (Inr s)"
| "efold f s (x # xs) =
     (case f s x of
        None \<Rightarrow> None
      | Some (Inl e) \<Rightarrow> Some (Inl e)
      | Some (Inr s') \<Rightarrow> efold f s' xs)"

lemma efold_Cons_Inr:
  "efold f s (x # xs) = Some (Inr t) \<longleftrightarrow>
     (\<exists>s'. f s x = Some (Inr s') \<and> efold f s' xs = Some (Inr t))"
  by (auto split: option.splits sum.splits)

lemma efold_rel:
  assumes "efold f s xs = Some (Inr t)" "R s s"
    and "\<And>u x v. x \<in> set xs \<Longrightarrow> R s u \<Longrightarrow> f u x = Some (Inr v) \<Longrightarrow> R s v"
  shows "R s t"
proof -
  have "efold f u xs = Some (Inr t) \<Longrightarrow> R s u \<Longrightarrow> (\<And>u x v. x \<in> set xs \<Longrightarrow> R s u
      \<Longrightarrow> f u x = Some (Inr v) \<Longrightarrow> R s v) \<Longrightarrow> R s t" for u
  proof (induction xs arbitrary: u)
    case (Cons x xs)
    from Cons.prems(1) obtain v where v: "f u x = Some (Inr v)" "efold f v xs = Some (Inr t)"
      by (auto simp only: efold_Cons_Inr)
    have "R s v" by (rule Cons.prems(3) [OF _ Cons.prems(2) v(1)]) simp
    then show ?case by (rule Cons.IH [OF v(2)]) (auto intro: Cons.prems(3))
  qed simp
  with assms show ?thesis by blast
qed

lemma efold_not_None:
  assumes "I s" "\<And>u x. x \<in> set xs \<Longrightarrow> I u \<Longrightarrow> f u x \<noteq> None"
    and "\<And>u x v. x \<in> set xs \<Longrightarrow> I u \<Longrightarrow> f u x = Some (Inr v) \<Longrightarrow> I v"
  shows "efold f s xs \<noteq> None"
  using assms
proof (induction xs arbitrary: s)
  case (Cons x xs)
  obtain r where r: "f s x = Some r" using Cons.prems(1,2) by (metis list.set_intros(1) not_None_eq)
  show ?case
  proof (cases r)
    case (Inl e)
    with r show ?thesis by simp
  next
    case (Inr v)
    with r Cons.prems have "I v" by (metis list.set_intros(1))
    then have "efold f v xs \<noteq> None"
    proof (rule Cons.IH)
      show "f u y \<noteq> None" if "y \<in> set xs" "I u" for u y using Cons.prems(2) that by simp
      show "I w" if "y \<in> set xs" "I u" "f u y = Some (Inr w)" for u y w
        using Cons.prems(3) [OF _ that(2,3)] that(1) by simp
    qed
    with r Inr show ?thesis by simp
  qed
qed simp

text \<open>
  A pass that never fails: \<open>I\<close> is kept, and each element establishes its own \<open>G\<close>, which later
  elements keep.
\<close>

lemma efold_ok:
  assumes "efold f s xs = Some r" "I s"
    and "\<And>u x q. x \<in> set xs \<Longrightarrow> I u \<Longrightarrow> f u x = Some q
           \<Longrightarrow> \<exists>v. q = Inr v \<and> I v \<and> G x v \<and> (\<forall>y. G y u \<longrightarrow> G y v)"
  shows "\<exists>t. r = Inr t \<and> I t \<and> (\<forall>x \<in> set xs. G x t) \<and> (\<forall>y. G y s \<longrightarrow> G y t)"
  using assms
proof (induction xs arbitrary: s)
  case (Cons x xs)
  obtain q where q: "f s x = Some q" using Cons.prems(1) by (auto split: option.splits)
  obtain v where v: "q = Inr v" "I v" "G x v" "\<forall>y. G y s \<longrightarrow> G y v"
    using Cons.prems(3) [OF _ Cons.prems(2) q] by auto
  from Cons.prems(1) q v have e: "efold f v xs = Some r" by simp
  have "\<exists>t. r = Inr t \<and> I t \<and> (\<forall>x \<in> set xs. G x t) \<and> (\<forall>y. G y v \<longrightarrow> G y t)"
    by (rule Cons.IH [OF e v(2)], rule Cons.prems(3)) simp_all
  with v show ?case by (metis set_ConsD)
qed auto

text \<open>The same for a pass that returns in every case, with what its errors satisfy.\<close>

lemma efold_total:
  assumes "I s"
    and "\<And>u x. x \<in> set xs \<Longrightarrow> I u \<Longrightarrow> \<exists>q. f u x = Some q
           \<and> (case q of Inl e \<Rightarrow> P e | Inr v \<Rightarrow> I v \<and> G x v \<and> (\<forall>y. G y u \<longrightarrow> G y v))"
  shows "\<exists>q. efold f s xs = Some q
           \<and> (case q of Inl e \<Rightarrow> P e | Inr t \<Rightarrow> I t \<and> (\<forall>x \<in> set xs. G x t) \<and> (\<forall>y. G y s \<longrightarrow> G y t))"
  using assms
proof (induction xs arbitrary: s)
  case (Cons x xs)
  obtain q where q: "f s x = Some q"
    "case q of Inl e \<Rightarrow> P e | Inr v \<Rightarrow> I v \<and> G x v \<and> (\<forall>y. G y s \<longrightarrow> G y v)"
    using Cons.prems(2) [OF list.set_intros(1) Cons.prems(1)] by blast
  show ?case
  proof (cases q)
    case (Inl e)
    with q show ?thesis by simp
  next
    case (Inr v)
    with q have v: "I v" "G x v" "\<forall>y. G y s \<longrightarrow> G y v" by auto
    have "\<exists>q. efold f v xs = Some q
        \<and> (case q of Inl e \<Rightarrow> P e | Inr t \<Rightarrow> I t \<and> (\<forall>x \<in> set xs. G x t) \<and> (\<forall>y. G y v \<longrightarrow> G y t))"
      by (rule Cons.IH [OF v(1)], rule Cons.prems(2)) simp_all
    with q(1) Inr v show ?thesis by (auto split: sum.splits)
  qed
qed simp

lemma map_result_Inr: "map_option (map_sum g f) x = Some (Inr y) \<Longrightarrow> \<exists>p. x = Some (Inr p) \<and> f p = y"
  by (cases x; cases "the x") auto

section \<open>Orderings that respect dependencies\<close>

text \<open>Every element of the list comes after everything it depends on.\<close>

definition deps_before :: "('a \<Rightarrow> 'b list) \<Rightarrow> ('a \<Rightarrow> 'b) \<Rightarrow> 'a list \<Rightarrow> bool" where
  "deps_before D key xs \<longleftrightarrow> (\<forall>ys y zs. xs = ys @ y # zs \<longrightarrow> set (D y) \<subseteq> key ` set ys)"

lemma deps_before_Nil [simp]: "deps_before D key []"
  by (simp add: deps_before_def)

lemma all_split_snoc:
  "(\<forall>us z vs. ys @ [y] = us @ z # vs \<longrightarrow> P us z) \<longleftrightarrow>
     (\<forall>us z vs. ys = us @ z # vs \<longrightarrow> P us z) \<and> P ys y" (is "?l \<longleftrightarrow> ?r")
proof
  assume l: ?l
  have "P us z" if "ys = us @ z # vs" for us z vs using l that by simp
  with l show ?r by simp
next
  assume r: ?r
  have "P us z" if e: "ys @ [y] = us @ z # vs" for us z vs
  proof (cases vs rule: rev_cases)
    case (snoc ws w)
    with e have "ys @ [y] = (us @ z # ws) @ [w]" by simp
    with r show ?thesis by (simp only: append1_eq_conv)
  qed (use e r in simp)
  then show ?l by blast
qed

lemma deps_before_snoc [simp]:
  "deps_before D key (xs @ [x]) \<longleftrightarrow> deps_before D key xs \<and> set (D x) \<subseteq> key ` set xs"
  unfolding deps_before_def all_split_snoc ..

lemma deps_before_nth:
  "deps_before D key xs \<longleftrightarrow> (\<forall>k < length xs. set (D (xs ! k)) \<subseteq> key ` set (take k xs))"
proof (induction xs rule: rev_induct)
  case (snoc x xs)
  then show ?case by (auto simp: nth_append less_Suc_eq)
qed simp

lemma deps_before_append:
  "deps_before D key (xs @ ys) \<longleftrightarrow>
     deps_before D key xs \<and> (\<forall>us y vs. ys = us @ y # vs \<longrightarrow> set (D y) \<subseteq> key ` (set xs \<union> set us))"
proof (induction ys rule: rev_induct)
  case (snoc y ys)
  show ?case unfolding all_split_snoc append_assoc [symmetric] deps_before_snoc snoc.IH by auto
qed simp

section \<open>Strings\<close>

definition digit :: "nat \<Rightarrow> char" where
  "digit d = char_of (48 + d)"

text \<open>\<open>str(n)\<close> for a non-negative integer.\<close>

fun nat_str :: "nat \<Rightarrow> string" where
  "nat_str n = (if n < 10 then [digit n] else nat_str (n div 10) @ [digit (n mod 10)])"

declare nat_str.simps [simp del]

definition int_str :: "int \<Rightarrow> string" where
  "int_str i = (if i < 0 then CHR ''-'' # nat_str (nat (- i)) else nat_str (nat i))"

definition decimal :: "string \<Rightarrow> nat" where
  "decimal s = foldl (\<lambda>a c. 10 * a + (of_char c - 48)) 0 s"

lemma of_char_digit: "d < 10 \<Longrightarrow> of_char (digit d) = (48 + d :: nat)"
  by (simp add: digit_def)

lemma decimal_nat_str: "decimal (nat_str n) = n"
proof (induction n rule: nat_str.induct)
  case (1 n)
  show ?case
  proof (cases "n < 10")
    case True
    then show ?thesis
      by (subst nat_str.simps) (simp add: decimal_def of_char_digit)
  next
    case False
    with 1 have "decimal (nat_str (n div 10)) = n div 10" by simp
    with False show ?thesis
      by (subst nat_str.simps) (simp add: decimal_def of_char_digit)
  qed
qed

lemma nat_str_inject [simp]: "nat_str m = nat_str n \<longleftrightarrow> m = n"
  by (metis decimal_nat_str)

lemma nat_str_nonempty [simp]: "nat_str n \<noteq> []"
  by (subst nat_str.simps) simp

lemma nat_str_digits: "c \<in> set (nat_str n) \<Longrightarrow> of_char c \<in> {48..57::nat}"
proof (induction n rule: nat_str.induct)
  case (1 n)
  then show ?case
    by (subst (asm) (2) nat_str.simps) (auto simp: of_char_digit split: if_splits)
qed

text \<open>\<open>sep.join(parts)\<close>.\<close>

fun join :: "string \<Rightarrow> string list \<Rightarrow> string" where
  "join sep [] = []"
| "join sep [s] = s"
| "join sep (s # t # ss) = s @ sep @ join sep (t # ss)"

text \<open>ASCII whitespace as \<open>str.strip\<close> and \<open>str.split\<close> see it.\<close>

definition is_space :: "char \<Rightarrow> bool" where
  "is_space c = (let n = of_char c :: nat in 9 \<le> n \<and> n \<le> 13 \<or> 28 \<le> n \<and> n \<le> 32)"

definition strip :: "string \<Rightarrow> string" where
  "strip s = rev (dropWhile is_space (rev (dropWhile is_space s)))"

definition lower_char :: "char \<Rightarrow> char" where
  "lower_char c = (let n = of_char c :: nat in if 65 \<le> n \<and> n \<le> 90 then char_of (n + 32) else c)"

definition lower :: "string \<Rightarrow> string" where
  "lower s = map lower_char s"

text \<open>\<open>s.split()\<close>: the maximal runs of non-space characters.\<close>

fun split_words_acc :: "string \<Rightarrow> string \<Rightarrow> string list" where
  "split_words_acc acc [] = (if acc = [] then [] else [rev acc])"
| "split_words_acc acc (c # cs) =
     (if is_space c then (if acc = [] then split_words_acc [] cs else rev acc # split_words_acc [] cs)
      else split_words_acc (c # acc) cs)"

definition split_words :: "string \<Rightarrow> string list" where
  "split_words s = split_words_acc [] s"

text \<open>\<open>s.split(c)\<close> for a one-character separator: always at least one piece.\<close>

fun split_on :: "char \<Rightarrow> string \<Rightarrow> string list" where
  "split_on sep [] = [[]]"
| "split_on sep (c # cs) =
     (if c = sep then [] # split_on sep cs
      else (case split_on sep cs of [] \<Rightarrow> [[c]] | w # ws \<Rightarrow> (c # w) # ws))"

lemma split_on_nonempty [simp]: "split_on sep s \<noteq> []"
  by (induction s) (auto split: list.splits)

lemma split_on_no_sep: "sep \<notin> set s \<Longrightarrow> split_on sep s = [s]"
  by (induction s) auto

text \<open>\<open>needle in haystack\<close> on strings.\<close>

fun contains :: "string \<Rightarrow> string \<Rightarrow> bool" where
  "contains hay needle =
     (prefix needle hay \<or> (case hay of [] \<Rightarrow> False | _ # cs \<Rightarrow> contains cs needle))"

declare contains.simps [simp del]

lemma contains_code [simp, code]:
  "contains [] n \<longleftrightarrow> n = []"
  "contains (c # cs) n \<longleftrightarrow> prefix n (c # cs) \<or> contains cs n"
  by (subst contains.simps; simp)+

lemma contains_iff: "contains hay needle \<longleftrightarrow> (\<exists>a b. hay = a @ needle @ b)"
proof (induction hay)
  case Nil
  then show ?case by simp
next
  case (Cons c cs)
  show ?case
  proof
    assume "contains (c # cs) needle"
    then consider "prefix needle (c # cs)" | "contains cs needle" by auto
    then show "\<exists>a b. c # cs = a @ needle @ b"
    proof cases
      case 1
      then show ?thesis by (metis append_Nil prefixE)
    next
      case 2
      with Cons.IH show ?thesis by (metis append_Cons)
    qed
  next
    assume "\<exists>a b. c # cs = a @ needle @ b"
    then obtain a b where ab: "c # cs = a @ needle @ b" by blast
    show "contains (c # cs) needle"
    proof (cases a)
      case Nil
      with ab have "prefix needle (c # cs)" by simp
      then show ?thesis by simp
    next
      case (Cons x xs)
      with ab Cons.IH show ?thesis by auto
    qed
  qed
qed

text \<open>\<open>repr(s)\<close> of a string and of a list of strings, as an f-string shows them.\<close>

definition repr_char :: "char \<Rightarrow> char \<Rightarrow> string" where
  "repr_char q c =
     (let n = of_char c :: nat in
      if c = q \<or> n = 92 then [char_of (92::nat), c]
      else if n = 9 then [char_of (92::nat), CHR ''t'']
      else if n = 10 then [char_of (92::nat), CHR ''n'']
      else if n = 13 then [char_of (92::nat), CHR ''r'']
      else [c])"

definition repr_str :: "string \<Rightarrow> string" where
  "repr_str s =
     (let q = (if char_of (39::nat) \<in> set s \<and> char_of (34::nat) \<notin> set s
               then char_of (34::nat) else char_of (39::nat))
      in [q] @ concat (map (repr_char q) s) @ [q])"

text \<open>A name between single quotes, as the messages print it.\<close>

definition quoted :: "string \<Rightarrow> string" where
  "quoted x = [CHR 0x27] @ x @ [CHR 0x27]"

definition repr_list :: "string list \<Rightarrow> string" where
  "repr_list xs = ''['' @ join '', '' (map repr_str xs) @ '']''"

text \<open>\<open>int(text)\<close>: surrounding blanks, one sign, digits with single underscores between them.\<close>

definition is_dec :: "char \<Rightarrow> bool" where
  "is_dec c \<longleftrightarrow> CHR ''0'' \<le> c \<and> c \<le> CHR ''9''"

definition digits_of_text :: "string \<Rightarrow> nat option" where
  "digits_of_text s =
     (let parts = split_on (CHR ''_'') s in
      if list_all (\<lambda>p. p \<noteq> [] \<and> list_all is_dec p) parts then Some (decimal (concat parts)) else None)"

definition int_of_text :: "string \<Rightarrow> int option" where
  "int_of_text s =
     (case strip s of
        [] \<Rightarrow> None
      | c # cs \<Rightarrow> if c = CHR ''-'' then map_option (\<lambda>n. - int n) (digits_of_text cs)
                  else if c = CHR ''+'' then map_option int (digits_of_text cs)
                  else map_option int (digits_of_text (c # cs)))"

section \<open>JSON-shaped values\<close>

datatype json =
    JNull
  | JBool bool
  | JInt int
  | JStr string
  | JList "json list"
  | JObj "(string \<times> json) list"

text \<open>Python truth value of such a value.\<close>

fun truthy :: "json \<Rightarrow> bool" where
  "truthy JNull = False"
| "truthy (JBool b) = b"
| "truthy (JInt i) = (i \<noteq> 0)"
| "truthy (JStr s) = (s \<noteq> [])"
| "truthy (JList xs) = (xs \<noteq> [])"
| "truthy (JObj kvs) = (kvs \<noteq> [])"

text \<open>\<open>d[k]\<close> on a decoded object: \<open>None\<close> when \<open>d\<close> has no such key.\<close>

fun jfield :: "json \<Rightarrow> string \<Rightarrow> json option" where
  "jfield (JObj kvs) k = map_of kvs k"
| "jfield _ k = None"

text \<open>\<open>d.get(k)\<close> on a dictionary; \<open>JNull\<close> is Python's \<open>None\<close>.\<close>

fun jget :: "json \<Rightarrow> string \<Rightarrow> json" where
  "jget (JObj kvs) k = (case map_of kvs k of None \<Rightarrow> JNull | Some v \<Rightarrow> v)"
| "jget _ k = JNull"

fun is_dict :: "json \<Rightarrow> bool" where
  "is_dict (JObj _) = True"
| "is_dict _ = False"

text \<open>\<open>str(x)\<close> of a JSON value; \<open>other\<close> prints lists and dicts.\<close>

fun json_str :: "(json \<Rightarrow> string) \<Rightarrow> json \<Rightarrow> string" where
  "json_str other (JStr s) = s"
| "json_str other (JInt i) = int_str i"
| "json_str other (JBool b) = (if b then ''True'' else ''False'')"
| "json_str other JNull = ''None''"
| "json_str other j = other j"

text \<open>\<open>x or d\<close> for an optional string.\<close>

definition or_else :: "string option \<Rightarrow> string \<Rightarrow> string" where
  "or_else x d = (case x of None \<Rightarrow> d | Some s \<Rightarrow> if s = [] then d else s)"

section \<open>Insertion-ordered dictionaries\<close>

text \<open>Keys of an association list built with \<^const>\<open>AList.update\<close> stay distinct.\<close>

lemma dom_update_list [simp]: "fst ` set (AList.update k v al) = insert k (fst ` set al)"
  using AList.dom_update [of k v al] by simp

lemma distinct_update_list: "distinct (map fst al) \<Longrightarrow> distinct (map fst (AList.update k v al))"
  by (rule AList.distinct_update)

lemma update_new: "k \<notin> fst ` set al \<Longrightarrow> AList.update k v al = al @ [(k, v)]"
  by (induction al) auto

lemma map_fst_update:
  "map fst (AList.update k v al) = (if k \<in> fst ` set al then map fst al else map fst al @ [k])"
  by (induction al) auto

lemma set_update_subset: "set (AList.update k v al) \<subseteq> insert (k, v) (set al)"
  by (induction al) auto

section \<open>Lists\<close>

text \<open>The last \<open>n\<close> elements: Python's \<open>xs[-n:]\<close> for \<open>n \<ge> 1\<close>.\<close>

definition last_n :: "nat \<Rightarrow> 'a list \<Rightarrow> 'a list" where
  "last_n n xs = drop (length xs - n) xs"

lemma length_last_n [simp]: "length (last_n n xs) = min n (length xs)"
  by (simp add: last_n_def)

lemma last_n_all: "length xs \<le> n \<Longrightarrow> last_n n xs = xs"
  by (simp add: last_n_def)

lemma last_n_snoc: "0 < n \<Longrightarrow> last_n n (last_n n xs @ [x]) = last_n n (xs @ [x])"
  by (cases "length xs \<ge> n") (auto simp: last_n_def Suc_diff_le)

lemma set_last_n: "set (last_n n xs) \<subseteq> set xs"
  by (auto simp: last_n_def dest: in_set_dropD)

lemma suffix_last_n: "suffix (last_n n xs) xs"
  by (auto simp: last_n_def suffix_drop)

text \<open>Stable sort by a key, as Python's \<open>sorted(xs, key=f)\<close>.\<close>

lemma sort_key_set [simp]: "set (sort_key f xs) = set xs"
  by simp

lemma find_SomeD: "find P xs = Some x \<Longrightarrow> x \<in> set xs \<and> P x"
  by (auto simp: List.find_Some_iff)

lemma find_Some_conv:
  "find P xs = Some x \<longleftrightarrow>
    (\<exists>i < length xs. P (xs ! i) \<and> x = xs ! i \<and> (\<forall>j < i. \<not> P (xs ! j)))"
  by (rule List.find_Some_iff)

end
