(* ===== verification/RegistryModels.thy ===== *)
theory RegistryModels
  imports Prelude
begin

text \<open>
  The registry's record types (\<open>registry/models.py\<close>): the enums, the recursive
  \<open>ActivationCondition\<close>, the sub-records and the top-level agent, tool and schema records, with
  the validators that span several fields. Python's base class \<open>_VersionedRecord\<close> is a record and
  its subclasses extend it. A validator that raises \<open>ValueError\<close> is a function that returns the
  violated rule. Single-field constraints that pydantic checks by itself (patterns and length
  bounds) are not modelled; \<open>created_at\<close>, \<open>updated_at\<close> and an
  agent's descriptive \<open>skills\<close> cards are not read by any modelled code and are left out.
\<close>

datatype determinism_level = DL_HIGH | DL_MEDIUM | DL_LOW

datatype routing_shape = RS_SINGLE | RS_PARALLEL | RS_DEPENDENT | RS_AMBIGUOUS | RS_JOURNEY | RS_GATED

datatype record_status = DRAFT | ACTIVE | DEPRECATED | RETIRED

datatype execution_tier = ET_READ | ET_ACTION

datatype data_classification = DC_PUBLIC | DC_INTERNAL | DC_CONFIDENTIAL | DC_PII

datatype condition_operator = ALL_OF | ANY_OF | LEAF

datatype condition_signal =
    INTENT_IN | ENTITY_PRESENT | ENTITY_SERVICE_IN | FOCUS_REQUIRED | TENANT_CAPABILITY | ROLE_IN

datatype activation_condition = ActivationCondition
  (cond_operator: condition_operator)
  (cond_signal: "condition_signal option")
  (cond_values: "string list")
  (cond_negate: bool)
  (cond_clauses: "activation_condition list")

text \<open>\<open>_check_shape\<close>: the first violated rule of one node, \<open>None\<close> when the node is well shaped.\<close>

definition membership_signals :: "condition_signal set" where
  "membership_signals = {INTENT_IN, ENTITY_SERVICE_IN, TENANT_CAPABILITY, ROLE_IN}"

fun check_shape :: "activation_condition \<Rightarrow> string option" where
  "check_shape (ActivationCondition op sig vals neg cls) =
     (if op = LEAF then
        (case sig of
           None \<Rightarrow> Some ''leaf condition requires a signal''
         | Some sg \<Rightarrow>
             if cls \<noteq> [] then Some ''leaf condition must not carry clauses''
             else if sg \<in> membership_signals \<and> vals = []
             then Some ''signal requires non-empty values''
             else None)
      else if cls = [] then Some ''group condition requires clauses''
      else if sig \<noteq> None \<or> vals \<noteq> [] then Some ''group condition must not carry leaf fields''
      else None)"

text \<open>pydantic validates the nested clauses before the node itself.\<close>

fun valid_condition :: "activation_condition \<Rightarrow> bool" where
  "valid_condition (ActivationCondition op sig vals neg cls) =
     ((\<forall>c \<in> set cls. valid_condition c)
      \<and> check_shape (ActivationCondition op sig vals neg cls) = None)"

record tool_ref =
  tr_tool_id :: string
  tr_version :: int

record abac_tags =
  at_service :: "string list"
  at_tier :: execution_tier
  at_audience :: "string list"
  at_data_classification :: data_classification

record hooks =
  before_invocation :: "string list"
  after_invocation :: "string list"

record exclusion_ref =
  ex_agent_id :: string
  ex_priority :: int

record journey_slot =
  slot_id :: string
  slot_prompt :: string
  slot_required :: bool
  slot_validator_ref :: "string option"
  slot_fans_out_to :: "string list"

record journey_spec =
  js_slots :: "journey_slot list"
  js_confirmation_required :: bool
  js_resumable :: bool

definition journey_slots_rule :: "journey_slot list \<Rightarrow> string option" where
  "journey_slots_rule v =
     (if v = [] then Some ''a journey requires at least one slot''
      else if \<not> distinct (map slot_id v) then Some ''journey slot_ids must be unique''
      else None)"

record versioned_record =
  rec_id :: string
  rec_version :: int
  rec_status :: record_status
  rec_owner :: string

record fast_path_input_field =
  fpf_name :: string
  fpf_type :: string
  fpf_required :: bool
  fpf_auto_derive_from :: "string option"

record fast_path_spec =
  fp_enabled :: bool
  fp_primary_tool_id :: string
  fp_input_fields :: "fast_path_input_field list"
  fp_response_schema_ref :: "string option"

record agent_record = versioned_record +
  ag_description :: string
  ag_intent_family :: string
  ag_chat_router_eligible :: bool
  ag_domain :: string
  ag_routing_shape :: routing_shape
  ag_activation_condition :: activation_condition
  ag_tool_refs :: "tool_ref list"
  ag_policy_refs :: "string list"
  ag_abac_tags :: abac_tags
  ag_determinism_level :: determinism_level
  ag_hooks :: hooks
  ag_depends_on :: "string list"
  ag_excludes :: "exclusion_ref list"
  ag_compound_of :: "string list"
  ag_journey :: "journey_spec option"
  ag_consumes_time_filter :: bool
  ag_manages_own_approval :: bool
  ag_fast_path :: "fast_path_spec option"

definition validate_journey :: "agent_record \<Rightarrow> string option" where
  "validate_journey a =
     (if ag_journey a \<noteq> None \<and> ag_routing_shape a \<noteq> RS_JOURNEY
      then Some ''journey set: routing_shape must be slot_filling_journey''
      else if ag_journey a \<noteq> None \<and> ag_determinism_level a = DL_LOW
      then Some ''a journey agent cannot be determinism_level=low''
      else if ag_routing_shape a = RS_JOURNEY \<and> ag_journey a = None
      then Some ''routing_shape=slot_filling_journey requires a journey spec''
      else None)"

definition validate_fast_path :: "agent_record \<Rightarrow> string option" where
  "validate_fast_path a =
     (case ag_fast_path a of
        None \<Rightarrow> None
      | Some fp \<Rightarrow>
          if fp_enabled fp then
            (if fp_primary_tool_id fp \<notin> set (map tr_tool_id (ag_tool_refs a))
             then Some ''fast_path.primary_tool_id is not in tool_refs''
             else if \<not> distinct (map fpf_name (fp_input_fields fp))
             then Some ''fast_path input_fields have duplicate names''
             else None)
          else None)"

text \<open>\<open>_cross_field_rules\<close>: the rules in the order the validator tests them.\<close>

definition cross_field_rules :: "agent_record \<Rightarrow> string option" where
  "cross_field_rules a =
     (if rec_id a \<in> set (ag_depends_on a) then Some ''agent cannot depend on itself''
      else if (\<exists>x \<in> set (ag_excludes a). ex_agent_id x = rec_id a)
      then Some ''agent cannot exclude itself''
      else if rec_id a \<in> set (ag_compound_of a) then Some ''compound agent cannot contain itself''
      else if ag_compound_of a \<noteq> [] \<and> ag_routing_shape a = RS_SINGLE
      then Some ''a compound action cannot have routing_shape=single_agent''
      else case validate_journey a of
        Some v \<Rightarrow> Some v
      | None \<Rightarrow>
          if at_tier (ag_abac_tags a) = ET_ACTION \<and> before_invocation (ag_hooks a) = []
          then Some ''action-tier agent must declare a before_invocation hook''
          else validate_fast_path a)"

record tool_parameter =
  tp_name :: string
  tp_type :: string
  tp_required :: bool
  tp_data_classification :: data_classification

record tool_record = versioned_record +
  tl_description :: string
  tl_activation_condition :: activation_condition
  tl_handler_ref :: string
  tl_execution_type :: execution_tier
  tl_parameters :: "tool_parameter list"
  tl_timeout_ms :: int
  tl_idempotent :: bool
  tl_requires_scopes :: "string list"
  tl_output_fields :: "string list"

definition action_rules :: "tool_record \<Rightarrow> string option" where
  "action_rules t =
     (if tl_execution_type t = ET_ACTION \<and> \<not> tl_idempotent t
      then Some ''action tool must be idempotent'' else None)"

record schema_record = versioned_record +
  sc_description :: string
  sc_format :: string
  sc_location :: string
  sc_deprecates_version :: "int option"
  sc_deprecation_window_days :: int

definition deprecation_rules :: "schema_record \<Rightarrow> string option" where
  "deprecation_rules s =
     (case sc_deprecates_version s of
        None \<Rightarrow> None
      | Some d \<Rightarrow> if d \<ge> rec_version s then Some ''deprecates_version must be older than this version''
                  else None)"

text \<open>What the store's \<open>model_validate\<close> accepts for each record type.\<close>

definition agent_schema_ok :: "agent_record \<Rightarrow> bool" where
  "agent_schema_ok a =
     (valid_condition (ag_activation_condition a)
      \<and> (case ag_journey a of None \<Rightarrow> True | Some j \<Rightarrow> journey_slots_rule (js_slots j) = None)
      \<and> cross_field_rules a = None)"

definition tool_schema_ok :: "tool_record \<Rightarrow> bool" where
  "tool_schema_ok t = (valid_condition (tl_activation_condition t) \<and> action_rules t = None)"

section \<open>What a valid agent record guarantees\<close>

lemma cross_field_rules_no_self_dep:
  "cross_field_rules a = None \<Longrightarrow> rec_id a \<notin> set (ag_depends_on a)"
  by (auto simp: cross_field_rules_def split: if_splits)

lemma cross_field_rules_fast_path:
  assumes "cross_field_rules a = None" "ag_fast_path a = Some fp" "fp_enabled fp"
  shows "fp_primary_tool_id fp \<in> tr_tool_id ` set (ag_tool_refs a)"
  using assms
  by (auto simp: cross_field_rules_def validate_fast_path_def split: if_splits option.splits)

lemma cross_field_rules_journey:
  assumes "cross_field_rules a = None"
  shows "ag_journey a = None \<longleftrightarrow> ag_routing_shape a \<noteq> RS_JOURNEY"
  using assms
  by (auto simp: cross_field_rules_def validate_journey_def split: if_splits option.splits)

text \<open>
  An action-tier agent that passed its validators declares at least one
  before-invocation hook, so its steps never run without a gate.
\<close>

lemma cross_field_rules_action_hook:
  assumes "cross_field_rules a = None" "at_tier (ag_abac_tags a) = ET_ACTION"
  shows "before_invocation (ag_hooks a) \<noteq> []"
  using assms
  by (auto simp: cross_field_rules_def split: if_splits option.splits)

end
