(* ===== verification/TtlStore.thy ===== *)
theory TtlStore
  imports Prelude
begin

text \<open>
  In-process stores with lazy expiry: the contract that \<open>InMemoryDecisionCache\<close>
  (\<open>authz/decision_cache.py\<close>), \<open>InMemoryIdempotencyStore\<close> (\<open>toolrunner/idempotency.py\<close>) and the caches of
  \<open>router/route_cache.py\<close> share, and what their clients get from it. \<open>live s t k\<close> is the value the store serves for
  \<open>k\<close> at time \<open>t\<close>; \<open>fresh t t'\<close> says that a value stored at \<open>t\<close> is still served at \<open>t'\<close>. The clock is any ordered ring, so that nothing depends on its unit.
\<close>

locale ttl_store =
  fixes lookup :: "'s \<Rightarrow> 't :: linordered_idom \<Rightarrow> 'k \<Rightarrow> 'v option \<times> 's"
    and store :: "'s \<Rightarrow> 't \<Rightarrow> 'k \<Rightarrow> 'v \<Rightarrow> 's"
    and live :: "'s \<Rightarrow> 't \<Rightarrow> 'k \<Rightarrow> 'v option"
    and mark :: "'v \<Rightarrow> 'v"
    and cacheable :: "'v \<Rightarrow> bool"
    and fresh :: "'t \<Rightarrow> 't \<Rightarrow> bool"
  assumes lookup_value: "fst (lookup s t k) = map_option mark (live s t k)"
    and lookup_keeps: "t \<le> t' \<Longrightarrow> live (snd (lookup s t k)) t' j = live s t' j"
    and live_expires: "t \<le> t' \<Longrightarrow> live s t' k = Some v \<Longrightarrow> live s t k = Some v"
    and store_same: "cacheable v \<Longrightarrow> live (store s t k v) t' k = (if fresh t t' then Some v else None)"
    and store_other: "j \<noteq> k \<or> \<not> cacheable v \<Longrightarrow> live (store s t k v) t' j = live s t' j"
begin

text \<open>A value stays available until its time to live has passed, and not longer.\<close>

lemma stored_then_looked_up:
  assumes "cacheable v"
  shows "fst (lookup (store s t k v) t' k) = (if fresh t t' then Some (mark v) else None)"
  using assms by (simp add: lookup_value store_same)

text \<open>
  Memoisation: a store that holds only values \<open>f x\<close> under the keys of \<open>x\<close> answers as \<open>f\<close> does.
\<close>

definition holds_only :: "('k \<Rightarrow> 'v \<Rightarrow> bool) \<Rightarrow> 's \<Rightarrow> 't \<Rightarrow> bool" where
  "holds_only P s t \<longleftrightarrow> (\<forall>t' k v. t \<le> t' \<longrightarrow> live s t' k = Some v \<longrightarrow> P k v)"

lemma holds_only_lookup:
  assumes "holds_only P s t"
  shows "holds_only P (snd (lookup s t k)) t"
    and "fst (lookup s t k) = Some w \<Longrightarrow> \<exists>v. w = mark v \<and> P k v"
  using assms by (auto simp: holds_only_def lookup_keeps lookup_value)

lemma holds_only_store:
  assumes "holds_only P s t" "cacheable v \<Longrightarrow> P k v"
  shows "holds_only P (store s t k v) t"
  unfolding holds_only_def
proof (intro allI impI)
  fix t' j w assume "t \<le> t'" and l: "live (store s t k v) t' j = Some w"
  show "P j w"
  proof (cases "j = k \<and> cacheable v")
    case True
    with l assms(2) show ?thesis by (simp add: store_same split: if_splits)
  next
    case False
    then have "live s t' j = Some w" using l store_other by metis
    with assms(1) \<open>t \<le> t'\<close> show ?thesis by (auto simp: holds_only_def)
  qed
qed

lemma holds_only_later: "holds_only P s t \<Longrightarrow> t \<le> t' \<Longrightarrow> holds_only P s t'"
  unfolding holds_only_def by (meson order_trans)

end

section \<open>A dict of values with expiry times\<close>

text \<open>The common body of the two classes: a dict from keys to pairs of value and expiry time.\<close>

type_synonym ('k, 'v, 't) ttl_dict = "('k \<times> 'v \<times> 't) list"

definition ttl_get ::
  "('v \<Rightarrow> 'v) \<Rightarrow> ('k, 'v, 't :: linordered_idom) ttl_dict \<Rightarrow> 't \<Rightarrow> 'k \<Rightarrow> 'v option \<times> ('k, 'v, 't) ttl_dict" where
  "ttl_get mark d now k =
     (case map_of d k of
        None \<Rightarrow> (None, d)
      | Some (v, expires_at) \<Rightarrow>
          if now \<ge> expires_at then (None, AList.delete k d) else (Some (mark v), d))"

definition ttl_live :: "('k, 'v, 't :: linordered_idom) ttl_dict \<Rightarrow> 't \<Rightarrow> 'k \<Rightarrow> 'v option" where
  "ttl_live d now k =
     (case map_of d k of None \<Rightarrow> None | Some (v, e) \<Rightarrow> if now \<ge> e then None else Some v)"

lemma ttl_get_value: "fst (ttl_get mark d t k) = map_option mark (ttl_live d t k)"
  by (auto simp: ttl_get_def ttl_live_def split: option.splits)

lemma ttl_get_keeps:
  assumes "t \<le> t'"
  shows "ttl_live (snd (ttl_get mark d t k)) t' j = ttl_live d t' j"
proof (cases "ttl_live d t k = None \<and> map_of d k \<noteq> None")
  case True
  then obtain v e where e: "map_of d k = Some (v, e)" "t \<ge> e" by (auto simp: ttl_live_def split: if_splits)
  with assms show ?thesis by (auto simp: ttl_get_def ttl_live_def delete_conv)
next
  case False
  then have "snd (ttl_get mark d t k) = d"
    by (auto simp: ttl_get_def ttl_live_def split: option.splits)
  then show ?thesis by simp
qed

lemma ttl_live_expires: "t \<le> t' \<Longrightarrow> ttl_live d t' k = Some v \<Longrightarrow> ttl_live d t k = Some v"
  by (auto simp: ttl_live_def split: option.splits if_splits)

lemma ttl_live_update:
  "ttl_live (AList.update k (v, e) d) t j = (if j = k then if t \<ge> e then None else Some v else ttl_live d t j)"
  by (auto simp: ttl_live_def update_conv)

lemma ttl_live_delete: "ttl_live (AList.delete k d) t j = (if j = k then None else ttl_live d t j)"
  by (simp add: ttl_live_def delete_conv)

lemma ttl_live_Nil [simp]: "ttl_live [] t k = None"
  by (simp add: ttl_live_def)

end
