(* ===== verification/Authz.thy ===== *)
theory Authz
  imports RegistryModels TtlStore "HOL-Library.Product_Lexorder"
begin

text \<open>
  Access control (\<open>authz/\<close>): the value objects, role resolution, the five attribute rules, the
  decision cache and the decision service, and the bridge from registry records. \<open>ValueError\<close> and
  \<open>ConfigError\<close> are the constructors of \<open>authz_error\<close>. The SHA-256 digest of the cache key is a
  parameter of the definitions that use it.
\<close>

datatype authz_error = AuthzValueError string | AuthzConfigError string

section \<open>Value objects\<close>

datatype effect = EF_ALLOW | EF_DENY

datatype tier = TIER_READ | TIER_ACTION

datatype data_class = CLS_PUBLIC | CLS_INTERNAL | CLS_CONFIDENTIAL | CLS_PII

primrec data_class_value :: "data_class \<Rightarrow> string" where
  "data_class_value CLS_PUBLIC = ''public''"
| "data_class_value CLS_INTERNAL = ''internal''"
| "data_class_value CLS_CONFIDENTIAL = ''confidential''"
| "data_class_value CLS_PII = ''pii''"

record principal =
  p_tenant_id :: string
  p_user_id :: string
  p_role :: string
  p_attributes :: "(string \<times> string) list"

definition principal_init :: "principal \<Rightarrow> authz_error + principal" where
  "principal_init p =
     (if p_tenant_id p = [] then Inl (AuthzValueError ''Principal.tenant_id is mandatory'')
      else if p_role p = [] then Inl (AuthzValueError ''Principal.role is mandatory'')
      else Inr p)"

definition principal_attr :: "principal \<Rightarrow> string \<Rightarrow> string option" where
  "principal_attr p k = map_of (p_attributes p) k"

record resource_descriptor =
  r_resource_id :: string
  r_resource_tenant_id :: string
  r_tier :: tier
  r_data_classification :: data_class
  r_audience :: "string list"
  r_required_scopes :: "string list"

definition resource_init :: "resource_descriptor \<Rightarrow> authz_error + resource_descriptor" where
  "resource_init r =
     (if r_resource_tenant_id r = []
      then Inl (AuthzValueError ''ResourceDescriptor.resource_tenant_id is mandatory'') else Inr r)"

record authz_decision =
  d_effect :: effect
  d_reasons :: "string list"
  d_from_cache :: bool

definition allowed :: "authz_decision \<Rightarrow> bool" where
  "allowed d = (d_effect d = EF_ALLOW)"

definition allow :: "bool \<Rightarrow> authz_decision" where
  "allow from_cache = \<lparr>d_effect = EF_ALLOW, d_reasons = [], d_from_cache = from_cache\<rparr>"

definition deny :: "string list \<Rightarrow> bool \<Rightarrow> authz_error + authz_decision" where
  "deny reasons from_cache =
     (if reasons = [] then Inl (AuthzValueError ''a DENY decision must carry at least one reason'')
      else Inr \<lparr>d_effect = EF_DENY, d_reasons = reasons, d_from_cache = from_cache\<rparr>)"

definition with_cache_flag :: "authz_decision \<Rightarrow> authz_decision" where
  "with_cache_flag d = \<lparr>d_effect = d_effect d, d_reasons = d_reasons d, d_from_cache = True\<rparr>"

section \<open>Role resolution\<close>

definition ADMIN_PERMISSION :: string where
  "ADMIN_PERMISSION = ''admin''"

type_synonym rbac = "(string \<times> string list) list"

text \<open>The parsed role file: one entry per role, either field may be missing.\<close>

record role_entry =
  re_role :: "string option"
  re_permissions :: "string list option"

definition rbac_add :: "rbac \<Rightarrow> role_entry \<Rightarrow> authz_error + rbac" where
  "rbac_add roles e =
     (case re_role e of
        None \<Rightarrow> Inl (AuthzConfigError ''role entry without a `role` field'')
      | Some r \<Rightarrow>
          if r = [] then Inl (AuthzConfigError ''role entry without a `role` field'')
          else Inr (AList.update r (case re_permissions e of None \<Rightarrow> [] | Some ps \<Rightarrow> ps) roles))"

definition rbac_from_doc :: "role_entry list \<Rightarrow> authz_error + rbac" where
  "rbac_from_doc entries = sbind (sfold rbac_add [] entries) (\<lambda>roles.
     if roles = [] then Inl (AuthzConfigError ''role-permission registry defines no roles'')
     else Inr roles)"

definition known_role :: "rbac \<Rightarrow> string \<Rightarrow> bool" where
  "known_role rb role = (map_of rb role \<noteq> None)"

definition permissions_for :: "rbac \<Rightarrow> string \<Rightarrow> string set" where
  "permissions_for rb role = (case map_of rb role of None \<Rightarrow> {} | Some ps \<Rightarrow> set ps)"

definition has_permission :: "rbac \<Rightarrow> string \<Rightarrow> string \<Rightarrow> bool" where
  "has_permission rb role perm =
     (perm \<in> permissions_for rb role \<or> ADMIN_PERMISSION \<in> permissions_for rb role)"

definition role_count :: "rbac \<Rightarrow> nat" where
  "role_count rb = length rb"

section \<open>Attribute rules\<close>

definition is_write_class :: "string \<Rightarrow> bool" where
  "is_write_class p =
     (p = ADMIN_PERMISSION \<or> prefix ''write:'' p \<or> prefix ''approve:'' p \<or> prefix ''create:'' p)"

definition BROAD_READ :: string where
  "BROAD_READ = ''read:all_tickets''"

definition evaluate_access :: "principal \<Rightarrow> resource_descriptor \<Rightarrow> string set \<Rightarrow> string list" where
  "evaluate_access p r granted =
     (let has_admin = ADMIN_PERMISSION \<in> granted in
      if p_tenant_id p \<noteq> r_resource_tenant_id r then
        [''cross-tenant access denied: principal tenant '' @ quoted (p_tenant_id p)
         @ '' != resource tenant '' @ quoted (r_resource_tenant_id r)]
      else
        (if r_audience r \<noteq> [] \<and> p_role p \<notin> set (r_audience r)
         then [''role '' @ quoted (p_role p) @ '' is not in resource audience ''
               @ repr_list (sort (r_audience r))] else [])
        @ (let missing = filter (\<lambda>s. s \<notin> granted) (r_required_scopes r) in
           if \<not> has_admin \<and> missing \<noteq> []
           then [''missing required scope(s): '' @ repr_list (sort missing)] else [])
        @ (if r_tier r = TIER_ACTION \<and> \<not> (\<exists>q \<in> granted. is_write_class q)
           then [''action-tier resource '' @ quoted (r_resource_id r)
                 @ '' requires a write-class permission; role '' @ quoted (p_role p) @ '' has none'']
           else [])
        @ (if r_data_classification r \<in> {CLS_CONFIDENTIAL, CLS_PII} \<and> \<not> has_admin \<and> BROAD_READ \<notin> granted
           then [data_class_value (r_data_classification r) @ '' data requires '' @ quoted BROAD_READ
                 @ '' or '' @ quoted ADMIN_PERMISSION @ ''; role '' @ quoted (p_role p) @ '' has neither'']
           else []))"

section \<open>The decision cache\<close>

text \<open>The payload \<open>decision_key\<close> digests.\<close>

record key_payload =
  k_p_tenant :: string
  k_p_user :: string
  k_p_role :: string
  k_p_attrs :: "(string \<times> string) list"
  k_r_id :: string
  k_r_tenant :: string
  k_r_tier :: tier
  k_r_data :: data_class
  k_r_audience :: "string list"
  k_r_scopes :: "string list"

definition key_payload_of :: "principal \<Rightarrow> resource_descriptor \<Rightarrow> key_payload" where
  "key_payload_of p r =
     \<lparr>k_p_tenant = p_tenant_id p, k_p_user = p_user_id p, k_p_role = p_role p,
      k_p_attrs = sort (p_attributes p), k_r_id = r_resource_id r, k_r_tenant = r_resource_tenant_id r,
      k_r_tier = r_tier r, k_r_data = r_data_classification r, k_r_audience = sort (r_audience r),
      k_r_scopes = sort (r_required_scopes r)\<rparr>"

definition decision_key :: "(key_payload \<Rightarrow> string) \<Rightarrow> principal \<Rightarrow> resource_descriptor \<Rightarrow> string" where
  "decision_key digest p r = ''authz:'' @ digest (key_payload_of p r)"

text \<open>The JSON document of a decision, and reading it back.\<close>

definition encode_decision :: "authz_decision \<Rightarrow> json" where
  "encode_decision d = JObj [(''effect'', JStr (case d_effect d of EF_ALLOW \<Rightarrow> ''allow'' | EF_DENY \<Rightarrow> ''deny'')),
                             (''reasons'', JList (map JStr (d_reasons d)))]"

definition decode_effect :: "json option \<Rightarrow> effect option" where
  "decode_effect j = (case j of
     Some (JStr s) \<Rightarrow> if s = ''allow'' then Some EF_ALLOW else if s = ''deny'' then Some EF_DENY else None
   | _ \<Rightarrow> None)"

fun decode_reasons :: "json list \<Rightarrow> string list option" where
  "decode_reasons [] = Some []"
| "decode_reasons (JStr s # js) = map_option ((#) s) (decode_reasons js)"
| "decode_reasons (_ # js) = None"

definition decode_decision :: "json \<Rightarrow> authz_decision option" where
  "decode_decision doc = (case decode_effect (jfield doc ''effect'') of
     None \<Rightarrow> None
   | Some e \<Rightarrow>
       (case (case jfield doc ''reasons'' of None \<Rightarrow> Some [] | Some (JList js) \<Rightarrow> decode_reasons js | Some _ \<Rightarrow> None) of
          None \<Rightarrow> None
        | Some rs \<Rightarrow> Some \<lparr>d_effect = e, d_reasons = rs, d_from_cache = True\<rparr>))"

type_synonym 't decision_cache = "(string, authz_decision, 't) ttl_dict"

definition dc_get ::
  "'t :: linordered_idom decision_cache \<Rightarrow> 't \<Rightarrow> string \<Rightarrow> authz_decision option \<times> 't decision_cache" where
  "dc_get = ttl_get with_cache_flag"

definition dc_store ::
  "int \<Rightarrow> 't :: linordered_idom decision_cache \<Rightarrow> 't \<Rightarrow> string \<Rightarrow> authz_decision \<Rightarrow> 't decision_cache" where
  "dc_store ttl_seconds c now k d = AList.update k (d, now + of_int ttl_seconds) c"

definition dc_put ::
  "'t :: linordered_idom decision_cache \<Rightarrow> 't \<Rightarrow> string \<Rightarrow> authz_decision \<Rightarrow> int
   \<Rightarrow> authz_error + 't decision_cache" where
  "dc_put c now k d ttl_seconds =
     (if ttl_seconds \<le> 0 then Inl (AuthzValueError ''ttl_seconds must be > 0'')
      else Inr (dc_store ttl_seconds c now k d))"

definition dc_invalidate :: "'t decision_cache \<Rightarrow> string \<Rightarrow> 't decision_cache" where
  "dc_invalidate c k = AList.delete k c"

section \<open>The decision service\<close>

record authz_service =
  az_rbac :: rbac
  az_ttl :: int

text \<open>
  \<open>check\<close>: the lookup reads the clock at \<open>now\<close>, the store of a new decision at \<open>later\<close>. A failing
  store raises and the decision is lost.
\<close>

definition decide :: "authz_service \<Rightarrow> principal \<Rightarrow> resource_descriptor \<Rightarrow> authz_error + authz_decision" where
  "decide az p r =
     (let reasons = evaluate_access p r (permissions_for (az_rbac az) (p_role p))
      in if reasons = [] then Inr (allow False) else deny reasons False)"

definition check ::
  "(key_payload \<Rightarrow> string) \<Rightarrow> authz_service \<Rightarrow> 't :: linordered_idom decision_cache \<Rightarrow> 't \<Rightarrow> 't
   \<Rightarrow> principal \<Rightarrow> resource_descriptor \<Rightarrow> (authz_error + authz_decision) \<times> 't decision_cache" where
  "check digest az c now later p r =
     (let key = decision_key digest p r in
      case dc_get c now key of
        (Some cached, c1) \<Rightarrow> (Inr cached, c1)
      | (None, c1) \<Rightarrow>
          (case decide az p r of
             Inl e \<Rightarrow> (Inl e, c1)
           | Inr d \<Rightarrow>
               (case dc_put c1 later key d (az_ttl az) of
                  Inl e \<Rightarrow> (Inl e, c1)
                | Inr c2 \<Rightarrow> (Inr d, c2))))"

definition is_allowed ::
  "(key_payload \<Rightarrow> string) \<Rightarrow> authz_service \<Rightarrow> 't :: linordered_idom decision_cache \<Rightarrow> 't \<Rightarrow> 't
   \<Rightarrow> principal \<Rightarrow> resource_descriptor \<Rightarrow> (authz_error + bool) \<times> 't decision_cache" where
  "is_allowed digest az c now later p r =
     (case check digest az c now later p r of (res, c') \<Rightarrow> (sbind res (\<lambda>d. Inr (allowed d)), c'))"

section \<open>From registry records\<close>

primrec tier_of :: "execution_tier \<Rightarrow> tier" where
  "tier_of ET_READ = TIER_READ"
| "tier_of ET_ACTION = TIER_ACTION"

primrec data_class_of :: "data_classification \<Rightarrow> data_class" where
  "data_class_of DC_PUBLIC = CLS_PUBLIC"
| "data_class_of DC_INTERNAL = CLS_INTERNAL"
| "data_class_of DC_CONFIDENTIAL = CLS_CONFIDENTIAL"
| "data_class_of DC_PII = CLS_PII"

definition from_agent_record :: "agent_record \<Rightarrow> string \<Rightarrow> authz_error + resource_descriptor" where
  "from_agent_record a tenant = resource_init
     \<lparr>r_resource_id = rec_id a, r_resource_tenant_id = tenant, r_tier = tier_of (at_tier (ag_abac_tags a)),
      r_data_classification = data_class_of (at_data_classification (ag_abac_tags a)),
      r_audience = at_audience (ag_abac_tags a), r_required_scopes = []\<rparr>"

definition from_tool_record :: "tool_record \<Rightarrow> string \<Rightarrow> authz_error + resource_descriptor" where
  "from_tool_record t tenant = resource_init
     \<lparr>r_resource_id = rec_id t, r_resource_tenant_id = tenant, r_tier = tier_of (tl_execution_type t),
      r_data_classification = CLS_INTERNAL, r_audience = [], r_required_scopes = tl_requires_scopes t\<rparr>"

section \<open>The rules\<close>

text \<open>The access policy the five rules spell out.\<close>

definition access_permitted :: "principal \<Rightarrow> resource_descriptor \<Rightarrow> string set \<Rightarrow> bool" where
  "access_permitted p r granted \<longleftrightarrow>
     p_tenant_id p = r_resource_tenant_id r
     \<and> (r_audience r = [] \<or> p_role p \<in> set (r_audience r))
     \<and> (ADMIN_PERMISSION \<in> granted \<or> set (r_required_scopes r) \<subseteq> granted)
     \<and> (r_tier r = TIER_ACTION \<longrightarrow> (\<exists>q \<in> granted. is_write_class q))
     \<and> (r_data_classification r \<in> {CLS_CONFIDENTIAL, CLS_PII} \<longrightarrow>
          ADMIN_PERMISSION \<in> granted \<or> BROAD_READ \<in> granted)"

lemma evaluate_access_iff: "evaluate_access p r granted = [] \<longleftrightarrow> access_permitted p r granted"
  by (auto simp: evaluate_access_def access_permitted_def Let_def filter_empty_conv subset_iff)

lemma decide_Inr: "\<exists>d. decide az p r = Inr d \<and> \<not> d_from_cache d"
  by (simp add: decide_def allow_def deny_def Let_def)

lemma sort_eq_set: "sort xs = sort ys \<Longrightarrow> set xs = set ys"
  by (metis set_sort)

text \<open>Everything the decision depends on is in the payload of the key.\<close>

lemma payload_determines:
  assumes "key_payload_of p r = key_payload_of p' r'"
  shows "decide az p r = decide az p' r'"
proof -
  from assms have eq: "p_tenant_id p = p_tenant_id p'" "p_role p = p_role p'" "r_resource_id r = r_resource_id r'"
    "r_resource_tenant_id r = r_resource_tenant_id r'" "r_tier r = r_tier r'"
    "r_data_classification r = r_data_classification r'"
    and aud: "sort (r_audience r) = sort (r_audience r')"
    and sco: "sort (r_required_scopes r) = sort (r_required_scopes r')"
    by (simp_all add: key_payload_of_def)
  have "set (r_audience r) = set (r_audience r')" by (rule sort_eq_set [OF aud])
  moreover from this have "r_audience r = [] \<longleftrightarrow> r_audience r' = []" by (metis set_empty)
  moreover have miss: "sort (filter (\<lambda>s. s \<notin> g) (r_required_scopes r)) = sort (filter (\<lambda>s. s \<notin> g) (r_required_scopes r'))" for g
    by (metis filter_sort sco)
  moreover have "filter (\<lambda>s. s \<notin> g) (r_required_scopes r) = [] \<longleftrightarrow> filter (\<lambda>s. s \<notin> g) (r_required_scopes r') = []" for g
    using sort_eq_set [OF sco] by (simp add: filter_empty_conv)
  ultimately have "evaluate_access p r g = evaluate_access p' r' g" for g
    unfolding evaluate_access_def Let_def eq aud by simp
  then show ?thesis by (simp add: decide_def eq)
qed

section \<open>The cache answers as the rules do\<close>

interpretation dc: ttl_store dc_get "dc_store ttl" ttl_live with_cache_flag "\<lambda>_. True" "\<lambda>t t'. t' < t + of_int ttl" for ttl
  by unfold_locales
    (auto simp: dc_get_def dc_store_def ttl_get_value ttl_get_keeps ttl_live_update dest: ttl_live_expires)

text \<open>What a decision cache may hold: decisions of the service, under the keys of their inputs.\<close>

definition decided_under :: "(key_payload \<Rightarrow> string) \<Rightarrow> authz_service \<Rightarrow> string \<Rightarrow> authz_decision \<Rightarrow> bool" where
  "decided_under digest az k d \<longleftrightarrow> (\<exists>p r. k = decision_key digest p r \<and> decide az p r = Inr d)"

text \<open>The caches the service's own calls build, with the time of the last call.\<close>

inductive cache_reachable ::
  "(key_payload \<Rightarrow> string) \<Rightarrow> authz_service \<Rightarrow> 't :: linordered_idom decision_cache \<Rightarrow> 't \<Rightarrow> bool"
  for digest az where
  cache_empty: "cache_reachable digest az [] t"
| cache_wait: "cache_reachable digest az c t \<Longrightarrow> t \<le> t' \<Longrightarrow> cache_reachable digest az c t'"
| cache_check: "cache_reachable digest az c now \<Longrightarrow> now \<le> later \<Longrightarrow>
    cache_reachable digest az (snd (check digest az c now later p r)) later"
| cache_invalidate: "cache_reachable digest az c t \<Longrightarrow> cache_reachable digest az (dc_invalidate c k) t"

lemma check_miss:
  "dc_get c now (decision_key digest p r) = (None, c1) \<Longrightarrow> decide az p r = Inr d \<Longrightarrow>
     check digest az c now later p r =
       (if az_ttl az \<le> 0 then (Inl (AuthzValueError ''ttl_seconds must be > 0''), c1)
        else (Inr d, dc_store (az_ttl az) c1 later (decision_key digest p r) d))"
  by (simp add: check_def dc_put_def Let_def)

lemma check_hit:
  "dc_get c now (decision_key digest p r) = (Some d, c1) \<Longrightarrow> check digest az c now later p r = (Inr d, c1)"
  by (simp add: check_def Let_def)

lemma cache_reachable_inv:
  "cache_reachable digest az c t \<Longrightarrow> dc.holds_only (decided_under digest az) c t"
proof (induction rule: cache_reachable.induct)
  case (cache_empty t)
  then show ?case by (simp add: dc.holds_only_def)
next
  case (cache_wait c t t')
  then show ?case by (auto intro: dc.holds_only_later)
next
  case (cache_check c now later p r)
  obtain d where d: "decide az p r = Inr d" using decide_Inr by blast
  obtain res c1 where g: "dc_get c now (decision_key digest p r) = (res, c1)" by fastforce
  have c1: "dc.holds_only (decided_under digest az) c1 later"
    using dc.holds_only_lookup(1) [OF cache_check.IH, of "decision_key digest p r"] g cache_check.hyps(2)
    by (auto intro: dc.holds_only_later)
  have "decided_under digest az (decision_key digest p r) d" using d by (auto simp: decided_under_def)
  with dc.holds_only_store [OF c1] have "dc.holds_only (decided_under digest az)
      (dc_store (az_ttl az) c1 later (decision_key digest p r) d) later" by blast
  with c1 g show ?case by (cases res) (auto simp: check_miss [OF _ d] check_hit)
next
  case (cache_invalidate c t k)
  then show ?case by (auto simp: dc.holds_only_def dc_invalidate_def ttl_live_delete)
qed

text \<open>No other payload has the digest of this one: what a cryptographic digest is relied on for.\<close>

definition collision_free :: "(key_payload \<Rightarrow> string) \<Rightarrow> key_payload \<Rightarrow> bool" where
  "collision_free digest x \<longleftrightarrow> (\<forall>y. digest y = digest x \<longrightarrow> y = x)"

lemma decision_key_inject:
  "collision_free digest (key_payload_of p r) \<Longrightarrow> decision_key digest p r = decision_key digest p' r'
     \<Longrightarrow> key_payload_of p r = key_payload_of p' r'"
  by (simp add: collision_free_def decision_key_def)

lemma check_answer:
  assumes "collision_free digest (key_payload_of p r)" "cache_reachable digest az c now"
  obtains (answer) d d' c' where "check digest az c now later p r = (Inr d, c')" "decide az p r = Inr d'"
      "d = d' \<or> d = with_cache_flag d'"
  | (no_ttl) e c' where "check digest az c now later p r = (Inl e, c')" "az_ttl az \<le> 0"
proof -
  obtain d where d: "decide az p r = Inr d" using decide_Inr by blast
  obtain res c1 where g: "dc_get c now (decision_key digest p r) = (res, c1)" by fastforce
  show ?thesis
  proof (cases res)
    case None
    with g d show ?thesis by (cases "az_ttl az \<le> 0") (auto simp: check_miss [OF _ d] intro: answer no_ttl)
  next
    case (Some w)
    obtain v where v: "w = with_cache_flag v" "decided_under digest az (decision_key digest p r) v"
      using dc.holds_only_lookup(2) [OF cache_reachable_inv [OF assms(2)], of "decision_key digest p r" w] g Some by auto
    then obtain p' r' where "decision_key digest p r = decision_key digest p' r'" "decide az p' r' = Inr v"
      by (auto simp: decided_under_def)
    with payload_determines [OF decision_key_inject [OF assms(1)]] have "decide az p r = Inr v" by metis
    with g Some v show ?thesis by (auto simp: check_hit intro: answer)
  qed
qed

section \<open>Properties\<close>

text \<open>
  C6: \<open>check\<close> implements the access policy. On any cache its own calls can have built, with a
  collision-free digest and a positive time to live, it answers (never raises), it allows exactly
  the accesses that satisfy the five rules for the permissions of the caller's role, a denial
  carries the rules' reasons, and nothing the cache holds changes that.
\<close>

theorem check_implements_policy:
  assumes "collision_free digest (key_payload_of p r)" and "cache_reachable digest az c now" and "0 < az_ttl az"
  shows "\<exists>d c'. check digest az c now later p r = (Inr d, c')
     \<and> (allowed d \<longleftrightarrow> access_permitted p r (permissions_for (az_rbac az) (p_role p)))
     \<and> d_reasons d = evaluate_access p r (permissions_for (az_rbac az) (p_role p))"
  using assms(1,2)
proof (cases rule: check_answer [where later = later])
  case (answer d d' c')
  then show ?thesis
    by (auto simp: decide_def Let_def allowed_def allow_def deny_def with_cache_flag_def evaluate_access_iff
        split: if_splits simp flip: evaluate_access_iff)
qed (use assms(3) in simp)

definition sample_principal :: principal where
  "sample_principal = \<lparr>p_tenant_id = ''t1'', p_user_id = ''u1'', p_role = ''agent'', p_attributes = []\<rparr>"

definition sample_resource :: resource_descriptor where
  "sample_resource = \<lparr>r_resource_id = ''uc01'', r_resource_tenant_id = ''t1'', r_tier = TIER_ACTION,
     r_data_classification = CLS_INTERNAL, r_audience = [''agent''], r_required_scopes = []\<rparr>"

definition sample_az :: authz_service where
  "sample_az = \<lparr>az_rbac = [(''agent'', [''write:ticket''])], az_ttl = 60\<rparr>"

definition sample_digest :: "key_payload \<Rightarrow> string" where
  "sample_digest x = (if x = key_payload_of sample_principal sample_resource then ''d1'' else ''d2'')"

lemma sample_collision_free: "collision_free sample_digest (key_payload_of sample_principal sample_resource)"
  by (simp add: collision_free_def sample_digest_def)

definition sample_cache :: "int decision_cache" where
  "sample_cache = snd (check sample_digest sample_az [] 0 1 sample_principal sample_resource)"

lemma sample_cache_reachable: "cache_reachable sample_digest sample_az sample_cache 30"
  unfolding sample_cache_def by (rule cache_wait [OF cache_check [OF cache_empty]]) simp_all

text \<open>The second check of the same access is answered from the cache, and still allowed.\<close>

theorem check_implements_policy_witness:
  "\<exists>d c'. check sample_digest sample_az sample_cache 30 31 sample_principal sample_resource = (Inr d, c')
     \<and> allowed d \<and> d_reasons d = []"
proof -
  have "0 < az_ttl sample_az"
    "evaluate_access sample_principal sample_resource (permissions_for (az_rbac sample_az) (p_role sample_principal)) = []"
    by code_simp+
  with check_implements_policy [OF sample_collision_free sample_cache_reachable, of 31]
  show ?thesis by (metis evaluate_access_iff)
qed

text \<open>
  C7: isolation and deny-by-default. Whatever the role and its permissions, an access across
  tenants is never permitted; a role the catalogue does not know is permitted at most reads of
  public or internal resources that require no scope and either name no audience or name that role.
\<close>

theorem deny_by_default:
  "(p_tenant_id p \<noteq> r_resource_tenant_id r \<longrightarrow> length (evaluate_access p r granted) = 1)
   \<and> (\<not> known_role rb (p_role p) \<and> evaluate_access p r (permissions_for rb (p_role p)) = [] \<longrightarrow>
        p_tenant_id p = r_resource_tenant_id r \<and> r_tier r = TIER_READ \<and> r_required_scopes r = []
        \<and> r_data_classification r \<in> {CLS_PUBLIC, CLS_INTERNAL}
        \<and> (r_audience r = [] \<or> p_role p \<in> set (r_audience r)))"
proof (intro conjI impI)
  show "length (evaluate_access p r granted) = 1" if "p_tenant_id p \<noteq> r_resource_tenant_id r"
    using that by (simp add: evaluate_access_def)
  assume "\<not> known_role rb (p_role p) \<and> evaluate_access p r (permissions_for rb (p_role p)) = []"
  then have ap: "access_permitted p r {}"
    by (auto simp: evaluate_access_iff known_role_def permissions_for_def)
  show "p_tenant_id p = r_resource_tenant_id r" "r_required_scopes r = []"
    "r_audience r = [] \<or> p_role p \<in> set (r_audience r)" using ap by (auto simp: access_permitted_def)
  show "r_tier r = TIER_READ" using ap by (cases "r_tier r") (auto simp: access_permitted_def)
  show "r_data_classification r \<in> {CLS_PUBLIC, CLS_INTERNAL}"
    using ap by (cases "r_data_classification r") (auto simp: access_permitted_def)
qed

theorem deny_by_default_witness:
  "length (evaluate_access sample_principal (sample_resource\<lparr>r_resource_tenant_id := ''t2''\<rparr>) {''admin''}) = 1"
  using deny_by_default [of sample_principal "sample_resource\<lparr>r_resource_tenant_id := ''t2''\<rparr>" "{''admin''}"]
  by (simp add: sample_principal_def)

text \<open>A decision written to the shared cache reads back as itself, flagged as cached.\<close>

theorem decision_roundtrip: "decode_decision (encode_decision d) = Some (with_cache_flag d)"
proof -
  have "decode_reasons (map JStr rs) = Some rs" for rs by (induction rs) auto
  then show ?thesis
    by (cases "d_effect d") (simp_all add: decode_decision_def encode_decision_def decode_effect_def with_cache_flag_def)
qed

end
