(* ===== verification/RegistryStore.thy ===== *)
theory RegistryStore
  imports RegistryModels
begin

text \<open>
  The versioned registry store (\<open>registry/store.py\<close>): the \<open>RegistryBackend\<close> contract as a
  locale, \<open>FileBackend\<close> as a directory tree that implements it, and \<open>VersionedStore\<close>: create,
  update, activate, deprecate, retire, get and the lifecycle inventory. The store is generic in
  the record type, as the Python class is: it works on any extension of
  \<^typ>\<open>versioned_record\<close>. Python's exceptions are the constructors of \<open>reg_error\<close>, with the
  values their messages interpolate; log and trace emission has no effect on the state and is not
  modelled, and the store's lock makes every operation one atomic step.
\<close>

datatype reg_error =
    RecordConflictError string
  | RecordNotFoundError string
  | RecordValidationError string
  | RegistryDuplicateIdError string
  | RegistryIntegrityError "string list"
  | StoreValueError
  | StoreKeyError

section \<open>The backend contract\<close>

text \<open>
  \<open>RegistryBackend\<close>: what \<open>VersionedStore\<close> may assume of its persistence. \<open>content\<close> is the
  abstract view, \<open>invar\<close> what the backend keeps. The client's lemmas are proved here once.
\<close>

locale registry_backend =
  fixes bread :: "'b \<Rightarrow> string \<Rightarrow> reg_error + 'f option"
    and bwrite :: "'b \<Rightarrow> string \<Rightarrow> 'f \<Rightarrow> reg_error + 'b"
    and bdelete :: "'b \<Rightarrow> string \<Rightarrow> reg_error + bool \<times> 'b"
    and blist :: "'b \<Rightarrow> reg_error + string list"
    and content :: "'b \<Rightarrow> string \<Rightarrow> 'f option"
    and readable :: "'f \<Rightarrow> bool"
    and invar :: "'b \<Rightarrow> bool"
  assumes read_content:
      "invar b \<Longrightarrow> (\<And>f. content b i = Some f \<Longrightarrow> readable f) \<Longrightarrow> bread b i = Inr (content b i)"
    and write_content:
      "invar b \<Longrightarrow> \<exists>b'. bwrite b i f = Inr b' \<and> content b' = (content b)(i \<mapsto> f) \<and> invar b'"
    and delete_content:
      "invar b \<Longrightarrow> \<exists>b'. bdelete b i = Inr (content b i \<noteq> None, b')
         \<and> content b' = (content b)(i := None) \<and> invar b'"
    and list_ids_content:
      "invar b \<Longrightarrow> \<exists>is. blist b = Inr is \<and> set is = dom (content b) \<and> distinct is \<and> sorted is"
begin

lemma write_read:
  assumes "invar b" "bwrite b i f = Inr b'" "readable f"
  shows "bread b' i = Inr (Some f)"
  using assms write_content [of b i f] read_content [of b' i] by auto

lemma write_read_other:
  assumes "invar b" "bwrite b i f = Inr b'" "j \<noteq> i"
    and "\<And>g. content b j = Some g \<Longrightarrow> readable g"
  shows "bread b' j = bread b j"
  using assms write_content [of b i f] read_content [of b' j] read_content [of b j] by auto

lemma delete_read:
  assumes "invar b" "bdelete b i = Inr (r, b')"
  shows "bread b' i = Inr None \<and> (r \<longleftrightarrow> content b i \<noteq> None)"
  using assms delete_content [of b i] read_content [of b' i] by auto

lemma write_invar: "invar b \<Longrightarrow> bwrite b i f = Inr b' \<Longrightarrow> invar b'"
  using write_content [of b i f] by auto

end

section \<open>The file backend\<close>

text \<open>
  One record kind's directory: every \<open>.json\<close> file below it, by its subfolder path and its stem
  (the record id), in the order the recursive walk meets them. A file is unreadable, or a JSON
  value that is no version envelope, or a version envelope.
\<close>

record 'r envelope =
  env_id :: string
  env_versions :: "(int \<times> 'r) list"
  env_active_version :: "int option"

datatype 'r reg_file = Corrupt | NoVersions | Envelope "'r envelope"

type_synonym 'r file_tree = "((string list \<times> string) \<times> 'r reg_file) list"

text \<open>
  \<open>_path\<close>. The code searches with \<open>rglob(id + ".json")\<close>, which for the ids the record schema admits (letters, digits, underscores)
  matches exactly the files of that name; other strings, whose glob characters or slashes would match other files, are no ids
  here.
\<close>

definition fb_path :: "'r file_tree \<Rightarrow> string \<Rightarrow> reg_error + (string list \<times> string)" where
  "fb_path fs i =
     (case filter (\<lambda>p. snd p = i) (map fst fs) of
        [] \<Rightarrow> Inr ([], i)
      | [p] \<Rightarrow> Inr p
      | _ \<Rightarrow> Inl (RegistryDuplicateIdError i))"

definition fb_read :: "'r file_tree \<Rightarrow> string \<Rightarrow> reg_error + 'r reg_file option" where
  "fb_read fs i = sbind (fb_path fs i) (\<lambda>p.
     case map_of fs p of
       None \<Rightarrow> Inr None
     | Some Corrupt \<Rightarrow> Inl (RecordValidationError i)
     | Some f \<Rightarrow> Inr (Some f))"

definition fb_write :: "'r file_tree \<Rightarrow> string \<Rightarrow> 'r reg_file \<Rightarrow> reg_error + 'r file_tree" where
  "fb_write fs i f = sbind (fb_path fs i) (\<lambda>p. Inr (AList.update p f fs))"

definition fb_delete :: "'r file_tree \<Rightarrow> string \<Rightarrow> reg_error + bool \<times> 'r file_tree" where
  "fb_delete fs i = sbind (fb_path fs i) (\<lambda>p.
     case map_of fs p of
       None \<Rightarrow> Inr (False, fs)
     | Some _ \<Rightarrow> Inr (True, AList.delete p fs))"

fun first_dup :: "string list \<Rightarrow> string list \<Rightarrow> string option" where
  "first_dup seen [] = None"
| "first_dup seen (x # xs) = (if x \<in> set seen then Some x else first_dup (x # seen) xs)"

definition fb_list_ids :: "'r file_tree \<Rightarrow> reg_error + string list" where
  "fb_list_ids fs =
     (let stems = map (snd \<circ> fst) fs in
      case first_dup [] stems of
        Some x \<Rightarrow> Inl (RegistryDuplicateIdError x)
      | None \<Rightarrow> Inr (sort stems))"

text \<open>The abstract content of a tree and its invariant: no id twice.\<close>

definition fb_content :: "'r file_tree \<Rightarrow> string \<Rightarrow> 'r reg_file option" where
  "fb_content fs i = map_of (map (\<lambda>(p, f). (snd p, f)) fs) i"

definition fb_invar :: "'r file_tree \<Rightarrow> bool" where
  "fb_invar fs \<longleftrightarrow> distinct (map (snd \<circ> fst) fs)"

definition fb_readable :: "'r reg_file \<Rightarrow> bool" where
  "fb_readable f \<longleftrightarrow> f \<noteq> Corrupt"

lemma first_dup_None: "first_dup seen xs = None \<longleftrightarrow> distinct xs \<and> set xs \<inter> set seen = {}"
  by (induction xs arbitrary: seen) auto

lemma fb_content_dom: "dom (fb_content fs) = (snd \<circ> fst) ` set fs"
proof -
  have "dom (fb_content fs) = fst ` set (map (\<lambda>(p, f). (snd p, f)) fs)"
    unfolding fb_content_def by (simp add: dom_map_of_conv_image_fst)
  then show ?thesis by (simp add: image_image comp_def split_beta)
qed

text \<open>With no duplicate id, the path of an id is its file's, and lookups by path and id agree.\<close>

lemma fb_path_cases:
  assumes "fb_invar fs"
  shows "(fb_path fs i = Inr ([], i) \<and> fb_content fs i = None
            \<and> (\<forall>p. snd p = i \<longrightarrow> map_of fs p = None))
       \<or> (\<exists>d f. fb_path fs i = Inr (d, i) \<and> map_of fs (d, i) = Some f \<and> fb_content fs i = Some f)"
  using assms
proof (induction fs)
  case Nil
  then show ?case by (simp add: fb_path_def fb_content_def)
next
  case (Cons a fs)
  obtain d j f where a: "a = ((d, j), f)" by (metis surj_pair)
  from Cons.prems have inv: "fb_invar fs" and new: "j \<notin> (snd \<circ> fst) ` set fs"
    by (auto simp: fb_invar_def a)
  show ?case
  proof (cases "j = i")
    case True
    with new have "filter (\<lambda>p. snd p = i) (map fst fs) = []"
      by (auto simp: filter_empty_conv)
    with True show ?thesis by (simp add: a fb_path_def fb_content_def)
  next
    case False
    with Cons.IH [OF inv] show ?thesis
      by (auto simp: a fb_path_def fb_content_def)
  qed
qed

text \<open>The laws of the contract, each by induction over the walked files.\<close>

lemma fb_update_content:
  assumes "fb_invar fs" "fb_path fs i = Inr p"
  shows "fb_content (AList.update p f fs) = (fb_content fs)(i \<mapsto> f) \<and> fb_invar (AList.update p f fs)
       \<and> (snd \<circ> fst) ` set (AList.update p f fs) = insert i ((snd \<circ> fst) ` set fs)"
  using assms
proof (induction fs arbitrary: p)
  case Nil
  then show ?case by (auto simp: fb_path_def fb_content_def fb_invar_def)
next
  case (Cons a fs)
  obtain d j g where a: "a = ((d, j), g)" by (metis surj_pair)
  from Cons.prems have inv: "fb_invar fs" and new: "j \<notin> (snd \<circ> fst) ` set fs"
    by (auto simp: fb_invar_def a)
  show ?case
  proof (cases "j = i")
    case True
    with new have "filter (\<lambda>p. snd p = i) (map fst fs) = []"
      by (auto simp: filter_empty_conv)
    with True Cons.prems(2) have "p = (d, i)" by (simp add: a fb_path_def)
    with True new inv show ?thesis
      by (auto simp: a fb_content_def fb_invar_def fun_eq_iff)
  next
    case False
    with Cons.prems(2) have p: "fb_path fs i = Inr p" by (simp add: a fb_path_def)
    with fb_path_cases [OF inv, of i] have "snd p = i" by auto
    with False have ne: "(d, j) \<noteq> p" by auto
    have "(snd \<circ> fst) ` set (AList.update p f fs) = insert i ((snd \<circ> fst) ` set fs)"
      and "fb_invar (AList.update p f fs)"
      and c: "fb_content (AList.update p f fs) = (fb_content fs)(i \<mapsto> f)"
      using Cons.IH [OF inv p] by blast+
    with ne False new show ?thesis
      by (auto simp: a fb_invar_def fb_content_def fun_eq_iff)
  qed
qed

lemma map_of_delete_stem:
  assumes "fb_invar fs" "map_of fs (d, i) = Some g"
  shows "fb_content (AList.delete (d, i) fs) = (fb_content fs)(i := None)
       \<and> fb_invar (AList.delete (d, i) fs)
       \<and> (snd \<circ> fst) ` set (AList.delete (d, i) fs) \<subseteq> (snd \<circ> fst) ` set fs"
  using assms
proof (induction fs)
  case Nil
  then show ?case by simp
next
  case (Cons a fs)
  obtain e j h where a: "a = ((e, j), h)" by (metis surj_pair)
  from Cons.prems have inv: "fb_invar fs" and new: "j \<notin> (snd \<circ> fst) ` set fs"
    by (auto simp: fb_invar_def a)
  show ?case
  proof (cases "(e, j) = (d, i)")
    case True
    with new have "(d, i) \<notin> fst ` set fs" by (auto simp: image_iff)
    then have del: "AList.delete (d, i) fs = fs"
      by (force simp: AList.delete_eq filter_id_conv)
    from new True have "fb_content fs i = None"
      using fb_content_dom [of fs] by (metis domIff fst_conv snd_conv)
    with True del inv show ?thesis by (auto simp: a fb_content_def fun_eq_iff)
  next
    case False
    with Cons.prems(2) have m: "map_of fs (d, i) = Some g" by (auto simp: a split: if_splits)
    then have "(d, i) \<in> fst ` set fs" by (metis domI dom_map_of_conv_image_fst)
    with new have "j \<noteq> i" by (force simp: image_iff)
    with False Cons.IH [OF inv m] new show ?thesis
      by (auto simp: a fb_content_def fb_invar_def fun_eq_iff)
  qed
qed

lemma fb_read_law:
  assumes "fb_invar fs" "\<And>f. fb_content fs i = Some f \<Longrightarrow> fb_readable f"
  shows "fb_read fs i = Inr (fb_content fs i)"
  using fb_path_cases [OF assms(1), of i] assms(2)
  by (auto simp: fb_read_def fb_readable_def split: reg_file.splits)

lemma fb_delete_law:
  assumes "fb_invar fs"
  shows "\<exists>b'. fb_delete fs i = Inr (fb_content fs i \<noteq> None, b')
     \<and> fb_content b' = (fb_content fs)(i := None) \<and> fb_invar b'"
  using fb_path_cases [OF assms, of i] map_of_delete_stem [OF assms, of _ i] assms
  by (auto simp: fb_delete_def fun_upd_idem)

lemma fb_write_law:
  assumes "fb_invar fs"
  shows "\<exists>b'. fb_write fs i f = Inr b' \<and> fb_content b' = (fb_content fs)(i \<mapsto> f) \<and> fb_invar b'"
  using fb_path_cases [OF assms, of i] fb_update_content [OF assms, of i]
  by (auto simp: fb_write_def)

lemma fb_list_ids_law:
  assumes "fb_invar fs"
  shows "\<exists>is. fb_list_ids fs = Inr is \<and> set is = dom (fb_content fs) \<and> distinct is \<and> sorted is"
  using assms first_dup_None [of "[]" "map (snd \<circ> fst) fs"]
  by (auto simp: fb_list_ids_def fb_invar_def fb_content_dom)

interpretation fb: registry_backend fb_read fb_write fb_delete fb_list_ids fb_content fb_readable fb_invar
  by unfold_locales (rule fb_read_law fb_write_law fb_delete_law fb_list_ids_law; assumption)+

section \<open>The versioned store\<close>

definition load_envelope :: "'r file_tree \<Rightarrow> string \<Rightarrow> reg_error + 'r envelope option" where
  "load_envelope fs i = sbind (fb_read fs i) (\<lambda>r.
     case r of
       None \<Rightarrow> Inr None
     | Some (Envelope e) \<Rightarrow> Inr (Some e)
     | Some _ \<Rightarrow> Inl (RecordValidationError i))"

definition require_envelope :: "'r file_tree \<Rightarrow> string \<Rightarrow> reg_error + 'r envelope" where
  "require_envelope fs i = sbind (load_envelope fs i) (\<lambda>r.
     case r of None \<Rightarrow> Inl (RecordNotFoundError i) | Some e \<Rightarrow> Inr e)"

definition parse :: "('r \<Rightarrow> bool) \<Rightarrow> string \<Rightarrow> 'r \<Rightarrow> reg_error + 'r" where
  "parse schema_ok i raw = (if schema_ok raw then Inr raw else Inl (RecordValidationError i))"

definition create ::
  "'r versioned_record_scheme file_tree \<Rightarrow> 'r versioned_record_scheme
   \<Rightarrow> reg_error + ('r versioned_record_scheme \<times> 'r versioned_record_scheme file_tree)" where
  "create fs r = sbind (load_envelope fs (rec_id r)) (\<lambda>e.
     if e \<noteq> None then Inl (RecordConflictError (rec_id r))
     else if rec_version r \<noteq> 1 then Inl (RecordValidationError (rec_id r))
     else sbind (fb_write fs (rec_id r) (Envelope
                   \<lparr>env_id = rec_id r, env_versions = [(1, r)], env_active_version = None\<rparr>))
                (\<lambda>fs'. Inr (r, fs')))"

definition update ::
  "'r versioned_record_scheme file_tree \<Rightarrow> 'r versioned_record_scheme
   \<Rightarrow> reg_error + ('r versioned_record_scheme \<times> 'r versioned_record_scheme file_tree)" where
  "update fs r = sbind (load_envelope fs (rec_id r)) (\<lambda>e.
     case e of
       None \<Rightarrow> Inl (RecordNotFoundError (rec_id r))
     | Some env \<Rightarrow>
         if env_versions env = [] then Inl StoreValueError
         else let expected = Max (fst ` set (env_versions env)) + 1 in
           if rec_version r \<noteq> expected then Inl (RecordConflictError (rec_id r))
           else sbind (fb_write fs (rec_id r) (Envelope
                         (env\<lparr>env_versions := AList.update expected r (env_versions env)\<rparr>)))
                      (\<lambda>fs'. Inr (r, fs')))"

text \<open>\<open>envelope["versions"][vkey]["status"] = s\<close>, in place.\<close>

definition set_status ::
  "record_status \<Rightarrow> int \<Rightarrow> (int \<times> 'r versioned_record_scheme) list
   \<Rightarrow> (int \<times> 'r versioned_record_scheme) list" where
  "set_status s v vs = map (\<lambda>(k, r). if k = v then (k, r\<lparr>rec_status := s\<rparr>) else (k, r)) vs"

definition activate_env ::
  "'r versioned_record_scheme envelope \<Rightarrow> int \<Rightarrow> reg_error + 'r versioned_record_scheme envelope" where
  "activate_env env v =
     (let vs = env_versions env in
      if v \<notin> fst ` set vs then Inl (RecordNotFoundError (env_id env))
      else case env_active_version env of
        Some p \<Rightarrow>
          if p \<noteq> v then
            (if p \<notin> fst ` set vs then Inl StoreKeyError
             else Inr (env\<lparr>env_versions := set_status ACTIVE v (set_status RETIRED p vs),
                           env_active_version := Some v\<rparr>))
          else Inr (env\<lparr>env_versions := set_status ACTIVE v vs, env_active_version := Some v\<rparr>)
      | None \<Rightarrow> Inr (env\<lparr>env_versions := set_status ACTIVE v vs, env_active_version := Some v\<rparr>))"

definition activate ::
  "('r versioned_record_scheme \<Rightarrow> bool) \<Rightarrow> 'r versioned_record_scheme file_tree \<Rightarrow> string \<Rightarrow> int
   \<Rightarrow> (reg_error + 'r versioned_record_scheme) \<times> 'r versioned_record_scheme file_tree" where
  "activate schema_ok fs i v =
     (case sbind (require_envelope fs i) (\<lambda>env. sbind (activate_env env v) (\<lambda>env'.
             sbind (fb_write fs i (Envelope env')) (\<lambda>fs'. Inr (env', fs')))) of
        Inl e \<Rightarrow> (Inl e, fs)
      | Inr (env', fs') \<Rightarrow>
          (case map_of (env_versions env') v of
             None \<Rightarrow> (Inl StoreKeyError, fs')
           | Some target \<Rightarrow> (parse schema_ok i target, fs')))"

definition deprecate_env ::
  "'r versioned_record_scheme envelope \<Rightarrow> int \<Rightarrow> reg_error + 'r versioned_record_scheme envelope" where
  "deprecate_env env v =
     (if v \<notin> fst ` set (env_versions env) then Inl (RecordNotFoundError (env_id env))
      else Inr (env\<lparr>env_versions := set_status DEPRECATED v (env_versions env)\<rparr>))"

definition retire_env ::
  "'r versioned_record_scheme envelope \<Rightarrow> int \<Rightarrow> reg_error + 'r versioned_record_scheme envelope" where
  "retire_env env v =
     (if v \<notin> fst ` set (env_versions env) then Inl (RecordNotFoundError (env_id env))
      else Inr (env\<lparr>env_versions := set_status RETIRED v (env_versions env),
                    env_active_version :=
                      (if env_active_version env = Some v then None else env_active_version env)\<rparr>))"

definition deprecate ::
  "'r versioned_record_scheme file_tree \<Rightarrow> string \<Rightarrow> int
   \<Rightarrow> reg_error + 'r versioned_record_scheme file_tree" where
  "deprecate fs i v = sbind (require_envelope fs i) (\<lambda>env. sbind (deprecate_env env v) (\<lambda>env'.
     fb_write fs i (Envelope env')))"

definition retire ::
  "'r versioned_record_scheme file_tree \<Rightarrow> string \<Rightarrow> int
   \<Rightarrow> reg_error + 'r versioned_record_scheme file_tree" where
  "retire fs i v = sbind (require_envelope fs i) (\<lambda>env. sbind (retire_env env v) (\<lambda>env'.
     fb_write fs i (Envelope env')))"

definition get ::
  "('r \<Rightarrow> bool) \<Rightarrow> 'r file_tree \<Rightarrow> string \<Rightarrow> int option \<Rightarrow> reg_error + 'r" where
  "get schema_ok fs i v = sbind (require_envelope fs i) (\<lambda>env.
     case (case v of Some w \<Rightarrow> Some w | None \<Rightarrow> env_active_version env) of
       None \<Rightarrow> Inl (RecordNotFoundError i)
     | Some w \<Rightarrow>
         (case map_of (env_versions env) w of
            None \<Rightarrow> Inl (RecordNotFoundError i)
          | Some payload \<Rightarrow> parse schema_ok i payload))"

definition get_optional ::
  "('r \<Rightarrow> bool) \<Rightarrow> 'r file_tree \<Rightarrow> string \<Rightarrow> int option \<Rightarrow> reg_error + 'r option" where
  "get_optional schema_ok fs i v =
     (case get schema_ok fs i v of
        Inr r \<Rightarrow> Inr (Some r)
      | Inl (RecordNotFoundError _) \<Rightarrow> Inr None
      | Inl e \<Rightarrow> Inl e)"

definition store_versions :: "'r file_tree \<Rightarrow> string \<Rightarrow> reg_error + int list" where
  "store_versions fs i = sbind (require_envelope fs i) (\<lambda>env. Inr (sort (map fst (env_versions env))))"

definition list_active ::
  "('r versioned_record_scheme \<Rightarrow> bool) \<Rightarrow> 'r versioned_record_scheme file_tree
   \<Rightarrow> reg_error + 'r versioned_record_scheme list" where
  "list_active schema_ok fs = sbind (fb_list_ids fs) (\<lambda>ids.
     sbind (mapM_sum (\<lambda>i. get_optional schema_ok fs i None) ids) (\<lambda>rs.
       Inr [r. Some r \<leftarrow> rs, rec_status r = ACTIVE]))"

text \<open>\<open>_envelope_lifecycle_status\<close>: the one lifecycle state of a record.\<close>

definition envelope_lifecycle_status ::
  "'r versioned_record_scheme envelope \<Rightarrow> record_status option" where
  "envelope_lifecycle_status env =
     (let vs = env_versions env;
          st = map (\<lambda>(k, r). rec_status r) vs;
          fallback = (if DRAFT \<in> set st then Some DRAFT
                      else if set st = {RETIRED} then Some RETIRED else None)
      in if vs = [] then None
         else case env_active_version env of
           None \<Rightarrow> fallback
         | Some v \<Rightarrow>
             (case map_of vs v of
                None \<Rightarrow> fallback
              | Some r \<Rightarrow> if rec_status r = ACTIVE then Some ACTIVE
                          else if rec_status r = DEPRECATED then Some DEPRECATED
                          else fallback))"

text \<open>\<open>_materialise_at_status\<close>: the highest version in the wanted state.\<close>

definition materialise_at_status ::
  "('r versioned_record_scheme \<Rightarrow> bool) \<Rightarrow> 'r versioned_record_scheme envelope \<Rightarrow> record_status
   \<Rightarrow> 'r versioned_record_scheme option" where
  "materialise_at_status schema_ok env s =
     (case foldl (\<lambda>best (v, p). if rec_status p = s
                       \<and> (case best of None \<Rightarrow> True | Some (w, _) \<Rightarrow> w < v)
                     then Some (v, p) else best) None (env_versions env) of
        None \<Rightarrow> None
      | Some (v, p) \<Rightarrow> if schema_ok p then Some p else None)"

definition list_by_status ::
  "('r versioned_record_scheme \<Rightarrow> bool) \<Rightarrow> 'r versioned_record_scheme file_tree \<Rightarrow> record_status
   \<Rightarrow> reg_error + 'r versioned_record_scheme list" where
  "list_by_status schema_ok fs s = sbind (fb_list_ids fs) (\<lambda>ids.
     sbind (mapM_sum (load_envelope fs) ids) (\<lambda>envs.
       Inr [r. Some env \<leftarrow> envs, envelope_lifecycle_status env = Some s,
               Some r \<leftarrow> [materialise_at_status schema_ok env s]]))"

definition lifecycle_summary ::
  "'r versioned_record_scheme file_tree \<Rightarrow> reg_error + (record_status \<Rightarrow> nat)" where
  "lifecycle_summary fs = sbind (fb_list_ids fs) (\<lambda>ids.
     sbind (mapM_sum (load_envelope fs) ids) (\<lambda>envs.
       Inr (\<lambda>s. length [env. Some env \<leftarrow> envs, envelope_lifecycle_status env = Some s])))"

definition store_delete :: "'r file_tree \<Rightarrow> string \<Rightarrow> reg_error + 'r file_tree" where
  "store_delete fs i = sbind (fb_delete fs i) (\<lambda>(removed, fs').
     if removed then Inr fs' else Inl (RecordNotFoundError i))"

section \<open>The version-lifecycle invariant\<close>

text \<open>
  A well-formed envelope: versions \<open>1..n\<close> in order, each payload carrying its own id and
  version, and a set pointer naming a version that is ACTIVE or DEPRECATED. \<open>single_active\<close>: the only ACTIVE version is the
  one the pointer names; \<open>create\<close> and \<open>update\<close> store whatever status the record carries, so this needs callers that submit no
  ACTIVE record.
\<close>

definition env_ok :: "'r versioned_record_scheme envelope \<Rightarrow> bool" where
  "env_ok env \<longleftrightarrow>
     env_versions env \<noteq> []
     \<and> map fst (env_versions env) = map (\<lambda>i. int i + 1) [0..<length (env_versions env)]
     \<and> (\<forall>(k, r) \<in> set (env_versions env).
          rec_version r = k \<and> rec_id r = env_id env)
     \<and> (\<forall>v. env_active_version env = Some v \<longrightarrow>
          (\<exists>r. (v, r) \<in> set (env_versions env) \<and> rec_status r \<in> {ACTIVE, DEPRECATED}))"

definition single_active :: "'r versioned_record_scheme envelope \<Rightarrow> bool" where
  "single_active env \<longleftrightarrow> (\<forall>(k, r) \<in> set (env_versions env). rec_status r = ACTIVE \<longrightarrow> env_active_version env = Some k)"

definition store_ok :: "'r versioned_record_scheme file_tree \<Rightarrow> bool" where
  "store_ok fs \<longleftrightarrow> fb_invar fs
     \<and> (\<forall>i f. fb_content fs i = Some f \<longrightarrow> (\<exists>e. f = Envelope e \<and> env_id e = i \<and> env_ok e))"

text \<open>
  The operations a caller may perform; \<open>submits\<close> is the set of statuses the records it creates and updates carry. A store is
  reachable when any status may be submitted.
\<close>

inductive submit_step ::
  "record_status set \<Rightarrow> ('r versioned_record_scheme \<Rightarrow> bool) \<Rightarrow> 'r versioned_record_scheme file_tree
   \<Rightarrow> 'r versioned_record_scheme file_tree \<Rightarrow> bool" for submits schema_ok where
  step_create: "rec_status r \<in> submits \<Longrightarrow> create fs r = Inr (r', fs') \<Longrightarrow> submit_step submits schema_ok fs fs'"
| step_update: "rec_status r \<in> submits \<Longrightarrow> update fs r = Inr (r', fs') \<Longrightarrow> submit_step submits schema_ok fs fs'"
| step_activate: "activate schema_ok fs i v = (res, fs') \<Longrightarrow> submit_step submits schema_ok fs fs'"
| step_deprecate: "deprecate fs i v = Inr fs' \<Longrightarrow> submit_step submits schema_ok fs fs'"
| step_retire: "retire fs i v = Inr fs' \<Longrightarrow> submit_step submits schema_ok fs fs'"
| step_delete: "store_delete fs i = Inr fs' \<Longrightarrow> submit_step submits schema_ok fs fs'"

inductive submit_reachable ::
  "record_status set \<Rightarrow> ('r versioned_record_scheme \<Rightarrow> bool) \<Rightarrow> 'r versioned_record_scheme file_tree \<Rightarrow> bool"
  for submits schema_ok where
  reach_empty: "submit_reachable submits schema_ok []"
| reach_step: "submit_reachable submits schema_ok fs \<Longrightarrow> submit_step submits schema_ok fs fs'
    \<Longrightarrow> submit_reachable submits schema_ok fs'"

definition store_reachable ::
  "('r versioned_record_scheme \<Rightarrow> bool) \<Rightarrow> 'r versioned_record_scheme file_tree \<Rightarrow> bool" where
  "store_reachable = submit_reachable UNIV"

lemma store_ok_empty: "store_ok []"
  by (simp add: store_ok_def fb_invar_def fb_content_def)

lemma store_ok_invar: "store_ok fs \<Longrightarrow> fb_invar fs"
  by (simp add: store_ok_def)

lemma load_envelope_ok:
  assumes "store_ok fs"
  shows "load_envelope fs i =
    Inr (case fb_content fs i of Some (Envelope e) \<Rightarrow> Some e | _ \<Rightarrow> None)"
proof -
  have "fb_read fs i = Inr (fb_content fs i)"
    using assms by (intro fb.read_content) (auto simp: store_ok_def fb_readable_def)
  with assms show ?thesis
    by (auto simp: load_envelope_def store_ok_def split: option.splits reg_file.splits)
qed

lemma load_envelope_Some:
  assumes "store_ok fs" "load_envelope fs i = Inr (Some e)"
  shows "fb_content fs i = Some (Envelope e) \<and> env_ok e \<and> env_id e = i"
proof -
  from load_envelope_ok [OF assms(1), of i] assms(2) obtain f where f: "fb_content fs i = Some f"
    by (auto split: option.splits)
  with assms(1) obtain e' where "f = Envelope e'" "env_id e' = i" "env_ok e'"
    by (auto simp: store_ok_def)
  with f assms(2) load_envelope_ok [OF assms(1), of i] show ?thesis by simp
qed

lemma require_envelope_Inr:
  assumes "store_ok fs" "require_envelope fs i = Inr e"
  shows "fb_content fs i = Some (Envelope e) \<and> env_ok e \<and> env_id e = i"
  using assms by (auto simp: require_envelope_def split: option.splits dest: load_envelope_Some)

lemma store_ok_write:
  assumes "store_ok fs" "fb_write fs i (Envelope e) = Inr fs'" "env_ok e" "env_id e = i"
  shows "store_ok fs'"
proof -
  have "fb_content fs' = (fb_content fs)(i \<mapsto> Envelope e)" "fb_invar fs'"
    using fb.write_content [of fs i "Envelope e"] assms(1,2) by (auto simp: store_ok_def)
  with assms show ?thesis by (auto simp: store_ok_def)
qed

lemma map_fst_set_status [simp]: "map fst (set_status s v vs) = map fst vs"
  by (auto simp: set_status_def)

lemma length_set_status [simp]: "length (set_status s v vs) = length vs"
  by (simp add: set_status_def)

lemma set_status_Nil [simp]: "set_status s v vs = [] \<longleftrightarrow> vs = []" "[] = set_status s v vs \<longleftrightarrow> vs = []"
  by (simp_all add: set_status_def)

lemma in_set_status:
  "(k, r) \<in> set (set_status s v vs) \<longleftrightarrow>
     (\<exists>r0. (k, r0) \<in> set vs \<and> r = (if k = v then r0\<lparr>rec_status := s\<rparr> else r0))"
  by (induction vs) (auto simp: set_status_def split: if_splits)

lemma env_ok_distinct: "env_ok e \<Longrightarrow> distinct (map fst (env_versions e))"
  by (simp add: env_ok_def distinct_map inj_on_def)

lemma env_ok_unique:
  "env_ok e \<Longrightarrow> (k, r) \<in> set (env_versions e) \<Longrightarrow> (k, r') \<in> set (env_versions e) \<Longrightarrow> r = r'"
  by (drule env_ok_distinct) (rule eq_key_imp_eq_value)

lemma env_ok_activate [invs]:
  assumes "env_ok env" "activate_env env v = Inr env'"
  shows "env_ok env' \<and> env_id env' = env_id env"
proof -
  let ?vs = "env_versions env"
  obtain vs0 where env': "env' = env\<lparr>env_versions := set_status ACTIVE v vs0,
                                     env_active_version := Some v\<rparr>"
    and vs0: "vs0 = ?vs \<and> (env_active_version env = None \<or> env_active_version env = Some v)
      \<or> (\<exists>p. env_active_version env = Some p \<and> p \<noteq> v \<and> vs0 = set_status RETIRED p ?vs)"
    and v: "v \<in> fst ` set ?vs"
    using assms(2) by (auto simp: activate_env_def Let_def split: if_splits option.splits)
  have fsts: "map fst vs0 = map fst ?vs" "length vs0 = length ?vs" "vs0 \<noteq> []"
    using vs0 assms(1) by (auto simp: env_ok_def)
  have pay: "\<exists>r0. (k, r0) \<in> set ?vs \<and> rec_version r = rec_version r0 \<and> rec_id r = rec_id r0" if "(k, r) \<in> set vs0" for k r
    using that vs0 assms(1) by (fastforce simp: in_set_status env_ok_def)
  have "v \<in> fst ` set vs0" using v fsts(1) by (metis list.set_map)
  then obtain r where r: "(v, r) \<in> set vs0" by auto
  then have act: "\<exists>r. (v, r) \<in> set (set_status ACTIVE v vs0) \<and> rec_status r = ACTIVE"
    by (intro exI [of _ "r\<lparr>rec_status := ACTIVE\<rparr>"]) (auto simp: in_set_status)
  have each: "rec_version r = k \<and> rec_id r = env_id env"
    if "(k, r) \<in> set (set_status ACTIVE v vs0)" for k r
    using that pay assms(1) unfolding in_set_status env_ok_def by (fastforce split: if_splits)
  show ?thesis
    unfolding env_ok_def env'
    using fsts assms(1) act each by (auto simp: env_ok_def)
qed

lemma env_ok_deprecate [invs]:
  assumes "env_ok env" "deprecate_env env v = Inr env'"
  shows "env_ok env' \<and> env_id env' = env_id env"
proof -
  have env': "env' = env\<lparr>env_versions := set_status DEPRECATED v (env_versions env)\<rparr>"
    using assms(2) by (auto simp: deprecate_env_def split: if_splits)
  have ptr: "\<exists>r. (w, r) \<in> set (set_status DEPRECATED v (env_versions env))
      \<and> rec_status r \<in> {ACTIVE, DEPRECATED}" if "env_active_version env = Some w" for w
  proof -
    from that assms(1) obtain r where "(w, r) \<in> set (env_versions env)"
      "rec_status r \<in> {ACTIVE, DEPRECATED}" by (auto simp: env_ok_def)
    then show ?thesis
      by (intro exI [of _ "if w = v then r\<lparr>rec_status := DEPRECATED\<rparr> else r"])
         (auto simp: in_set_status)
  qed
  have each: "rec_version r = k \<and> rec_id r = env_id env"
    if "(k, r) \<in> set (set_status DEPRECATED v (env_versions env))" for k r
    using that assms(1) unfolding in_set_status env_ok_def by (fastforce split: if_splits)
  show ?thesis
    unfolding env_ok_def env' using assms(1) ptr each by (auto simp: env_ok_def)
qed

lemma env_ok_retire [invs]:
  assumes "env_ok env" "retire_env env v = Inr env'"
  shows "env_ok env' \<and> env_id env' = env_id env"
proof -
  let ?act = "if env_active_version env = Some v then None else env_active_version env"
  have env': "env' = env\<lparr>env_versions := set_status RETIRED v (env_versions env),
                         env_active_version := ?act\<rparr>"
    using assms(2) by (auto simp: retire_env_def split: if_splits)
  have ptr: "\<exists>r. (w, r) \<in> set (set_status RETIRED v (env_versions env))
      \<and> rec_status r \<in> {ACTIVE, DEPRECATED}" if "?act = Some w" for w
  proof -
    from that assms(1) obtain r where "(w, r) \<in> set (env_versions env)" "w \<noteq> v"
      "rec_status r \<in> {ACTIVE, DEPRECATED}" by (auto simp: env_ok_def split: if_splits)
    then show ?thesis by (intro exI [of _ r]) (auto simp: in_set_status)
  qed
  have each: "rec_version r = k \<and> rec_id r = env_id env"
    if "(k, r) \<in> set (set_status RETIRED v (env_versions env))" for k r
    using that assms(1) unfolding in_set_status env_ok_def by (fastforce split: if_splits)
  show ?thesis
    unfolding env_ok_def env' using assms(1) ptr each by (auto simp: env_ok_def)
qed

text \<open>The versions of a well-formed envelope are numbered \<open>1..n\<close>, so the next one is \<open>n + 1\<close>.\<close>

lemma env_ok_keys: "env_ok e \<Longrightarrow> fst ` set (env_versions e) = {1..int (length (env_versions e))}"
proof -
  assume "env_ok e"
  then have "set (map fst (env_versions e)) = (\<lambda>i. int i + 1) ` {0..<length (env_versions e)}"
    unfolding env_ok_def by (metis set_map set_upt)
  also have "\<dots> = {1..int (length (env_versions e))}"
  proof (intro equalityI subsetI)
    fix x assume "x \<in> {1..int (length (env_versions e))}"
    then show "x \<in> (\<lambda>i. int i + 1) ` {0..<length (env_versions e)}"
      by (intro image_eqI [of _ _ "nat (x - 1)"]) auto
  qed auto
  finally show ?thesis by simp
qed

lemma env_ok_Max: "env_ok e \<Longrightarrow> Max (fst ` set (env_versions e)) = int (length (env_versions e))"
  by (subst env_ok_keys) (auto simp: env_ok_def Suc_le_eq intro!: Max_eqI)

lemma env_ok_append:
  assumes "env_ok e" "rec_version r = Max (fst ` set (env_versions e)) + 1" "rec_id r = env_id e"
  shows "env_ok (e\<lparr>env_versions := AList.update (Max (fst ` set (env_versions e)) + 1) r (env_versions e)\<rparr>)"
proof -
  let ?n = "int (length (env_versions e)) + 1"
  have "?n \<notin> fst ` set (env_versions e)" using env_ok_keys [OF assms(1)] by auto
  then have "AList.update ?n r (env_versions e) = env_versions e @ [(?n, r)]" by (rule update_new)
  with assms show ?thesis by (auto simp: env_ok_Max env_ok_def)
qed

lemma store_step_ok [invs]:
  assumes "submit_step submits schema_ok fs fs'" "store_ok fs"
  shows "store_ok fs'"
  using assms
proof (induction rule: submit_step.induct)
  case (step_create r fs r' fs')
  let ?e = "\<lparr>env_id = rec_id r, env_versions = [(1, r)], env_active_version = None\<rparr>"
  from step_create.hyps(2) have w: "fb_write fs (rec_id r) (Envelope ?e) = Inr fs'"
    and v: "rec_version r = 1"
    by (auto simp: create_def split: if_splits)
  from v have "env_ok ?e" by (simp add: env_ok_def)
  with store_ok_write [OF step_create.prems w] show ?case by simp
next
  case (step_update r fs r' fs')
  then obtain env where env: "load_envelope fs (rec_id r) = Inr (Some env)"
    and ver: "rec_version r = Max (fst ` set (env_versions env)) + 1"
    and w: "fb_write fs (rec_id r) (Envelope (env\<lparr>env_versions :=
      AList.update (Max (fst ` set (env_versions env)) + 1) r (env_versions env)\<rparr>)) = Inr fs'"
    by (auto simp: update_def Let_def split: option.splits if_splits)
  from load_envelope_Some [OF step_update.prems env] have ok: "env_ok env" "env_id env = rec_id r"
    by auto
  show ?case
    by (rule store_ok_write [OF step_update.prems w])
       (simp_all add: env_ok_append ok ver)
next
  case (step_activate fs i v res fs')
  show ?case
  proof (cases "fs' = fs")
    case True
    with step_activate show ?thesis by simp
  next
    case False
    with step_activate.hyps obtain env env' where "require_envelope fs i = Inr env"
      "activate_env env v = Inr env'" "fb_write fs i (Envelope env') = Inr fs'"
      by (auto simp: activate_def split: sum.splits option.splits)
    with step_activate.prems show ?thesis
      by (metis env_ok_activate require_envelope_Inr store_ok_write)
  qed
next
  case (step_deprecate fs i v fs')
  then show ?case
    by (auto simp: deprecate_def) (metis env_ok_deprecate require_envelope_Inr store_ok_write)
next
  case (step_retire fs i v fs')
  then show ?case
    by (auto simp: retire_def) (metis env_ok_retire require_envelope_Inr store_ok_write)
next
  case (step_delete fs i fs')
  then obtain b where "fb_delete fs i = Inr (b, fs')"
    by (auto simp: store_delete_def split: if_splits)
  with step_delete.prems fb.delete_content [of fs i] show ?case
    by (auto simp: store_ok_def split: if_splits)
qed

lemma submit_reachable_ok: "submit_reachable submits schema_ok fs \<Longrightarrow> store_ok fs"
  by (induction rule: submit_reachable.induct) (auto intro: store_ok_empty store_step_ok)

lemma reachable_store_ok: "store_reachable schema_ok fs \<Longrightarrow> store_ok fs"
  by (simp add: store_reachable_def submit_reachable_ok)

text \<open>\<open>single_active\<close> is kept by every operation of the lifecycle and by submitting records that are not ACTIVE.\<close>

lemma single_active_pointed:
  "single_active env \<longleftrightarrow> (\<forall>k r. (k, r) \<in> set (env_versions env) \<longrightarrow> rec_status r = ACTIVE \<longrightarrow> env_active_version env = Some k)"
  by (auto simp: single_active_def)

lemma in_set_status_active:
  "(k, r) \<in> set (set_status s v vs) \<Longrightarrow> rec_status r = ACTIVE \<Longrightarrow> s \<noteq> ACTIVE \<Longrightarrow> k \<noteq> v \<and> (k, r) \<in> set vs"
  by (cases "k = v") (auto simp: in_set_status)

lemma single_active_activate [invs]:
  assumes "activate_env env v = Inr env'" "single_active env"
  shows "single_active env'"
proof -
  obtain vs0 where env': "env' = env\<lparr>env_versions := set_status ACTIVE v vs0, env_active_version := Some v\<rparr>"
    and vs0: "vs0 = env_versions env \<and> (env_active_version env = None \<or> env_active_version env = Some v)
      \<or> (\<exists>p. env_active_version env = Some p \<and> p \<noteq> v \<and> vs0 = set_status RETIRED p (env_versions env))"
    using assms(1) by (auto simp: activate_env_def Let_def split: if_splits option.splits)
  have old: "k = v" if "(k, r) \<in> set vs0" "rec_status r = ACTIVE" for k r
    using vs0 that assms(2) in_set_status_active [of k r RETIRED] unfolding single_active_pointed by fastforce
  have "k = v" if "(k, r) \<in> set (set_status ACTIVE v vs0)" "rec_status r = ACTIVE" for k r
    using that old by (cases "k = v") (auto simp: in_set_status)
  then show ?thesis unfolding single_active_pointed env' by auto
qed

lemma single_active_deprecate [invs]:
  "deprecate_env env v = Inr env' \<Longrightarrow> single_active env \<Longrightarrow> single_active env'"
  unfolding single_active_pointed deprecate_env_def
  using in_set_status_active [where s = DEPRECATED] by (fastforce split: if_splits)

lemma single_active_retire [invs]:
  "retire_env env v = Inr env' \<Longrightarrow> single_active env \<Longrightarrow> single_active env'"
  unfolding single_active_pointed retire_env_def
  using in_set_status_active [where s = RETIRED] by (fastforce split: if_splits)

lemmas single_active_ops = single_active_activate single_active_deprecate single_active_retire

lemma write_cases:
  assumes "store_ok fs" "fb_write fs i f = Inr fs'" "fb_content fs' j = Some g"
  shows "g = f \<and> j = i \<or> fb_content fs j = Some g"
  using fb.write_content [of fs i f] assms by (auto simp: store_ok_def split: if_splits)

lemma single_active_step:
  assumes "submit_step submits schema_ok fs fs'" "store_ok fs" "ACTIVE \<notin> submits"
    and "\<forall>i e. fb_content fs i = Some (Envelope e) \<longrightarrow> single_active e"
  shows "\<forall>i e. fb_content fs' i = Some (Envelope e) \<longrightarrow> single_active e"
proof -
  have op: "\<forall>j e. fb_content fs' j = Some (Envelope e) \<longrightarrow> single_active e"
    if "require_envelope fs i = Inr env" "single_active env \<Longrightarrow> single_active env'" "fb_write fs i (Envelope env') = Inr fs'" for i env env'
    using that assms(4) require_envelope_Inr [OF assms(2) that(1)] write_cases [OF assms(2) that(3)] by blast
  from assms(1) show ?thesis
  proof (cases rule: submit_step.cases)
    case (step_create r r')
    let ?e = "\<lparr>env_id = rec_id r, env_versions = [(1, r)], env_active_version = None\<rparr>"
    from step_create have w: "fb_write fs (rec_id r) (Envelope ?e) = Inr fs'" and st: "rec_status r \<noteq> ACTIVE"
      using assms(3) by (auto simp: create_def split: if_splits)
    from st have "single_active ?e" by (simp add: single_active_def)
    with assms(4) write_cases [OF assms(2) w] show ?thesis by blast
  next
    case (step_update r r')
    from step_update(2) obtain env where env: "load_envelope fs (rec_id r) = Inr (Some env)"
      and w: "fb_write fs (rec_id r) (Envelope (env\<lparr>env_versions :=
        AList.update (Max (fst ` set (env_versions env)) + 1) r (env_versions env)\<rparr>)) = Inr fs'"
      by (auto simp: update_def Let_def split: option.splits if_splits)
    from step_update(1) assms(3) have st: "rec_status r \<noteq> ACTIVE" by auto
    from load_envelope_Some [OF assms(2) env] have ok: "env_ok env" "fb_content fs (rec_id r) = Some (Envelope env)"
      by auto
    let ?n = "int (length (env_versions env)) + 1"
    have "?n \<notin> fst ` set (env_versions env)" using env_ok_keys [OF ok(1)] by auto
    then have "AList.update ?n r (env_versions env) = env_versions env @ [(?n, r)]" by (rule update_new)
    with ok assms(4) st have "single_active (env\<lparr>env_versions := AList.update (Max (fst ` set (env_versions env)) + 1) r (env_versions env)\<rparr>)"
      by (auto simp: env_ok_Max single_active_def)
    with assms(4) write_cases [OF assms(2) w] show ?thesis by blast
  next
    case (step_activate i v res)
    show ?thesis
    proof (cases "fs' = fs")
      case False
      with step_activate obtain env env' where "require_envelope fs i = Inr env"
        "activate_env env v = Inr env'" "fb_write fs i (Envelope env') = Inr fs'"
        by (auto simp: activate_def split: sum.splits option.splits)
      then show ?thesis using op single_active_ops(1) by blast
    qed (simp add: assms(4))
  next
    case (step_deprecate i v)
    then obtain env env' where "require_envelope fs i = Inr env" "deprecate_env env v = Inr env'"
      "fb_write fs i (Envelope env') = Inr fs'" by (auto simp: deprecate_def)
    then show ?thesis using op single_active_ops(2) by blast
  next
    case (step_retire i v)
    then obtain env env' where "require_envelope fs i = Inr env" "retire_env env v = Inr env'"
      "fb_write fs i (Envelope env') = Inr fs'" by (auto simp: retire_def)
    then show ?thesis using op single_active_ops(3) by blast
  next
    case (step_delete i)
    then obtain b where "fb_delete fs i = Inr (b, fs')"
      by (auto simp: store_delete_def split: if_splits)
    with assms(2,4) fb.delete_content [of fs i] show ?thesis
      by (auto simp: store_ok_def split: if_splits)
  qed
qed

lemma reachable_single_active:
  assumes "submit_reachable submits schema_ok fs" "ACTIVE \<notin> submits"
  shows "fb_content fs i = Some (Envelope e) \<Longrightarrow> single_active e"
proof -
  have "\<forall>i e. fb_content fs i = Some (Envelope e) \<longrightarrow> single_active e"
    using assms(1)
  proof (induction rule: submit_reachable.induct)
    case (reach_step fs fs')
    then show ?case using single_active_step [OF reach_step.hyps(2) submit_reachable_ok [OF reach_step.hyps(1)] assms(2)] by blast
  qed (simp add: fb_content_def)
  then show "fb_content fs i = Some (Envelope e) \<Longrightarrow> single_active e" by blast
qed

lemmas envelope_ops = activate_env_def deprecate_env_def retire_env_def

text \<open>
  What \<open>get\<close> serves from a well-formed store: the version the pointer names, which is ACTIVE or
  DEPRECATED; a record with no pointer is not served.
\<close>

lemma get_active:
  assumes "store_ok fs" "get schema_ok fs i None = Inr r"
  shows "rec_id r = i \<and> rec_status r \<in> {ACTIVE, DEPRECATED}
    \<and> (\<exists>e. fb_content fs i = Some (Envelope e) \<and> env_active_version e = Some (rec_version r))"
proof -
  from assms(2) obtain e v where e: "require_envelope fs i = Inr e"
    and v: "env_active_version e = Some v" and r: "map_of (env_versions e) v = Some r"
    by (auto simp: get_def parse_def split: option.splits if_splits)
  from require_envelope_Inr [OF assms(1) e] have ok: "env_ok e" "env_id e = i"
    "fb_content fs i = Some (Envelope e)" by auto
  from r have in_vs: "(v, r) \<in> set (env_versions e)" by (rule map_of_SomeD)
  from ok(1) v obtain r' where "(v, r') \<in> set (env_versions e)" "rec_status r' \<in> {ACTIVE, DEPRECATED}"
    by (auto simp: env_ok_def)
  with env_ok_unique [OF ok(1) in_vs] have "rec_status r \<in> {ACTIVE, DEPRECATED}" by metis
  moreover have "rec_version r = v" "rec_id r = i" using ok in_vs by (auto simp: env_ok_def)
  ultimately show ?thesis using ok v by auto
qed

lemma list_active_sound:
  assumes "list_active schema_ok fs = Inr rs" "r \<in> set rs"
  shows "rec_status r = ACTIVE \<and> (\<exists>i. get schema_ok fs i None = Inr r)"
proof -
  from assms obtain ids os where "mapM_sum (\<lambda>i. get_optional schema_ok fs i None) ids = Inr os"
    and "Some r \<in> set os" and st: "rec_status r = ACTIVE"
    by (auto simp: list_active_def split: option.splits if_splits)
  then obtain i where "get_optional schema_ok fs i None = Inr (Some r)"
    by (auto dest: mapM_sum_set)
  then have "get schema_ok fs i None = Inr r"
    by (auto simp: get_optional_def split: sum.splits reg_error.splits)
  with st show ?thesis by blast
qed

text \<open>What a successful \<open>activate\<close> leaves on disk.\<close>

lemma activate_effect:
  assumes "store_ok fs" "activate schema_ok fs i v = (Inr r, fs')"
  obtains env env' where "fb_content fs i = Some (Envelope env)" "env_ok env" "env_id env = i"
    "activate_env env v = Inr env'" "env_ok env'" "env_id env' = i"
    "fb_content fs' = (fb_content fs)(i \<mapsto> Envelope env')" "store_ok fs'"
    "map_of (env_versions env') v = Some r" "schema_ok r"
proof -
  from assms(2) obtain env' where u: "sbind (require_envelope fs i) (\<lambda>env.
        sbind (activate_env env v) (\<lambda>env'. sbind (fb_write fs i (Envelope env'))
          (\<lambda>fs'. Inr (env', fs')))) = Inr (env', fs')"
    and r: "map_of (env_versions env') v = Some r" "schema_ok r"
    unfolding activate_def parse_def
    by (fastforce simp del: sbind_Inr_iff split: sum.splits option.splits if_splits)
  from u obtain env where env: "require_envelope fs i = Inr env"
    and act: "activate_env env v = Inr env'" and w: "fb_write fs i (Envelope env') = Inr fs'"
    by auto
  from require_envelope_Inr [OF assms(1) env] have ok: "env_ok env" "env_id env = i"
    "fb_content fs i = Some (Envelope env)" by auto
  from env_ok_activate [OF ok(1) act] ok(2) have ok': "env_ok env'" "env_id env' = i" by auto
  have "fb_content fs' = (fb_content fs)(i \<mapsto> Envelope env')"
    using fb.write_content [of fs i "Envelope env'"] w assms(1) by (auto simp: store_ok_def)
  then show ?thesis using that ok ok' act r store_ok_write [OF assms(1) w ok'] by blast
qed

lemma activate_env_shape:
  assumes "activate_env env v = Inr env'"
  shows "env_active_version env' = Some v" and "\<exists>vs. env_versions env' = set_status ACTIVE v vs"
  using assms by (auto simp: activate_env_def Let_def split: if_splits option.splits)

text \<open>In a well-formed store a lookup depends on the content of its own id only.\<close>

lemma get_content_cong:
  assumes "store_ok fs" "store_ok fs'" "fb_content fs' i = fb_content fs i"
  shows "get schema_ok fs' i w = get schema_ok fs i w"
  using assms by (simp add: get_def require_envelope_def load_envelope_ok)

text \<open>Rollback: after \<open>activate i v\<close>, \<open>get i\<close> serves version \<open>v\<close>, now ACTIVE.\<close>

lemma activate_then_get:
  assumes "store_ok fs" "activate schema_ok fs i v = (Inr r, fs')"
  shows "get schema_ok fs' i None = Inr r \<and> rec_version r = v \<and> rec_status r = ACTIVE"
proof -
  obtain env env' where e: "activate_env env v = Inr env'" "env_ok env'" "env_id env' = i"
    "fb_content fs' = (fb_content fs)(i \<mapsto> Envelope env')" "store_ok fs'"
    "map_of (env_versions env') v = Some r" "schema_ok r"
    using activate_effect [OF assms] by metis
  note shape = activate_env_shape [OF e(1)]
  have "require_envelope fs' i = Inr env'"
    using e(4) by (simp add: require_envelope_def load_envelope_ok [OF e(5)])
  with shape(1) e(6,7) have "get schema_ok fs' i None = Inr r" by (simp add: get_def parse_def)
  moreover have "rec_status r = ACTIVE" using shape(2) map_of_SomeD [OF e(6)] by (auto simp: in_set_status)
  ultimately show ?thesis using e(2) map_of_SomeD [OF e(6)] by (auto simp: env_ok_def)
qed

end
