(* ===== verification/DependencyCycle.thy ===== *)
theory DependencyCycle
  imports Prelude
begin

text \<open>
  The cycle detector of the registry's integrity check (\<open>registry/service.py\<close>:
  \<open>_visit_for_cycle\<close>, \<open>_find_dependency_cycle\<close>): an iterative three-colour depth-first search
  over the \<open>depends_on\<close> graph with an explicit stack of (node, next child) pairs. The loop is a
  \<open>partial_function\<close>, so that not returning is \<open>None\<close>; the theory proves that it returns, that an
  empty answer means the graph is acyclic and that a non-empty answer is a cycle of the graph.
\<close>

datatype colour = C_WHITE | C_GREY | C_BLACK

partial_function (option) visit_loop ::
  "(string \<Rightarrow> string list) \<Rightarrow> (string \<times> nat) list \<Rightarrow> string list \<Rightarrow> (string \<Rightarrow> colour)
   \<Rightarrow> (string list \<times> (string \<Rightarrow> colour)) option" where
  "visit_loop deps stack path colour =
     (case stack of
        [] \<Rightarrow> Some ([], colour)
      | (node, child_idx) # rest \<Rightarrow>
          let colour1 = (if child_idx = 0 then colour(node := C_GREY) else colour);
              path1 = (if child_idx = 0 then path @ [node] else path)
          in if child_idx < length (deps node) then
               let nxt = deps node ! child_idx in
               if colour1 nxt = C_GREY then
                 Some (dropWhile (\<lambda>x. x \<noteq> nxt) path1 @ [nxt], colour1)
               else if colour1 nxt = C_WHITE then
                 visit_loop deps ((nxt, 0) # (node, child_idx + 1) # rest) path1 colour1
               else visit_loop deps ((node, child_idx + 1) # rest) path1 colour1
             else visit_loop deps rest (butlast path1) (colour1(node := C_BLACK)))"

declare visit_loop.simps [code]

definition visit_for_cycle ::
  "(string \<Rightarrow> string list) \<Rightarrow> string \<Rightarrow> (string \<Rightarrow> colour)
   \<Rightarrow> (string list \<times> (string \<Rightarrow> colour)) option" where
  "visit_for_cycle deps start colour = visit_loop deps [(start, 0)] [] colour"

fun find_cycle_from ::
  "(string \<Rightarrow> string list) \<Rightarrow> string list \<Rightarrow> (string \<Rightarrow> colour) \<Rightarrow> string list option" where
  "find_cycle_from deps [] colour = Some []"
| "find_cycle_from deps (a # as) colour =
     (if colour a = C_WHITE then
        (case visit_for_cycle deps a colour of
           None \<Rightarrow> None
         | Some (cycle, colour') \<Rightarrow>
             if cycle \<noteq> [] then Some cycle else find_cycle_from deps as colour')
      else find_cycle_from deps as colour)"

definition find_cycle :: "(string \<Rightarrow> string list) \<Rightarrow> string list \<Rightarrow> string list option" where
  "find_cycle deps agents = find_cycle_from deps agents (\<lambda>_. C_WHITE)"

section \<open>The graph\<close>

definition dep_edges :: "(string \<Rightarrow> string list) \<Rightarrow> string set \<Rightarrow> (string \<times> string) set" where
  "dep_edges deps K = {(u, v). u \<in> K \<and> v \<in> set (deps u)}"

text \<open>A cycle as the code reports it: consecutive dependencies, back to the first node.\<close>

fun dep_path :: "(string \<Rightarrow> string list) \<Rightarrow> string list \<Rightarrow> bool" where
  "dep_path deps (u # v # xs) = (v \<in> set (deps u) \<and> dep_path deps (v # xs))"
| "dep_path deps _ = True"

definition is_cycle :: "(string \<Rightarrow> string list) \<Rightarrow> string set \<Rightarrow> string list \<Rightarrow> bool" where
  "is_cycle deps K c \<longleftrightarrow> 2 \<le> length c \<and> hd c = last c \<and> set c \<subseteq> K \<and> dep_path deps c"

lemma dep_path_append:
  "dep_path deps (xs @ [u, v]) \<longleftrightarrow> dep_path deps (xs @ [u]) \<and> v \<in> set (deps u)"
  by (induction deps xs rule: dep_path.induct) (auto simp: neq_Nil_conv)

lemma dep_path_suffix: "dep_path deps (xs @ ys) \<Longrightarrow> dep_path deps ys"
proof (induction xs)
  case (Cons x xs)
  then show ?case by (cases "xs @ ys") auto
qed simp

lemma acyclic_insert_closed:
  assumes closed: "\<And>u. u \<in> B \<Longrightarrow> set (deps u) \<subseteq> B"
    and acy: "acyclic (dep_edges deps B)" and n: "n \<notin> B" and deps_n: "set (deps n) \<subseteq> B"
  shows "acyclic (dep_edges deps (insert n B))"
proof (rule acyclicI, intro allI notI)
  fix x
  assume cyc: "(x, x) \<in> (dep_edges deps (insert n B))\<^sup>+"
  have stay: "(u, v) \<in> (dep_edges deps B)\<^sup>+ \<and> v \<in> B"
    if "(u, v) \<in> (dep_edges deps (insert n B))\<^sup>+" "u \<in> B" for u v
    using that
  proof (induction rule: trancl_induct)
    case (base y)
    with n closed [of u] show ?case by (auto simp: dep_edges_def)
  next
    case (step y z)
    with closed [of y] n have "(y, z) \<in> dep_edges deps B" "z \<in> B" by (auto simp: dep_edges_def)
    with step show ?case by (meson trancl_into_trancl)
  qed
  from cyc obtain w where "(w, x) \<in> dep_edges deps (insert n B)" by (meson tranclE)
  with closed deps_n have "x \<in> B" by (auto simp: dep_edges_def)
  with stay [OF cyc] acy show False by (auto simp: acyclic_def)
qed

section \<open>The invariant of the search\<close>

text \<open>
  \<open>frames\<close> relates the stack below the node about to be entered to the reversed path: each
  frame's node is the path's, its children before the current one are finished, and the current
  child is the node of the frame above.
\<close>

fun frames ::
  "(string \<Rightarrow> string list) \<Rightarrow> (string \<Rightarrow> colour) \<Rightarrow> (string \<times> nat) list \<Rightarrow> string list
   \<Rightarrow> string option \<Rightarrow> bool" where
  "frames deps col [] rp abv = (rp = [])"
| "frames deps col ((n, i) # rest) [] abv = False"
| "frames deps col ((n, i) # rest) (p # rp) abv =
     (n = p \<and> 1 \<le> i \<and> i \<le> length (deps n)
      \<and> (\<forall>j < (if abv = None then i else i - 1). col (deps n ! j) = C_BLACK)
      \<and> (case abv of None \<Rightarrow> True | Some m \<Rightarrow> deps n ! (i - 1) = m)
      \<and> frames deps col rest rp (Some n))"

definition dfs_inv ::
  "(string \<Rightarrow> string list) \<Rightarrow> string set \<Rightarrow> (string \<times> nat) list \<Rightarrow> string list
   \<Rightarrow> (string \<Rightarrow> colour) \<Rightarrow> bool" where
  "dfs_inv deps K stack path col \<longleftrightarrow>
     distinct path \<and> {x. col x = C_GREY} = set path \<and> set path \<subseteq> K
     \<and> {x. col x = C_BLACK} \<subseteq> K
     \<and> (\<forall>x. col x = C_BLACK \<longrightarrow> (\<forall>y \<in> set (deps x). col y = C_BLACK))
     \<and> acyclic (dep_edges deps {x. col x = C_BLACK})
     \<and> (case stack of
          [] \<Rightarrow> path = []
        | (n, i) # rest \<Rightarrow>
            n \<in> K \<and> (if i = 0 then col n = C_WHITE \<and> frames deps col rest (rev path) (Some n)
                     else frames deps col stack (rev path) None))"

definition white_sum :: "(string \<Rightarrow> string list) \<Rightarrow> string set \<Rightarrow> (string \<Rightarrow> colour) \<Rightarrow> nat" where
  "white_sum deps K col = (\<Sum>x \<in> {x \<in> K. col x = C_WHITE}. 2 * length (deps x) + 2)"

definition weight ::
  "(string \<Rightarrow> string list) \<Rightarrow> string set \<Rightarrow> (string \<times> nat) list \<Rightarrow> (string \<Rightarrow> colour) \<Rightarrow> nat" where
  "weight deps K stack col =
     white_sum deps K col
     + sum_list (map (\<lambda>(n, i). if i = 0 then 1 else 2 * (length (deps n) - i) + 1) stack)"

lemma frames_mono:
  "frames deps col stk rp abv \<Longrightarrow> (\<And>x. col x = C_BLACK \<Longrightarrow> col' x = C_BLACK)
   \<Longrightarrow> frames deps col' stk rp abv"
  by (induction deps col stk rp abv rule: frames.induct) auto

lemma frames_path: "frames deps col stk (rev path) (Some m) \<Longrightarrow> dep_path deps (path @ [m])"
proof (induction stk arbitrary: path m)
  case Nil
  then show ?case by simp
next
  case (Cons f rest)
  obtain n i where f: "f = (n, i)" by (metis surj_pair)
  from Cons.prems obtain p rp where rp: "rev path = p # rp" by (cases "rev path") (auto simp: f)
  then have path: "path = rev rp @ [p]" by (metis rev_rev_ident rev.simps(2))
  from Cons.prems rp have n: "n = p" "1 \<le> i" "i \<le> length (deps n)" "deps n ! (i - 1) = m"
    and fr: "frames deps col rest (rev (rev rp)) (Some n)" by (auto simp: f)
  from n(2,3) have "i - 1 < length (deps n)" by simp
  with n(1,4) have "m \<in> set (deps p)" using nth_mem by blast
  with Cons.IH [OF fr] n(1) show ?case by (simp add: path dep_path_append)
qed

lemma white_sum_drop:
  assumes "finite K" "n \<in> K" "col n = C_WHITE" "c \<noteq> C_WHITE"
  shows "white_sum deps K col = white_sum deps K (col(n := c)) + (2 * length (deps n) + 2)"
proof -
  have "{x \<in> K. col x = C_WHITE} = insert n {x \<in> K. (col(n := c)) x = C_WHITE}"
    using assms by auto
  with assms show ?thesis by (simp add: white_sum_def)
qed

text \<open>
  One pass of the loop: entering a node (\<open>child_idx = 0\<close>) greys it and extends the path, so both
  kinds of top frame look the same afterwards.
\<close>

lemma dfs_inv_enter:
  assumes "dfs_inv deps K ((n, 0) # rest) path col"
  shows "distinct (path @ [n])" "{x. (col(n := C_GREY)) x = C_GREY} = set (path @ [n])"
    "set (path @ [n]) \<subseteq> K"
    "{x. (col(n := C_GREY)) x = C_BLACK} = {x. col x = C_BLACK}"
    "frames deps (col(n := C_GREY)) rest (rev path) (Some n)"
proof -
  from assms have w: "col n = C_WHITE" and g: "{x. col x = C_GREY} = set path"
    and fr: "frames deps col rest (rev path) (Some n)" and d: "distinct path"
    and k: "set path \<subseteq> K" "n \<in> K"
    by (auto simp: dfs_inv_def)
  from g have "x \<in> set path \<longleftrightarrow> col x = C_GREY" for x by blast
  with w have "n \<notin> set path" by simp
  with d show "distinct (path @ [n])" by simp
  show "{x. (col(n := C_GREY)) x = C_GREY} = set (path @ [n])" using g by auto
  show "set (path @ [n]) \<subseteq> K" using k by simp
  show "{x. (col(n := C_GREY)) x = C_BLACK} = {x. col x = C_BLACK}" using w by auto
  show "frames deps (col(n := C_GREY)) rest (rev path) (Some n)"
    by (rule frames_mono [OF fr]) (use w in auto)
qed

text \<open>The state after the entry: the top node is the last of the path, its first \<open>i\<close> children done.\<close>

definition entered ::
  "(string \<Rightarrow> string list) \<Rightarrow> string set \<Rightarrow> string \<Rightarrow> nat \<Rightarrow> (string \<times> nat) list \<Rightarrow> string list
   \<Rightarrow> (string \<Rightarrow> colour) \<Rightarrow> bool" where
  "entered deps K n i rest path col \<longleftrightarrow>
     (\<exists>q. path = q @ [n] \<and> frames deps col rest (rev q) (Some n))
     \<and> n \<in> K \<and> i \<le> length (deps n) \<and> (\<forall>j < i. col (deps n ! j) = C_BLACK)
     \<and> distinct path \<and> {x. col x = C_GREY} = set path \<and> set path \<subseteq> K
     \<and> {x. col x = C_BLACK} \<subseteq> K
     \<and> (\<forall>x. col x = C_BLACK \<longrightarrow> (\<forall>y \<in> set (deps x). col y = C_BLACK))
     \<and> acyclic (dep_edges deps {x. col x = C_BLACK})"

lemma dfs_inv_entered:
  assumes "dfs_inv deps K ((n, i) # rest) path col"
  shows "entered deps K n i rest (if i = 0 then path @ [n] else path)
           (if i = 0 then col(n := C_GREY) else col)"
proof (cases "i = 0")
  case True
  note e = dfs_inv_enter [OF assms [unfolded True]]
  from assms have rest: "n \<in> K" "\<forall>x. col x = C_BLACK \<longrightarrow> (\<forall>y \<in> set (deps x). col y = C_BLACK)"
    "acyclic (dep_edges deps {x. col x = C_BLACK})" "{x. col x = C_BLACK} \<subseteq> K" "col n = C_WHITE"
    by (auto simp: dfs_inv_def True)
  from rest(2,5) have "\<forall>x. (col(n := C_GREY)) x = C_BLACK
      \<longrightarrow> (\<forall>y \<in> set (deps x). (col(n := C_GREY)) y = C_BLACK)" by auto
  moreover have "acyclic (dep_edges deps {x. (col(n := C_GREY)) x = C_BLACK})"
    "{x. (col(n := C_GREY)) x = C_BLACK} \<subseteq> K"
    using rest(3,4) by (simp_all only: e(4))
  ultimately show ?thesis
    unfolding entered_def using e rest(1) True by (simp del: fun_upd_apply)
next
  case False
  with assms have fr: "frames deps col ((n, i) # rest) (rev path) None" by (simp add: dfs_inv_def)
  then obtain p rp where rp: "rev path = p # rp" by (cases "rev path") auto
  then have "path = rev rp @ [p]" by (metis rev_rev_ident rev.simps(2))
  with fr rp assms False show ?thesis by (auto simp: entered_def dfs_inv_def)
qed

lemma entered_next_white:
  assumes "entered deps K n i rest path col" "i < length (deps n)" "col (deps n ! i) = C_WHITE"
    "set (deps n) \<subseteq> K"
  shows "dfs_inv deps K ((deps n ! i, 0) # (n, Suc i) # rest) path col"
proof -
  from assms(1) obtain q where q: "path = q @ [n]" "frames deps col rest (rev q) (Some n)"
    by (auto simp: entered_def)
  from assms(2,4) have "deps n ! i \<in> K" by (meson nth_mem subsetD)
  with assms q show ?thesis by (auto simp: dfs_inv_def entered_def)
qed

lemma entered_next_black:
  assumes "entered deps K n i rest path col" "i < length (deps n)" "col (deps n ! i) = C_BLACK"
  shows "dfs_inv deps K ((n, Suc i) # rest) path col"
proof -
  from assms(1) obtain q where q: "path = q @ [n]" "frames deps col rest (rev q) (Some n)"
    by (auto simp: entered_def)
  from assms have "\<forall>j < Suc i. col (deps n ! j) = C_BLACK"
    by (auto simp: entered_def less_Suc_eq)
  with assms q show ?thesis by (auto simp: dfs_inv_def entered_def)
qed

lemma entered_finish:
  assumes "entered deps K n (length (deps n)) rest path col"
  shows "dfs_inv deps K rest (butlast path) (col(n := C_BLACK))"
proof -
  let ?c = "col(n := C_BLACK)"
  from assms obtain q where q: "path = q @ [n]" and fr: "frames deps col rest (rev q) (Some n)"
    by (auto simp: entered_def)
  from assms have fin: "set (deps n) \<subseteq> {x. col x = C_BLACK}"
    by (auto simp: entered_def in_set_conv_nth)
  from assms q have grey: "{x. ?c x = C_GREY} = set q" and n: "col n = C_GREY"
    by (auto simp: entered_def)
  have black: "{x. ?c x = C_BLACK} = insert n {x. col x = C_BLACK}" by auto
  have acy: "acyclic (dep_edges deps {x. ?c x = C_BLACK})"
    unfolding black using assms n fin
    by (intro acyclic_insert_closed) (auto simp: entered_def)
  have fr': "frames deps ?c rest (rev q) (Some n)" by (rule frames_mono [OF fr]) auto
  have top: "case rest of [] \<Rightarrow> q = [] | (m, i) # r \<Rightarrow> m \<in> K \<and>
      (if i = 0 then ?c m = C_WHITE \<and> frames deps ?c r (rev q) (Some m)
       else frames deps ?c rest (rev q) None)"
  proof (cases rest)
    case Nil
    with fr' show ?thesis by simp
  next
    case (Cons a r)
    obtain m i where a: "a = (m, i)" by (metis surj_pair)
    from fr' obtain p rp where rp: "rev q = p # rp" by (cases "rev q") (auto simp: Cons a)
    with fr' have m: "m = p" "1 \<le> i" "i \<le> length (deps m)" "deps m ! (i - 1) = n"
      "\<forall>j < i - 1. ?c (deps m ! j) = C_BLACK" "frames deps ?c r rp (Some m)"
      by (auto simp: Cons a)
    have "?c (deps m ! j) = C_BLACK" if "j < i" for j
      using that m(4,5) by (cases "j = i - 1") auto
    moreover have "m \<in> K" using m(1) rp q assms by (auto simp: entered_def dest: arg_cong [where f = set])
    ultimately show ?thesis using m rp by (auto simp: Cons a)
  qed
  have "\<forall>x. ?c x = C_BLACK \<longrightarrow> (\<forall>y \<in> set (deps x). ?c y = C_BLACK)"
    using assms fin by (auto simp: entered_def)
  with acy grey top assms q show ?thesis
    by (auto simp: dfs_inv_def entered_def)
qed

lemma entered_cycle:
  assumes "entered deps K n i rest path col" "i < length (deps n)" "col (deps n ! i) = C_GREY"
  shows "is_cycle deps K (dropWhile (\<lambda>x. x \<noteq> deps n ! i) path @ [deps n ! i])"
proof -
  let ?t = "deps n ! i"
  from assms(1) obtain q where q: "path = q @ [n]" and fr: "frames deps col rest (rev q) (Some n)"
    by (auto simp: entered_def)
  from assms(1,3) have "?t \<in> set path" by (auto simp: entered_def)
  then obtain a b where ab: "path = a @ ?t # b" "?t \<notin> set a" by (meson split_list_first)
  then have dw: "dropWhile (\<lambda>x. x \<noteq> ?t) path = ?t # b"
    by (auto simp: dropWhile_append3 intro: dropWhile_append2 [THEN trans])
  have "dep_path deps (path @ [?t])"
    using frames_path [OF fr] assms(2) by (simp add: q dep_path_append)
  with ab(1) have "dep_path deps (?t # b @ [?t])" using dep_path_suffix [of deps a] by simp
  moreover have "set (?t # b) \<subseteq> K" using assms(1) ab(1) by (auto simp: entered_def)
  ultimately show ?thesis using dw by (simp add: is_cycle_def)
qed

section \<open>Termination and correctness\<close>

text \<open>What the search from one node delivers: a cycle, or a larger finished (black) set.\<close>

definition visit_result ::
  "(string \<Rightarrow> string list) \<Rightarrow> string set \<Rightarrow> (string \<Rightarrow> colour) \<Rightarrow> string set
   \<Rightarrow> string list \<times> (string \<Rightarrow> colour) \<Rightarrow> bool" where
  "visit_result deps K col N r \<longleftrightarrow>
     (if fst r = [] then dfs_inv deps K [] [] (snd r)
        \<and> {x. col x = C_BLACK} \<union> N \<subseteq> {x. snd r x = C_BLACK}
      else is_cycle deps K (fst r))"

lemma visit_result_mono:
  assumes "visit_result deps K col' N' r" "{x. col x = C_BLACK} \<union> N \<subseteq> {x. col' x = C_BLACK} \<union> N'"
  shows "visit_result deps K col N r"
  using assms unfolding visit_result_def by (smt (verit, best) Un_subset_iff subset_trans)

lemma visit_loop_correct:
  assumes K: "finite K" "\<And>u. u \<in> K \<Longrightarrow> set (deps u) \<subseteq> K"
    and "dfs_inv deps K stack path col"
  shows "\<exists>r. visit_loop deps stack path col = Some r
           \<and> visit_result deps K col (fst ` set stack) r"
  using assms(3)
proof (induction "weight deps K stack col" arbitrary: stack path col rule: less_induct)
  case less
  show ?case
  proof (cases stack)
    case Nil
    have "visit_loop deps [] path col = Some ([], col)" by (subst visit_loop.simps) simp
    with Nil less.prems show ?thesis by (auto simp: visit_result_def dfs_inv_def)
  next
    case (Cons a rest)
    obtain n i where a: "a = (n, i)" by (metis surj_pair)
    let ?col = "if i = 0 then col(n := C_GREY) else col"
    let ?path = "if i = 0 then path @ [n] else path"
    have ent: "entered deps K n i rest ?path ?col"
      using dfs_inv_entered less.prems unfolding Cons a by blast
    then have nK: "n \<in> K" and ile: "i \<le> length (deps n)" by (auto simp: entered_def)
    have white: "i = 0 \<Longrightarrow> col n = C_WHITE" using less.prems by (simp add: Cons a dfs_inv_def)
    have black: "{x. ?col x = C_BLACK} = {x. col x = C_BLACK}" using white by auto
    have drop: "white_sum deps K col = white_sum deps K (col(n := c)) + (2 * length (deps n) + 2)"
      if "c \<noteq> C_WHITE" "i = 0" for c
      by (rule white_sum_drop) (use K(1) nK white that in auto)
    have step: "visit_loop deps stack path col =
       (if i < length (deps n) then
          (if ?col (deps n ! i) = C_GREY
           then Some (dropWhile (\<lambda>x. x \<noteq> deps n ! i) ?path @ [deps n ! i], ?col)
           else if ?col (deps n ! i) = C_WHITE
           then visit_loop deps ((deps n ! i, 0) # (n, Suc i) # rest) ?path ?col
           else visit_loop deps ((n, Suc i) # rest) ?path ?col)
        else visit_loop deps rest (butlast ?path) (?col(n := C_BLACK)))"
      unfolding Cons a by (subst visit_loop.simps) (simp add: Let_def)
    consider (grey) "i < length (deps n)" "?col (deps n ! i) = C_GREY"
      | (white) "i < length (deps n)" "?col (deps n ! i) = C_WHITE"
      | (black) "i < length (deps n)" "?col (deps n ! i) = C_BLACK"
      | (finish) "i = length (deps n)"
      using ile by (metis colour.exhaust le_neq_implies_less)
    then show ?thesis
    proof cases
      case grey
      with entered_cycle [OF ent] show ?thesis by (simp add: step visit_result_def)
    next
      case white
      let ?stack = "(deps n ! i, 0) # (n, Suc i) # rest"
      have "weight deps K ?stack ?col < weight deps K stack col"
        using white(1) drop [of C_GREY] by (auto simp: weight_def Cons a)
      from less.hyps [OF this entered_next_white [OF ent white K(2) [OF nK]]]
      obtain r where "visit_loop deps ?stack ?path ?col = Some r"
        "visit_result deps K ?col (fst ` set ?stack) r" by blast
      moreover from this(2) have "visit_result deps K col (fst ` set stack) r"
        by (rule visit_result_mono) (use black in \<open>auto simp: Cons a\<close>)
      ultimately show ?thesis using white by (auto simp only: step if_True if_False colour.distinct simp_thms)
    next
      case black
      let ?stack = "(n, Suc i) # rest"
      have "weight deps K ?stack ?col < weight deps K stack col"
        using black(1) drop [of C_GREY] by (auto simp: weight_def Cons a)
      from less.hyps [OF this entered_next_black [OF ent black]]
      obtain r where "visit_loop deps ?stack ?path ?col = Some r"
        "visit_result deps K ?col (fst ` set ?stack) r" by blast
      moreover from this(2) have "visit_result deps K col (fst ` set stack) r"
        by (rule visit_result_mono)
           (use \<open>{x. ?col x = C_BLACK} = {x. col x = C_BLACK}\<close> in \<open>auto simp: Cons a\<close>)
      ultimately show ?thesis using black by (auto simp only: step if_True if_False colour.distinct)
    next
      case finish
      let ?c = "?col(n := C_BLACK)"
      have "weight deps K rest ?c < weight deps K stack col"
      proof (cases "i = 0")
        case True
        with drop [of C_BLACK] show ?thesis by (auto simp: weight_def Cons a)
      next
        case False
        have "n \<in> {x. col x = C_GREY}" using False ent by (auto simp: entered_def)
        then have "col n \<noteq> C_WHITE" by simp
        then have "{x \<in> K. ?c x = C_WHITE} = {x \<in> K. col x = C_WHITE}" using False by auto
        then have "white_sum deps K ?c = white_sum deps K col" by (simp only: white_sum_def)
        with False show ?thesis by (simp add: weight_def Cons a del: fun_upd_apply)
      qed
      moreover have "dfs_inv deps K rest (butlast ?path) ?c"
        by (rule entered_finish) (use ent in \<open>simp only: finish\<close>)
      ultimately obtain r where "visit_loop deps rest (butlast ?path) ?c = Some r"
        "visit_result deps K ?c (fst ` set rest) r" using less.hyps by blast
      moreover from this(2) have "visit_result deps K col (fst ` set stack) r"
        by (rule visit_result_mono) (use black in \<open>auto simp: Cons a\<close>)
      ultimately show ?thesis using finish by (auto simp only: step less_irrefl if_False)
    qed
  qed
qed

lemma dfs_inv_start:
  assumes "dfs_inv deps K [] [] col" "col a = C_WHITE" "a \<in> K"
  shows "dfs_inv deps K [(a, 0)] [] col"
  using assms by (auto simp: dfs_inv_def)

definition find_result ::
  "(string \<Rightarrow> string list) \<Rightarrow> string set \<Rightarrow> string set \<Rightarrow> string list \<Rightarrow> bool" where
  "find_result deps K B c \<longleftrightarrow>
     (if c = [] then \<exists>col. dfs_inv deps K [] [] col \<and> B \<subseteq> {x. col x = C_BLACK}
      else is_cycle deps K c)"

lemma find_result_mono: "find_result deps K B' c \<Longrightarrow> B \<subseteq> B' \<Longrightarrow> find_result deps K B c"
  unfolding find_result_def by (metis order_trans)

lemma find_cycle_from_correct:
  assumes K: "finite K" "\<And>u. u \<in> K \<Longrightarrow> set (deps u) \<subseteq> K"
    and "dfs_inv deps K [] [] col" "set as \<subseteq> K"
  shows "\<exists>c. find_cycle_from deps as col = Some c
     \<and> find_result deps K ({x. col x = C_BLACK} \<union> set as) c"
  using assms(3,4)
proof (induction as arbitrary: col)
  case Nil
  then show ?case by (auto simp: find_result_def)
next
  case (Cons a as)
  show ?case
  proof (cases "col a = C_WHITE")
    case True
    from Cons.prems have "dfs_inv deps K [(a, 0)] [] col"
      by (intro dfs_inv_start) (use True in auto)
    from visit_loop_correct [OF K this] obtain c col1
      where v: "visit_for_cycle deps a col = Some (c, col1)"
        "visit_result deps K col {a} (c, col1)" by (auto simp: visit_for_cycle_def)
    show ?thesis
    proof (cases "c = []")
      case False
      with v True show ?thesis by (auto simp: visit_result_def find_result_def)
    next
      case c: True
      with v have i: "dfs_inv deps K [] [] col1"
        and bl: "{x. col x = C_BLACK} \<union> {a} \<subseteq> {x. col1 x = C_BLACK}"
        by (auto simp: visit_result_def)
      from Cons.IH [OF i] Cons.prems(2) obtain c' where
        c': "find_cycle_from deps as col1 = Some c'"
        "find_result deps K ({x. col1 x = C_BLACK} \<union> set as) c'" by auto
      have "find_cycle_from deps (a # as) col = Some c'" using True v(1) c c'(1) by simp
      moreover have "find_result deps K ({x. col x = C_BLACK} \<union> set (a # as)) c'"
        by (rule find_result_mono [OF c'(2)]) (use bl in auto)
      ultimately show ?thesis by blast
    qed
  next
    case False
    moreover have "col a \<noteq> C_GREY" using Cons.prems(1) by (auto simp: dfs_inv_def)
    ultimately have bl: "col a = C_BLACK" by (cases "col a") auto
    from Cons.IH [OF Cons.prems(1)] Cons.prems(2) obtain c where
      "find_cycle_from deps as col = Some c"
      "find_result deps K ({x. col x = C_BLACK} \<union> set as) c" by auto
    moreover have "find_result deps K ({x. col x = C_BLACK} \<union> set (a # as)) c"
      by (rule find_result_mono [OF \<open>find_result deps K _ c\<close>]) (use bl in auto)
    ultimately show ?thesis using False by auto
  qed
qed

lemma dep_path_trancl:
  "dep_path deps (u # xs) \<Longrightarrow> xs \<noteq> [] \<Longrightarrow> set (u # xs) \<subseteq> K \<Longrightarrow> (u, last xs) \<in> (dep_edges deps K)\<^sup>+"
proof (induction xs arbitrary: u)
  case (Cons v xs)
  then have e: "(u, v) \<in> dep_edges deps K" by (auto simp: dep_edges_def)
  show ?case
  proof (cases "xs = []")
    case False
    with Cons have "(v, last xs) \<in> (dep_edges deps K)\<^sup>+" by auto
    with e False show ?thesis by (simp add: trancl_into_trancl2)
  qed (use e in auto)
qed simp

lemma cycle_not_acyclic: "is_cycle deps K c \<Longrightarrow> \<not> acyclic (dep_edges deps K)"
proof -
  assume c: "is_cycle deps K c"
  then obtain u xs where u: "c = u # xs" "xs \<noteq> []"
    by (cases c; cases "tl c") (auto simp: is_cycle_def)
  with c dep_path_trancl [of deps u xs K] have "(u, u) \<in> (dep_edges deps K)\<^sup>+"
    by (auto simp: is_cycle_def)
  then show ?thesis by (auto simp: acyclic_def)
qed

theorem find_cycle_decides:
  assumes "\<And>u. u \<in> set agents \<Longrightarrow> set (deps u) \<subseteq> set agents"
  shows "\<exists>c. find_cycle deps agents = Some c
    \<and> (c = [] \<longleftrightarrow> acyclic (dep_edges deps (set agents)))
    \<and> (c \<noteq> [] \<longrightarrow> is_cycle deps (set agents) c)"
proof -
  let ?K = "set agents"
  have start: "dfs_inv deps ?K [] [] (\<lambda>_. C_WHITE)" by (simp add: dfs_inv_def dep_edges_def acyclic_def)
  from find_cycle_from_correct [OF _ assms start, of agents] obtain c where
    c: "find_cycle deps agents = Some c" "find_result deps ?K ({x. C_WHITE = C_BLACK} \<union> ?K) c"
    by (auto simp: find_cycle_def)
  have "c = [] \<Longrightarrow> acyclic (dep_edges deps ?K)"
  proof -
    assume "c = []"
    with c(2) obtain col' where i: "dfs_inv deps ?K [] [] col'" "set agents \<subseteq> {x. col' x = C_BLACK}"
      unfolding find_result_def by (metis Un_subset_iff)
    then have "{x. col' x = C_BLACK} = ?K" by (auto simp: dfs_inv_def)
    with i(1) show ?thesis by (auto simp: dfs_inv_def)
  qed
  moreover have "acyclic (dep_edges deps ?K) \<Longrightarrow> c = []"
    using c(2) cycle_not_acyclic [of deps ?K c] unfolding find_result_def by presburger
  moreover have "c \<noteq> [] \<Longrightarrow> is_cycle deps ?K c" using c(2) unfolding find_result_def by presburger
  ultimately show ?thesis using c(1) by blast
qed

end
