(* ===== verification/RegistryService.thy ===== *)
theory RegistryService
  imports RegistryStore DependencyCycle
begin

text \<open>
  \<open>RegistryService\<close> (\<open>registry/service.py\<close>): the facade over the agent, tool and schema stores and
  its cross-record integrity check. \<open>check_integrity\<close> is \<open>None\<close> only if the cycle search did not
  return, which \<open>check_integrity_returns\<close> excludes.
\<close>

record registry =
  agents :: "agent_record file_tree"
  tools :: "tool_record file_tree"
  schemas :: "schema_record file_tree"

definition agents_get :: "registry \<Rightarrow> string \<Rightarrow> reg_error + agent_record" where
  "agents_get reg i = get agent_schema_ok (agents reg) i None"

definition agents_get_optional :: "registry \<Rightarrow> string \<Rightarrow> reg_error + agent_record option" where
  "agents_get_optional reg i = get_optional agent_schema_ok (agents reg) i None"

definition tools_get_optional :: "registry \<Rightarrow> string \<Rightarrow> int option \<Rightarrow> reg_error + tool_record option" where
  "tools_get_optional reg i v = get_optional tool_schema_ok (tools reg) i v"

definition resolve_agent_tools :: "registry \<Rightarrow> string \<Rightarrow> reg_error + tool_record list" where
  "resolve_agent_tools reg i = sbind (agents_get reg i) (\<lambda>a.
     mapM_sum (\<lambda>ref. get tool_schema_ok (tools reg) (tr_tool_id ref) (Some (tr_version ref)))
       (ag_tool_refs a))"

definition active_agent_count :: "registry \<Rightarrow> reg_error + nat" where
  "active_agent_count reg = sbind (list_active agent_schema_ok (agents reg)) (\<lambda>as. Inr (length as))"

section \<open>Cross-record integrity\<close>

definition unresolved :: "string \<Rightarrow> string \<Rightarrow> string \<Rightarrow> string" where
  "unresolved i verb x = ''agent '' @ quoted i @ verb @ quoted x @ '' which has no active version''"

definition agent_violations ::
  "agent_record \<Rightarrow> (string \<times> agent_record) list \<Rightarrow> string list \<Rightarrow> string list" where
  "agent_violations a active_agents active_tools =
     [unresolved (rec_id a) '' references tool '' (tr_tool_id ref).
        ref \<leftarrow> ag_tool_refs a, tr_tool_id ref \<notin> set active_tools]
     @ [unresolved (rec_id a) '' depends_on '' d.
        d \<leftarrow> ag_depends_on a, d \<notin> fst ` set active_agents]
     @ [unresolved (rec_id a) '' excludes '' (ex_agent_id e).
        e \<leftarrow> ag_excludes a, ex_agent_id e \<notin> fst ` set active_agents]
     @ [''compound '' @ unresolved (rec_id a) '' includes '' m.
        m \<leftarrow> ag_compound_of a, m \<notin> fst ` set active_agents]
     @ (if \<not> distinct (map ex_priority (ag_excludes a))
        then [''agent '' @ quoted (rec_id a)
              @ '' has duplicate exclusion priorities - tie-break is ambiguous'']
        else [])"

text \<open>The \<open>depends_on\<close> graph the cycle search walks: dependencies outside \<open>agents\<close> are ignored.\<close>

definition graph_deps :: "(string \<times> agent_record) list \<Rightarrow> string \<Rightarrow> string list" where
  "graph_deps as n =
     (case map_of as n of
        None \<Rightarrow> []
      | Some a \<Rightarrow> filter (\<lambda>d. d \<in> fst ` set as) (ag_depends_on a))"

definition find_dependency_cycle :: "(string \<times> agent_record) list \<Rightarrow> string list option" where
  "find_dependency_cycle as = find_cycle (graph_deps as) (map fst as)"

definition agents_by_id :: "agent_record list \<Rightarrow> (string \<times> agent_record) list" where
  "agents_by_id xs = foldl (\<lambda>d a. AList.update (rec_id a) a d) [] xs"

definition check_integrity :: "registry \<Rightarrow> (reg_error + unit) option" where
  "check_integrity reg =
     (case list_active agent_schema_ok (agents reg) of
        Inl e \<Rightarrow> Some (Inl e)
      | Inr act \<Rightarrow>
          (case list_active tool_schema_ok (tools reg) of
             Inl e \<Rightarrow> Some (Inl e)
           | Inr act_tools \<Rightarrow>
               (let active_agents = agents_by_id act;
                    violations = concat (map (\<lambda>(i, a).
                        agent_violations a active_agents (map rec_id act_tools)) active_agents)
                in case find_dependency_cycle active_agents of
                     None \<Rightarrow> None
                   | Some cycle \<Rightarrow>
                       (let all = violations @
                              (if cycle \<noteq> [] then [''depends_on graph has a cycle: '' @ join '' -> '' cycle]
                               else [])
                        in if all \<noteq> [] then Some (Inl (RegistryIntegrityError all))
                           else Some (Inr ())))))"

section \<open>What a passed check guarantees\<close>

lemma graph_deps_closed: "u \<in> set (map fst as) \<Longrightarrow> set (graph_deps as u) \<subseteq> set (map fst as)"
  by (auto simp: graph_deps_def split: option.splits)

lemma find_dependency_cycle_decides:
  "\<exists>c. find_dependency_cycle as = Some c
     \<and> (c = [] \<longleftrightarrow> acyclic (dep_edges (graph_deps as) (fst ` set as)))
     \<and> (c \<noteq> [] \<longrightarrow> is_cycle (graph_deps as) (fst ` set as) c)"
  using find_cycle_decides [of "map fst as" "graph_deps as"] graph_deps_closed [of _ as]
  by (simp add: find_dependency_cycle_def)

lemma check_integrity_returns: "\<exists>r. check_integrity reg = Some r"
proof (cases "list_active agent_schema_ok (agents reg)")
  case (Inr act)
  obtain c where "find_dependency_cycle (agents_by_id act) = Some c"
    using find_dependency_cycle_decides by blast
  with Inr show ?thesis
    by (cases "list_active tool_schema_ok (tools reg)") (auto simp: check_integrity_def Let_def)
qed (simp add: check_integrity_def)

lemma agents_by_id_Nil [simp]: "agents_by_id [] = []"
  by (simp add: agents_by_id_def)

lemma agents_by_id_snoc: "agents_by_id (xs @ [a]) = AList.update (rec_id a) a (agents_by_id xs)"
  by (simp add: agents_by_id_def)

lemma agents_by_id_keys: "fst ` set (agents_by_id xs) = rec_id ` set xs"
  by (induction xs rule: rev_induct) (simp_all add: agents_by_id_snoc)

lemma agents_by_id_distinct: "distinct (map fst (agents_by_id xs))"
  by (induction xs rule: rev_induct) (simp_all add: agents_by_id_snoc distinct_update_list)

lemma agents_by_id_sub: "(i, a) \<in> set (agents_by_id xs) \<Longrightarrow> a \<in> set xs \<and> rec_id a = i"
proof (induction xs rule: rev_induct)
  case (snoc x xs)
  from snoc.prems have "(i, a) \<in> insert (rec_id x, x) (set (agents_by_id xs))"
    unfolding agents_by_id_snoc by (rule subsetD [OF set_update_subset])
  with snoc.IH show ?case by auto
qed simp

lemma filter_comprehension_Nil: "[f x. x \<leftarrow> xs, P x] = [] \<longleftrightarrow> (\<forall>x \<in> set xs. \<not> P x)"
  by (induction xs) auto

text \<open>The rules one agent has to satisfy against the active agents and tools.\<close>

definition references_resolved :: "agent_record \<Rightarrow> string set \<Rightarrow> string set \<Rightarrow> bool" where
  "references_resolved a agent_ids tool_ids \<longleftrightarrow>
     tr_tool_id ` set (ag_tool_refs a) \<subseteq> tool_ids \<and> set (ag_depends_on a) \<subseteq> agent_ids
     \<and> ex_agent_id ` set (ag_excludes a) \<subseteq> agent_ids \<and> set (ag_compound_of a) \<subseteq> agent_ids
     \<and> distinct (map ex_priority (ag_excludes a))"

lemma agent_violations_Nil:
  "agent_violations a as ts = [] \<longleftrightarrow> references_resolved a (fst ` set as) (set ts)"
  unfolding agent_violations_def references_resolved_def append_is_Nil_conv filter_comprehension_Nil
  by (auto split: if_splits)

text \<open>
  The registry as the planner sees it: looking an active agent up succeeds, its dependencies are
  active agents again, and the dependency relation over them has no cycle.
\<close>

definition agent_deps :: "registry \<Rightarrow> string \<Rightarrow> string list" where
  "agent_deps reg i = (case agents_get reg i of Inl _ \<Rightarrow> [] | Inr a \<Rightarrow> ag_depends_on a)"

definition active_ids :: "registry \<Rightarrow> string set" where
  "active_ids reg = {i. \<exists>a. agents_get reg i = Inr a \<and> rec_status a = ACTIVE}"

lemma list_active_get:
  assumes ok: "store_ok (agents reg)" and la: "list_active agent_schema_ok (agents reg) = Inr act"
  shows "a \<in> set act \<longleftrightarrow> agents_get reg (rec_id a) = Inr a \<and> rec_status a = ACTIVE"
proof
  assume "a \<in> set act"
  from list_active_sound [OF la this] obtain i where
    "rec_status a = ACTIVE" "get agent_schema_ok (agents reg) i None = Inr a" by blast
  with get_active [OF ok, of agent_schema_ok i a] show
    "agents_get reg (rec_id a) = Inr a \<and> rec_status a = ACTIVE" by (auto simp: agents_get_def)
next
  assume a: "agents_get reg (rec_id a) = Inr a \<and> rec_status a = ACTIVE"
  from la obtain ids os where ids: "fb_list_ids (agents reg) = Inr ids"
    and os: "mapM_sum (\<lambda>i. get_optional agent_schema_ok (agents reg) i None) ids = Inr os"
    and act: "act = [r. Some r \<leftarrow> os, rec_status r = ACTIVE]"
    unfolding list_active_def sbind_Inr_iff by blast
  from get_active [OF ok, of agent_schema_ok "rec_id a" a] a
  have "fb_content (agents reg) (rec_id a) \<noteq> None" by (auto simp: agents_get_def)
  with ids fb.list_ids_content [OF store_ok_invar [OF ok]] have "rec_id a \<in> set ids" by auto
  from mapM_sum_set2 [OF os this] a have "Some a \<in> set os"
    by (auto simp: agents_get_def get_optional_def)
  with a act show "a \<in> set act" by force
qed

theorem integrity_gives_dag:
  assumes ok: "store_ok (agents reg)" and chk: "check_integrity reg = Some (Inr ())"
  shows "(\<forall>i \<in> active_ids reg. set (agent_deps reg i) \<subseteq> active_ids reg)
       \<and> acyclic (dep_edges (agent_deps reg) (active_ids reg)) \<and> finite (active_ids reg)"
proof -
  obtain act where la: "list_active agent_schema_ok (agents reg) = Inr act"
    using chk by (cases "list_active agent_schema_ok (agents reg)") (auto simp: check_integrity_def)
  obtain ts where lt: "list_active tool_schema_ok (tools reg) = Inr ts"
    using chk la by (cases "list_active tool_schema_ok (tools reg)") (auto simp: check_integrity_def)
  obtain c where c: "find_dependency_cycle (agents_by_id act) = Some c"
    using find_dependency_cycle_decides by blast
  have no: "concat (map (\<lambda>(i, a). agent_violations a (agents_by_id act) (map rec_id ts))
      (agents_by_id act)) = []" and "c = []"
    using chk la lt c by (simp_all add: check_integrity_def Let_def split: if_splits)
  with c have cyc: "find_dependency_cycle (agents_by_id act) = Some []" by simp
  let ?as = "agents_by_id act"
  note la_get = list_active_get [OF ok la]
  have ids: "fst ` set ?as = active_ids reg"
    unfolding agents_by_id_keys active_ids_def using la_get get_active [OF ok]
    by (force simp: agents_get_def)
  have lookup: "map_of ?as i = Some a \<Longrightarrow> agents_get reg i = Inr a" for i a
    using agents_by_id_sub la_get by (metis map_of_SomeD)
  have deps: "graph_deps ?as i = agent_deps reg i" if "i \<in> active_ids reg" for i
  proof -
    from that ids obtain a where a: "map_of ?as i = Some a"
      by (metis domD dom_map_of_conv_image_fst)
    with no have "agent_violations a ?as (map rec_id ts) = []"
      by (auto dest!: map_of_SomeD)
    then have "set (ag_depends_on a) \<subseteq> fst ` set ?as" by (simp add: agent_violations_Nil references_resolved_def)
    with a lookup [OF a] show ?thesis by (auto simp: graph_deps_def agent_deps_def filter_id_conv)
  qed
  have closed: "set (agent_deps reg i) \<subseteq> active_ids reg" if "i \<in> active_ids reg" for i
    using graph_deps_closed [of i ?as] that ids deps by auto
  moreover have "dep_edges (graph_deps ?as) (fst ` set ?as) = dep_edges (agent_deps reg) (active_ids reg)"
    unfolding ids using deps by (auto simp: dep_edges_def)
  moreover have "finite (active_ids reg)" using ids by (metis List.finite_set finite_imageI)
  ultimately show ?thesis using find_dependency_cycle_decides [of ?as] cyc by auto
qed

end
