(* ===== verification/RoutePlan.thy ===== *)
theory RoutePlan
  imports RegistryService
begin

text \<open>
  The plan assembly of the router (\<open>router/plan.py\<close>): from the agents the funnel selected per
  sub-query to the dependency-ordered list of plan steps. The nested recursive \<open>visit\<close> functions
  carry a fuel argument that bounds the recursion depth; \<open>None\<close> is running out of it, and the
  theory proves that the fuel the callers pass is always enough.
\<close>

record parameter_binding =
  pb_from_step :: string
  pb_from_field :: string
  pb_to_param :: string
  pb_required :: bool

record plan_step =
  ps_step_id :: string
  ps_agent_id :: string
  ps_parameters :: "(string \<times> string) list"
  ps_depends_on :: "string list"
  ps_parameter_bindings :: "parameter_binding list"
  ps_dependency_types :: "(string \<times> string) list"

text \<open>\<open>PlanStep.dependency_type\<close>: \<open>"hard"\<close> unless the step says otherwise.\<close>

definition dependency_type :: "plan_step \<Rightarrow> string \<Rightarrow> string" where
  "dependency_type s dep =
     (case map_of (ps_dependency_types s) dep of None \<Rightarrow> ''hard'' | Some kind \<Rightarrow> kind)"

record route_plan =
  rp_steps :: "plan_step list"

definition plan_agent_ids :: "route_plan \<Rightarrow> string list" where
  "plan_agent_ids p = map ps_agent_id (rp_steps p)"

definition is_parallelisable :: "route_plan \<Rightarrow> bool" where
  "is_parallelisable p = list_all (\<lambda>s. ps_depends_on s = []) (rp_steps p)"

datatype route_outcome = ROUTED | NO_CONFIDENT_MATCH | POLICY_DENIED

record route_result =
  rr_outcome :: route_outcome
  rr_plan :: "route_plan option"
  rr_boundary_reason :: string
  rr_diagnostics :: "string list"
  rr_unrouted :: "string list"

definition routed :: "route_plan \<Rightarrow> string list \<Rightarrow> string list \<Rightarrow> route_result" where
  "routed p diag unr = \<lparr>rr_outcome = ROUTED, rr_plan = Some p, rr_boundary_reason = [],
     rr_diagnostics = diag, rr_unrouted = unr\<rparr>"

definition no_match :: "string \<Rightarrow> string list \<Rightarrow> route_result" where
  "no_match reason diag = \<lparr>rr_outcome = NO_CONFIDENT_MATCH, rr_plan = None,
     rr_boundary_reason = reason, rr_diagnostics = diag, rr_unrouted = []\<rparr>"

definition policy_denied :: "string \<Rightarrow> string list \<Rightarrow> route_result" where
  "policy_denied reason diag = \<lparr>rr_outcome = POLICY_DENIED, rr_plan = None,
     rr_boundary_reason = reason, rr_diagnostics = diag, rr_unrouted = []\<rparr>"

record sub_query_route =
  sq_id :: string
  sq_agent_ids :: "string list"
  sq_parameters_by_agent :: "(string \<times> (string \<times> string) list) list"
  sq_depends_on :: "string list"
  sq_bindings :: "(string \<times> string \<times> string) list"

datatype plan_error =
    PlanRegistry reg_error
  | NoRoutedSubqueries
  | SubQueryCycle string
  | PlanKeyError string

definition plan_get :: "registry \<Rightarrow> string \<Rightarrow> plan_error + agent_record" where
  "plan_get reg i = (case agents_get reg i of Inl e \<Rightarrow> Inl (PlanRegistry e) | Inr a \<Rightarrow> Inr a)"

section \<open>Exclusions\<close>

text \<open>The loser of one declared exclusion between two selected agents.\<close>

definition exclusion_loser :: "string \<Rightarrow> exclusion_ref \<Rightarrow> agent_record \<Rightarrow> string" where
  "exclusion_loser i exc other =
     (let other_pri = (case find (\<lambda>e. ex_agent_id e = i) (ag_excludes other) of
                         None \<Rightarrow> -1 | Some e \<Rightarrow> ex_priority e)
      in if ex_priority exc \<ge> other_pri then ex_agent_id exc else i)"

definition apply_exclusions :: "string list \<Rightarrow> registry \<Rightarrow> plan_error + string list" where
  "apply_exclusions ids reg =
     sbind (sfold (\<lambda>dropped i. sbind (plan_get reg i) (\<lambda>a.
              sfold (\<lambda>dropped exc.
                  if ex_agent_id exc \<in> set ids
                  then sbind (plan_get reg (ex_agent_id exc)) (\<lambda>other.
                         Inr (insert (exclusion_loser i exc other) dropped))
                  else Inr dropped) dropped (ag_excludes a))) {} ids)
           (\<lambda>dropped. Inr (filter (\<lambda>i. i \<notin> dropped) ids))"

section \<open>Dependencies\<close>

primrec visit_agent ::
  "registry \<Rightarrow> nat \<Rightarrow> string list \<times> string list \<Rightarrow> string
   \<Rightarrow> (plan_error + string list \<times> string list) option" where
  "visit_agent reg 0 st i = None"
| "visit_agent reg (Suc fuel) st i =
     (if i \<in> set (snd st) then Some (Inr st)
      else case plan_get reg i of
        Inl e \<Rightarrow> Some (Inl e)
      | Inr a \<Rightarrow>
          (case efold (visit_agent reg fuel) (fst st, i # snd st) (ag_depends_on a) of
             None \<Rightarrow> None
           | Some (Inl e) \<Rightarrow> Some (Inl e)
           | Some (Inr st') \<Rightarrow> Some (Inr (fst st' @ [i], snd st'))))"

text \<open>The nesting depth is bounded by the number of records, plus one for an unknown id.\<close>

definition visit_fuel :: "registry \<Rightarrow> nat" where
  "visit_fuel reg = Suc (Suc (length (agents reg)))"

definition expand_with_deps :: "string list \<Rightarrow> registry \<Rightarrow> (plan_error + string list) option" where
  "expand_with_deps ids reg =
     (case efold (visit_agent reg (visit_fuel reg)) ([], []) ids of
        None \<Rightarrow> None
      | Some (Inl e) \<Rightarrow> Some (Inl e)
      | Some (Inr st) \<Rightarrow> Some (Inr (fst st)))"

text \<open>\<open>by_id\<close>: a later route with the same id replaces an earlier one.\<close>

definition routes_by_id :: "sub_query_route list \<Rightarrow> string \<rightharpoonup> sub_query_route" where
  "routes_by_id routes = map_of (rev (map (\<lambda>r. (sq_id r, r)) routes))"

text \<open>State of the traversal: emitted routes, finished ids, ids on the current path.\<close>

primrec visit_subquery ::
  "(string \<rightharpoonup> sub_query_route) \<Rightarrow> nat \<Rightarrow> sub_query_route list \<times> string list \<times> string list \<Rightarrow> string
   \<Rightarrow> (plan_error + sub_query_route list \<times> string list \<times> string list) option" where
  "visit_subquery by_id 0 st i = None"
| "visit_subquery by_id (Suc fuel) st i =
     (case st of (ordered, fin, act) \<Rightarrow>
        if i \<in> set fin then Some (Inr st)
        else case by_id i of
          None \<Rightarrow> Some (Inr st)
        | Some r \<Rightarrow>
            if i \<in> set act then Some (Inl (SubQueryCycle i))
            else (case efold (visit_subquery by_id fuel) (ordered, fin, i # act) (sq_depends_on r) of
                    None \<Rightarrow> None
                  | Some (Inl e) \<Rightarrow> Some (Inl e)
                  | Some (Inr (ordered', fin', act')) \<Rightarrow>
                      Some (Inr (ordered' @ [r], i # fin', removeAll i act'))))"

definition topo_subqueries :: "sub_query_route list \<Rightarrow> (plan_error + sub_query_route list) option" where
  "topo_subqueries routes =
     (case efold (visit_subquery (routes_by_id routes) (Suc (Suc (length routes)))) ([], [], [])
             (map sq_id routes) of
        None \<Rightarrow> None
      | Some (Inl e) \<Rightarrow> Some (Inl e)
      | Some (Inr (ordered, _, _)) \<Rightarrow> Some (Inr ordered))"

section \<open>Steps of one route\<close>

text \<open>
  \<open>_producer_output_fields\<close>: the output surface the producer's fast-path tool declares. The plan
  does not depend on the answer (the code only logs it), but the lookups may raise.
\<close>

definition producer_output_fields :: "registry \<Rightarrow> string \<Rightarrow> plan_error + string list" where
  "producer_output_fields reg i =
     (if i = [] then Inr []
      else case agents_get_optional reg i of
        Inl e \<Rightarrow> Inl (PlanRegistry e)
      | Inr None \<Rightarrow> Inr []
      | Inr (Some a) \<Rightarrow>
          (case ag_fast_path a of
             None \<Rightarrow> Inr []
           | Some fp \<Rightarrow>
               (case tools_get_optional reg (fp_primary_tool_id fp) None of
                  Inl e \<Rightarrow> Inl (PlanRegistry e)
                | Inr None \<Rightarrow> Inr []
                | Inr (Some t) \<Rightarrow> Inr (tl_output_fields t))))"

type_synonym bound_route = "parameter_binding list \<times> (string \<times> string) list \<times> string list"

definition resolve_route_binding ::
  "registry \<Rightarrow> (string \<times> string list) list \<Rightarrow> (string \<times> string) list \<Rightarrow> bound_route
   \<Rightarrow> string \<times> string \<times> string \<Rightarrow> plan_error + bound_route" where
  "resolve_route_binding reg steps_by_subquery terminal_agent acc b =
     (case acc of (bs, tys, extra) \<Rightarrow> case b of (from_sq, from_field, to_param) \<Rightarrow>
        (case map_of steps_by_subquery from_sq of
           None \<Rightarrow> Inr acc
         | Some ups \<Rightarrow>
             if ups = [] then Inr acc
             else sbind (producer_output_fields reg
                     (case map_of terminal_agent from_sq of None \<Rightarrow> [] | Some t \<Rightarrow> t)) (\<lambda>declared.
               let from_step = last ups in
               Inr (bs @ [\<lparr>pb_from_step = from_step, pb_from_field = from_field,
                           pb_to_param = to_param, pb_required = False\<rparr>],
                    tys @ [(from_step, ''soft'')], extra @ [from_step]))))"

definition resolve_route_bindings ::
  "sub_query_route \<Rightarrow> registry \<Rightarrow> (string \<times> string list) list \<Rightarrow> (string \<times> string) list
   \<Rightarrow> plan_error + bound_route" where
  "resolve_route_bindings route reg steps_by_subquery terminal_agent =
     sfold (resolve_route_binding reg steps_by_subquery terminal_agent) ([], [], []) (sq_bindings route)"

definition step_name :: "nat \<Rightarrow> string" where
  "step_name n = ''step_'' @ nat_str n"

definition local_ids :: "nat \<Rightarrow> string list \<Rightarrow> (string \<times> string) list" where
  "local_ids counter needed =
     fst (foldl (\<lambda>(d, c) i. (AList.update i (step_name (Suc c)) d, Suc c))
            ([], counter) needed)"

definition build_route_steps ::
  "sub_query_route \<Rightarrow> string list \<Rightarrow> (string \<times> string) list \<Rightarrow> string list \<Rightarrow> registry
   \<Rightarrow> parameter_binding list \<Rightarrow> (string \<times> string) list \<Rightarrow> string list \<Rightarrow> plan_error + plan_step list" where
  "build_route_steps route needed local upstream reg prim_bindings prim_dep_types prim_extra_deps =
     mapM_sum (\<lambda>i. sbind (plan_get reg i) (\<lambda>a.
       sbind (mapM_sum (\<lambda>d. case map_of local d of None \<Rightarrow> Inl (PlanKeyError d) | Some s \<Rightarrow> Inr s)
                (ag_depends_on a)) (\<lambda>local_deps.
         let params = (case map_of (sq_parameters_by_agent route) i of None \<Rightarrow> [] | Some ps \<Rightarrow> ps);
             dep_steps = local_deps @ upstream;
             is_primary = (needed \<noteq> [] \<and> i = last needed);
             deps = (if is_primary then dep_steps @ filter (\<lambda>d. d \<notin> set dep_steps) prim_extra_deps
                     else dep_steps)
         in case map_of local i of
              None \<Rightarrow> Inl (PlanKeyError i)
            | Some sid \<Rightarrow>
                Inr \<lparr>ps_step_id = sid, ps_agent_id = i, ps_parameters = sort_key fst params,
                     ps_depends_on = deps,
                     ps_parameter_bindings = (if is_primary then prim_bindings else []),
                     ps_dependency_types = (if is_primary then prim_dep_types else [])\<rparr>)))
       needed"

text \<open>
  The loop state of \<open>assemble_plan\<close>: steps so far, steps per sub-query, terminal agent per
  sub-query, step counter.
\<close>

record assembly =
  as_steps :: "plan_step list"
  as_by_subquery :: "(string \<times> string list) list"
  as_terminal :: "(string \<times> string) list"
  as_counter :: nat

definition assemble_route ::
  "registry \<Rightarrow> assembly \<Rightarrow> sub_query_route \<Rightarrow> (plan_error + assembly) option" where
  "assemble_route reg st route =
     (case apply_exclusions (sq_agent_ids route) reg of
        Inl e \<Rightarrow> Some (Inl e)
      | Inr surviving \<Rightarrow>
          (case expand_with_deps surviving reg of
             None \<Rightarrow> None
           | Some (Inl e) \<Rightarrow> Some (Inl e)
           | Some (Inr needed) \<Rightarrow>
               (let upstream = concat (map (\<lambda>d. case map_of (as_by_subquery st) d of
                                                  None \<Rightarrow> [] | Some ss \<Rightarrow> ss) (sq_depends_on route));
                    local = local_ids (as_counter st) needed
                in case sbind (resolve_route_bindings route reg (as_by_subquery st) (as_terminal st))
                     (\<lambda>(bs, tys, extra).
                        build_route_steps route needed local upstream reg bs tys extra) of
                     Inl e \<Rightarrow> Some (Inl e)
                   | Inr new \<Rightarrow>
                       Some (Inr \<lparr>as_steps = as_steps st @ new,
                         as_by_subquery = AList.update (sq_id route) (map snd local) (as_by_subquery st),
                         as_terminal = AList.update (sq_id route)
                           (if needed = [] then [] else last needed) (as_terminal st),
                         as_counter = as_counter st + length needed\<rparr>))))"

definition assemble_plan ::
  "sub_query_route list \<Rightarrow> registry \<Rightarrow> (plan_error + route_plan) option" where
  "assemble_plan routes reg =
     (let rs = filter (\<lambda>r. sq_agent_ids r \<noteq> []) routes in
      if rs = [] then Some (Inl NoRoutedSubqueries)
      else case topo_subqueries rs of
        None \<Rightarrow> None
      | Some (Inl e) \<Rightarrow> Some (Inl e)
      | Some (Inr ordered) \<Rightarrow>
          (case efold (assemble_route reg) \<lparr>as_steps = [], as_by_subquery = [], as_terminal = [], as_counter = 0\<rparr> ordered of
             None \<Rightarrow> None
           | Some (Inl e) \<Rightarrow> Some (Inl e)
           | Some (Inr st) \<Rightarrow> Some (Inr \<lparr>rp_steps = as_steps st\<rparr>)))"

section \<open>The fuel is enough\<close>

definition known_ids :: "registry \<Rightarrow> string set" where
  "known_ids reg = (snd \<circ> fst) ` set (agents reg)"

lemma finite_known [simp]: "finite (known_ids reg)"
  by (simp add: known_ids_def)

lemma fb_read_stem:
  assumes "fb_read fs i = Inr (Some f)"
  shows "i \<in> (snd \<circ> fst) ` set fs"
proof -
  from assms obtain p where p: "fb_path fs i = Inr p" and f: "map_of fs p \<noteq> None"
    by (auto simp: fb_read_def split: option.splits)
  have "snd p = i"
    using p by (auto simp: fb_path_def split: list.splits)
       (metis (mono_tags, lifting) filter_eq_ConsD snd_conv)
  with f show ?thesis by (force dest: map_of_SomeD)
qed

lemma plan_get_known: "plan_get reg i = Inr a \<Longrightarrow> i \<in> known_ids reg"
proof -
  assume "plan_get reg i = Inr a"
  then have "agents_get reg i = Inr a" by (simp add: plan_get_def split: sum.splits)
  then obtain e where "require_envelope (agents reg) i = Inr e" by (auto simp: agents_get_def get_def)
  then have "load_envelope (agents reg) i = Inr (Some e)"
    by (auto simp: require_envelope_def split: option.splits)
  then obtain f where "fb_read (agents reg) i = Inr (Some f)"
    by (auto simp: load_envelope_def split: option.splits)
  then show ?thesis unfolding known_ids_def by (rule fb_read_stem)
qed

lemma visit_agent_seen:
  "visit_agent reg fuel st i = Some (Inr st') \<Longrightarrow> set (snd st) \<subseteq> set (snd st')"
proof (induction fuel arbitrary: st i st')
  case (Suc fuel)
  show ?case
  proof (cases "i \<in> set (snd st)")
    case False
    with Suc.prems obtain a st1 where a: "plan_get reg i = Inr a"
      and f: "efold (visit_agent reg fuel) (fst st, i # snd st) (ag_depends_on a) = Some (Inr st1)"
      and st': "st' = (fst st1 @ [i], snd st1)"
      by (auto split: sum.splits option.splits)
    have "set (snd (fst st, i # snd st)) \<subseteq> set (snd st1)"
      by (rule efold_rel [where R = "\<lambda>s t. set (snd s) \<subseteq> set (snd t)", OF f]) (use Suc.IH in blast)+
    with st' show ?thesis by auto
  qed (use Suc.prems in auto)
qed simp

lemma card_remaining_less:
  "finite K \<Longrightarrow> i \<in> K \<Longrightarrow> i \<notin> S \<Longrightarrow> card (K - insert i S) < card (K - S)"
  by (intro psubset_card_mono) auto

lemma visit_agent_fuel:
  "card (known_ids reg - set (snd st)) < fuel \<Longrightarrow> visit_agent reg fuel st i \<noteq> None"
proof (induction fuel arbitrary: st i)
  case (Suc fuel)
  show ?case
  proof (cases "i \<in> set (snd st)")
    case False
    show ?thesis
    proof (cases "plan_get reg i")
      case (Inr a)
      let ?I = "\<lambda>s. card (known_ids reg - set (snd s)) < fuel"
      have "?I (fst st, i # snd st)"
        using card_remaining_less [OF finite_known plan_get_known [OF Inr] False] Suc.prems by simp
      then have "efold (visit_agent reg fuel) (fst st, i # snd st) (ag_depends_on a) \<noteq> None"
      proof (rule efold_not_None [where I = ?I])
        fix u x v assume u: "?I u" and v: "visit_agent reg fuel u x = Some (Inr v)"
        from visit_agent_seen [OF v] have "card (known_ids reg - set (snd v)) \<le> card (known_ids reg - set (snd u))"
          by (intro card_mono) auto
        with u show "?I v" by simp
      qed (rule Suc.IH)
      with False Inr show ?thesis by (auto split: option.splits sum.splits)
    qed (use False in simp)
  qed simp
qed simp

lemma expand_with_deps_returns: "expand_with_deps ids reg \<noteq> None"
proof -
  have small: "card (known_ids reg - S) < visit_fuel reg" for S
  proof -
    have "card (known_ids reg - S) \<le> card (known_ids reg)" by (intro card_mono) auto
    also have "\<dots> \<le> length (agents reg)"
      unfolding known_ids_def by (metis card_image_le card_length finite_set le_trans)
    finally show ?thesis by (simp add: visit_fuel_def)
  qed
  have "efold (visit_agent reg (visit_fuel reg)) ([], []) ids \<noteq> None"
    by (rule efold_not_None [where I = "\<lambda>_. True"]) (rule visit_agent_fuel [OF small] TrueI)+
  then show ?thesis by (auto simp: expand_with_deps_def split: option.splits sum.splits)
qed

section \<open>The expansion is a topological order\<close>

text \<open>What the planner relies on: the agents it meets are active, and their graph is a DAG.\<close>

definition agent_dag :: "registry \<Rightarrow> bool" where
  "agent_dag reg \<longleftrightarrow> (\<forall>i \<in> active_ids reg. set (agent_deps reg i) \<subseteq> active_ids reg)
     \<and> acyclic (dep_edges (agent_deps reg) (active_ids reg))"

lemma active_plan_get:
  assumes "i \<in> active_ids reg"
  obtains a where "plan_get reg i = Inr a" "ag_depends_on a = agent_deps reg i"
  using assms by (auto simp: active_ids_def plan_get_def agent_deps_def)

definition visit_inv :: "registry \<Rightarrow> string set \<Rightarrow> string list \<times> string list \<Rightarrow> bool" where
  "visit_inv reg P st \<longleftrightarrow> distinct (fst st) \<and> deps_before (agent_deps reg) id (fst st)
     \<and> set (fst st) \<subseteq> active_ids reg \<and> set (fst st) \<subseteq> set (snd st) \<and> set (snd st) - set (fst st) = P"

lemma visit_agent_topo:
  assumes "agent_dag reg"
  shows "visit_agent reg fuel st i = Some r \<Longrightarrow> i \<in> active_ids reg \<Longrightarrow> visit_inv reg P st
    \<Longrightarrow> \<forall>x \<in> P. (x, i) \<in> (dep_edges (agent_deps reg) (active_ids reg))\<^sup>+
    \<Longrightarrow> \<exists>st'. r = Inr st' \<and> visit_inv reg P st' \<and> i \<in> set (fst st') \<and> set (fst st) \<subseteq> set (fst st')"
proof (induction fuel arbitrary: st i r P)
  case (Suc fuel)
  let ?E = "dep_edges (agent_deps reg) (active_ids reg)"
  from Suc.prems(4) assms have notP: "i \<notin> P" by (auto simp: agent_dag_def acyclic_def)
  show ?case
  proof (cases "i \<in> set (snd st)")
    case True
    with notP Suc.prems(3) have "i \<in> set (fst st)" by (auto simp: visit_inv_def)
    with True Suc.prems show ?thesis by (intro exI [of _ st]) simp
  next
    case False
    obtain a where a: "plan_get reg i = Inr a" and da: "ag_depends_on a = agent_deps reg i"
      by (rule active_plan_get [OF Suc.prems(2)])
    obtain q where q: "efold (visit_agent reg fuel) (fst st, i # snd st) (agent_deps reg i) = Some q"
      using Suc.prems(1) False a da by (auto split: option.splits)
    have I0: "visit_inv reg (insert i P) (fst st, i # snd st)"
      using Suc.prems(3) False by (auto simp: visit_inv_def)
    have "\<exists>t. q = Inr t \<and> visit_inv reg (insert i P) t \<and> (\<forall>d \<in> set (agent_deps reg i). d \<in> set (fst t))
        \<and> (\<forall>y. y \<in> set (fst (fst st, i # snd st)) \<longrightarrow> y \<in> set (fst t))"
    proof (rule efold_ok [where I = "visit_inv reg (insert i P)", OF q I0])
      fix u d qq assume d: "d \<in> set (agent_deps reg i)" and u: "visit_inv reg (insert i P) u"
        and vis: "visit_agent reg fuel u d = Some qq"
      have edge: "(i, d) \<in> ?E" using d Suc.prems(2) by (simp add: dep_edges_def)
      have "d \<in> active_ids reg" using d Suc.prems(2) assms by (auto simp: agent_dag_def)
      moreover have "\<forall>x \<in> insert i P. (x, d) \<in> ?E\<^sup>+"
        using edge Suc.prems(4) by (auto intro: trancl_into_trancl)
      ultimately show "\<exists>v. qq = Inr v \<and> visit_inv reg (insert i P) v \<and> d \<in> set (fst v)
          \<and> (\<forall>y. y \<in> set (fst u) \<longrightarrow> y \<in> set (fst v))"
        using Suc.IH [OF vis _ u] by blast
    qed
    then obtain t where t: "q = Inr t" "visit_inv reg (insert i P) t"
      "set (agent_deps reg i) \<subseteq> set (fst t)" "set (fst st) \<subseteq> set (fst t)" by (auto simp: subset_iff)
    have "r = Inr (fst t @ [i], snd t)" using Suc.prems(1) False a da q t(1) by simp
    moreover have "visit_inv reg P (fst t @ [i], snd t)"
      using t(2,3) Suc.prems(2) notP by (auto simp: visit_inv_def)
    ultimately show ?thesis using t(4) by auto
  qed
qed simp

theorem expand_with_deps_topo:
  assumes "agent_dag reg" "set ids \<subseteq> active_ids reg"
  shows "\<exists>out. expand_with_deps ids reg = Some (Inr out) \<and> set ids \<subseteq> set out \<and> distinct out
           \<and> set out \<subseteq> active_ids reg \<and> deps_before (agent_deps reg) id out"
proof -
  obtain q where q: "efold (visit_agent reg (visit_fuel reg)) ([], []) ids = Some q"
    using expand_with_deps_returns [of ids reg] by (auto simp: expand_with_deps_def split: option.splits)
  have I0: "visit_inv reg {} ([], [])" by (simp add: visit_inv_def)
  have "\<exists>t. q = Inr t \<and> visit_inv reg {} t \<and> (\<forall>i \<in> set ids. i \<in> set (fst t))
      \<and> (\<forall>y. y \<in> set (fst ([] :: string list, [] :: string list)) \<longrightarrow> y \<in> set (fst t))"
  proof (rule efold_ok [where I = "visit_inv reg {}" and G = "\<lambda>i t. i \<in> set (fst t)", OF q I0])
    fix u i qq assume "i \<in> set ids" "visit_inv reg {} u" "visit_agent reg (visit_fuel reg) u i = Some qq"
    with visit_agent_topo [OF assms(1), of _ u i qq "{}"] assms(2)
    show "\<exists>v. qq = Inr v \<and> visit_inv reg {} v \<and> i \<in> set (fst v) \<and> (\<forall>y. y \<in> set (fst u) \<longrightarrow> y \<in> set (fst v))"
      by blast
  qed
  with q show ?thesis by (auto simp: expand_with_deps_def visit_inv_def)
qed

section \<open>The order of the sub-queries\<close>

text \<open>Edges between known sub-queries.\<close>

definition sq_edges :: "(string \<rightharpoonup> sub_query_route) \<Rightarrow> (string \<times> string) set" where
  "sq_edges by_id = {(x, y). y \<in> dom by_id \<and> (\<exists>r. by_id x = Some r \<and> y \<in> set (sq_depends_on r))}"

definition known_deps :: "(string \<rightharpoonup> sub_query_route) \<Rightarrow> sub_query_route \<Rightarrow> string list" where
  "known_deps by_id r = filter (\<lambda>d. d \<in> dom by_id) (sq_depends_on r)"

definition sq_inv ::
  "(string \<rightharpoonup> sub_query_route) \<Rightarrow> string list \<Rightarrow> sub_query_route list \<times> string list \<times> string list \<Rightarrow> bool" where
  "sq_inv by_id act0 st \<longleftrightarrow> (case st of (ordered, fin, act) \<Rightarrow>
     act = act0 \<and> distinct (map sq_id ordered) \<and> set fin = sq_id ` set ordered \<and> set act \<inter> set fin = {}
     \<and> (\<forall>r \<in> set ordered. by_id (sq_id r) = Some r) \<and> deps_before (known_deps by_id) sq_id ordered)"

lemma visit_subquery_total:
  assumes keys: "\<And>i r. by_id i = Some r \<Longrightarrow> sq_id r = i" and fin: "finite (dom by_id)"
  shows "card (dom by_id - set act) < fuel \<Longrightarrow> sq_inv by_id act st
    \<Longrightarrow> \<forall>x \<in> set act. i \<in> dom by_id \<longrightarrow> (x, i) \<in> (sq_edges by_id)\<^sup>+
    \<Longrightarrow> \<exists>q. visit_subquery by_id fuel st i = Some q
         \<and> (case q of Inl e \<Rightarrow> \<exists>x. e = SubQueryCycle x \<and> (x, x) \<in> (sq_edges by_id)\<^sup>+
            | Inr st' \<Rightarrow> sq_inv by_id act st' \<and> (i \<in> dom by_id \<longrightarrow> i \<in> set (fst (snd st')))
                \<and> (\<forall>y. (y \<in> dom by_id \<longrightarrow> y \<in> set (fst (snd st))) \<longrightarrow>
                        (y \<in> dom by_id \<longrightarrow> y \<in> set (fst (snd st')))))"
proof (induction fuel arbitrary: st i act)
  case (Suc fuel)
  obtain ordered fn where st: "st = (ordered, fn, act)"
    using Suc.prems(2) by (cases st) (auto simp: sq_inv_def)
  let ?E = "sq_edges by_id"
  let ?P = "\<lambda>e. \<exists>x. e = SubQueryCycle x \<and> (x, x) \<in> ?E\<^sup>+"
  let ?G = "\<lambda>y (s :: sub_query_route list \<times> string list \<times> string list).
      y \<in> dom by_id \<longrightarrow> y \<in> set (fst (snd s))"
  show ?case
  proof (cases "i \<in> set fn \<or> by_id i = None \<or> i \<in> set act")
    case True
    then consider "i \<in> set fn" | "i \<notin> set fn" "by_id i = None"
      | r where "i \<notin> set fn" "by_id i = Some r" "i \<in> set act" by auto
    then show ?thesis using Suc.prems st by cases (auto simp: domIff)
  next
    case False
    then obtain r where r: "by_id i = Some r" and new: "i \<notin> set fn" "i \<notin> set act" by auto
    let ?st = "(ordered, fn, i # act)"
    have "\<exists>q. efold (visit_subquery by_id fuel) ?st (sq_depends_on r) = Some q
        \<and> (case q of Inl e \<Rightarrow> ?P e
           | Inr t \<Rightarrow> sq_inv by_id (i # act) t \<and> (\<forall>d \<in> set (sq_depends_on r). ?G d t) \<and> (\<forall>y. ?G y ?st \<longrightarrow> ?G y t))"
    proof (rule efold_total [where I = "sq_inv by_id (i # act)"])
      show "sq_inv by_id (i # act) ?st" using Suc.prems(2) new st by (auto simp: sq_inv_def)
      fix u d assume d: "d \<in> set (sq_depends_on r)" and u: "sq_inv by_id (i # act) u"
      have "card (dom by_id - set (i # act)) < fuel"
        using card_remaining_less [OF fin _ new(2)] r Suc.prems(1) by (simp add: domIff)
      moreover have "\<forall>x \<in> set (i # act). d \<in> dom by_id \<longrightarrow> (x, d) \<in> ?E\<^sup>+"
      proof (intro ballI impI)
        fix x assume x: "x \<in> set (i # act)" and "d \<in> dom by_id"
        with d r have "(i, d) \<in> ?E" by (auto simp: sq_edges_def)
        with x r Suc.prems(3) show "(x, d) \<in> ?E\<^sup>+" by (auto intro: trancl_into_trancl)
      qed
      ultimately show "\<exists>q. visit_subquery by_id fuel u d = Some q
          \<and> (case q of Inl e \<Rightarrow> ?P e | Inr v \<Rightarrow> sq_inv by_id (i # act) v \<and> ?G d v \<and> (\<forall>y. ?G y u \<longrightarrow> ?G y v))"
        by (intro Suc.IH u)
    qed
    then obtain q where q: "efold (visit_subquery by_id fuel) ?st (sq_depends_on r) = Some q"
      and post: "case q of Inl e \<Rightarrow> ?P e
           | Inr t \<Rightarrow> sq_inv by_id (i # act) t \<and> (\<forall>d \<in> set (sq_depends_on r). ?G d t) \<and> (\<forall>y. ?G y ?st \<longrightarrow> ?G y t)"
      by blast
    show ?thesis
    proof (cases q)
      case (Inl e)
      with q post r new st show ?thesis by auto
    next
      case (Inr t)
      with post obtain o' f' where t: "t = (o', f', i # act)" by (cases t) (auto simp: sq_inv_def)
      have "sq_inv by_id act (o' @ [r], i # f', removeAll i (i # act))"
        using post Inr t new keys [OF r] r by (auto simp: sq_inv_def known_deps_def)
      with q Inr t post r new st show ?thesis by auto
    qed
  qed
qed simp

lemma routes_by_id_key: "routes_by_id routes i = Some r \<Longrightarrow> r \<in> set routes \<and> sq_id r = i"
  by (auto simp: routes_by_id_def dest: map_of_SomeD)

lemma dom_routes_by_id: "dom (routes_by_id routes) = sq_id ` set routes"
  by (auto simp: routes_by_id_def dom_map_of_conv_image_fst image_image)

theorem topo_subqueries_total:
  defines "b \<equiv> routes_by_id"
  shows "\<exists>q. topo_subqueries routes = Some q
    \<and> (case q of Inl e \<Rightarrow> \<exists>x. e = SubQueryCycle x \<and> (x, x) \<in> (sq_edges (b routes))\<^sup>+
       | Inr ordered \<Rightarrow> distinct (map sq_id ordered) \<and> sq_id ` set ordered = sq_id ` set routes
           \<and> (\<forall>r \<in> set ordered. b routes (sq_id r) = Some r)
           \<and> deps_before (known_deps (b routes)) sq_id ordered)"
proof -
  let ?b = "routes_by_id routes"
  let ?G = "\<lambda>y (s :: sub_query_route list \<times> string list \<times> string list).
      y \<in> dom ?b \<longrightarrow> y \<in> set (fst (snd s))"
  have "card (dom ?b) \<le> length routes"
    unfolding dom_routes_by_id by (metis card_image_le card_length finite_set le_trans)
  then have fuel: "card (dom ?b - set []) < Suc (Suc (length routes))" by simp
  have "\<exists>q. efold (visit_subquery ?b (Suc (Suc (length routes)))) ([], [], []) (map sq_id routes) = Some q
      \<and> (case q of Inl e \<Rightarrow> \<exists>x. e = SubQueryCycle x \<and> (x, x) \<in> (sq_edges ?b)\<^sup>+
         | Inr t \<Rightarrow> sq_inv ?b [] t \<and> (\<forall>i \<in> set (map sq_id routes). ?G i t) \<and> (\<forall>y. ?G y ([], [], []) \<longrightarrow> ?G y t))"
  proof (rule efold_total [where I = "sq_inv ?b []"])
    show "sq_inv ?b [] ([], [], [])" by (simp add: sq_inv_def)
  qed (rule visit_subquery_total [OF _ _ fuel], auto dest: routes_by_id_key simp: dom_routes_by_id)
  then obtain q where q: "efold (visit_subquery ?b (Suc (Suc (length routes)))) ([], [], [])
        (map sq_id routes) = Some q"
    and post: "case q of Inl e \<Rightarrow> \<exists>x. e = SubQueryCycle x \<and> (x, x) \<in> (sq_edges ?b)\<^sup>+
         | Inr t \<Rightarrow> sq_inv ?b [] t \<and> (\<forall>i \<in> set (map sq_id routes). ?G i t) \<and> (\<forall>y. ?G y ([], [], []) \<longrightarrow> ?G y t)"
    by blast
  show ?thesis
  proof (cases q)
    case (Inl e)
    with q post show ?thesis by (simp add: topo_subqueries_def b_def)
  next
    case (Inr t)
    obtain ordered f where t: "t = (ordered, f, [])" using post Inr by (cases t) (auto simp: sq_inv_def)
    have inv: "sq_inv ?b [] (ordered, f, [])" and G: "sq_id ` set routes \<subseteq> set f"
      using post Inr t by (auto simp: dom_routes_by_id)
    have "sq_id ` set ordered \<subseteq> sq_id ` set routes"
    proof
      fix x assume "x \<in> sq_id ` set ordered"
      with inv have "x \<in> dom ?b" by (auto simp: sq_inv_def)
      then show "x \<in> sq_id ` set routes" by (simp only: dom_routes_by_id)
    qed
    with q Inr t inv G show ?thesis by (auto simp: topo_subqueries_def b_def sq_inv_def)
  qed
qed

section \<open>The assembled plan is executable\<close>

text \<open>
  A plan is well formed when its step ids are distinct and every step waits only for steps that
  stand before it: the executor can run it front to back.
\<close>

definition plan_wf :: "plan_step list \<Rightarrow> bool" where
  "plan_wf steps \<longleftrightarrow> distinct (map ps_step_id steps) \<and> deps_before ps_depends_on ps_step_id steps"

lemma inj_step_name: "inj step_name"
  by (auto simp: inj_def step_name_def dest: nat_str_inject [THEN iffD1])

lemma local_ids_zip:
  assumes "distinct needed"
  shows "local_ids c needed = zip needed (map step_name [Suc c ..< Suc c + length needed])"
proof -
  have "foldl (\<lambda>(d, c) i. (AList.update i (step_name (Suc c)) d, Suc c)) ([], c) needed
      = (zip needed (map step_name [Suc c ..< Suc c + length needed]), c + length needed)"
    using assms
  proof (induction needed rule: rev_induct)
    case (snoc x xs)
    let ?ns = "map step_name [Suc c ..< Suc c + length xs]"
    have "x \<notin> fst ` set (zip xs ?ns)" using snoc.prems by (auto dest: set_zip_leftD)
    then have "AList.update x (step_name (Suc (c + length xs))) (zip xs ?ns)
        = zip (xs @ [x]) (?ns @ [step_name (Suc (c + length xs))])"
      by (simp add: update_new del: upt_Suc)
    with snoc show ?case by (simp del: upt_Suc add: upt_Suc_append)
  qed simp
  then show ?thesis by (simp add: local_ids_def)
qed

lemma zip_lookup_take:
  assumes "distinct xs" "length ns = length xs" "x \<in> set (take k xs)"
  shows "\<exists>n. map_of (zip xs ns) x = Some n \<and> n \<in> set (take k ns)"
proof -
  from assms(3) obtain j where j: "j < k" "j < length xs" "x = xs ! j"
    by (auto simp: in_set_conv_nth)
  then have "map_of (zip xs ns) x = Some (ns ! j)"
    using assms(1,2) by (simp add: map_of_zip_nth)
  moreover have "ns ! j \<in> set (take k ns)" using j assms(2) by (auto simp: in_set_conv_nth)
  ultimately show ?thesis by blast
qed

lemma mapM_sum_ok: "(\<And>x. x \<in> set xs \<Longrightarrow> \<exists>y. f x = Inr y) \<Longrightarrow> \<exists>ys. mapM_sum f xs = Inr ys"
  by (induction xs) fastforce+

lemma mapM_sum_nth_ok:
  assumes "\<And>k. k < length xs \<Longrightarrow> \<exists>y. f (xs ! k) = Inr y \<and> P k y"
  shows "\<exists>ys. mapM_sum f xs = Inr ys \<and> length ys = length xs \<and> (\<forall>k < length xs. P k (ys ! k))"
proof -
  have "\<exists>ys. mapM_sum f xs = Inr ys" by (rule mapM_sum_ok) (use assms in \<open>metis in_set_conv_nth\<close>)
  then obtain ys where ys: "mapM_sum f xs = Inr ys" ..
  moreover have "P k (ys ! k)" if "k < length xs" for k
    using assms [OF that] ys that by (auto simp: mapM_sum_Inr list_all2_conv_all_nth)
  ultimately show ?thesis using mapM_sum_length [OF ys] by blast
qed

lemma build_route_steps_ok:
  assumes act: "set needed \<subseteq> active_ids reg" and d: "distinct needed"
    and before: "deps_before (agent_deps reg) id needed" and len: "length ns = length needed"
  shows "\<exists>new. build_route_steps route needed (zip needed ns) upstream reg bs tys extra = Inr new
    \<and> map ps_step_id new = ns \<and> map ps_agent_id new = needed
    \<and> (\<forall>k < length new. set (ps_depends_on (new ! k)) \<subseteq> set (take k ns) \<union> set upstream \<union> set extra
        \<and> (ps_parameter_bindings (new ! k) \<noteq> [] \<longrightarrow> ps_parameter_bindings (new ! k) = bs
            \<and> set extra \<subseteq> set (ps_depends_on (new ! k))))"
proof -
  define look where "look = (\<lambda>d. case map_of (zip needed ns) d of
      None \<Rightarrow> Inl (PlanKeyError d) | Some s \<Rightarrow> (Inr s :: plan_error + string))"
  have look_take: "\<exists>n \<in> set (take k ns). look x = Inr n" if "x \<in> set (take k needed)" for x k
    using zip_lookup_take [OF d len that] by (auto simp: look_def)
  let ?f = "\<lambda>i. sbind (plan_get reg i) (\<lambda>a. sbind (mapM_sum look (ag_depends_on a)) (\<lambda>local_deps.
         let params = (case map_of (sq_parameters_by_agent route) i of None \<Rightarrow> [] | Some ps \<Rightarrow> ps);
             dep_steps = local_deps @ upstream;
             is_primary = (needed \<noteq> [] \<and> i = last needed);
             deps = (if is_primary then dep_steps @ filter (\<lambda>d. d \<notin> set dep_steps) extra
                     else dep_steps)
         in case map_of (zip needed ns) i of
              None \<Rightarrow> Inl (PlanKeyError i)
            | Some sid \<Rightarrow>
                Inr \<lparr>ps_step_id = sid, ps_agent_id = i, ps_parameters = sort_key fst params,
                     ps_depends_on = deps,
                     ps_parameter_bindings = (if is_primary then bs else []),
                     ps_dependency_types = (if is_primary then tys else [])\<rparr>))"
  have f: "build_route_steps route needed (zip needed ns) upstream reg bs tys extra = mapM_sum ?f needed"
    unfolding build_route_steps_def look_def ..
  have step: "\<exists>s. ?f (needed ! k) = Inr s \<and> ps_step_id s = ns ! k \<and> ps_agent_id s = needed ! k
      \<and> set (ps_depends_on s) \<subseteq> set (take k ns) \<union> set upstream \<union> set extra
      \<and> (ps_parameter_bindings s \<noteq> [] \<longrightarrow> ps_parameter_bindings s = bs \<and> set extra \<subseteq> set (ps_depends_on s))" if k: "k < length needed" for k
  proof -
    have "needed ! k \<in> active_ids reg" using act k by auto
    then obtain a where a: "plan_get reg (needed ! k) = Inr a" "ag_depends_on a = agent_deps reg (needed ! k)"
      by (rule active_plan_get)
    have sub: "set (agent_deps reg (needed ! k)) \<subseteq> set (take k needed)"
      using before k by (auto simp: deps_before_nth)
    have "\<exists>ls. mapM_sum look (agent_deps reg (needed ! k)) = Inr ls"
      by (rule mapM_sum_ok) (use sub look_take in blast)
    then obtain ls where ls: "mapM_sum look (agent_deps reg (needed ! k)) = Inr ls" ..
    have "set ls \<subseteq> set (take k ns)"
    proof
      fix n assume "n \<in> set ls"
      with mapM_sum_set [OF ls] obtain x where "x \<in> set (agent_deps reg (needed ! k))" "look x = Inr n" by blast
      with look_take [of x k] sub show "n \<in> set (take k ns)" by force
    qed
    moreover have "map_of (zip needed ns) (needed ! k) = Some (ns ! k)"
      using d len k by (simp add: map_of_zip_nth)
    ultimately show ?thesis using a ls by (auto simp: Let_def)
  qed
  obtain new where new: "mapM_sum ?f needed = Inr new" "length new = length needed"
    "\<forall>k < length needed. ps_step_id (new ! k) = ns ! k \<and> ps_agent_id (new ! k) = needed ! k
      \<and> set (ps_depends_on (new ! k)) \<subseteq> set (take k ns) \<union> set upstream \<union> set extra
      \<and> (ps_parameter_bindings (new ! k) \<noteq> [] \<longrightarrow> ps_parameter_bindings (new ! k) = bs
          \<and> set extra \<subseteq> set (ps_depends_on (new ! k)))"
    using mapM_sum_nth_ok [of needed ?f, OF step] by blast
  moreover have "map ps_step_id new = ns" "map ps_agent_id new = needed"
    using new(2,3) len by (auto intro!: nth_equalityI)
  ultimately show ?thesis unfolding f by (intro exI [of _ new] conjI) simp_all
qed

lemma sfold_ok:
  "(\<And>s x. x \<in> set xs \<Longrightarrow> \<exists>s'. f s x = Inr s') \<Longrightarrow> \<exists>t. sfold f s xs = Inr t"
  by (induction xs arbitrary: s) fastforce+

lemma apply_exclusions_ok:
  assumes "set ids \<subseteq> active_ids reg"
  shows "\<exists>sv. apply_exclusions ids reg = Inr sv \<and> set sv \<subseteq> set ids"
proof -
  have got: "\<exists>a. plan_get reg i = Inr a" if "i \<in> set ids" for i
    using active_plan_get [of i reg] assms that by blast
  let ?g = "\<lambda>i dropped exc. if ex_agent_id exc \<in> set ids
      then sbind (plan_get reg (ex_agent_id exc)) (\<lambda>other. Inr (insert (exclusion_loser i exc other) dropped))
      else Inr dropped"
  have inner: "\<exists>t. sfold (?g i) dropped excs = Inr t" for i dropped excs
    by (rule sfold_ok) (use got in auto)
  have "\<exists>t. sfold (\<lambda>dropped i. sbind (plan_get reg i) (\<lambda>a. sfold (?g i) dropped (ag_excludes a))) {} ids = Inr t"
    by (rule sfold_ok) (use got inner in fastforce)
  then show ?thesis by (auto simp: apply_exclusions_def)
qed

lemma producer_output_fields_error:
  "producer_output_fields reg i = Inl e \<Longrightarrow> \<exists>x. e = PlanRegistry x"
  by (auto simp: producer_output_fields_def split: if_splits sum.splits option.splits)

definition listed_steps :: "(string \<times> string list) list \<Rightarrow> string set" where
  "listed_steps m = {s. \<exists>k ss. (k, ss) \<in> set m \<and> s \<in> set ss}"

lemma listed_steps_lookup: "map_of m k = Some ss \<Longrightarrow> s \<in> set ss \<Longrightarrow> s \<in> listed_steps m"
  by (auto simp: listed_steps_def dest: map_of_SomeD)

lemma listed_steps_update: "listed_steps (AList.update k ss m) \<subseteq> set ss \<union> listed_steps m"
  unfolding listed_steps_def using set_update_subset [of k ss m] by blast

definition binds_inv :: "(string \<times> string list) list \<Rightarrow> bound_route \<Rightarrow> bool" where
  "binds_inv sbs t \<longleftrightarrow> (case t of (bs, tys, extra) \<Rightarrow>
     set extra \<subseteq> listed_steps sbs \<and> pb_from_step ` set bs \<subseteq> set extra)"

lemma resolve_route_binding_inv:
  assumes "resolve_route_binding reg sbs term acc b = Inr acc'" "binds_inv sbs acc"
  shows "binds_inv sbs acc'"
proof -
  obtain bs tys extra where acc: "acc = (bs, tys, extra)" by (cases acc)
  obtain fs ff tp where b: "b = (fs, ff, tp)" by (cases b)
  show ?thesis
  proof (cases "map_of sbs fs")
    case (Some ups)
    then have "last ups \<in> listed_steps sbs" if "ups \<noteq> []"
      using that last_in_set [of ups] by (auto intro: listed_steps_lookup)
    with Some assms acc b show ?thesis
      by (auto simp: resolve_route_binding_def binds_inv_def Let_def image_subset_iff split: if_splits)
  qed (use assms acc b in \<open>simp add: resolve_route_binding_def\<close>)
qed

lemma resolve_route_bindings_cases:
  obtains (err) x where "resolve_route_bindings route reg sbs term = Inl (PlanRegistry x)" "sq_bindings route \<noteq> []"
  | (ok) bs tys extra where "resolve_route_bindings route reg sbs term = Inr (bs, tys, extra)"
      "binds_inv sbs (bs, tys, extra)"
proof (cases "resolve_route_bindings route reg sbs term")
  case (Inl e)
  have "sfold (resolve_route_binding reg sbs term) acc xs = Inl e \<Longrightarrow> (\<exists>x. e = PlanRegistry x) \<and> xs \<noteq> []" for acc xs
  proof (induction xs arbitrary: acc)
    case (Cons b xs)
    have "\<exists>x. e' = PlanRegistry x" if "resolve_route_binding reg sbs term acc b = Inl e'" for e'
      using that producer_output_fields_error
      by (auto simp: resolve_route_binding_def Let_def sbind_Inl_iff split: prod.splits option.splits if_splits)
    with Cons show ?case by (cases "resolve_route_binding reg sbs term acc b") auto
  qed simp
  from this [of "([], [], [])" "sq_bindings route"] Inl show ?thesis
    using err by (auto simp: resolve_route_bindings_def)
next
  case (Inr t)
  obtain bs tys extra where t: "t = (bs, tys, extra)" by (cases t)
  have "binds_inv sbs t"
    using Inr unfolding resolve_route_bindings_def
    by (rule sfold_invariant) (simp add: binds_inv_def, erule resolve_route_binding_inv)
  with Inr t show ?thesis using ok by simp
qed

definition asm_inv :: "registry \<Rightarrow> assembly \<Rightarrow> bool" where
  "asm_inv reg st \<longleftrightarrow>
     map ps_step_id (as_steps st) = map step_name [Suc 0 ..< Suc (as_counter st)]
     \<and> deps_before ps_depends_on ps_step_id (as_steps st)
     \<and> listed_steps (as_by_subquery st) \<subseteq> ps_step_id ` set (as_steps st)
     \<and> ps_agent_id ` set (as_steps st) \<subseteq> active_ids reg
     \<and> (\<forall>s \<in> set (as_steps st). pb_from_step ` set (ps_parameter_bindings s) \<subseteq> set (ps_depends_on s))"

definition route_covered :: "registry \<Rightarrow> sub_query_route \<Rightarrow> plan_step list \<Rightarrow> bool" where
  "route_covered reg r steps \<longleftrightarrow>
     (\<forall>sv. apply_exclusions (sq_agent_ids r) reg = Inr sv \<longrightarrow> set sv \<subseteq> ps_agent_id ` set steps)"

lemma deps_before_extend:
  assumes "deps_before D key xs"
    and "\<And>k. k < length ys \<Longrightarrow> set (D (ys ! k)) \<subseteq> set (take k (map key ys)) \<union> key ` set xs"
  shows "deps_before D key (xs @ ys)"
  unfolding deps_before_append
proof (intro conjI allI impI assms(1))
  fix us y vs assume ys: "ys = us @ y # vs"
  with assms(2) [of "length us"] show "set (D y) \<subseteq> key ` (set xs \<union> set us)"
    by (auto simp: nth_append image_Un)
qed

lemma upstream_steps:
  "set (concat (map (\<lambda>d. case map_of m d of None \<Rightarrow> [] | Some ss \<Rightarrow> ss) ds)) \<subseteq> listed_steps m"
  by (auto split: option.splits dest!: sym [of "Some _"] intro: listed_steps_lookup)

lemma assemble_route_total:
  assumes dag: "agent_dag reg" and act: "set (sq_agent_ids route) \<subseteq> active_ids reg" and inv: "asm_inv reg st"
  shows "\<exists>q. assemble_route reg st route = Some q
    \<and> (case q of Inl e \<Rightarrow> sq_bindings route \<noteq> [] \<and> (\<exists>x. e = PlanRegistry x)
       | Inr st' \<Rightarrow> asm_inv reg st' \<and> route_covered reg route (as_steps st')
            \<and> (\<forall>r. route_covered reg r (as_steps st) \<longrightarrow> route_covered reg r (as_steps st')))"
proof -
  obtain sv where sv: "apply_exclusions (sq_agent_ids route) reg = Inr sv" "set sv \<subseteq> set (sq_agent_ids route)"
    using apply_exclusions_ok [OF act] by blast
  obtain needed where nd: "expand_with_deps sv reg = Some (Inr needed)" "set sv \<subseteq> set needed"
    "distinct needed" "set needed \<subseteq> active_ids reg" "deps_before (agent_deps reg) id needed"
    using expand_with_deps_topo [OF dag, of sv] sv(2) act by blast
  let ?c = "as_counter st" and ?sbs = "as_by_subquery st"
  let ?ids = "ps_step_id ` set (as_steps st)"
  let ?up = "concat (map (\<lambda>d. case map_of ?sbs d of None \<Rightarrow> [] | Some ss \<Rightarrow> ss) (sq_depends_on route))"
  define ns where "ns = map step_name [Suc ?c ..< Suc ?c + length needed]"
  have local: "local_ids ?c needed = zip needed ns" and ln: "length ns = length needed"
    using local_ids_zip [OF nd(3), of ?c] by (simp_all add: ns_def del: upt_Suc)
  show ?thesis
  proof (cases rule: resolve_route_bindings_cases [of route reg ?sbs "as_terminal st"])
    case (err x)
    then show ?thesis by (simp add: assemble_route_def sv nd Let_def)
  next
    case (ok bs tys extra)
    obtain new where new: "build_route_steps route needed (zip needed ns) ?up reg bs tys extra = Inr new"
      "map ps_step_id new = ns" "map ps_agent_id new = needed"
      "\<forall>k < length new. set (ps_depends_on (new ! k)) \<subseteq> set (take k ns) \<union> set ?up \<union> set extra
        \<and> (ps_parameter_bindings (new ! k) \<noteq> [] \<longrightarrow> ps_parameter_bindings (new ! k) = bs
            \<and> set extra \<subseteq> set (ps_depends_on (new ! k)))"
      using build_route_steps_ok [OF nd(4,3,5) ln, of route ?up bs tys extra] by blast
    let ?st = "\<lparr>as_steps = as_steps st @ new, as_by_subquery = AList.update (sq_id route) (map snd (zip needed ns)) ?sbs,
      as_terminal = AList.update (sq_id route) (if needed = [] then [] else last needed) (as_terminal st),
      as_counter = ?c + length needed\<rparr>"
    have run: "assemble_route reg st route = Some (Inr ?st)"
      by (simp add: assemble_route_def sv nd local ok new Let_def)
    have prior: "set ?up \<union> set extra \<subseteq> ?ids"
    proof -
      have "listed_steps ?sbs \<subseteq> ?ids" using inv unfolding asm_inv_def by blast
      moreover have "set extra \<subseteq> listed_steps ?sbs" using ok(2) by (simp add: binds_inv_def)
      ultimately show ?thesis using upstream_steps [of ?sbs "sq_depends_on route"] by blast
    qed
    have "map step_name [Suc 0 ..< Suc (?c + length needed)] = map step_name [Suc 0 ..< Suc ?c] @ ns"
      unfolding ns_def map_append [symmetric] using upt_add_eq_append [of "Suc 0" "Suc ?c" "length needed"] by simp
    then have names: "map ps_step_id (as_steps ?st) = map step_name [Suc 0 ..< Suc (as_counter ?st)]"
      using inv new(2) by (simp add: asm_inv_def del: upt_Suc)
    have order: "deps_before ps_depends_on ps_step_id (as_steps ?st)"
    proof -
      have "set (ps_depends_on (new ! k)) \<subseteq> set (take k (map ps_step_id new)) \<union> ?ids" if "k < length new" for k
        unfolding new(2) using new(4) that prior by blast
      moreover have "deps_before ps_depends_on ps_step_id (as_steps st)" using inv unfolding asm_inv_def by blast
      ultimately show ?thesis by (simp add: deps_before_extend)
    qed
    have "set (map snd (zip needed ns)) = ps_step_id ` set new"
      using new(2) ln by (metis map_snd_zip set_map)
    moreover have "listed_steps ?sbs \<subseteq> ?ids" using inv unfolding asm_inv_def by blast
    ultimately have sbs: "listed_steps (as_by_subquery ?st) \<subseteq> ps_step_id ` set (as_steps ?st)"
      using listed_steps_update [of "sq_id route" "map snd (zip needed ns)" ?sbs]
      by (simp only: assembly.simps set_append image_Un) blast
    have agents: "ps_agent_id ` set (as_steps ?st) \<subseteq> active_ids reg"
    proof -
      have "ps_agent_id ` set new = set needed" using new(3) by (metis set_map)
      moreover have "ps_agent_id ` set (as_steps st) \<subseteq> active_ids reg" using inv unfolding asm_inv_def by blast
      ultimately show ?thesis using nd(4) by (simp add: image_Un)
    qed
    have binds: "\<forall>s \<in> set (as_steps ?st). pb_from_step ` set (ps_parameter_bindings s) \<subseteq> set (ps_depends_on s)"
    proof
      fix s assume "s \<in> set (as_steps ?st)"
      then consider "s \<in> set (as_steps st)" | k where "k < length new" "s = new ! k"
        by (auto simp: in_set_conv_nth)
      then show "pb_from_step ` set (ps_parameter_bindings s) \<subseteq> set (ps_depends_on s)"
      proof cases
        case 1
        with inv show ?thesis by (simp add: asm_inv_def)
      next
        case 2
        have "pb_from_step ` set bs \<subseteq> set extra" using ok(2) by (simp add: binds_inv_def)
        moreover have "ps_parameter_bindings s \<noteq> [] \<longrightarrow> ps_parameter_bindings s = bs
            \<and> set extra \<subseteq> set (ps_depends_on s)" using new(4) 2 by blast
        ultimately show ?thesis by (cases "ps_parameter_bindings s = []") auto
      qed
    qed
    have "set needed = ps_agent_id ` set new" using new(3) by (metis set_map)
    then have "route_covered reg route (as_steps ?st)" using sv nd(2) by (auto simp: route_covered_def)
    moreover have "asm_inv reg ?st" using names order sbs agents binds unfolding asm_inv_def by blast
    moreover have "\<forall>r. route_covered reg r (as_steps st) \<longrightarrow> route_covered reg r (as_steps ?st)"
      by (force simp: route_covered_def)
    ultimately show ?thesis unfolding run by simp
  qed
qed

text \<open>
  The contract of \<open>assemble_plan\<close> on an intact registry, for routes that name active agents: it
  returns; a plan it returns is well formed, runs only active agents, covers every agent that
  survives the exclusions, and feeds each step only from steps it waits for; it raises only for no
  routed sub-query, a genuine sub-query cycle, or a failed tool lookup of a binding.
\<close>

theorem assemble_plan_total:
  assumes dag: "agent_dag reg" and act: "\<forall>r \<in> set routes. set (sq_agent_ids r) \<subseteq> active_ids reg"
  defines "rs \<equiv> filter (\<lambda>r. sq_agent_ids r \<noteq> []) routes"
  shows "\<exists>q. assemble_plan routes reg = Some q
    \<and> (case q of
         Inl e \<Rightarrow> (e = NoRoutedSubqueries \<and> rs = [])
            \<or> (\<exists>x. e = SubQueryCycle x \<and> (x, x) \<in> (sq_edges (routes_by_id rs))\<^sup>+)
            \<or> (\<exists>x. e = PlanRegistry x \<and> (\<exists>r \<in> set rs. sq_bindings r \<noteq> []))
       | Inr p \<Rightarrow> plan_wf (rp_steps p) \<and> set (plan_agent_ids p) \<subseteq> active_ids reg
            \<and> (\<forall>r \<in> ran (routes_by_id rs). route_covered reg r (rp_steps p))
            \<and> (\<forall>s \<in> set (rp_steps p). pb_from_step ` set (ps_parameter_bindings s) \<subseteq> set (ps_depends_on s)))"
proof (cases "rs = []")
  case True
  then show ?thesis by (simp add: assemble_plan_def rs_def)
next
  case False
  obtain q where q: "topo_subqueries rs = Some q"
    and post: "case q of Inl e \<Rightarrow> \<exists>x. e = SubQueryCycle x \<and> (x, x) \<in> (sq_edges (routes_by_id rs))\<^sup>+
       | Inr ordered \<Rightarrow> distinct (map sq_id ordered) \<and> sq_id ` set ordered = sq_id ` set rs
           \<and> (\<forall>r \<in> set ordered. routes_by_id rs (sq_id r) = Some r)
           \<and> deps_before (known_deps (routes_by_id rs)) sq_id ordered"
    using topo_subqueries_total [of rs] by blast
  show ?thesis
  proof (cases q)
    case (Inl e)
    with q post False show ?thesis by (simp add: assemble_plan_def rs_def)
  next
    case (Inr ordered)
    let ?st0 = "\<lparr>as_steps = [], as_by_subquery = [], as_terminal = [], as_counter = 0\<rparr>"
    have byid: "\<forall>r \<in> set ordered. routes_by_id rs (sq_id r) = Some r"
      and ids: "sq_id ` set ordered = sq_id ` set rs" using post Inr by simp_all
    have sub: "set ordered \<subseteq> set rs" using byid routes_by_id_key by blast
    have ran: "ran (routes_by_id rs) \<subseteq> set ordered"
    proof
      fix r assume "r \<in> ran (routes_by_id rs)"
      then obtain i where i: "routes_by_id rs i = Some r" by (auto simp: ran_def)
      with routes_by_id_key [OF i] ids obtain r' where "r' \<in> set ordered" "sq_id r' = i" by force
      with byid i show "r \<in> set ordered" by auto
    qed
    have "\<exists>q. efold (assemble_route reg) ?st0 ordered = Some q
        \<and> (case q of Inl e \<Rightarrow> (\<exists>r \<in> set rs. sq_bindings r \<noteq> []) \<and> (\<exists>x. e = PlanRegistry x)
           | Inr t \<Rightarrow> asm_inv reg t \<and> (\<forall>r \<in> set ordered. route_covered reg r (as_steps t))
               \<and> (\<forall>r. route_covered reg r (as_steps ?st0) \<longrightarrow> route_covered reg r (as_steps t)))"
    proof (rule efold_total [where I = "asm_inv reg"])
      show "asm_inv reg ?st0" by (simp add: asm_inv_def listed_steps_def)
      fix u r assume r: "r \<in> set ordered" and u: "asm_inv reg u"
      from r sub act have "set (sq_agent_ids r) \<subseteq> active_ids reg" by (auto simp: rs_def)
      from assemble_route_total [OF dag this u] obtain w where "assemble_route reg u r = Some w"
        "case w of Inl e \<Rightarrow> sq_bindings r \<noteq> [] \<and> (\<exists>x. e = PlanRegistry x)
         | Inr v \<Rightarrow> asm_inv reg v \<and> route_covered reg r (as_steps v)
             \<and> (\<forall>r. route_covered reg r (as_steps u) \<longrightarrow> route_covered reg r (as_steps v))" by blast
      with r sub show "\<exists>q. assemble_route reg u r = Some q
          \<and> (case q of Inl e \<Rightarrow> (\<exists>r \<in> set rs. sq_bindings r \<noteq> []) \<and> (\<exists>x. e = PlanRegistry x)
             | Inr v \<Rightarrow> asm_inv reg v \<and> route_covered reg r (as_steps v)
                 \<and> (\<forall>r. route_covered reg r (as_steps u) \<longrightarrow> route_covered reg r (as_steps v)))"
        by (intro exI [of _ w]) (cases w; auto)
    qed
    then obtain w where w: "efold (assemble_route reg) ?st0 ordered = Some w"
      and wp: "case w of Inl e \<Rightarrow> (\<exists>r \<in> set rs. sq_bindings r \<noteq> []) \<and> (\<exists>x. e = PlanRegistry x)
           | Inr t \<Rightarrow> asm_inv reg t \<and> (\<forall>r \<in> set ordered. route_covered reg r (as_steps t))
               \<and> (\<forall>r. route_covered reg r (as_steps ?st0) \<longrightarrow> route_covered reg r (as_steps t))" by blast
    show ?thesis
    proof (cases w)
      case (Inl e)
      with q \<open>q = Inr ordered\<close> w wp False show ?thesis by (auto simp: assemble_plan_def rs_def)
    next
      case (Inr t)
      have res: "assemble_plan routes reg = Some (Inr \<lparr>rp_steps = as_steps t\<rparr>)"
        using q \<open>q = Inr ordered\<close> w Inr False by (simp add: assemble_plan_def rs_def)
      have inv: "asm_inv reg t" and cov: "\<forall>r \<in> set ordered. route_covered reg r (as_steps t)"
        using wp Inr by auto
      have "distinct (map ps_step_id (as_steps t))"
        using inv inj_step_name unfolding asm_inv_def by (simp add: distinct_map inj_on_subset [OF inj_step_name] del: upt_Suc)
      moreover have "deps_before ps_depends_on ps_step_id (as_steps t)"
        "ps_agent_id ` set (as_steps t) \<subseteq> active_ids reg"
        "\<forall>s \<in> set (as_steps t). pb_from_step ` set (ps_parameter_bindings s) \<subseteq> set (ps_depends_on s)"
        using inv unfolding asm_inv_def by blast+
      ultimately show ?thesis unfolding res using cov ran by (auto simp: plan_wf_def plan_agent_ids_def)
    qed
  qed
qed

end
