(* ===== verification/ExecState.thy ===== *)
theory ExecState
  imports RoutePlan
begin

text \<open>
  The executor's graph state (\<open>executor/state.py\<close>) and its wave loop (\<open>dispatch_wave\<close> in
  \<open>executor/nodes.py\<close> and the edges \<open>wave -> run_step -> wave\<close> of \<open>executor/graph.py\<close>): the
  reducers that merge what parallel steps write, the plan as the state holds it, the choice of the
  next wave. The work of one step is a parameter here, \<open>run\<close>; the theory \<open>Executor\<close> supplies it.
\<close>

section \<open>Steps and results\<close>

record exec_step =
  es_step_id :: string
  es_agent_id :: string
  es_parameters :: "(string \<times> json) list"
  es_depends_on :: "string list"
  es_turn_id :: "string option"
  es_parameter_bindings :: "parameter_binding list"
  es_dependency_types :: "(string \<times> string) list"
  es_tool_id :: "string option"
  es_intent :: "string option"
  es_gen_depth :: "int option"
  es_gen_max_depth :: "int option"
  es_gen_max_width :: "int option"

text \<open>A follow-up step as a handler returns it, before it is validated.\<close>

record raw_step =
  raw_agent_id :: "string option"
  raw_parameters :: "(string \<times> json) list option"
  raw_depends_on :: "string list option"

record step_result =
  res_step_id :: string
  res_agent_id :: string
  res_turn_id :: "string option"
  res_status :: string
  res_output :: json
  res_error :: "string option"
  res_tool_id :: string
  res_latency_ms :: "int option"
  res_generated_steps :: "raw_step list"
  res_generation_note :: "string option"
  res_redacted :: bool

definition make_result ::
  "exec_step \<Rightarrow> string \<Rightarrow> json \<Rightarrow> string option \<Rightarrow> string \<Rightarrow> int option \<Rightarrow> step_result" where
  "make_result s status output err tool latency =
     \<lparr>res_step_id = es_step_id s, res_agent_id = es_agent_id s, res_turn_id = es_turn_id s,
      res_status = status, res_output = output, res_error = err, res_tool_id = tool,
      res_latency_ms = latency, res_generated_steps = [], res_generation_note = None, res_redacted = False\<rparr>"

section \<open>Reducers\<close>

text \<open>
  A dict from ids to entries, filled in order; an entry without an id gets a fresh anonymous key.
  Updating a key keeps its place.
\<close>

definition entry_key :: "string option \<Rightarrow> (string \<times> 'r) list \<Rightarrow> string" where
  "entry_key sid d = (case sid of Some s \<Rightarrow> s | None \<Rightarrow> ''__anon_'' @ nat_str (length d))"

definition merge_by_id :: "('r \<Rightarrow> string option) \<Rightarrow> 'r list \<Rightarrow> 'r list \<Rightarrow> 'r list" where
  "merge_by_id key left right =
     map snd (foldl (\<lambda>d r. AList.update (entry_key (key r) d) r d) [] (left @ right))"

definition union_by_id :: "('r \<Rightarrow> string option) \<Rightarrow> 'r list \<Rightarrow> 'r list \<Rightarrow> 'r list" where
  "union_by_id key left right =
     map snd (foldl (\<lambda>d r. let k = entry_key (key r) d in
                if k \<in> fst ` set d then d else AList.update k r d) [] (left @ right))"

definition merge_step_results :: "step_result list \<Rightarrow> step_result list \<Rightarrow> step_result list" where
  "merge_step_results = merge_by_id (\<lambda>r. Some (res_step_id r))"

definition merge_plan :: "exec_step list \<Rightarrow> exec_step list \<Rightarrow> exec_step list" where
  "merge_plan = union_by_id (\<lambda>s. Some (es_step_id s))"

section \<open>The state\<close>

record executor_state =
  x_request_id :: string
  x_tenant_id :: string
  x_session_id :: string
  x_user_id :: string
  x_role :: string
  x_message :: string
  x_conversation_history :: "(string \<times> string) list"
  x_forced_agent_ids :: "string list"
  x_focus_entity_id :: string
  x_focus_service_id :: string
  x_control_gate_outcome :: string
  x_route_outcome :: "string option"
  x_boundary_reason :: string
  x_entity_clarification :: string
  x_plan :: "exec_step list"
  x_unrouted :: "string list"
  x_route_diagnostics :: "string list"
  x_step_results :: "step_result list"
  x_final_status :: string
  x_final_response :: string
  x_time_filter :: "(string \<times> json) list"
  x_entry_mode :: string

text \<open>\<open>serialise_plan\<close>: a router plan in the shape of the state, stamped with the turn.\<close>

definition serialise_step :: "string \<Rightarrow> plan_step \<Rightarrow> exec_step" where
  "serialise_step turn_id s =
     \<lparr>es_step_id = ps_step_id s, es_agent_id = ps_agent_id s,
      es_parameters = map (\<lambda>(k, v). (k, JStr v)) (ps_parameters s), es_depends_on = ps_depends_on s,
      es_turn_id = (if turn_id = [] then None else Some turn_id),
      es_parameter_bindings = ps_parameter_bindings s, es_dependency_types = ps_dependency_types s,
      es_tool_id = None, es_intent = None, es_gen_depth = None, es_gen_max_depth = None, es_gen_max_width = None\<rparr>"

definition serialise_plan :: "plan_step list \<Rightarrow> string \<Rightarrow> exec_step list" where
  "serialise_plan steps turn_id = map (serialise_step turn_id) steps"

record request_env =
  env_request_id :: string
  env_tenant_id :: string
  env_session_id :: string
  env_user_id :: string
  env_role :: string
  env_message :: string
  env_focus_entity_id :: string
  env_focus_service_id :: string
  env_time_filter :: "(string \<times> json) list"

definition request_envelope :: "executor_state \<Rightarrow> request_env" where
  "request_envelope st =
     \<lparr>env_request_id = x_request_id st, env_tenant_id = x_tenant_id st, env_session_id = x_session_id st,
      env_user_id = x_user_id st, env_role = x_role st, env_message = x_message st,
      env_focus_entity_id = x_focus_entity_id st, env_focus_service_id = x_focus_service_id st,
      env_time_filter = x_time_filter st\<rparr>"

section \<open>The wave loop\<close>

record send_payload =
  sp_step :: exec_step
  sp_request :: request_env
  sp_previous_results :: "(string \<times> step_result) list"

datatype dispatch = ToAggregate | Sends "send_payload list"

definition results_by_id :: "step_result list \<Rightarrow> string \<rightharpoonup> step_result" where
  "results_by_id rs = map_of (rev (map (\<lambda>r. (res_step_id r, r)) rs))"

definition dep_results :: "step_result list \<Rightarrow> exec_step \<Rightarrow> (string \<times> step_result) list" where
  "dep_results rs s =
     foldl (\<lambda>d dep. case results_by_id rs dep of None \<Rightarrow> d | Some r \<Rightarrow> AList.update dep r d) []
       (es_depends_on s)"

definition completed :: "step_result list \<Rightarrow> string set" where
  "completed rs = set (map res_step_id rs)"

definition runnable :: "executor_state \<Rightarrow> exec_step list" where
  "runnable st = filter (\<lambda>s. es_step_id s \<notin> completed (x_step_results st)
     \<and> list_all (\<lambda>d. d \<in> completed (x_step_results st)) (es_depends_on s)) (x_plan st)"

definition mk_send :: "executor_state \<Rightarrow> exec_step \<Rightarrow> send_payload" where
  "mk_send st s = \<lparr>sp_step = s, sp_request = request_envelope st,
     sp_previous_results = dep_results (x_step_results st) s\<rparr>"

definition dispatch_wave :: "executor_state \<Rightarrow> dispatch" where
  "dispatch_wave st =
     (let remaining = filter (\<lambda>s. es_step_id s \<notin> completed (x_step_results st)) (x_plan st) in
      if remaining = [] then ToAggregate
      else let run = runnable st in
        if run = [] then ToAggregate else Sends (map (mk_send st) run))"

text \<open>What one \<open>run_step\<close> writes: its results and the steps it appends to the plan.\<close>

record step_update =
  up_step_results :: "step_result list"
  up_plan :: "exec_step list"

definition apply_update :: "executor_state \<Rightarrow> step_update \<Rightarrow> executor_state" where
  "apply_update st u =
     st\<lparr>x_step_results := merge_step_results (x_step_results st) (up_step_results u),
        x_plan := merge_plan (x_plan st) (up_plan u)\<rparr>"

definition superstep :: "(send_payload \<Rightarrow> step_update) \<Rightarrow> executor_state \<Rightarrow> send_payload list \<Rightarrow> executor_state" where
  "superstep run st sends = foldl apply_update st (map run sends)"

text \<open>\<open>n\<close> rounds of \<open>wave\<close> and \<open>run_step\<close>; \<open>None\<close> when the loop has not ended by then.\<close>

fun waves :: "nat \<Rightarrow> (send_payload \<Rightarrow> step_update) \<Rightarrow> executor_state \<Rightarrow> executor_state option" where
  "waves 0 run st = None"
| "waves (Suc n) run st =
     (case dispatch_wave st of
        ToAggregate \<Rightarrow> Some st
      | Sends ss \<Rightarrow> waves n run (superstep run st ss))"

text \<open>
  The same loop under LangGraph's recursion limit, which aborts a run that needs more supersteps than
  the limit allows. \<open>m\<close> supersteps are left: a round costs two of them (\<open>wave\<close>, \<open>run_step\<close>), and the end
  of the turn three (\<open>wave\<close>, \<open>aggregate\<close>, \<open>persist\<close>).
\<close>

datatype graph_error = GraphRecursionError

fun wave_loop :: "nat \<Rightarrow> (send_payload \<Rightarrow> step_update) \<Rightarrow> executor_state \<Rightarrow> graph_error + executor_state" where
  "wave_loop m run st =
     (case dispatch_wave st of
        ToAggregate \<Rightarrow> if 3 \<le> m then Inr st else Inl GraphRecursionError
      | Sends ss \<Rightarrow> if 2 \<le> m then wave_loop (m - 2) run (superstep run st ss) else Inl GraphRecursionError)"

declare wave_loop.simps [simp del]

section \<open>The recursion limit\<close>

text \<open>
  A loop that ends after \<open>w\<close> rounds ends the same way under the limit, exactly when the limit leaves
  it \<open>2 * w + 3\<close> supersteps; otherwise it is aborted.
\<close>

lemma wave_loop_exact:
  "waves n run st = Some st' \<Longrightarrow> \<exists>w < n. waves (Suc w) run st = Some st'
     \<and> (\<forall>m. wave_loop m run st = (if 2 * w + 3 \<le> m then Inr st' else Inl GraphRecursionError))"
proof (induction n arbitrary: st)
  case (Suc n)
  show ?case
  proof (cases "dispatch_wave st")
    case ToAggregate
    with Suc.prems show ?thesis by (intro exI [of _ 0]) (simp add: wave_loop.simps)
  next
    case (Sends ss)
    let ?st = "superstep run st ss"
    from Suc.prems Sends have "waves n run ?st = Some st'" by simp
    then obtain w where w: "w < n" "waves (Suc w) run ?st = Some st'"
      "\<forall>m. wave_loop m run ?st = (if 2 * w + 3 \<le> m then Inr st' else Inl GraphRecursionError)"
      using Suc.IH by blast
    have "wave_loop m run st = (if 2 * Suc w + 3 \<le> m then Inr st' else Inl GraphRecursionError)" for m
      by (subst wave_loop.simps) (simp add: Sends w(3), linarith)
    moreover have "waves (Suc (Suc w)) run st = Some st'"
      by (subst waves.simps(2)) (simp only: Sends dispatch.case w(2))
    ultimately show ?thesis using w(1) by (intro exI [of _ "Suc w"]) simp
  qed
qed simp

lemma waves_rounds_unique: "waves (Suc w) run st = Some st' \<Longrightarrow> waves n run st = Some st'' \<Longrightarrow> st' = st''"
proof (induction n arbitrary: w st)
  case (Suc n)
  then show ?case
    by (cases "dispatch_wave st"; cases w) auto
qed simp

section \<open>Reducer lemmas\<close>

lemma merge_fold_fresh:
  assumes "distinct (map key (xs @ ys))"
  shows "foldl (\<lambda>d r. AList.update (key r) r d) (map (\<lambda>x. (key x, x)) xs) ys = map (\<lambda>x. (key x, x)) (xs @ ys)"
  using assms
proof (induction ys arbitrary: xs)
  case (Cons y ys)
  have "AList.update (key y) y (map (\<lambda>x. (key x, x)) xs) = map (\<lambda>x. (key x, x)) (xs @ [y])"
    using Cons.prems by (subst update_new) (auto simp: image_image)
  with Cons.IH [of "xs @ [y]"] Cons.prems show ?case by simp
qed simp

lemma merge_by_id_fresh:
  assumes "distinct (map key (l @ r))"
  shows "merge_by_id (\<lambda>x. Some (key x)) l r = l @ r"
  using merge_fold_fresh [of key "[]" "l @ r"] assms
  by (simp add: merge_by_id_def entry_key_def comp_def)

lemma merge_step_results_fresh:
  "distinct (map res_step_id (l @ r)) \<Longrightarrow> merge_step_results l r = l @ r"
  unfolding merge_step_results_def by (rule merge_by_id_fresh)

text \<open>Appending only what is new.\<close>

definition add_new :: "exec_step list \<Rightarrow> exec_step list \<Rightarrow> exec_step list" where
  "add_new = foldl (\<lambda>acc s. if es_step_id s \<in> es_step_id ` set acc then acc else acc @ [s])"

lemma union_fold:
  "foldl (\<lambda>d r. let k = entry_key (Some (es_step_id r)) d in if k \<in> fst ` set d then d else AList.update k r d)
     (map (\<lambda>x. (es_step_id x, x)) acc) xs = map (\<lambda>x. (es_step_id x, x)) (add_new acc xs)"
proof (induction xs arbitrary: acc)
  case (Cons x xs)
  let ?p = "map (\<lambda>x. (es_step_id x, x))"
  have keys: "fst ` set (?p acc) = es_step_id ` set acc" by (simp add: image_image)
  show ?case
  proof (cases "es_step_id x \<in> es_step_id ` set acc")
    case True
    with Cons.IH [of acc] keys show ?thesis by (simp add: add_new_def Let_def entry_key_def)
  next
    case False
    then have "AList.update (es_step_id x) x (?p acc) = ?p (acc @ [x])"
      using keys by (subst update_new) auto
    with False Cons.IH [of "acc @ [x]"] keys show ?thesis
      by (simp add: add_new_def Let_def entry_key_def)
  qed
qed (simp add: add_new_def)

lemma add_new_id: "distinct (map es_step_id (acc @ xs)) \<Longrightarrow> add_new acc xs = acc @ xs"
  by (induction xs arbitrary: acc) (auto simp: add_new_def)

lemma add_new_append: "add_new acc (xs @ ys) = add_new (add_new acc xs) ys"
  by (simp add: add_new_def)

lemma merge_plan_add_new: "distinct (map es_step_id l) \<Longrightarrow> merge_plan l r = add_new l r"
  using union_fold [of "[]" "l @ r"] add_new_id [of "[]" l]
  by (simp add: merge_plan_def union_by_id_def add_new_append comp_def)

lemma add_new_props:
  assumes "distinct (map es_step_id acc)"
  shows "distinct (map es_step_id (add_new acc xs)) \<and> prefix acc (add_new acc xs)
    \<and> set (add_new acc xs) \<subseteq> set acc \<union> set xs
    \<and> es_step_id ` set (add_new acc xs) = es_step_id ` set acc \<union> es_step_id ` set xs"
  using assms
proof (induction xs arbitrary: acc)
  case (Cons x xs)
  show ?case
  proof (cases "es_step_id x \<in> es_step_id ` set acc")
    case True
    then have "add_new acc (x # xs) = add_new acc xs" by (simp add: add_new_def)
    with Cons.IH [OF Cons.prems] True show ?thesis by auto
  next
    case False
    then have e: "add_new acc (x # xs) = add_new (acc @ [x]) xs" by (simp add: add_new_def)
    have "distinct (map es_step_id (acc @ [x]))" using False Cons.prems by auto
    from Cons.IH [OF this] show ?thesis unfolding e by (auto simp: prefix_def)
  qed
qed (simp add: add_new_def)

section \<open>One superstep\<close>

text \<open>What the loop needs of the work of a step: one result, for that step.\<close>

definition one_result :: "(send_payload \<Rightarrow> step_update) \<Rightarrow> bool" where
  "one_result run \<longleftrightarrow> (\<forall>p. \<exists>r. up_step_results (run p) = [r] \<and> res_step_id r = es_step_id (sp_step p))"

definition result_of :: "(send_payload \<Rightarrow> step_update) \<Rightarrow> send_payload \<Rightarrow> step_result" where
  "result_of run p = hd (up_step_results (run p))"

lemma one_result_hd:
  assumes "one_result run"
  shows "up_step_results (run p) = [result_of run p] \<and> res_step_id (result_of run p) = es_step_id (sp_step p)"
  using assms by (metis list.sel(1) one_result_def result_of_def)

lemma superstep_state:
  assumes "one_result run"
  shows "distinct (map res_step_id (x_step_results st) @ map (es_step_id \<circ> sp_step) sends) \<Longrightarrow>
    distinct (map es_step_id (x_plan st)) \<Longrightarrow>
    superstep run st sends = st\<lparr>x_step_results := x_step_results st @ map (result_of run) sends,
      x_plan := add_new (x_plan st) (concat (map (up_plan \<circ> run) sends))\<rparr>"
proof (induction sends arbitrary: st)
  case Nil
  then show ?case by (simp add: superstep_def add_new_def)
next
  case (Cons p sends)
  let ?st = "apply_update st (run p)"
  note r = one_result_hd [OF assms, of p]
  have res: "x_step_results ?st = x_step_results st @ [result_of run p]"
    using Cons.prems(1) r by (simp add: apply_update_def merge_step_results_fresh)
  have pl: "x_plan ?st = add_new (x_plan st) (up_plan (run p))"
    using Cons.prems(2) by (simp add: apply_update_def merge_plan_add_new)
  have "superstep run st (p # sends) = superstep run ?st sends" by (simp add: superstep_def)
  also have "\<dots> = ?st\<lparr>x_step_results := x_step_results ?st @ map (result_of run) sends,
      x_plan := add_new (x_plan ?st) (concat (map (up_plan \<circ> run) sends))\<rparr>"
    using Cons.prems r by (intro Cons.IH) (auto simp: res pl add_new_props)
  finally show ?case unfolding res pl by (simp add: apply_update_def add_new_append comp_def)
qed

lemma runnable_sub: "set (runnable st) \<subseteq> set (x_plan st)"
  by (auto simp: runnable_def)

lemma runnable_fresh:
  assumes "distinct (map es_step_id (x_plan st))" "distinct (map res_step_id (x_step_results st))"
  shows "distinct (map res_step_id (x_step_results st) @ map (es_step_id \<circ> sp_step) (map (mk_send st) (runnable st)))"
proof -
  have "distinct (map es_step_id (runnable st))"
    using assms(1) unfolding runnable_def by (rule distinct_map_filter)
  moreover have "res_step_id ` set (x_step_results st) \<inter> es_step_id ` set (runnable st) = {}"
    unfolding disjoint_iff by (simp add: runnable_def completed_def) force
  ultimately show ?thesis using assms(2) by (simp add: comp_def mk_send_def image_image)
qed

lemma results_by_id_distinct:
  "distinct (map res_step_id rs) \<Longrightarrow> results_by_id rs d = Some r \<longleftrightarrow> r \<in> set rs \<and> res_step_id r = d"
  unfolding results_by_id_def by (subst map_of_eq_Some_iff) (auto simp: rev_map [symmetric] comp_def)

lemma results_by_id_append:
  assumes "distinct (map res_step_id (rs @ ms))" "d \<in> completed rs"
  shows "results_by_id (rs @ ms) d = results_by_id rs d"
proof -
  from assms(2) obtain r where "r \<in> set rs" "res_step_id r = d" by (auto simp: completed_def)
  then have "results_by_id rs d = Some r" "results_by_id (rs @ ms) d = Some r"
    using assms(1) results_by_id_distinct [of rs d r] results_by_id_distinct [of "rs @ ms" d r] by auto
  then show ?thesis by simp
qed

lemma dep_results_append:
  assumes "distinct (map res_step_id (rs @ ms))" "set (es_depends_on s) \<subseteq> completed rs"
  shows "dep_results (rs @ ms) s = dep_results rs s"
  unfolding dep_results_def
  by (rule foldl_cong) (use assms results_by_id_append [OF assms(1)] in auto)

section \<open>The loop\<close>

text \<open>
  Every result in the state is what its step gives when it is fed the results of its dependencies,
  and ids stay unique.
\<close>

definition loop_inv :: "(send_payload \<Rightarrow> step_update) \<Rightarrow> executor_state \<Rightarrow> bool" where
  "loop_inv run st \<longleftrightarrow> distinct (map es_step_id (x_plan st)) \<and> distinct (map res_step_id (x_step_results st))
     \<and> (\<forall>r \<in> set (x_step_results st). \<exists>s \<in> set (x_plan st). r = result_of run (mk_send st s)
          \<and> set (es_depends_on s) \<subseteq> completed (x_step_results st))"

lemma dispatch_Sends:
  "dispatch_wave st = Sends ss \<Longrightarrow> ss = map (mk_send st) (runnable st) \<and> runnable st \<noteq> []"
  by (auto simp: dispatch_wave_def Let_def split: if_splits)

lemma dispatch_Aggregate:
  assumes "dispatch_wave st = ToAggregate" "s \<in> set (x_plan st)" "es_step_id s \<notin> completed (x_step_results st)"
  shows "\<exists>d \<in> set (es_depends_on s). d \<notin> completed (x_step_results st)"
proof -
  from assms have "runnable st = []"
    by (auto simp: dispatch_wave_def Let_def filter_empty_conv split: if_splits)
  with assms show ?thesis by (auto simp: runnable_def filter_empty_conv list_all_iff)
qed

lemma superstep_wave:
  assumes "one_result run" "loop_inv run st" "dispatch_wave st = Sends ss"
  shows "superstep run st ss = st\<lparr>
      x_step_results := x_step_results st @ map (\<lambda>s. result_of run (mk_send st s)) (runnable st),
      x_plan := add_new (x_plan st) (concat (map (\<lambda>s. up_plan (run (mk_send st s))) (runnable st)))\<rparr>"
  using superstep_state [OF assms(1) runnable_fresh [of st]] assms(2) dispatch_Sends [OF assms(3)]
  by (simp add: loop_inv_def comp_def)

lemma loop_inv_superstep:
  assumes one: "one_result run" and inv: "loop_inv run st" and d: "dispatch_wave st = Sends ss"
  shows "loop_inv run (superstep run st ss)"
proof -
  let ?new = "map (\<lambda>s. result_of run (mk_send st s)) (runnable st)"
  let ?rs = "x_step_results st @ ?new"
  let ?pl = "add_new (x_plan st) (concat (map (\<lambda>s. up_plan (run (mk_send st s))) (runnable st)))"
  let ?st = "st\<lparr>x_step_results := ?rs, x_plan := ?pl\<rparr>"
  have e: "superstep run st ss = ?st" by (rule superstep_wave [OF assms])
  have dp: "distinct (map es_step_id (x_plan st))" and dr: "distinct (map res_step_id (x_step_results st))"
    using inv by (auto simp: loop_inv_def)
  note pl = add_new_props [OF dp, of "concat (map (\<lambda>s. up_plan (run (mk_send st s))) (runnable st))"]
  have sub: "set (x_plan st) \<subseteq> set ?pl" using pl by (auto simp: prefix_def)
  have ids: "map res_step_id ?new = map es_step_id (runnable st)"
    using one_result_hd [OF one] by (simp add: mk_send_def)
  have drs: "distinct (map res_step_id ?rs)"
    unfolding map_append ids using runnable_fresh [OF dp dr] by (simp add: comp_def mk_send_def)
  have same: "mk_send ?st s = mk_send st s" if "set (es_depends_on s) \<subseteq> completed (x_step_results st)" for s
    using dep_results_append [OF drs that] by (simp add: mk_send_def request_envelope_def)
  have mono: "completed (x_step_results st) \<subseteq> completed ?rs" by (auto simp: completed_def)
  have "\<exists>s \<in> set ?pl. r = result_of run (mk_send ?st s) \<and> set (es_depends_on s) \<subseteq> completed ?rs"
    if r: "r \<in> set ?rs" for r
  proof -
    obtain s where "s \<in> set (x_plan st)" "r = result_of run (mk_send st s)"
      "set (es_depends_on s) \<subseteq> completed (x_step_results st)"
    proof (cases "r \<in> set (x_step_results st)")
      case True
      with inv that show ?thesis by (auto simp: loop_inv_def)
    next
      case False
      with r obtain s where "s \<in> set (runnable st)" "r = result_of run (mk_send st s)" by auto
      with that runnable_sub [of st] show ?thesis by (auto simp: runnable_def list_all_iff subset_iff)
    qed
    with same sub mono show ?thesis by (metis (no_types, lifting) order_trans subsetD)
  qed
  with pl drs show ?thesis unfolding e loop_inv_def by simp
qed

text \<open>
  A potential for the steps: running a step costs more than all the steps it spawns are worth.
  Then every wave spends some of what is left, and the loop ends. \<open>G\<close> is what the potential needs of
  a step, and what spawned steps inherit.
\<close>

definition remaining_steps :: "executor_state \<Rightarrow> exec_step list" where
  "remaining_steps st = filter (\<lambda>s. es_step_id s \<notin> completed (x_step_results st)) (x_plan st)"

definition spends ::
  "(exec_step \<Rightarrow> bool) \<Rightarrow> (exec_step \<Rightarrow> nat) \<Rightarrow> (send_payload \<Rightarrow> step_update) \<Rightarrow> bool" where
  "spends G pot run \<longleftrightarrow> (\<forall>p. G (sp_step p) \<longrightarrow> sum_list (map pot (up_plan (run p))) < pot (sp_step p)
     \<and> list_all G (up_plan (run p)))"

lemma sum_filter_le: "sum_list (map f (filter P xs)) \<le> (sum_list (map f xs) :: nat)"
  by (induction xs) auto

lemma sum_add_new: "sum_list (map f (filter P (add_new acc xs))) \<le> (sum_list (map f (filter P acc)) + sum_list (map f xs) :: nat)"
proof (induction xs arbitrary: acc)
  case (Cons x xs)
  from Cons.IH [of acc] Cons.IH [of "acc @ [x]"] show ?case
    by (auto simp: add_new_def split: if_splits)
qed (simp add: add_new_def)

lemma sum_concat: "sum_list (map f (concat xss)) = sum_list (map (\<lambda>xs. sum_list (map f xs)) xss)"
  by (induction xss) auto

lemma sum_list_less:
  "xs \<noteq> [] \<Longrightarrow> (\<And>x. x \<in> set xs \<Longrightarrow> f x < g x) \<Longrightarrow> sum_list (map f xs) < (sum_list (map g xs) :: nat)"
proof (induction xs)
  case (Cons x xs)
  have le: "sum_list (map f xs) \<le> sum_list (map g xs)"
    by (rule sum_list_mono) (use Cons.prems(2) in \<open>auto intro: less_imp_le\<close>)
  have "f x < g x" using Cons.prems(2) by simp
  with le show ?case by simp
qed simp

lemma wave_spends:
  assumes one: "one_result run" and inv: "loop_inv run st" and d: "dispatch_wave st = Sends ss"
    and pot: "spends G pot run" and good: "list_all G (x_plan st)"
  shows "list_all G (x_plan (superstep run st ss)) \<and> sum_list (map pot (remaining_steps (superstep run st ss))) < sum_list (map pot (remaining_steps st))"
proof -
  let ?R = "runnable st" and ?rs = "x_step_results st"
  let ?new = "map (\<lambda>s. result_of run (mk_send st s)) ?R"
  let ?gen = "concat (map (\<lambda>s. up_plan (run (mk_send st s))) ?R)"
  let ?P = "\<lambda>s. es_step_id s \<notin> completed (?rs @ ?new)"
  have ids: "completed (?rs @ ?new) = completed ?rs \<union> es_step_id ` set ?R"
    using one_result_hd [OF one] by (auto simp: completed_def image_image mk_send_def)
  have dp: "distinct (map es_step_id (x_plan st))" using inv by (simp add: loop_inv_def)
  have "filter ?P (x_plan st) = filter (\<lambda>s. es_step_id s \<notin> completed ?rs \<and> s \<notin> set ?R) (x_plan st)"
  proof (rule filter_cong [OF refl])
    fix s assume s: "s \<in> set (x_plan st)"
    have "es_step_id s \<in> es_step_id ` set ?R \<longleftrightarrow> s \<in> set ?R"
      using dp s runnable_sub [of st] by (auto simp: distinct_map inj_on_def)
    then show "?P s \<longleftrightarrow> es_step_id s \<notin> completed ?rs \<and> s \<notin> set ?R" by (simp add: ids)
  qed
  moreover have "sum_list (map pot (remaining_steps st)) = sum_list (map pot ?R)
      + sum_list (map pot (filter (\<lambda>s. es_step_id s \<notin> completed ?rs \<and> s \<notin> set ?R) (x_plan st)))"
  proof -
    have "filter (\<lambda>s. s \<in> set ?R) (remaining_steps st) = ?R"
      unfolding remaining_steps_def filter_filter unfolding runnable_def by (rule filter_cong) auto
    moreover have "sum_list (map pot xs) = sum_list (map pot (filter (\<lambda>s. s \<in> set ?R) xs))
        + sum_list (map pot (filter (\<lambda>s. s \<notin> set ?R) xs))" for xs
      by (induction xs) auto
    moreover have "filter (\<lambda>s. s \<notin> set ?R) (remaining_steps st)
        = filter (\<lambda>s. es_step_id s \<notin> completed ?rs \<and> s \<notin> set ?R) (x_plan st)"
      by (simp add: remaining_steps_def conj_commute)
    ultimately show ?thesis by metis
  qed
  moreover have "sum_list (map pot ?gen) < sum_list (map pot ?R)"
  proof -
    have "sum_list (map pot (up_plan (run (mk_send st s)))) < pot s" if "s \<in> set ?R" for s
      using pot [unfolded spends_def, rule_format, of "mk_send st s"] good that runnable_sub [of st]
      by (auto simp: mk_send_def list_all_iff)
    then show ?thesis
      unfolding sum_concat map_map comp_def using dispatch_Sends [OF d] by (intro sum_list_less) auto
  qed
  moreover have "list_all G (add_new (x_plan st) ?gen)"
  proof -
    have "list_all G (up_plan (run (mk_send st s)))" if "s \<in> set ?R" for s
      using pot [unfolded spends_def, rule_format, of "mk_send st s"] good that runnable_sub [of st]
      by (auto simp: mk_send_def list_all_iff)
    with good add_new_props [OF dp, of ?gen] show ?thesis by (auto simp: list_all_iff)
  qed
  ultimately show ?thesis
    using sum_add_new [of pot ?P "x_plan st" ?gen]
    unfolding superstep_wave [OF one inv d] remaining_steps_def by simp
qed

theorem waves_terminate:
  assumes one: "one_result run" and pot: "spends G pot run"
  shows "loop_inv run st \<Longrightarrow> list_all G (x_plan st) \<Longrightarrow> sum_list (map pot (remaining_steps st)) < n \<Longrightarrow>
    \<exists>st'. waves n run st = Some st' \<and> loop_inv run st' \<and> dispatch_wave st' = ToAggregate
      \<and> request_envelope st' = request_envelope st \<and> prefix (x_plan st) (x_plan st')"
proof (induction n arbitrary: st)
  case (Suc n)
  show ?case
  proof (cases "dispatch_wave st")
    case ToAggregate
    with Suc.prems show ?thesis by simp
  next
    case (Sends ss)
    let ?st = "superstep run st ss"
    have "list_all G (x_plan ?st)" "sum_list (map pot (remaining_steps ?st)) < n"
      using wave_spends [OF one Suc.prems(1) Sends pot Suc.prems(2)] Suc.prems(3) by simp_all
    from Suc.IH [OF loop_inv_superstep [OF one Suc.prems(1) Sends] this] obtain st' where
      st': "waves n run ?st = Some st'" "loop_inv run st'" "dispatch_wave st' = ToAggregate"
        "request_envelope st' = request_envelope ?st" "prefix (x_plan ?st) (x_plan st')" by blast
    have "request_envelope ?st = request_envelope st" "prefix (x_plan st) (x_plan ?st)"
      using add_new_props [of "x_plan st"] Suc.prems(1)
      by (simp_all add: superstep_wave [OF one Suc.prems(1) Sends] request_envelope_def loop_inv_def)
    with st' Sends show ?thesis by (auto intro: prefix_order.trans)
  qed
qed simp

text \<open>What holds where the loop ends.\<close>

lemma waves_end:
  assumes one: "one_result run"
  shows "waves n run st = Some st' \<Longrightarrow> loop_inv run st \<Longrightarrow> loop_inv run st'"
    and "waves n run st = Some st' \<Longrightarrow> loop_inv run st \<Longrightarrow> dispatch_wave st' = ToAggregate"
    and "waves n run st = Some st' \<Longrightarrow> loop_inv run st \<Longrightarrow> prefix (x_plan st) (x_plan st')"
proof -
  have "waves n run st = Some st' \<Longrightarrow> loop_inv run st \<Longrightarrow>
    loop_inv run st' \<and> dispatch_wave st' = ToAggregate \<and> prefix (x_plan st) (x_plan st')"
  proof (induction n arbitrary: st)
    case (Suc n)
    show ?case
    proof (cases "dispatch_wave st")
      case (Sends ss)
      have "prefix (x_plan st) (x_plan (superstep run st ss))"
        using add_new_props [of "x_plan st"] Suc.prems(2)
        by (simp add: superstep_wave [OF one Suc.prems(2) Sends] loop_inv_def)
      with Suc.IH [of "superstep run st ss"] Suc.prems Sends loop_inv_superstep [OF one Suc.prems(2) Sends]
      show ?thesis by (auto intro: prefix_order.trans)
    qed (use Suc.prems in simp)
  qed simp
  then show "waves n run st = Some st' \<Longrightarrow> loop_inv run st \<Longrightarrow> loop_inv run st'"
    and "waves n run st = Some st' \<Longrightarrow> loop_inv run st \<Longrightarrow> dispatch_wave st' = ToAggregate"
    and "waves n run st = Some st' \<Longrightarrow> loop_inv run st \<Longrightarrow> prefix (x_plan st) (x_plan st')" by blast+
qed

text \<open>A plan whose steps wait only for earlier steps never stalls: its first open step can run.\<close>

lemma wf_prefix_completes:
  assumes "prefix ps (x_plan st)" "deps_before es_depends_on es_step_id ps" "dispatch_wave st = ToAggregate"
  shows "es_step_id ` set ps \<subseteq> completed (x_step_results st)"
proof (rule ccontr)
  let ?P = "\<lambda>s. es_step_id s \<notin> completed (x_step_results st)"
  assume "\<not> es_step_id ` set ps \<subseteq> completed (x_step_results st)"
  then have "\<exists>x \<in> set ps. ?P x" by auto
  then obtain ys s zs where split: "ps = ys @ s # zs" "?P s" "\<forall>y \<in> set ys. \<not> ?P y"
    by (rule split_list_first_propE)
  then have "set (es_depends_on s) \<subseteq> completed (x_step_results st)"
    using assms(2) by (fastforce simp: deps_before_def)
  moreover have "s \<in> set (x_plan st)" using assms(1) split(1) by (auto simp: prefix_def)
  ultimately show False using dispatch_Aggregate [OF assms(3), of s] split(2) by auto
qed

lemma wf_plan_completes:
  assumes "deps_before es_depends_on es_step_id (x_plan st)" "dispatch_wave st = ToAggregate"
  shows "es_step_id ` set (x_plan st) \<subseteq> completed (x_step_results st)"
  by (rule wf_prefix_completes [OF _ assms]) simp

lemma deps_before_add_new:
  assumes "deps_before es_depends_on es_step_id acc"
  shows "(\<And>x. x \<in> set xs \<Longrightarrow> set (es_depends_on x) \<subseteq> es_step_id ` set acc)
    \<Longrightarrow> deps_before es_depends_on es_step_id (add_new acc xs)"
  using assms
proof (induction xs arbitrary: acc)
  case (Cons x xs)
  have step: "deps_before es_depends_on es_step_id (add_new acc (x # xs))"
    if "deps_before es_depends_on es_step_id (add_new (acc @ [x]) xs)" "deps_before es_depends_on es_step_id (add_new acc xs)"
    using that by (simp add: add_new_def)
  show ?case
  proof (rule step)
    show "deps_before es_depends_on es_step_id (add_new acc xs)"
      by (rule Cons.IH) (use Cons.prems in auto)
    show "deps_before es_depends_on es_step_id (add_new (acc @ [x]) xs)"
    proof (rule Cons.IH)
      show "deps_before es_depends_on es_step_id (acc @ [x])" using Cons.prems by simp
      show "set (es_depends_on y) \<subseteq> es_step_id ` set (acc @ [x])" if "y \<in> set xs" for y
        using Cons.prems(1) [of y] that by auto
    qed
  qed
qed (simp add: add_new_def)

text \<open>Spawned steps that wait for known steps keep the plan executable front to back.\<close>

definition spawns_forward :: "(send_payload \<Rightarrow> step_update) \<Rightarrow> bool" where
  "spawns_forward run \<longleftrightarrow> (\<forall>p. \<forall>x \<in> set (up_plan (run p)).
     set (es_depends_on x) \<subseteq> insert (es_step_id (sp_step p)) (set (es_depends_on (sp_step p))))"

lemma superstep_deps_before:
  assumes one: "one_result run" and inv: "loop_inv run st" and d: "dispatch_wave st = Sends ss"
    and fwd: "spawns_forward run" and before: "deps_before es_depends_on es_step_id (x_plan st)"
  shows "deps_before es_depends_on es_step_id (x_plan (superstep run st ss))"
proof -
  have known: "set (es_depends_on x) \<subseteq> es_step_id ` set (x_plan st)"
    if x: "x \<in> set (concat (map (\<lambda>s. up_plan (run (mk_send st s))) (runnable st)))" for x
  proof -
    from x obtain s where s: "s \<in> set (runnable st)" "x \<in> set (up_plan (run (mk_send st s)))" by auto
    have "set (es_depends_on x) \<subseteq> insert (es_step_id s) (set (es_depends_on s))"
      using fwd [unfolded spawns_forward_def, rule_format, OF s(2)] by (simp add: mk_send_def)
    moreover have sp: "s \<in> set (x_plan st)" using s(1) runnable_sub by auto
    moreover have "set (es_depends_on s) \<subseteq> es_step_id ` set (x_plan st)"
    proof -
      from sp obtain ys zs where "x_plan st = ys @ s # zs" by (meson split_list)
      with before show ?thesis by (fastforce simp: deps_before_def)
    qed
    ultimately show ?thesis by auto
  qed
  have "deps_before es_depends_on es_step_id
      (add_new (x_plan st) (concat (map (\<lambda>s. up_plan (run (mk_send st s))) (runnable st))))"
    by (rule deps_before_add_new [OF before]) (rule known)
  then show ?thesis unfolding superstep_wave [OF one inv d] by simp
qed

lemma waves_deps_before:
  assumes one: "one_result run" and fwd: "spawns_forward run"
  shows "waves n run st = Some st' \<Longrightarrow> loop_inv run st \<Longrightarrow> deps_before es_depends_on es_step_id (x_plan st)
    \<Longrightarrow> deps_before es_depends_on es_step_id (x_plan st')"
proof (induction n arbitrary: st)
  case (Suc n)
  show ?case
  proof (cases "dispatch_wave st")
    case (Sends ss)
    with Suc loop_inv_superstep [OF one Suc.prems(2) Sends]
      superstep_deps_before [OF one Suc.prems(2) Sends fwd Suc.prems(3)] show ?thesis by simp
  qed (use Suc.prems in simp)
qed simp

text \<open>The start of a turn: a fresh plan, no results yet.\<close>

lemma loop_inv_start: "distinct (map es_step_id (x_plan st)) \<Longrightarrow> x_step_results st = [] \<Longrightarrow> loop_inv run st"
  by (simp add: loop_inv_def)

lemma loop_inv_completed_ids: "one_result run \<Longrightarrow> loop_inv run st \<Longrightarrow> completed (x_step_results st) \<subseteq> es_step_id ` set (x_plan st)"
  using one_result_hd by (fastforce simp: loop_inv_def completed_def mk_send_def)

lemma loop_inv_unique:
  assumes "one_result run" "loop_inv run st" "s \<in> set (x_plan st)" "es_step_id s \<in> completed (x_step_results st)"
  shows "\<exists>!r. r \<in> set (x_step_results st) \<and> res_step_id r = es_step_id s"
    and "result_of run (mk_send st s) \<in> set (x_step_results st)"
    and "set (es_depends_on s) \<subseteq> completed (x_step_results st)"
proof -
  from assms(4) obtain r where r: "r \<in> set (x_step_results st)" "res_step_id r = es_step_id s"
    by (auto simp: completed_def)
  with assms(2) obtain s' where s': "s' \<in> set (x_plan st)" "r = result_of run (mk_send st s')"
    "set (es_depends_on s') \<subseteq> completed (x_step_results st)" by (auto simp: loop_inv_def)
  then have "es_step_id s' = es_step_id s" using one_result_hd [OF assms(1), of "mk_send st s'"] r by (simp add: mk_send_def)
  with assms(2,3) s'(1) have "s' = s" by (auto simp: loop_inv_def distinct_map inj_on_def)
  with s' r show "result_of run (mk_send st s) \<in> set (x_step_results st)"
    "set (es_depends_on s) \<subseteq> completed (x_step_results st)" by auto
  show "\<exists>!r. r \<in> set (x_step_results st) \<and> res_step_id r = es_step_id s"
    using r assms(2) by (auto simp: loop_inv_def distinct_map inj_on_def)
qed

section \<open>How many waves a plan takes\<close>

text \<open>
  A rank of the steps: every step ranks above the steps it waits for, and its rank with \<open>room\<close>, the
  generations it may still start, stays below \<open>M\<close>. A step that spawns gives each child less room than
  it has itself.
\<close>

definition ranked :: "(exec_step \<Rightarrow> nat) \<Rightarrow> nat \<Rightarrow> (string \<Rightarrow> nat) \<Rightarrow> exec_step list \<Rightarrow> bool" where
  "ranked room M rk plan \<longleftrightarrow>
     (\<forall>s \<in> set plan. rk (es_step_id s) + room s < M \<and> (\<forall>d \<in> set (es_depends_on s). rk d < rk (es_step_id s)))"

definition spawns_below :: "(exec_step \<Rightarrow> nat) \<Rightarrow> (send_payload \<Rightarrow> step_update) \<Rightarrow> bool" where
  "spawns_below room run \<longleftrightarrow> (\<forall>p. \<forall>x \<in> set (up_plan (run p)). room x < room (sp_step p))"

lemma spawned_by:
  assumes "x \<in> set (add_new acc (concat (map f xs)))"
  shows "x \<in> set acc \<or> es_step_id x \<notin> es_step_id ` set acc \<and> (\<exists>s \<in> set xs. x \<in> set (f s))"
proof -
  have "x \<in> set (add_new a ys) \<Longrightarrow> x \<in> set a \<or> es_step_id x \<notin> es_step_id ` set a \<and> x \<in> set ys" for a ys
  proof (induction ys arbitrary: a)
    case (Cons y ys)
    show ?case
    proof (cases "es_step_id y \<in> es_step_id ` set a")
      case True
      then have "add_new a (y # ys) = add_new a ys" by (simp add: add_new_def)
      with Cons show ?thesis by auto
    next
      case False
      then have "add_new a (y # ys) = add_new (a @ [y]) ys" by (simp add: add_new_def)
      with Cons.IH [of "a @ [y]"] Cons.prems False show ?thesis by auto
    qed
  qed (simp add: add_new_def)
  from this [OF assms] show ?thesis by (auto simp: set_concat)
qed

lemma ranked_superstep:
  assumes one: "one_result run" and inv: "loop_inv run st" and d: "dispatch_wave st = Sends ss"
    and fwd: "spawns_forward run" and below: "spawns_below room run"
    and before: "deps_before es_depends_on es_step_id (x_plan st)"
    and rk: "ranked room M rk (x_plan st)" and open_rk: "\<forall>s \<in> set (remaining_steps st). k \<le> rk (es_step_id s)"
  shows "\<exists>rk'. ranked room M rk' (x_plan (superstep run st ss))
    \<and> (\<forall>s \<in> set (remaining_steps (superstep run st ss)). Suc k \<le> rk' (es_step_id s))"
proof -
  let ?R = "runnable st" and ?old = "es_step_id ` set (x_plan st)"
  let ?f = "\<lambda>s. up_plan (run (mk_send st s))"
  let ?pl = "add_new (x_plan st) (concat (map ?f ?R))"
  let ?rs = "x_step_results st @ map (\<lambda>s. result_of run (mk_send st s)) ?R"
  have dp: "distinct (map es_step_id (x_plan st))" using inv by (simp add: loop_inv_def)
  have dpl: "distinct (map es_step_id ?pl)" using add_new_props [OF dp] by blast
  have e: "x_plan (superstep run st ss) = ?pl" "x_step_results (superstep run st ss) = ?rs"
    by (simp_all add: superstep_wave [OF one inv d])
  have ids: "completed ?rs = completed (x_step_results st) \<union> es_step_id ` set ?R"
    using one_result_hd [OF one] by (auto simp: completed_def image_image mk_send_def)
  have parents: "\<forall>x \<in> set ?pl. \<exists>s. x \<notin> set (x_plan st) \<longrightarrow> s \<in> set ?R \<and> x \<in> set (?f s)"
    using spawned_by [of _ "x_plan st" ?f ?R] by blast
  then obtain par where par: "\<And>x. x \<in> set ?pl \<Longrightarrow> x \<notin> set (x_plan st) \<Longrightarrow> par x \<in> set ?R \<and> x \<in> set (?f (par x))"
    by metis
  define stp where "stp i = (THE x. x \<in> set ?pl \<and> es_step_id x = i)" for i
  have stp: "stp (es_step_id x) = x" if "x \<in> set ?pl" for x
    unfolding stp_def by (rule the_equality) (use that dpl in \<open>auto simp: distinct_map inj_on_def\<close>)
  define rk' where "rk' i = (if i \<in> ?old then rk i else Suc (rk (es_step_id (par (stp i)))))" for i
  have new: "rk' (es_step_id x) = Suc (rk (es_step_id (par x)))" "par x \<in> set ?R" "x \<in> set (?f (par x))" "par x \<in> set (x_plan st)"
    if x: "x \<in> set ?pl" "x \<notin> set (x_plan st)" for x
  proof -
    have "es_step_id x \<notin> ?old" using spawned_by [OF x(1)] x(2) by blast
    then show "rk' (es_step_id x) = Suc (rk (es_step_id (par x)))" using stp [OF x(1)] by (simp add: rk'_def)
    show "par x \<in> set ?R" "x \<in> set (?f (par x))" using par [OF x] by auto
    then show "par x \<in> set (x_plan st)" using runnable_sub by blast
  qed
  have old: "rk' (es_step_id x) = rk (es_step_id x)" if "x \<in> set (x_plan st)" for x
    using that by (simp add: rk'_def)
  have dep_old: "d \<in> ?old" if "x \<in> set (x_plan st)" "d \<in> set (es_depends_on x)" for x d
  proof -
    from that(1) obtain ys zs where "x_plan st = ys @ x # zs" by (meson split_list)
    with before that(2) show ?thesis by (fastforce simp: deps_before_def)
  qed
  have rk_old: "rk (es_step_id s) + room s < M" "d \<in> set (es_depends_on s) \<Longrightarrow> rk d < rk (es_step_id s)"
    if "s \<in> set (x_plan st)" for s d
    using rk that by (auto simp: ranked_def)
  have "ranked room M rk' ?pl"
    unfolding ranked_def
  proof (intro ballI conjI)
    fix x assume x: "x \<in> set ?pl"
    show "rk' (es_step_id x) + room x < M"
    proof (cases "x \<in> set (x_plan st)")
      case True
      then show ?thesis using old rk_old(1) by simp
    next
      case False
      note n = new [OF x False]
      have "room x < room (par x)"
        using below n(3) unfolding spawns_below_def mk_send_def by fastforce
      then show ?thesis using n(1) rk_old(1) [OF n(4)] by simp
    qed
    fix dd assume dd: "dd \<in> set (es_depends_on x)"
    show "rk' dd < rk' (es_step_id x)"
    proof (cases "x \<in> set (x_plan st)")
      case True
      then show ?thesis using old rk_old(2) dd dep_old by (simp add: rk'_def)
    next
      case False
      note n = new [OF x False]
      have "dd \<in> insert (es_step_id (par x)) (set (es_depends_on (par x)))"
        using fwd n(3) dd unfolding spawns_forward_def mk_send_def by fastforce
      then have "dd \<in> ?old" "rk dd \<le> rk (es_step_id (par x))"
        using n(4) dep_old rk_old(2) [OF n(4)] by (auto intro: less_imp_le)
      then show ?thesis using n(1) by (simp add: rk'_def)
    qed
  qed
  moreover have "Suc k \<le> rk' (es_step_id s)" if s: "s \<in> set ?pl" "es_step_id s \<notin> completed ?rs" for s
  proof (cases "s \<in> set (x_plan st)")
    case True
    have open_s: "s \<in> set (remaining_steps st)" using True s(2) by (auto simp: remaining_steps_def ids)
    have "s \<notin> set ?R" using s(2) by (auto simp: ids)
    then obtain dd where dd: "dd \<in> set (es_depends_on s)" "dd \<notin> completed (x_step_results st)"
    proof -
      have "es_step_id s \<notin> completed (x_step_results st)" using s(2) by (simp add: ids)
      with that True \<open>s \<notin> set ?R\<close> show ?thesis by (auto simp: runnable_def list_all_iff)
    qed
    obtain t where t: "t \<in> set (x_plan st)" "dd = es_step_id t" using dep_old [OF True dd(1)] by auto
    have "t \<in> set (remaining_steps st)" using t dd(2) by (simp add: remaining_steps_def)
    with open_rk t(2) have "k \<le> rk dd" by blast
    also have "\<dots> < rk (es_step_id s)" using rk_old(2) [OF True dd(1)] .
    finally show ?thesis using old [OF True] by simp
  next
    case False
    note n = new [OF s(1) False]
    have "par s \<in> set (remaining_steps st)" using n(2,4) by (auto simp: runnable_def remaining_steps_def)
    with open_rk n(1) show ?thesis by simp
  qed
  ultimately show ?thesis unfolding e remaining_steps_def by (intro exI [of _ rk']) auto
qed

text \<open>So a plan of rank \<open>M\<close> is through after \<open>M\<close> waves.\<close>

lemma ranked_waves:
  assumes one: "one_result run" and fwd: "spawns_forward run" and below: "spawns_below room run"
  shows "loop_inv run st \<Longrightarrow> deps_before es_depends_on es_step_id (x_plan st) \<Longrightarrow> ranked room M rk (x_plan st)
    \<Longrightarrow> \<forall>s \<in> set (remaining_steps st). k \<le> rk (es_step_id s) \<Longrightarrow> M \<le> k + n
    \<Longrightarrow> \<exists>st'. waves (Suc n) run st = Some st'"
proof (induction n arbitrary: st rk k)
  case 0
  then have "remaining_steps st = []"
    by (fastforce simp: ranked_def remaining_steps_def filter_empty_conv)
  then show ?case by (simp add: dispatch_wave_def remaining_steps_def)
next
  case (Suc n)
  show ?case
  proof (cases "dispatch_wave st")
    case (Sends ss)
    let ?st = "superstep run st ss"
    obtain rk' where rk': "ranked room M rk' (x_plan ?st)" "\<forall>s \<in> set (remaining_steps ?st). Suc k \<le> rk' (es_step_id s)"
      using ranked_superstep [OF one Suc.prems(1) Sends fwd below Suc.prems(2,3,4)] by blast
    have "\<exists>st'. waves (Suc n) run ?st = Some st'"
      by (rule Suc.IH [OF loop_inv_superstep [OF one Suc.prems(1) Sends]
            superstep_deps_before [OF one Suc.prems(1) Sends fwd Suc.prems(2)] rk']) (use Suc.prems(5) in simp)
    then show ?thesis by (subst waves.simps(2)) (simp only: Sends dispatch.case)
  qed simp
qed

lemma serialise_plan_wf:
  assumes "plan_wf steps"
  shows "distinct (map es_step_id (serialise_plan steps t))
    \<and> deps_before es_depends_on es_step_id (serialise_plan steps t)"
proof -
  have "es_step_id \<circ> serialise_step t = ps_step_id" by (rule ext) (simp add: serialise_step_def)
  with assms show ?thesis
    by (auto simp: plan_wf_def serialise_plan_def deps_before_nth serialise_step_def take_map image_image)
qed

end
