(* ===== verification/Hooks.thy ===== *)
theory Hooks
  imports Authz ExecState
begin

text \<open>
  Lifecycle hooks (\<open>executor/hooks.py\<close>): the registry of hooks, running the hooks an agent
  declares, and the three built-in ones. A hook is a function on the hook context; it returns the
  context it left behind (an after-hook may change the result, the authorisation re-check fills the
  decision cache) and whether it aborted. \<open>HookError\<close> is the abort the executor catches; any other
  exception is \<open>HookRaise\<close>. The clock is read once per run of an agent's hooks. The request has the fields the executor's envelope carries, which has
  no \<open>attributes\<close>.
\<close>

datatype hook_fail = HookError string | HookRaise authz_error

datatype hook_phase = BEFORE | AFTER

record 't hook_context =
  hc_agent_id :: string
  hc_phase :: hook_phase
  hc_step :: exec_step
  hc_request :: request_env
  hc_result :: "step_result option"
  hc_authz :: "authz_service option"
  hc_agent :: "agent_record option"
  hc_step_is_action :: "bool option"
  hc_cache :: "'t decision_cache"
  hc_digest :: "key_payload \<Rightarrow> string"
  hc_now :: 't

type_synonym 't hook = "'t hook_context \<Rightarrow> (hook_fail + unit) \<times> 't hook_context"

type_synonym 't hook_registry = "(string \<times> 't hook) list"

definition hook_register :: "'t hook_registry \<Rightarrow> string \<Rightarrow> 't hook \<Rightarrow> string + 't hook_registry" where
  "hook_register reg i h =
     (if map_of reg i \<noteq> None then Inl (''hook '' @ quoted i @ '' is already registered'')
      else Inr (AList.update i h reg))"

definition hook_get :: "'t hook_registry \<Rightarrow> string \<Rightarrow> hook_fail + 't hook" where
  "hook_get reg i =
     (case map_of reg i of
        None \<Rightarrow> Inl (HookError (''hook '' @ quoted i @ '' is declared by an agent but not registered''))
      | Some h \<Rightarrow> Inr h)"

fun hooks_run :: "'t hook_registry \<Rightarrow> string list \<Rightarrow> 't hook" where
  "hooks_run reg [] ctx = (Inr (), ctx)"
| "hooks_run reg (i # ids) ctx =
     (case hook_get reg i of
        Inl e \<Rightarrow> (Inl e, ctx)
      | Inr h \<Rightarrow>
          (case h ctx of
             (Inl e, ctx') \<Rightarrow> (Inl e, ctx')
           | (Inr _, ctx') \<Rightarrow> hooks_run reg ids ctx'))"

section \<open>Built-in hooks\<close>

definition hook_state_validate :: "'t hook" where
  "hook_state_validate ctx =
     (if es_agent_id (hc_step ctx) = [] then (Inl (HookError ''state_validate: step has no agent_id''), ctx)
      else (Inr (), ctx))"

definition hook_output_redact :: "'t hook" where
  "hook_output_redact ctx =
     (case hc_result ctx of
        None \<Rightarrow> (Inr (), ctx)
      | Some r \<Rightarrow> (Inr (), ctx\<lparr>hc_result := Some (r\<lparr>res_redacted := True\<rparr>)\<rparr>))"

definition require_authz_services :: "'t hook_context \<Rightarrow> hook_fail + authz_service \<times> agent_record" where
  "require_authz_services ctx =
     (case hc_authz ctx of
        None \<Rightarrow> Inl (HookError ''authz_recheck: services[authz] is not an AuthzService - executor wiring is incomplete (no silent skip)'')
      | Some az \<Rightarrow>
          (case hc_agent ctx of
             None \<Rightarrow> Inl (HookError ''authz_recheck: services[agent] is not an AgentRecord - executor wiring is incomplete (no silent skip)'')
           | Some a \<Rightarrow> Inr (az, a)))"

definition principal_from_request :: "request_env \<Rightarrow> hook_fail + principal" where
  "principal_from_request req =
     (let tenant = strip (env_tenant_id req); user = strip (env_user_id req); role = strip (env_role req)
      in if tenant = [] \<or> role = []
         then Inl (HookError ''authz_recheck: request envelope missing tenant_id/role - cannot construct a Principal (deny-by-default)'')
         else Inr \<lparr>p_tenant_id = tenant, p_user_id = user, p_role = role, p_attributes = []\<rparr>)"

definition resource_from_agent :: "agent_record \<Rightarrow> principal \<Rightarrow> bool option \<Rightarrow> resource_descriptor" where
  "resource_from_agent a p step_is_action =
     (let is_action = (case step_is_action of None \<Rightarrow> at_tier (ag_abac_tags a) = ET_ACTION | Some b \<Rightarrow> b)
      in \<lparr>r_resource_id = rec_id a, r_resource_tenant_id = p_tenant_id p,
          r_tier = (if is_action then TIER_ACTION else TIER_READ),
          r_data_classification = data_class_of (at_data_classification (ag_abac_tags a)),
          r_audience = at_audience (ag_abac_tags a), r_required_scopes = []\<rparr>)"

definition hook_authz_recheck :: "'t :: linordered_idom hook" where
  "hook_authz_recheck ctx =
     (case require_authz_services ctx of
        Inl e \<Rightarrow> (Inl e, ctx)
      | Inr (az, a) \<Rightarrow>
          (case principal_from_request (hc_request ctx) of
             Inl e \<Rightarrow> (Inl e, ctx)
           | Inr p \<Rightarrow>
               (case check (hc_digest ctx) az (hc_cache ctx) (hc_now ctx) (hc_now ctx) p
                       (resource_from_agent a p (hc_step_is_action ctx)) of
                  (Inl e, c) \<Rightarrow> (Inl (HookRaise e), ctx\<lparr>hc_cache := c\<rparr>)
                | (Inr d, c) \<Rightarrow>
                    (if allowed d then (Inr (), ctx\<lparr>hc_cache := c\<rparr>)
                     else (Inl (HookError (if d_reasons d \<noteq> []
                             then ''authz_recheck: '' @ join ''; '' (d_reasons d)
                             else ''authz_recheck: denied'')), ctx\<lparr>hc_cache := c\<rparr>)))))"

definition default_hook_registry :: "'t :: linordered_idom hook_registry" where
  "default_hook_registry =
     [(''hook_state_validate'', hook_state_validate), (''hook_output_redact'', hook_output_redact),
      (''builtin:authz_recheck'', hook_authz_recheck)]"

section \<open>The authorisation gate\<close>

text \<open>What a hook may not change, and that it leaves a cache the service could have built.\<close>

definition hook_frame :: "'t :: linordered_idom hook_context \<Rightarrow> 't hook_context \<Rightarrow> bool" where
  "hook_frame c c' \<longleftrightarrow> hc_authz c' = hc_authz c \<and> hc_agent c' = hc_agent c \<and> hc_request c' = hc_request c
     \<and> hc_step c' = hc_step c \<and> hc_step_is_action c' = hc_step_is_action c \<and> hc_digest c' = hc_digest c
     \<and> hc_now c' = hc_now c
     \<and> (\<forall>az. hc_authz c = Some az \<longrightarrow> cache_reachable (hc_digest c) az (hc_cache c) (hc_now c)
           \<longrightarrow> cache_reachable (hc_digest c) az (hc_cache c') (hc_now c))"

lemma hook_frame_refl: "hook_frame c c"
  by (simp add: hook_frame_def)

lemma hook_frame_trans: "hook_frame a b \<Longrightarrow> hook_frame b c \<Longrightarrow> hook_frame a c"
  by (auto simp: hook_frame_def)

lemma frame_state_validate: "hook_frame ctx (snd (hook_state_validate ctx))"
  by (simp add: hook_state_validate_def hook_frame_refl)

lemma frame_output_redact: "hook_frame ctx (snd (hook_output_redact ctx))"
  by (auto simp: hook_output_redact_def hook_frame_def split: option.splits)

lemma frame_authz_recheck: "hook_frame ctx (snd (hook_authz_recheck ctx))"
proof (cases "require_authz_services ctx")
  case (Inr aa)
  then obtain az a where aa: "aa = (az, a)" "hc_authz ctx = Some az"
    by (cases aa) (auto simp: require_authz_services_def split: option.splits)
  show ?thesis
  proof (cases "principal_from_request (hc_request ctx)")
    case (Inr p)
    obtain d c where ck: "check (hc_digest ctx) az (hc_cache ctx) (hc_now ctx) (hc_now ctx) p
        (resource_from_agent a p (hc_step_is_action ctx)) = (d, c)" by fastforce
    have "snd (hook_authz_recheck ctx) = ctx\<lparr>hc_cache := c\<rparr>"
      using \<open>require_authz_services ctx = Inr aa\<close> aa Inr ck
      by (cases d) (simp_all add: hook_authz_recheck_def)
    moreover have "cache_reachable (hc_digest ctx) az c (hc_now ctx)"
      if "cache_reachable (hc_digest ctx) az (hc_cache ctx) (hc_now ctx)"
      using cache_check [OF that order_refl, of p "resource_from_agent a p (hc_step_is_action ctx)"] ck by simp
    ultimately show ?thesis using aa by (simp add: hook_frame_def)
  qed (use \<open>require_authz_services ctx = Inr aa\<close> aa in \<open>simp add: hook_authz_recheck_def hook_frame_refl\<close>)
qed (simp add: hook_authz_recheck_def hook_frame_refl)

lemma frame_default:
  assumes "map_of default_hook_registry i = Some h"
  shows "hook_frame ctx (snd (h ctx))"
  using assms frame_state_validate frame_output_redact frame_authz_recheck
  by (auto simp: default_hook_registry_def split: if_splits)

lemma frame_run:
  fixes ctx :: "'t :: linordered_idom hook_context"
  shows "hook_frame ctx (snd (hooks_run default_hook_registry ids ctx))"
proof (induction ids arbitrary: ctx)
  case (Cons i ids)
  show ?case
  proof (cases "map_of (default_hook_registry :: 't hook_registry) i")
    case (Some h)
    obtain f c where h: "h ctx = (f, c)" by fastforce
    have "hook_frame ctx c" using frame_default [OF Some, of ctx] h by simp
    with Cons.IH [of c] Some h show ?thesis
      by (cases f) (auto simp: hook_get_def intro: hook_frame_trans)
  qed (simp add: hook_get_def hook_frame_refl)
qed (simp add: hook_frame_refl)

text \<open>A run that passes and contains a hook passed that hook, in a context that agrees with the first.\<close>

lemma run_passes_each:
  fixes ctx :: "'t :: linordered_idom hook_context"
  assumes "fst (hooks_run default_hook_registry ids ctx) = Inr ()" "i \<in> set ids"
  shows "\<exists>h c. map_of default_hook_registry i = Some h \<and> hook_frame ctx c \<and> fst (h c) = Inr ()"
  using assms
proof (induction ids arbitrary: ctx)
  case (Cons j ids)
  have "map_of (default_hook_registry :: 't hook_registry) j \<noteq> None"
    using Cons.prems(1)
    by (cases "map_of (default_hook_registry :: 't hook_registry) j") (simp_all add: hook_get_def)
  then obtain h :: "'t hook" where h: "map_of default_hook_registry j = Some h" by blast
  obtain f c where hc: "h ctx = (f, c)" by fastforce
  have ok: "f = Inr ()" "fst (hooks_run default_hook_registry ids c) = Inr ()"
    using Cons.prems(1) h hc by (cases f; simp add: hook_get_def)+
  have fr: "hook_frame ctx c" using frame_default [OF h, of ctx] hc by simp
  show ?case
  proof (cases "i = j")
    case True
    with h hc ok(1) show ?thesis by (intro exI [of _ h] exI [of _ ctx]) (simp add: hook_frame_refl)
  next
    case False
    with Cons.prems(2) Cons.IH [OF ok(2)] fr show ?thesis by (auto intro: hook_frame_trans)
  qed
qed simp

lemma authz_gate:
  assumes run: "fst (hooks_run default_hook_registry ids ctx) = Inr ()" and gate: "''builtin:authz_recheck'' \<in> set ids"
    and reach: "\<And>az. hc_authz ctx = Some az \<Longrightarrow> cache_reachable (hc_digest ctx) az (hc_cache ctx) (hc_now ctx)"
    and coll: "\<And>a p. hc_agent ctx = Some a \<Longrightarrow> principal_from_request (hc_request ctx) = Inr p \<Longrightarrow>
      collision_free (hc_digest ctx) (key_payload_of p (resource_from_agent a p (hc_step_is_action ctx)))"
  shows "\<exists>az a p. hc_authz ctx = Some az \<and> hc_agent ctx = Some a \<and> principal_from_request (hc_request ctx) = Inr p
    \<and> access_permitted p (resource_from_agent a p (hc_step_is_action ctx)) (permissions_for (az_rbac az) (p_role p))"
proof -
  obtain c where fr: "hook_frame ctx c" and ok: "fst (hook_authz_recheck c) = Inr ()"
    using run_passes_each [OF run gate] by (auto simp: default_hook_registry_def)
  obtain az a where az: "require_authz_services c = Inr (az, a)"
    using ok by (cases "require_authz_services c") (auto simp: hook_authz_recheck_def)
  obtain p where p: "principal_from_request (hc_request c) = Inr p"
    using ok az by (cases "principal_from_request (hc_request c)") (auto simp: hook_authz_recheck_def)
  have same: "hc_authz c = Some az" "hc_agent c = Some a"
    using az by (auto simp: require_authz_services_def split: option.splits)
  have creach: "cache_reachable (hc_digest c) az (hc_cache c) (hc_now c)"
    using fr same reach by (simp add: hook_frame_def)
  let ?r = "resource_from_agent a p (hc_step_is_action c)"
  obtain d c' where ck: "check (hc_digest c) az (hc_cache c) (hc_now c) (hc_now c) p ?r = (Inr d, c')" "allowed d"
    using ok az p by (cases "check (hc_digest c) az (hc_cache c) (hc_now c) (hc_now c) p ?r")
      (auto simp: hook_authz_recheck_def split: sum.splits if_splits)
  have cf: "collision_free (hc_digest c) (key_payload_of p ?r)" using coll fr same p by (simp add: hook_frame_def)
  obtain d' where "decide az p ?r = Inr d'" "d = d' \<or> d = with_cache_flag d'"
    using check_answer [OF cf creach, where later = "hc_now c"] ck(1) by (metis prod.inject sum.inject(2) sum.distinct(1))
  with ck(2) have "access_permitted p ?r (permissions_for (az_rbac az) (p_role p))"
    by (auto simp: decide_def allowed_def with_cache_flag_def deny_def allow_def Let_def evaluate_access_iff
        split: if_splits)
  with same p fr show ?thesis unfolding hook_frame_def by metis
qed

end
