(* ===== verification/PolicyEngine.thy ===== *)
theory PolicyEngine
  imports Prelude
begin

text \<open>
  The data-driven policy evaluator (\<open>policy_engine/models.py\<close>, \<open>policy_engine/engine.py\<close>): rules
  parsed from a document, sorted by descending priority, first match wins, no match allows. The
  engine's file is a parameter: what reading it gives. Raised errors are values of \<open>policy_error\<close>.
\<close>

datatype policy_effect = PE_ALLOW | PE_DENY | PE_CANNED

record policy_match =
  pm_roles :: "string list"
  pm_actions :: "string list"
  pm_data_classifications :: "string list"
  pm_surfaces :: "string list"
  pm_intents :: "string list"

record policy_rule =
  pr_id :: string
  pr_description :: string
  pr_match :: policy_match
  pr_effect :: policy_effect
  pr_reason :: string
  pr_canned_response :: string
  pr_priority :: int

record policy_query =
  q_tenant_id :: string
  q_role :: "string option"
  q_action :: "string option"
  q_data_classification :: "string option"
  q_surface :: "string option"
  q_intent :: "string option"

record policy_decision =
  pd_effect :: policy_effect
  pd_reason :: string
  pd_canned_response :: string
  pd_matched_rule_id :: string
  pd_policy_version :: string

definition pd_allowed :: "policy_decision \<Rightarrow> bool" where
  "pd_allowed d = (pd_effect d = PE_ALLOW)"

definition pd_is_canned :: "policy_decision \<Rightarrow> bool" where
  "pd_is_canned d = (pd_effect d = PE_CANNED)"

definition match_ok :: "string list \<Rightarrow> string option \<Rightarrow> bool" where
  "match_ok accepted value = (accepted = [] \<or> (case value of None \<Rightarrow> False | Some v \<Rightarrow> v \<in> set accepted))"

definition matches :: "policy_match \<Rightarrow> policy_query \<Rightarrow> bool" where
  "matches m q = (match_ok (pm_roles m) (q_role q) \<and> match_ok (pm_actions m) (q_action q)
     \<and> match_ok (pm_data_classifications m) (q_data_classification q)
     \<and> match_ok (pm_surfaces m) (q_surface q) \<and> match_ok (pm_intents m) (q_intent q))"

datatype policy_error =
    PolicyKeyError string
  | PolicyValueError string
  | PolicyConfigError string

text \<open>\<open>PolicyRule.__post_init__\<close>.\<close>

definition rule_init :: "policy_rule \<Rightarrow> policy_error + policy_rule" where
  "rule_init r =
     (if pr_effect r = PE_CANNED \<and> pr_canned_response r = []
      then Inl (PolicyValueError (''rule '' @ quoted (pr_id r) @ '': effect=canned requires a canned_response''))
      else Inr r)"

text \<open>One rule of the document as the JSON has it; a missing field is \<open>None\<close>.\<close>

record raw_rule =
  raw_id :: "string option"
  raw_description :: "string option"
  raw_match :: policy_match
  raw_effect :: "string option"
  raw_reason :: "string option"
  raw_canned_response :: "string option"
  raw_priority :: "int option"

record policy_doc =
  doc_rules :: "raw_rule list"
  doc_version :: "string option"

definition parse_effect :: "string \<Rightarrow> policy_error + policy_effect" where
  "parse_effect s =
     (if s = ''allow'' then Inr PE_ALLOW else if s = ''deny'' then Inr PE_DENY
      else if s = ''canned'' then Inr PE_CANNED
      else Inl (PolicyValueError s))"

definition dflt :: "'a \<Rightarrow> 'a option \<Rightarrow> 'a" where
  "dflt d x = (case x of None \<Rightarrow> d | Some v \<Rightarrow> v)"

definition parse_rule :: "raw_rule \<Rightarrow> policy_error + policy_rule" where
  "parse_rule raw =
     (case raw_id raw of
        None \<Rightarrow> Inl (PolicyKeyError ''id'')
      | Some i \<Rightarrow>
          (case raw_effect raw of
             None \<Rightarrow> Inl (PolicyKeyError ''effect'')
           | Some e \<Rightarrow> sbind (parse_effect e) (\<lambda>eff.
               rule_init \<lparr>pr_id = i, pr_description = dflt [] (raw_description raw),
                 pr_match = raw_match raw, pr_effect = eff, pr_reason = dflt [] (raw_reason raw),
                 pr_canned_response = dflt [] (raw_canned_response raw),
                 pr_priority = dflt 0 (raw_priority raw)\<rparr>)))"

definition parse_rules :: "policy_doc \<Rightarrow> policy_error + policy_rule list" where
  "parse_rules doc = mapM_sum parse_rule (doc_rules doc)"

record policy_engine =
  pe_rules :: "policy_rule list"
  pe_version :: string

definition engine_init :: "policy_rule list \<Rightarrow> string \<Rightarrow> policy_engine" where
  "engine_init rules version = \<lparr>pe_rules = sort_key (\<lambda>r. - pr_priority r) rules, pe_version = version\<rparr>"

text \<open>
  \<open>_load\<close> and \<open>reload\<close>: \<open>Inl\<close> when the file is missing or no JSON; an engine whose load fails keeps
  the rules and the version it had.
\<close>

definition read_rules :: "policy_error + policy_doc \<Rightarrow> policy_error + policy_rule list \<times> string" where
  "read_rules read = sbind read (\<lambda>doc. sbind (parse_rules doc) (\<lambda>rs. Inr (rs, dflt ''0'' (doc_version doc))))"

lemma read_rules_Inr:
  "read_rules read = Inr rv \<longleftrightarrow>
     (\<exists>doc rs. read = Inr doc \<and> parse_rules doc = Inr rs \<and> rv = (rs, dflt ''0'' (doc_version doc)))"
  by (auto simp: read_rules_def)

definition load :: "policy_engine \<Rightarrow> policy_error + policy_doc \<Rightarrow> (policy_error + unit) \<times> policy_engine" where
  "load pe read =
     (case read_rules read of
        Inl e \<Rightarrow> (Inl e, pe)
      | Inr (rs, v) \<Rightarrow> (Inr (), pe\<lparr>pe_rules := sort_key (\<lambda>r. - pr_priority r) rs, pe_version := v\<rparr>))"

definition reload :: "policy_engine \<Rightarrow> policy_error + policy_doc \<Rightarrow> (policy_error + string) \<times> policy_engine" where
  "reload pe read =
     (case load pe read of (Inl e, pe') \<Rightarrow> (Inl e, pe') | (Inr _, pe') \<Rightarrow> (Inr (pe_version pe'), pe'))"

definition rule_count :: "policy_engine \<Rightarrow> nat" where
  "rule_count pe = length (pe_rules pe)"

definition evaluate_policy :: "policy_engine \<Rightarrow> policy_query \<Rightarrow> policy_decision" where
  "evaluate_policy pe q =
     (case find (\<lambda>r. matches (pr_match r) q) (pe_rules pe) of
        Some r \<Rightarrow> \<lparr>pd_effect = pr_effect r, pd_reason = pr_reason r, pd_canned_response = pr_canned_response r,
                   pd_matched_rule_id = pr_id r, pd_policy_version = pe_version pe\<rparr>
      | None \<Rightarrow> \<lparr>pd_effect = PE_ALLOW, pd_reason = ''no rule restricts this'', pd_canned_response = [],
                 pd_matched_rule_id = [], pd_policy_version = pe_version pe\<rparr>)"

section \<open>First match is highest priority\<close>

definition engine_ok :: "policy_engine \<Rightarrow> bool" where
  "engine_ok pe \<longleftrightarrow> sorted (map (\<lambda>r. - pr_priority r) (pe_rules pe))
     \<and> (\<forall>r \<in> set (pe_rules pe). pr_effect r = PE_CANNED \<longrightarrow> pr_canned_response r \<noteq> [])"

lemma parse_rule_ok: "parse_rule raw = Inr r \<Longrightarrow> pr_effect r = PE_CANNED \<longrightarrow> pr_canned_response r \<noteq> []"
  by (auto simp: parse_rule_def rule_init_def split: option.splits if_splits)

lemma load_ok [invs]:
  assumes "engine_ok pe"
  shows "engine_ok (snd (load pe read))"
proof (cases "read_rules read")
  case (Inl e)
  with assms show ?thesis by (simp add: load_def)
next
  case (Inr rv)
  then obtain doc rs where "parse_rules doc = Inr rs" "fst rv = rs" by (auto simp: read_rules_Inr)
  then have "\<forall>r \<in> set rs. pr_effect r = PE_CANNED \<longrightarrow> pr_canned_response r \<noteq> []"
    by (auto simp: parse_rules_def dest!: mapM_sum_set parse_rule_ok)
  with Inr \<open>fst rv = rs\<close> show ?thesis by (cases rv) (simp add: load_def engine_ok_def)
qed

lemma find_sorted_max:
  assumes "sorted (map (\<lambda>r. - f r :: int) xs)" "find P xs = Some x" "y \<in> set xs" "P y"
  shows "f y \<le> f x"
  using assms by (induction xs) (auto split: if_splits)

text \<open>The engines the constructor and \<open>reload\<close> can produce.\<close>

inductive engine_reachable :: "policy_engine \<Rightarrow> bool" where
  engine_new: "(\<forall>r \<in> set rs. rule_init r = Inr r) \<Longrightarrow> engine_reachable (engine_init rs v)"
| engine_reload: "engine_reachable pe \<Longrightarrow> engine_reachable (snd (reload pe read))"

lemma reload_load: "snd (reload pe read) = snd (load pe read)"
  by (simp add: reload_def split: prod.split sum.split)

lemma engine_reachable_ok: "engine_reachable pe \<Longrightarrow> engine_ok pe"
proof (induction rule: engine_reachable.induct)
  case (engine_new rs v)
  then show ?case by (auto simp: engine_init_def engine_ok_def rule_init_def split: if_splits)
next
  case (engine_reload pe read)
  then show ?case by (simp add: reload_load load_ok)
qed

definition matching_rules :: "policy_engine \<Rightarrow> policy_query \<Rightarrow> policy_rule set" where
  "matching_rules pe q = {r \<in> set (pe_rules pe). matches (pr_match r) q}"

section \<open>Properties\<close>

text \<open>
  C8: however often the ruleset was reloaded, successfully or not, the verdict is that of a matching
  rule of the highest priority among all matching rules, or ALLOW exactly when no rule matches; a
  CANNED verdict always carries a text.
\<close>

theorem highest_priority_wins:
  assumes "engine_reachable pe"
  shows "(matching_rules pe q = {} \<longrightarrow> pd_effect (evaluate_policy pe q) = PE_ALLOW \<and> pd_matched_rule_id (evaluate_policy pe q) = [])
    \<and> (matching_rules pe q \<noteq> {} \<longrightarrow> (\<exists>r \<in> matching_rules pe q. (\<forall>r' \<in> matching_rules pe q. pr_priority r' \<le> pr_priority r)
          \<and> pd_effect (evaluate_policy pe q) = pr_effect r \<and> pd_matched_rule_id (evaluate_policy pe q) = pr_id r))
    \<and> (pd_is_canned (evaluate_policy pe q) \<longrightarrow> pd_canned_response (evaluate_policy pe q) \<noteq> [])"
proof -
  have ok: "engine_ok pe" by (rule engine_reachable_ok [OF assms(1)])
  show ?thesis
  proof (cases "find (\<lambda>r. matches (pr_match r) q) (pe_rules pe)")
    case None
    then have "matching_rules pe q = {}" by (auto simp: matching_rules_def find_None_iff)
    with None show ?thesis by (simp add: evaluate_policy_def pd_is_canned_def)
  next
    case (Some r)
    then have "r \<in> matching_rules pe q" by (auto simp: matching_rules_def find_Some_iff)
    moreover have "\<forall>r' \<in> matching_rules pe q. pr_priority r' \<le> pr_priority r"
      using ok Some by (auto simp: matching_rules_def engine_ok_def intro: find_sorted_max)
    ultimately show ?thesis
      using Some ok by (auto simp: evaluate_policy_def pd_is_canned_def engine_ok_def matching_rules_def)
  qed
qed

definition sample_rule :: "string \<Rightarrow> policy_effect \<Rightarrow> string list \<Rightarrow> int \<Rightarrow> policy_rule" where
  "sample_rule i e roles pri = \<lparr>pr_id = i, pr_description = [],
     pr_match = \<lparr>pm_roles = roles, pm_actions = [], pm_data_classifications = [], pm_surfaces = [], pm_intents = []\<rparr>,
     pr_effect = e, pr_reason = ''because'', pr_canned_response = [], pr_priority = pri\<rparr>"

definition sample_engine :: policy_engine where
  "sample_engine = engine_init [sample_rule ''any'' PE_ALLOW [] 1, sample_rule ''guests'' PE_DENY [''guest''] 5] ''7''"

definition guest_query :: policy_query where
  "guest_query = \<lparr>q_tenant_id = ''t1'', q_role = Some ''guest'', q_action = None, q_data_classification = None,
     q_surface = None, q_intent = None\<rparr>"

theorem highest_priority_wins_witness:
  "\<exists>r \<in> set (pe_rules sample_engine). pd_matched_rule_id (evaluate_policy sample_engine guest_query) = pr_id r
     \<and> pr_priority r = 5"
proof -
  have "engine_reachable sample_engine"
    unfolding sample_engine_def by (rule engine_new) code_simp
  note wins = highest_priority_wins [OF this, of guest_query]
  have rules: "set (pe_rules sample_engine) = {sample_rule ''any'' PE_ALLOW [] 1, sample_rule ''guests'' PE_DENY [''guest''] 5}"
    by (auto simp: sample_engine_def engine_init_def)
  have "matches (pr_match r) guest_query" if "r \<in> set (pe_rules sample_engine)" for r
    using that unfolding rules by (auto simp: matches_def match_ok_def sample_rule_def guest_query_def)
  then have "matching_rules sample_engine guest_query = set (pe_rules sample_engine)" by (auto simp: matching_rules_def)
  with wins show ?thesis unfolding rules by (auto simp: sample_rule_def)
qed


end
