(* ===== verification/Executor.thy ===== *)
theory Executor
  imports Hooks PolicyEngine
begin

text \<open>
  The executor's nodes (\<open>executor/nodes.py\<close>, \<open>executor/graph.py\<close>): the budget on steps generated at
  run time, data-flow bindings, the pipeline of one step (registry, policy, bindings, hooks,
  approval, work, hooks), the aggregation of results into a response, forced dispatch and the
  branches of the graph. The handler layer below a step (\<open>StepExecutor\<close>), the answer to an approval
  interrupt and \<open>getattr\<close> on a value that is no dict are parameters. Spans, metrics and logs do not
  affect the state and are left out; a dash in a message is written \<open>-\<close>.
\<close>

section \<open>Steps generated at run time\<close>

text \<open>The environment's defaults; the code reads them once at import.\<close>

record gen_budget =
  gb_max_depth :: int
  gb_max_width :: int

text \<open>\<open>xs[:n]\<close>, where a negative \<open>n\<close> counts from the end.\<close>

definition py_slice_to :: "int \<Rightarrow> 'a list \<Rightarrow> 'a list" where
  "py_slice_to n xs = (if n \<ge> 0 then take (nat n) xs else take (nat (int (length xs) + n)) xs)"

text \<open>\<open>int(x or default)\<close>: a missing or zero override falls back to the default.\<close>

definition override :: "int option \<Rightarrow> int \<Rightarrow> int" where
  "override x dv = (case x of None \<Rightarrow> dv | Some v \<Rightarrow> if v = 0 then dv else v)"

definition gen_depth :: "exec_step \<Rightarrow> int" where
  "gen_depth s = (case es_gen_depth s of None \<Rightarrow> 0 | Some d \<Rightarrow> d)"

definition max_depth_of :: "gen_budget \<Rightarrow> exec_step \<Rightarrow> int" where
  "max_depth_of gb s = override (es_gen_max_depth s) (gb_max_depth gb)"

definition max_width_of :: "gen_budget \<Rightarrow> exec_step \<Rightarrow> int" where
  "max_width_of gb s = override (es_gen_max_width s) (gb_max_width gb)"

text \<open>One namespaced step; \<open>_inherited_overrides\<close> are its last two fields.\<close>

definition generated_step :: "exec_step \<Rightarrow> nat \<Rightarrow> string \<Rightarrow> raw_step \<Rightarrow> exec_step" where
  "generated_step parent i agent raw =
     \<lparr>es_step_id = es_step_id parent @ ''.g'' @ nat_str i, es_agent_id = agent,
      es_parameters = (case raw_parameters raw of None \<Rightarrow> [] | Some ps \<Rightarrow> ps),
      es_depends_on = (case raw_depends_on raw of
                         None \<Rightarrow> [es_step_id parent]
                       | Some ds \<Rightarrow> if ds = [] then [es_step_id parent] else ds),
      es_turn_id = None, es_parameter_bindings = [], es_dependency_types = [],
      es_tool_id = None, es_intent = None, es_gen_depth = Some (gen_depth parent + 1),
      es_gen_max_depth = es_gen_max_depth parent, es_gen_max_width = es_gen_max_width parent\<rparr>"

definition namespace_generated_steps ::
  "exec_step \<Rightarrow> raw_step list \<Rightarrow> exec_step list \<times> string list" where
  "namespace_generated_steps parent capped =
     (concat (map (\<lambda>(i, raw). case raw_agent_id raw of
                None \<Rightarrow> []
              | Some a \<Rightarrow> if a = [] then [] else [generated_step parent i a raw]) (enumerate 0 capped)),
      concat (map (\<lambda>raw. case raw_agent_id raw of
                None \<Rightarrow> [''a generated step had no agent_id'']
              | Some a \<Rightarrow> if a = [] then [''a generated step had no agent_id''] else []) capped))"

definition normalise_generated_steps ::
  "gen_budget \<Rightarrow> exec_step \<Rightarrow> raw_step list \<Rightarrow> exec_step list \<times> string" where
  "normalise_generated_steps gb parent raws =
     (let max_depth = max_depth_of gb parent; max_width = max_width_of gb parent in
      if gen_depth parent \<ge> max_depth then
        ([], ''generation depth limit ('' @ int_str max_depth @ '') reached at '' @ quoted (es_step_id parent)
             @ '' - '' @ nat_str (length raws) @ '' follow-up step(s) not spawned'')
      else
        let note = (if int (length raws) > max_width
                    then [''generation width limit ('' @ int_str max_width @ '') at '' @ quoted (es_step_id parent)
                          @ '' - '' @ int_str (int (length raws) - max_width) @ '' step(s) dropped'']
                    else []);
            (out, missing) = namespace_generated_steps parent (py_slice_to max_width raws)
        in (out, join ''; '' (note @ missing)))"

section \<open>Data-flow bindings\<close>

text \<open>\<open>dotted_get\<close>: \<open>gattr\<close> is \<open>getattr(cur, seg, None)\<close> on a value that is no dict.\<close>

fun dotted_walk :: "(json \<Rightarrow> string \<Rightarrow> json) \<Rightarrow> json \<Rightarrow> string list \<Rightarrow> json" where
  "dotted_walk gattr cur [] = cur"
| "dotted_walk gattr cur (seg # segs) =
     (if seg = [] then JNull
      else let nxt = (if is_dict cur then jget cur seg else gattr cur seg)
           in if nxt = JNull then JNull else dotted_walk gattr nxt segs)"

definition dotted_get :: "(json \<Rightarrow> string \<Rightarrow> json) \<Rightarrow> json \<Rightarrow> string \<Rightarrow> json" where
  "dotted_get gattr obj path = dotted_walk gattr obj (split_on (CHR ''.'') path)"

datatype bound = Bind string json | Omit | BlockedBy string

definition resolve_one_binding ::
  "(json \<Rightarrow> string \<Rightarrow> json) \<Rightarrow> parameter_binding \<Rightarrow> string \<Rightarrow> (string \<times> step_result) list \<Rightarrow> bound" where
  "resolve_one_binding gattr b kind previous =
     (let prev = map_of previous (pb_from_step b) in
      if (case prev of None \<Rightarrow> True | Some r \<Rightarrow> res_status r \<noteq> ''success'') then
        (if kind = ''soft'' then Omit
         else if pb_required b then
           BlockedBy (''upstream step '' @ quoted (pb_from_step b) @ '' ''
             @ (if prev \<noteq> None then ''did not succeed'' else ''produced no result''))
         else Omit)
      else
        let out = res_output (the prev);
            val1 = dotted_get gattr out (pb_from_field b);
            val = (if val1 = JNull \<and> is_dict out
                   then dotted_get gattr (jget out ''bindable'') (pb_from_field b) else val1)
        in if val = JNull then
             (if pb_required b then
                BlockedBy (''required input '' @ quoted (pb_to_param b) @ '' is missing - ''
                  @ quoted (pb_from_step b @ ''.'' @ pb_from_field b) @ '' was not in its output'')
              else Omit)
           else Bind (pb_to_param b) val)"

definition dep_kind :: "exec_step \<Rightarrow> string \<Rightarrow> string" where
  "dep_kind s dep = (case map_of (es_dependency_types s) dep of None \<Rightarrow> ''hard'' | Some k \<Rightarrow> k)"

fun resolve_bindings_loop ::
  "(json \<Rightarrow> string \<Rightarrow> json) \<Rightarrow> exec_step \<Rightarrow> (string \<times> step_result) list \<Rightarrow> (string \<times> json) list
   \<Rightarrow> parameter_binding list \<Rightarrow> string + (string \<times> json) list" where
  "resolve_bindings_loop gattr s previous acc [] = Inr acc"
| "resolve_bindings_loop gattr s previous acc (b # bs) =
     (case resolve_one_binding gattr b (dep_kind s (pb_from_step b)) previous of
        BlockedBy reason \<Rightarrow> Inl reason
      | Bind p v \<Rightarrow> resolve_bindings_loop gattr s previous (AList.update p v acc) bs
      | Omit \<Rightarrow> resolve_bindings_loop gattr s previous acc bs)"

definition resolve_bindings ::
  "(json \<Rightarrow> string \<Rightarrow> json) \<Rightarrow> exec_step \<Rightarrow> (string \<times> step_result) list \<Rightarrow> string + (string \<times> json) list" where
  "resolve_bindings gattr s previous = resolve_bindings_loop gattr s previous [] (es_parameter_bindings s)"

section \<open>One step\<close>

datatype node_error = NodeRegistry reg_error | NodeAuthz authz_error | NodePlan plan_error

text \<open>What the handler layer does: a result, an interrupt of its own, or an exception it let out.\<close>

datatype work_outcome = WorkResult step_result | WorkInterrupt json | WorkRaise string

text \<open>The outcome of \<open>run_step\<close>: an update, a pause for the user, or an error of the node.\<close>

datatype step_outcome = Updated step_update | Paused json | NodeFailed node_error

record 't executor =
  xr_registry :: registry
  xr_policy :: "policy_engine option"
  xr_hooks :: "'t hook_registry"
  xr_authz :: "authz_service option"
  xr_digest :: "key_payload \<Rightarrow> string"
  xr_budget :: gen_budget
  xr_getattr :: "json \<Rightarrow> string \<Rightarrow> json"
  xr_work :: "exec_step \<Rightarrow> request_env \<Rightarrow> (string \<times> step_result) list \<Rightarrow> (string \<times> json) list \<Rightarrow> work_outcome"
  xr_approval :: "exec_step \<Rightarrow> json option"

definition one_update :: "step_result \<Rightarrow> step_outcome" where
  "one_update r = Updated \<lparr>up_step_results = [r], up_plan = []\<rparr>"

primrec classification_value :: "data_classification \<Rightarrow> string" where
  "classification_value DC_PUBLIC = ''public''"
| "classification_value DC_INTERNAL = ''internal''"
| "classification_value DC_CONFIDENTIAL = ''confidential''"
| "classification_value DC_PII = ''pii''"

text \<open>\<open>x or None\<close> for a string.\<close>

definition nonempty :: "string \<Rightarrow> string option" where
  "nonempty s = (if s = [] then None else Some s)"

definition evaluate_step_policy ::
  "'t executor \<Rightarrow> exec_step \<Rightarrow> request_env \<Rightarrow> agent_record \<Rightarrow> step_result option" where
  "evaluate_step_policy xr s req a =
     (case xr_policy xr of
        None \<Rightarrow> None
      | Some pe \<Rightarrow>
          let d = evaluate_policy pe \<lparr>q_tenant_id = env_tenant_id req, q_role = nonempty (env_role req),
                q_action = None,
                q_data_classification = Some (classification_value (at_data_classification (ag_abac_tags a))),
                q_surface = None,
                q_intent = (case es_intent s of None \<Rightarrow> None | Some i \<Rightarrow> nonempty i)\<rparr>
          in if pd_effect d = PE_DENY
             then Some (make_result s ''denied'' JNull (Some (''policy: '' @ pd_reason d)) [] None)
             else if pd_effect d = PE_CANNED
             then Some (make_result s ''success''
                    (JObj [(''canned_response'', JStr (pd_canned_response d)),
                           (''policy_rule'', JStr (pd_matched_rule_id d))]) None [] None)
             else None)"

definition step_is_action :: "'t executor \<Rightarrow> exec_step \<Rightarrow> agent_record \<Rightarrow> reg_error + bool" where
  "step_is_action xr s a =
     (let tool_id = strip (case es_tool_id s of None \<Rightarrow> [] | Some t \<Rightarrow> t);
          agent_tier = (at_tier (ag_abac_tags a) = ET_ACTION)
      in if tool_id = [] then Inr agent_tier
         else sbind (tools_get_optional (xr_registry xr) tool_id None) (\<lambda>t.
           case t of None \<Rightarrow> Inr agent_tier | Some t' \<Rightarrow> Inr (tl_execution_type t' = ET_ACTION)))"

definition hook_ctx ::
  "'t executor \<Rightarrow> hook_phase \<Rightarrow> exec_step \<Rightarrow> request_env \<Rightarrow> agent_record \<Rightarrow> step_result option \<Rightarrow> bool option
   \<Rightarrow> 't decision_cache \<Rightarrow> 't \<Rightarrow> 't hook_context" where
  "hook_ctx xr ph s req a res is_action cache now =
     \<lparr>hc_agent_id = es_agent_id s, hc_phase = ph, hc_step = s, hc_request = req, hc_result = res,
      hc_authz = xr_authz xr, hc_agent = Some a, hc_step_is_action = is_action, hc_cache = cache,
      hc_digest = xr_digest xr, hc_now = now\<rparr>"

text \<open>\<open>_action_approval_gate\<close>: \<open>None\<close> of the approval parameter is the interrupt still pending.\<close>

datatype approval = Approved | Declined | AwaitingApproval json

definition action_approval_gate :: "'t executor \<Rightarrow> exec_step \<Rightarrow> approval" where
  "action_approval_gate xr s =
     (case xr_approval xr s of
        None \<Rightarrow> AwaitingApproval (JObj [(''kind'', JStr ''action_approval''), (''agent_id'', JStr (es_agent_id s)),
                  (''step_id'', JStr (es_step_id s)), (''parameters'', JObj (es_parameters s)),
                  (''message'', JStr (''Approve action '' @ quoted (es_agent_id s)
                      @ ''? This step changes ITSM state and is not auto-run.''))])
      | Some d \<Rightarrow> if (if is_dict d then truthy (jget d ''approved'') else truthy d) then Approved else Declined)"

definition run_step_work ::
  "'t executor \<Rightarrow> exec_step \<Rightarrow> request_env \<Rightarrow> (string \<times> step_result) list \<Rightarrow> (string \<times> json) list
   \<Rightarrow> json + step_result" where
  "run_step_work xr s req previous bound =
     (case xr_work xr s req previous bound of
        WorkInterrupt j \<Rightarrow> Inl j
      | WorkResult r \<Rightarrow> Inr r
      | WorkRaise e \<Rightarrow> Inr (make_result s ''failed'' JNull (Some (''step executor raised: '' @ e)) [] None))"

text \<open>Generated steps that name no active agent are refused, with a note.\<close>

fun keep_known ::
  "registry \<Rightarrow> exec_step list \<Rightarrow> string \<Rightarrow> reg_error + exec_step list \<times> string" where
  "keep_known reg [] note = Inr ([], note)"
| "keep_known reg (s # ss) note = sbind (agents_get_optional reg (es_agent_id s)) (\<lambda>a.
     case a of
       None \<Rightarrow> keep_known reg ss ((if note = [] then [] else note @ ''; '')
                 @ ''refused generated step naming unknown agent '' @ quoted (es_agent_id s))
     | Some _ \<Rightarrow> sbind (keep_known reg ss note) (\<lambda>(valid, note'). Inr (s # valid, note')))"

definition append_generated_steps :: "'t executor \<Rightarrow> exec_step \<Rightarrow> step_result \<Rightarrow> step_outcome" where
  "append_generated_steps xr s r =
     (let raws = res_generated_steps r; r0 = r\<lparr>res_generated_steps := []\<rparr> in
      if raws = [] then one_update r0
      else case normalise_generated_steps (xr_budget xr) s raws of
        (new_steps, note) \<Rightarrow>
          (case keep_known (xr_registry xr) new_steps note of
             Inl e \<Rightarrow> NodeFailed (NodeRegistry e)
           | Inr (valid, note') \<Rightarrow>
               Updated \<lparr>up_step_results =
                          [if note' = [] then r0 else r0\<lparr>res_generation_note := Some note'\<rparr>],
                        up_plan = valid\<rparr>))"

text \<open>
  \<open>_run_step_body\<close> up to the handler: the guards in order, each with the outcome that stops the step,
  or the agent and the bound inputs the handler may be called with.
\<close>

datatype gate = Stop step_outcome | Go agent_record "(string \<times> json) list"

definition approval_stop :: "'t executor \<Rightarrow> exec_step \<Rightarrow> agent_record \<Rightarrow> bool \<Rightarrow> step_outcome option" where
  "approval_stop xr s a is_action =
     (if is_action \<and> \<not> ag_manages_own_approval a then
        (case action_approval_gate xr s of
           AwaitingApproval j \<Rightarrow> Some (Paused j)
         | Declined \<Rightarrow> Some (one_update (make_result s ''denied'' JNull (Some ''action not approved by the user'') [] None))
         | Approved \<Rightarrow> None)
      else None)"

definition before_gate ::
  "'t executor \<Rightarrow> 't decision_cache \<Rightarrow> 't \<Rightarrow> send_payload \<Rightarrow> agent_record \<Rightarrow> bool \<Rightarrow> (string \<times> json) list
   \<Rightarrow> gate \<times> 't decision_cache" where
  "before_gate xr cache now p a is_action bound =
     (case hooks_run (xr_hooks xr) (before_invocation (ag_hooks a))
             (hook_ctx xr BEFORE (sp_step p) (sp_request p) a None (Some is_action) cache now) of
        (Inl (HookError m), ctx) \<Rightarrow>
          (Stop (one_update (make_result (sp_step p) ''failed'' JNull
             (Some (''before-hook aborted: '' @ m)) [] None)), hc_cache ctx)
      | (Inl (HookRaise e), ctx) \<Rightarrow> (Stop (NodeFailed (NodeAuthz e)), hc_cache ctx)
      | (Inr _, ctx) \<Rightarrow>
          (case approval_stop xr (sp_step p) a is_action of
             Some out \<Rightarrow> (Stop out, hc_cache ctx)
           | None \<Rightarrow> (Go a bound, hc_cache ctx)))"

definition step_gates ::
  "'t executor \<Rightarrow> 't decision_cache \<Rightarrow> 't \<Rightarrow> send_payload \<Rightarrow> gate \<times> 't decision_cache" where
  "step_gates xr cache now p =
     (let s = sp_step p; req = sp_request p in
      case agents_get_optional (xr_registry xr) (es_agent_id s) of
        Inl e \<Rightarrow> (Stop (NodeFailed (NodeRegistry e)), cache)
      | Inr None \<Rightarrow>
          (Stop (one_update (make_result s ''failed'' JNull
             (Some (''agent '' @ quoted (es_agent_id s) @ '' has no active registry record'')) [] None)), cache)
      | Inr (Some a) \<Rightarrow>
          (case evaluate_step_policy xr s req a of
             Some r \<Rightarrow> (Stop (one_update r), cache)
           | None \<Rightarrow>
               (case resolve_bindings (xr_getattr xr) s (sp_previous_results p) of
                  Inl reason \<Rightarrow> (Stop (one_update (make_result s ''blocked'' JNull (Some reason) [] None)), cache)
                | Inr bound \<Rightarrow>
                    (case step_is_action xr s a of
                       Inl e \<Rightarrow> (Stop (NodeFailed (NodeRegistry e)), cache)
                     | Inr is_action \<Rightarrow> before_gate xr cache now p a is_action bound))))"

text \<open>
  The rest of the body: the handler, the after-hooks, the generated steps. After-hooks change the result
  in place, as the built-in ones do, so the context holds the result the node goes on with; a hook that
  put another result into its context would not be heard by the code.
\<close>

definition finish_step ::
  "'t executor \<Rightarrow> 't decision_cache \<Rightarrow> 't \<Rightarrow> send_payload \<Rightarrow> agent_record \<Rightarrow> (string \<times> json) list
   \<Rightarrow> step_outcome \<times> 't decision_cache" where
  "finish_step xr cache now p a bound =
     (let s = sp_step p in
      case run_step_work xr s (sp_request p) (sp_previous_results p) bound of
        Inl j \<Rightarrow> (Paused j, cache)
      | Inr r \<Rightarrow>
          (case hooks_run (xr_hooks xr) (after_invocation (ag_hooks a))
                  (hook_ctx xr AFTER s (sp_request p) a (Some r) None cache now) of
             (Inl (HookError m), ctx) \<Rightarrow>
               (append_generated_steps xr s (make_result s ''failed'' JNull
                  (Some (''after-hook aborted: '' @ m)) [] None), hc_cache ctx)
           | (Inl (HookRaise e), ctx) \<Rightarrow> (NodeFailed (NodeAuthz e), hc_cache ctx)
           | (Inr _, ctx) \<Rightarrow>
               (append_generated_steps xr s (case hc_result ctx of None \<Rightarrow> r | Some r' \<Rightarrow> r'), hc_cache ctx)))"

definition run_step ::
  "'t executor \<Rightarrow> 't decision_cache \<Rightarrow> 't \<Rightarrow> send_payload \<Rightarrow> step_outcome \<times> 't decision_cache" where
  "run_step xr cache now p =
     (case step_gates xr cache now p of
        (Stop out, c) \<Rightarrow> (out, c)
      | (Go a bound, c) \<Rightarrow> finish_step xr c now p a bound)"

section \<open>The response\<close>

definition overall_status :: "step_result list \<Rightarrow> string list \<Rightarrow> string" where
  "overall_status ordered unrouted =
     (let succeeded = filter (\<lambda>r. res_status r = ''success'') ordered;
          failed = filter (\<lambda>r. res_status r \<in> {''failed'', ''denied''}) ordered;
          blocked = filter (\<lambda>r. res_status r = ''blocked'') ordered
      in if succeeded \<noteq> [] \<and> failed = [] \<and> blocked = [] \<and> unrouted = [] then ''executed''
         else if succeeded \<noteq> [] then ''partial''
         else if blocked \<noteq> [] \<and> failed = [] then ''blocked''
         else ''failed'')"

definition PARAM_ID_KEYS :: "string list" where
  "PARAM_ID_KEYS = [''ticket_id'', ''entity_id'', ''article_id'', ''kb_id'', ''incident_id'', ''request_id'',
     ''problem_id'', ''change_id'', ''asset_id'', ''ci_id'']"

definition OUTPUT_ID_KEYS :: "string list" where
  "OUTPUT_ID_KEYS = [''ticket_id'', ''entity_id'', ''article_id'', ''incident_id'', ''request_id'',
     ''problem_id'', ''change_id'', ''asset_id'', ''ci_id'']"

definition extract_entity_id :: "(json \<Rightarrow> string) \<Rightarrow> exec_step option \<Rightarrow> step_result \<Rightarrow> string" where
  "extract_entity_id other s r =
     (let params = JObj (case s of None \<Rightarrow> [] | Some st \<Rightarrow> es_parameters st); out = res_output r in
      case find (\<lambda>k. truthy (jget params k)) PARAM_ID_KEYS of
        Some k \<Rightarrow> json_str other (jget params k)
      | None \<Rightarrow>
          if is_dict out then
            (case find (\<lambda>k. truthy (jget out k)) OUTPUT_ID_KEYS of
               Some k \<Rightarrow> json_str other (jget out k)
             | None \<Rightarrow> [])
          else [])"

definition stripped :: "json \<Rightarrow> string option" where
  "stripped j = (case j of JStr s \<Rightarrow> if strip s = [] then None else Some (strip s) | _ \<Rightarrow> None)"

definition summary_text :: "(json \<Rightarrow> string) \<Rightarrow> json \<Rightarrow> string option" where
  "summary_text other outer =
     (if is_dict outer then
        (let p = strip (if truthy (jget outer ''summary'') then json_str other (jget outer ''summary'') else [])
         in if p = [] then None else Some p)
      else stripped outer)"

definition render_success_text :: "(json \<Rightarrow> string) \<Rightarrow> json \<Rightarrow> string" where
  "render_success_text other out =
     (if is_dict out then
        (case stripped (jget out ''display_text'') of
           Some t \<Rightarrow> t
         | None \<Rightarrow>
             (case summary_text other (jget out ''summary'') of
                Some t \<Rightarrow> t
              | None \<Rightarrow> (case stripped (jget out ''message'') of Some t \<Rightarrow> t | None \<Rightarrow> ''Done.'')))
      else ''Done.'')"

definition GENERIC_FAILURE :: string where
  "GENERIC_FAILURE = ''I wasn'' @ [CHR 0x27] @ ''t able to complete that request.''"

definition classify_failure_text :: "string \<Rightarrow> string \<Rightarrow> string" where
  "classify_failure_text err entity_id =
     (let l = lower err in
      if contains ''hookerror'' l \<or> contains ''authz_recheck'' l \<or> contains ''before-hook aborted'' l then
        (if entity_id \<noteq> [] then ''Your role doesn'' @ [CHR 0x27] @ ''t allow you to read '' @ entity_id @ ''.''
         else ''Your role doesn'' @ [CHR 0x27] @ ''t allow that action.'')
      else if contains ''llmgatewayerror'' l \<or> contains ''llm call failed'' l \<or> contains ''llm_unavailable'' l
      then ''The summarisation service is temporarily unavailable. Please try again in a moment.''
      else if contains ''timed out'' l \<or> contains ''timeout'' l
      then ''That request took too long to complete. Please try again.''
      else if contains ''not_found'' l \<and> entity_id \<noteq> []
      then ''I couldn'' @ [CHR 0x27] @ ''t find '' @ entity_id @ '' in this tenant'' @ [CHR 0x27] @ ''s records.''
      else GENERIC_FAILURE)"

definition friendly_step_response :: "(json \<Rightarrow> string) \<Rightarrow> exec_step option \<Rightarrow> step_result \<Rightarrow> string" where
  "friendly_step_response other s r =
     (let status = lower (res_status r);
          out = (if truthy (res_output r) then res_output r else JObj []);
          err = (case res_error r of None \<Rightarrow> [] | Some e \<Rightarrow> e)
      in if status = ''success'' then render_success_text other out
         else if status = ''blocked'' then
           (if strip err \<noteq> [] then strip err
            else ''This step was skipped because a prerequisite did not complete.'')
         else classify_failure_text err (extract_entity_id other s r))"

fun dedup_parts :: "string set \<Rightarrow> string list \<Rightarrow> string list" where
  "dedup_parts seen [] = []"
| "dedup_parts seen (p # ps) =
     (if p = [] then dedup_parts seen ps
      else let key = join '' '' (split_words p) in
        if key \<in> seen then dedup_parts seen ps else p # dedup_parts (insert key seen) ps)"

definition canned_response :: "step_result \<Rightarrow> json option" where
  "canned_response r =
     (if is_dict (res_output r) \<and> truthy (jget (res_output r) ''canned_response'')
      then Some (jget (res_output r) ''canned_response'') else None)"

definition blank_line :: string where
  "blank_line = [CHR 0x0A, CHR 0x0A]"

definition compose_response ::
  "(json \<Rightarrow> string) \<Rightarrow> step_result list \<Rightarrow> (string \<rightharpoonup> exec_step) \<Rightarrow> string list \<Rightarrow> string" where
  "compose_response other ordered plan_by_step unrouted =
     (case List.map_filter canned_response ordered of
        c # _ \<Rightarrow> json_str other c
      | [] \<Rightarrow>
          (let parts = dedup_parts {} (map (\<lambda>r. friendly_step_response other (plan_by_step (res_step_id r)) r) ordered);
               joined = join blank_line parts;
               response = (if joined = [] then ''Nothing to do.'' else joined)
           in response @ (if unrouted = [] then []
                else blank_line @ ''I couldn'' @ [CHR 0x27] @ ''t act on: ''
                     @ join ''; '' (map (\<lambda>u. [CHR 0x22] @ u @ [CHR 0x22]) unrouted))))"

section \<open>Aggregation\<close>

definition this_turn :: "string \<Rightarrow> string option \<Rightarrow> bool" where
  "this_turn turn_id rid = (turn_id = [] \<or> (case rid of None \<Rightarrow> True | Some t \<Rightarrow> t = [] \<or> t = turn_id))"

definition not_executed :: string where
  "not_executed = ''not executed - an upstream dependency did not complete''"

text \<open>The position of a step in the plan; a later step with the same id wins, as in a dict.\<close>

definition plan_position :: "exec_step list \<Rightarrow> string \<Rightarrow> nat" where
  "plan_position plan i =
     (case map_of (rev (zip (map es_step_id plan) [0 ..< length plan])) i of None \<Rightarrow> 10 ^ 6 | Some k \<Rightarrow> k)"

definition turn_results :: "executor_state \<Rightarrow> step_result list" where
  "turn_results st = filter (\<lambda>r. this_turn (x_request_id st) (res_turn_id r)) (x_step_results st)"

definition turn_plan :: "executor_state \<Rightarrow> exec_step list" where
  "turn_plan st = filter (\<lambda>s. this_turn (x_request_id st) (es_turn_id s)) (x_plan st)"

definition ordered_results :: "executor_state \<Rightarrow> step_result list" where
  "ordered_results st =
     (let results = turn_results st; plan = turn_plan st;
          synthesized = map (\<lambda>s. make_result s ''blocked'' JNull (Some not_executed) [] None)
            (filter (\<lambda>s. es_step_id s \<notin> set (map res_step_id results)) plan)
      in sort_key (\<lambda>r. plan_position plan (res_step_id r)) (results @ synthesized))"

definition aggregate :: "(json \<Rightarrow> string) \<Rightarrow> executor_state \<Rightarrow> executor_state" where
  "aggregate other st =
     (let ordered = ordered_results st;
          plan_by_step = map_of (rev (map (\<lambda>s. (es_step_id s, s)) (turn_plan st)));
          response = compose_response other ordered plan_by_step (x_unrouted st)
      in st\<lparr>x_final_status := overall_status ordered (x_unrouted st),
            x_final_response := (if x_entity_clarification st = [] then response
                                 else response @ blank_line @ x_entity_clarification st)\<rparr>)"

section \<open>Routing into the plan\<close>

text \<open>\<open>_forced_dispatch_update\<close>: \<open>None\<close> when no agents were forced.\<close>

definition forced_route :: "string list \<Rightarrow> string \<Rightarrow> sub_query_route" where
  "forced_route forced msg =
     \<lparr>sq_id = ''sq_forced'', sq_agent_ids = forced,
      sq_parameters_by_agent = (if msg = [] then [] else map (\<lambda>a. (a, [(''user_message'', msg), (''query'', msg)])) forced),
      sq_depends_on = [], sq_bindings = []\<rparr>"

definition forced_known :: "registry \<Rightarrow> string list \<Rightarrow> reg_error + string list" where
  "forced_known reg ids = sbind (mapM_sum (\<lambda>i. sbind (agents_get_optional reg i) (\<lambda>a. Inr (i, a \<noteq> None))) ids)
     (\<lambda>ps. Inr (map fst (filter snd ps)))"

definition forced_dispatch_update ::
  "registry \<Rightarrow> executor_state \<Rightarrow> (node_error + executor_state) option option" where
  "forced_dispatch_update reg st =
     (let requested = x_forced_agent_ids st in
      if requested = [] then None
      else Some (case forced_known reg requested of
        Inl e \<Rightarrow> Some (Inl (NodeRegistry e))
      | Inr forced \<Rightarrow>
          if forced = [] then
            Some (Inr (st\<lparr>x_route_outcome := Some ''no_confident_match'',
              x_boundary_reason := ''forced agents have no active registry record'',
              x_route_diagnostics := [''forced dispatch: none of '' @ repr_list requested @ '' active''],
              x_unrouted := [], x_plan := merge_plan (x_plan st) [], x_entity_clarification := [], x_time_filter := []\<rparr>))
          else
            (case assemble_plan [forced_route forced (x_message st)] reg of
               None \<Rightarrow> None
             | Some (Inl e) \<Rightarrow> Some (Inl (NodePlan e))
             | Some (Inr plan) \<Rightarrow>
                 Some (Inr (st\<lparr>x_route_outcome := Some ''routed'',
                   x_plan := merge_plan (x_plan st) (serialise_plan (rp_steps plan) (x_request_id st)),
                   x_route_diagnostics := [''forced dispatch: '' @ repr_list forced],
                   x_unrouted := [], x_entity_clarification := [], x_time_filter := []\<rparr>)))))"

definition route_branch :: "executor_state \<Rightarrow> string" where
  "route_branch st = (if x_route_outcome st = Some ''routed'' then ''execute'' else ''boundary'')"

definition post_focus_branch :: "executor_state \<Rightarrow> string" where
  "post_focus_branch st = (if x_entry_mode st = ''fast_path'' \<and> x_plan st \<noteq> [] then ''wave'' else ''control_gate'')"

definition post_gate_branch :: "executor_state \<Rightarrow> string" where
  "post_gate_branch st =
     (if x_final_response st \<noteq> [] \<and> x_control_gate_outcome st \<notin> {[], ''none''} then ''persist'' else ''route'')"

text \<open>The node \<open>boundary\<close>: \<open>respond\<close> is the boundary responder.\<close>

definition boundary ::
  "(string \<Rightarrow> string \<Rightarrow> request_env \<Rightarrow> string) \<Rightarrow> executor_state \<Rightarrow> executor_state" where
  "boundary respond st =
     (let outcome = (case x_route_outcome st of None \<Rightarrow> ''no_confident_match'' | Some out \<Rightarrow> out) in
      if outcome = ''entity_clarification'' then
        st\<lparr>x_final_status := ''clarification'',
           x_final_response := (if x_entity_clarification st \<noteq> [] then x_entity_clarification st
             else ''I could not read the record ID in your message. Please send it again, e.g. ''
                  @ [CHR 0x22] @ ''INC0001234'' @ [CHR 0x22] @ ''.'')\<rparr>
      else st\<lparr>x_final_status := (if outcome = ''no_confident_match'' then ''clarification'' else ''denied''),
              x_final_response := respond outcome (x_boundary_reason st) (request_envelope st)\<rparr>)"

text \<open>\<open>_resolve_focus\<close>: \<open>extract\<close> gives the canonical entity ids of a text, with their services.\<close>

definition resolve_focus ::
  "(string \<Rightarrow> (string \<times> string) list) \<Rightarrow> string \<Rightarrow> string \<Rightarrow> string \<Rightarrow> (string \<times> string) list
   \<Rightarrow> string \<times> string \<times> string" where
  "resolve_focus extract message carried_id carried_service history =
     (case extract message of
        (i, svc) # _ \<Rightarrow> (i, svc, ''current_message'')
      | [] \<Rightarrow>
          if carried_id \<noteq> [] then (carried_id, carried_service, ''carried'')
          else case List.map_filter (\<lambda>(role, content).
                 if lower role = ''user'' then (case extract content of e # _ \<Rightarrow> Some e | [] \<Rightarrow> None) else None)
                 (rev history) of
            (i, svc) # _ \<Rightarrow> (i, svc, ''history_recovery'')
          | [] \<Rightarrow> ([], [], ''carried''))"

text \<open>\<open>_apply_focus_intent\<close>: the classifier's label, \<open>None\<close> when no classifier is wired.\<close>

definition apply_focus_intent ::
  "(string \<Rightarrow> string) option \<Rightarrow> string \<times> string \<times> string \<Rightarrow> string \<Rightarrow> string \<times> string \<times> string" where
  "apply_focus_intent classify f message =
     (case f of (i, svc, source) \<Rightarrow>
        (case classify of
           None \<Rightarrow> f
         | Some c \<Rightarrow>
             if i = [] \<or> source \<notin> {''carried'', ''history_recovery''} then f
             else if c message = ''topic'' then ([], [], ''topic_search_drop'') else f))"

section \<open>Recursion limit\<close>

definition safe_recursion_limit :: "int \<Rightarrow> int \<Rightarrow> int" where
  "safe_recursion_limit max_generation_depth configured =
     (let waves = 16 + max 0 max_generation_depth; flr = 10 + 2 * waves
      in if configured < flr then flr else configured)"

text \<open>
  \<open>run_turn\<close> keeps a limit its caller's config carries and otherwise takes the safe one. LangGraph spends
  it on the nodes before the wave loop (\<open>load_session\<close>, \<open>update_focus\<close> and, unless the plan came from a
  button, \<open>control_gate\<close>, \<open>route\<close>) and on \<open>charge\<close> supersteps of its own, its START step and its last check;
  the loop has the rest.
\<close>

definition turn_limit :: "int option \<Rightarrow> int \<Rightarrow> int \<Rightarrow> int" where
  "turn_limit given max_generation_depth configured =
     (case given of Some l \<Rightarrow> l | None \<Rightarrow> safe_recursion_limit max_generation_depth configured)"

definition turn_waves ::
  "nat \<Rightarrow> bool \<Rightarrow> int \<Rightarrow> (send_payload \<Rightarrow> step_update) \<Rightarrow> executor_state \<Rightarrow> graph_error + executor_state" where
  "turn_waves charge button limit run st = wave_loop (nat limit - (charge + (if button then 2 else 4))) run st"

text \<open>The floor leaves the loop of a plan of sixteen levels enough supersteps.\<close>

lemma floor_leaves:
  assumes "charge \<le> 3" "M \<le> 16 + nat (max 0 depth)" "w \<le> M"
  shows "2 * w + 3 \<le> nat (turn_limit None depth configured) - (charge + (if button then 2 else 4))"
proof -
  have "10 + 2 * (16 + max 0 depth) \<le> turn_limit None depth configured"
    by (simp add: turn_limit_def safe_recursion_limit_def Let_def)
  then have "nat (10 + 2 * (16 + max 0 depth)) \<le> nat (turn_limit None depth configured)" by (rule nat_mono)
  moreover have "nat (10 + 2 * (16 + max 0 depth)) = 42 + 2 * nat (max 0 depth)" by (cases "0 \<le> depth") (simp_all add: max_def nat_add_distrib nat_mult_distrib)
  moreover have "charge + (if button then 2 else 4) \<le> 7" using assms(1) by simp
  ultimately show ?thesis using assms(2,3) by linarith
qed

section \<open>The generation budget\<close>

text \<open>The most steps one step can account for, itself included.\<close>

primrec tree_size :: "nat \<Rightarrow> nat \<Rightarrow> nat" where
  "tree_size w 0 = 1"
| "tree_size w (Suc d) = 1 + w * tree_size w d"

definition step_budget :: "gen_budget \<Rightarrow> exec_step \<Rightarrow> nat" where
  "step_budget gb s = tree_size (nat (max_width_of gb s)) (nat (max_depth_of gb s - gen_depth s))"

definition width_ok :: "gen_budget \<Rightarrow> exec_step \<Rightarrow> bool" where
  "width_ok gb s \<longleftrightarrow> 0 \<le> max_width_of gb s"

lemma tree_size_pos: "0 < tree_size w d"
  by (cases d) simp_all

lemma generated_inherits:
  "max_width_of gb (generated_step p i a raw) = max_width_of gb p"
  "max_depth_of gb (generated_step p i a raw) = max_depth_of gb p"
  "gen_depth (generated_step p i a raw) = gen_depth p + 1"
  by (simp_all add: max_width_of_def max_depth_of_def gen_depth_def generated_step_def)

lemma namespace_members:
  "g \<in> set (fst (namespace_generated_steps p raws)) \<Longrightarrow>
     \<exists>i a raw. i < length raws \<and> g = generated_step p i a raw"
proof -
  assume "g \<in> set (fst (namespace_generated_steps p raws))"
  then obtain i raw where ir: "(i, raw) \<in> set (enumerate 0 raws)"
    and g: "g \<in> set (case raw_agent_id raw of None \<Rightarrow> []
      | Some a \<Rightarrow> if a = [] then [] else [generated_step p i a raw])"
    by (auto simp: namespace_generated_steps_def)
  from ir have "i < length raws" by (auto simp: enumerate_eq_zip dest: set_zip_leftD)
  moreover from g obtain a where "g = generated_step p i a raw" by (auto split: option.splits if_splits)
  ultimately show ?thesis by blast
qed

lemma namespace_length: "length (fst (namespace_generated_steps p raws)) \<le> length raws"
proof -
  have "length (concat (map (\<lambda>(i, raw). case raw_agent_id raw of None \<Rightarrow> []
      | Some a \<Rightarrow> if a = [] then [] else [generated_step p i a raw]) (enumerate n xs))) \<le> length xs" for n xs
    by (induction xs arbitrary: n) (auto split: option.splits intro: le_SucI)
  then show ?thesis by (simp add: namespace_generated_steps_def)
qed

lemma py_slice_to_length: "0 \<le> n \<Longrightarrow> length (py_slice_to n xs) \<le> nat n"
  by (simp add: py_slice_to_def)

lemma normalise_members:
  assumes "g \<in> set (fst (normalise_generated_steps gb p raws))"
  shows "gen_depth p < max_depth_of gb p \<and> (\<exists>i a raw. g = generated_step p i a raw)"
proof (cases "gen_depth p \<ge> max_depth_of gb p")
  case False
  then have "g \<in> set (fst (namespace_generated_steps p (py_slice_to (max_width_of gb p) raws)))"
    using assms by (simp add: normalise_generated_steps_def Let_def split: prod.splits)
  from namespace_members [OF this] False show ?thesis by auto
qed (use assms in \<open>simp add: normalise_generated_steps_def\<close>)

lemma normalise_length:
  assumes "width_ok gb p"
  shows "length (fst (normalise_generated_steps gb p raws)) \<le> nat (max_width_of gb p)"
proof -
  have "length (fst (namespace_generated_steps p (py_slice_to (max_width_of gb p) raws))) \<le> nat (max_width_of gb p)"
    using namespace_length py_slice_to_length assms unfolding width_ok_def by (meson le_trans)
  then show ?thesis by (auto simp: normalise_generated_steps_def Let_def split: prod.splits)
qed

lemma generated_budget:
  assumes "width_ok gb p" "set gs \<subseteq> set (fst (normalise_generated_steps gb p raws))"
    "length gs \<le> nat (max_width_of gb p)"
  shows "sum_list (map (step_budget gb) gs) < step_budget gb p \<and> list_all (width_ok gb) gs"
proof (cases "gs = []")
  case True
  then show ?thesis by (simp add: step_budget_def tree_size_pos)
next
  case False
  then have deep: "gen_depth p < max_depth_of gb p"
    using normalise_members [of _ gb p raws] assms(2) by (cases gs) auto
  let ?w = "nat (max_width_of gb p)" and ?d = "nat (max_depth_of gb p - gen_depth p - 1)"
  have each: "step_budget gb g = tree_size ?w ?d \<and> width_ok gb g" if g: "g \<in> set gs" for g
  proof -
    obtain i a raw where "g = generated_step p i a raw" using normalise_members [of g gb p raws] g assms(2) by blast
    with assms(1) show ?thesis by (simp add: step_budget_def generated_inherits width_ok_def diff_diff_eq)
  qed
  have "sum_list (map (step_budget gb) gs) = length gs * tree_size ?w ?d"
    using each by (simp add: sum_list_triv cong: map_cong)
  also have "\<dots> \<le> ?w * tree_size ?w ?d" using assms(3) by simp
  also have "\<dots> < tree_size ?w (Suc ?d)" by simp
  also have "\<dots> = step_budget gb p"
    using deep by (simp add: step_budget_def Suc_nat_eq_nat_zadd1)
  finally show ?thesis using each by (simp add: list_all_iff)
qed

lemma keep_known_sub:
  "keep_known reg ss nt = Inr (valid, nt') \<Longrightarrow>
     set valid \<subseteq> set ss \<and> length valid \<le> length ss
     \<and> (\<forall>s \<in> set valid. \<exists>a. agents_get_optional reg (es_agent_id s) = Inr (Some a))"
proof (induction ss arbitrary: nt valid nt')
  case (Cons s ss)
  from Cons.prems obtain a where a: "agents_get_optional reg (es_agent_id s) = Inr a" by auto
  show ?case
  proof (cases a)
    case None
    with Cons a show ?thesis by fastforce
  next
    case (Some rec)
    with Cons.prems a obtain v where v: "keep_known reg ss nt = Inr (v, nt')" "valid = s # v" by auto
    from Cons.IH [OF v(1)] v(2) a Some show ?thesis by auto
  qed
qed simp

text \<open>What one update may write.\<close>

definition update_ok :: "'t executor \<Rightarrow> exec_step \<Rightarrow> step_update \<Rightarrow> bool" where
  "update_ok xr s u \<longleftrightarrow> (\<exists>r. up_step_results u = [r] \<and> res_step_id r = es_step_id s \<and> res_generated_steps r = [])
     \<and> (\<forall>g \<in> set (up_plan u). (\<exists>a. agents_get_optional (xr_registry xr) (es_agent_id g) = Inr (Some a))
          \<and> (\<exists>i a raw. g = generated_step s i a raw) \<and> gen_depth s < max_depth_of (xr_budget xr) s)
     \<and> (width_ok (xr_budget xr) s \<longrightarrow>
          sum_list (map (step_budget (xr_budget xr)) (up_plan u)) < step_budget (xr_budget xr) s
          \<and> list_all (width_ok (xr_budget xr)) (up_plan u))"

lemma update_ok_plain:
  "res_step_id r = es_step_id s \<Longrightarrow> res_generated_steps r = [] \<Longrightarrow> update_ok xr s \<lparr>up_step_results = [r], up_plan = []\<rparr>"
  by (simp add: update_ok_def step_budget_def tree_size_pos)

lemma append_generated_ok:
  assumes "append_generated_steps xr s r = Updated u" "res_step_id r = es_step_id s"
  shows "update_ok xr s u"
proof (cases "res_generated_steps r = []")
  case True
  with assms show ?thesis
    by (auto simp: append_generated_steps_def one_update_def intro!: update_ok_plain)
next
  case False
  obtain gs nt where n: "normalise_generated_steps (xr_budget xr) s (res_generated_steps r) = (gs, nt)" by fastforce
  obtain valid nt' where k: "keep_known (xr_registry xr) gs nt = Inr (valid, nt')"
    and u: "u = \<lparr>up_step_results = [if nt' = [] then r\<lparr>res_generated_steps := []\<rparr>
        else r\<lparr>res_generated_steps := [], res_generation_note := Some nt'\<rparr>], up_plan = valid\<rparr>"
    using assms(1) False n by (auto simp: append_generated_steps_def Let_def split: sum.splits)
  note kk = keep_known_sub [OF k]
  have "(\<exists>i a raw. g = generated_step s i a raw) \<and> gen_depth s < max_depth_of (xr_budget xr) s" if "g \<in> set valid" for g
    using normalise_members [of g "xr_budget xr" s "res_generated_steps r"] n kk that by auto
  moreover have "sum_list (map (step_budget (xr_budget xr)) valid) < step_budget (xr_budget xr) s
      \<and> list_all (width_ok (xr_budget xr)) valid" if "width_ok (xr_budget xr) s"
  proof (rule generated_budget [OF that])
    show "set valid \<subseteq> set (fst (normalise_generated_steps (xr_budget xr) s (res_generated_steps r)))"
      using n kk by simp
    show "length valid \<le> nat (max_width_of (xr_budget xr) s)"
      using normalise_length [OF that, of "res_generated_steps r"] n kk by simp
  qed
  ultimately show ?thesis using u assms(2) kk by (auto simp: update_ok_def)
qed

section \<open>One step writes one result\<close>

lemma make_result_simps [simp]:
  "res_step_id (make_result s st out e t l) = es_step_id s"
  "res_generated_steps (make_result s st out e t l) = []"
  "res_turn_id (make_result s st out e t l) = es_turn_id s"
  "res_status (make_result s st out e t l) = st"
  by (simp_all add: make_result_def)

lemma one_update_ok: "one_update r = Updated u \<Longrightarrow> res_step_id r = es_step_id s \<Longrightarrow> res_generated_steps r = [] \<Longrightarrow> update_ok xr s u"
  by (auto simp: one_update_def intro: update_ok_plain)

lemma evaluate_step_policy_result:
  "evaluate_step_policy xr s req a = Some r \<Longrightarrow> res_step_id r = es_step_id s \<and> res_generated_steps r = []"
  by (auto simp: evaluate_step_policy_def Let_def split: option.splits if_splits)

lemma approval_stop_ok: "approval_stop xr s a b = Some (Updated u) \<Longrightarrow> update_ok xr s u"
  by (auto simp: approval_stop_def split: if_splits approval.splits intro: one_update_ok)

lemma before_gate_ok:
  assumes "before_gate xr cache now p a b bound = (Stop (Updated u), c)"
  shows "update_ok xr (sp_step p) u"
  using assms
  by (auto simp: before_gate_def split: prod.splits sum.splits hook_fail.splits option.splits
      intro: one_update_ok approval_stop_ok)

lemma step_gates_ok:
  assumes "step_gates xr cache now p = (Stop (Updated u), c)"
  shows "update_ok xr (sp_step p) u"
proof -
  let ?s = "sp_step p"
  consider "agents_get_optional (xr_registry xr) (es_agent_id ?s) = Inr None"
    | a where "agents_get_optional (xr_registry xr) (es_agent_id ?s) = Inr (Some a)"
    using assms by (cases "agents_get_optional (xr_registry xr) (es_agent_id ?s)") (auto simp: step_gates_def)
  then show ?thesis
  proof cases
    case 1
    with assms show ?thesis by (auto simp: step_gates_def Let_def intro: one_update_ok)
  next
    case (2 a)
    show ?thesis
    proof (cases "evaluate_step_policy xr ?s (sp_request p) a")
      case (Some r)
      with 2 assms evaluate_step_policy_result [OF Some] show ?thesis
        by (auto simp: step_gates_def Let_def intro: one_update_ok)
    next
      case None
      with 2 assms show ?thesis
        by (auto simp: step_gates_def Let_def split: sum.splits intro: one_update_ok before_gate_ok)
    qed
  qed
qed

text \<open>The built-in hooks keep the identity of the result they are given.\<close>

lemma default_hook_result:
  assumes "map_of default_hook_registry i = Some h" "hc_result ctx = Some r"
  shows "\<exists>r'. hc_result (snd (h ctx)) = Some r' \<and> res_step_id r' = res_step_id r \<and> res_generated_steps r' = res_generated_steps r"
proof -
  have "hc_result (snd (hook_authz_recheck ctx)) = Some r"
    using assms(2)
    by (auto simp: hook_authz_recheck_def split: sum.splits prod.splits)
  with assms show ?thesis
    by (auto simp: default_hook_registry_def hook_state_validate_def hook_output_redact_def split: if_splits)
qed

lemma default_run_result:
  fixes ctx :: "'t :: linordered_idom hook_context"
  shows "hc_result ctx = Some r \<Longrightarrow>
    \<exists>r'. hc_result (snd (hooks_run default_hook_registry ids ctx)) = Some r' \<and> res_step_id r' = res_step_id r
      \<and> res_generated_steps r' = res_generated_steps r"
proof (induction ids arbitrary: ctx r)
  case (Cons i ids)
  show ?case
  proof (cases "map_of (default_hook_registry :: 't hook_registry) i")
    case (Some h)
    obtain f c where h: "h ctx = (f, c)" by fastforce
    obtain r1 where "hc_result c = Some r1" "res_step_id r1 = res_step_id r" "res_generated_steps r1 = res_generated_steps r"
      using default_hook_result [OF Some Cons.prems] h by auto
    with Cons.IH [of c r1] Some h show ?thesis by (cases f) (auto simp: hook_get_def)
  qed (use Cons.prems in \<open>simp add: hook_get_def\<close>)
qed simp

definition labels_results :: "'t executor \<Rightarrow> bool" where
  "labels_results xr \<longleftrightarrow> (\<forall>s req prev bound r. xr_work xr s req prev bound = WorkResult r \<longrightarrow> res_step_id r = es_step_id s)"

lemma run_step_work_label:
  "labels_results xr \<Longrightarrow> run_step_work xr s req prev bound = Inr r \<Longrightarrow> res_step_id r = es_step_id s"
  by (auto simp: run_step_work_def labels_results_def split: work_outcome.splits)

lemma finish_step_ok:
  assumes "xr_hooks xr = default_hook_registry" "labels_results xr"
    and "finish_step xr cache now p a bound = (Updated u, c)"
  shows "update_ok xr (sp_step p) u"
proof -
  let ?s = "sp_step p"
  obtain r where r: "run_step_work xr ?s (sp_request p) (sp_previous_results p) bound = Inr r"
    using assms(3) by (cases "run_step_work xr ?s (sp_request p) (sp_previous_results p) bound") (auto simp: finish_step_def)
  note lab = run_step_work_label [OF assms(2) r]
  let ?ctx = "hook_ctx xr AFTER ?s (sp_request p) a (Some r) None cache now"
  obtain f ctx where run: "hooks_run (xr_hooks xr) (after_invocation (ag_hooks a)) ?ctx = (f, ctx)" by fastforce
  obtain r' where r': "hc_result ctx = Some r'" "res_step_id r' = es_step_id ?s"
    using default_run_result [of ?ctx r "after_invocation (ag_hooks a)"] run lab assms(1) by (auto simp: hook_ctx_def)
  show ?thesis
  proof (cases f)
    case (Inl e)
    with assms(3) r run show ?thesis
      by (cases e) (auto simp: finish_step_def Let_def intro: append_generated_ok)
  next
    case (Inr x)
    with assms(3) r run r' show ?thesis by (auto simp: finish_step_def Let_def intro: append_generated_ok)
  qed
qed

lemma run_step_ok:
  assumes "xr_hooks xr = default_hook_registry" "labels_results xr" "run_step xr cache now p = (Updated u, c)"
  shows "update_ok xr (sp_step p) u"
  using assms by (auto simp: run_step_def split: prod.splits gate.splits intro: step_gates_ok finish_step_ok)

text \<open>
  Where the appended steps come from: the follow-ups the handler returned. They wait only for the step
  and what it waited for when the handler says so, or says nothing.
\<close>

definition follow_ups_forward :: "'t executor \<Rightarrow> bool" where
  "follow_ups_forward xr \<longleftrightarrow> (\<forall>s req prev bound r raw ds.
     xr_work xr s req prev bound = WorkResult r \<longrightarrow> raw \<in> set (res_generated_steps r) \<longrightarrow> raw_depends_on raw = Some ds
       \<longrightarrow> set ds \<subseteq> insert (es_step_id s) (set (es_depends_on s)))"

lemma py_slice_to_sub: "set (py_slice_to n xs) \<subseteq> set xs"
  by (auto simp: py_slice_to_def dest: in_set_takeD)

lemma namespace_raws:
  "g \<in> set (fst (namespace_generated_steps p raws)) \<Longrightarrow> \<exists>i a raw. raw \<in> set raws \<and> g = generated_step p i a raw"
  by (auto simp: namespace_generated_steps_def enumerate_eq_zip split: option.splits if_splits dest!: set_zip_rightD)

lemma append_generated_raws:
  assumes "append_generated_steps xr s r = Updated u" "g \<in> set (up_plan u)"
  shows "\<exists>i a raw. raw \<in> set (res_generated_steps r) \<and> g = generated_step s i a raw"
proof -
  obtain gs nt where n: "normalise_generated_steps (xr_budget xr) s (res_generated_steps r) = (gs, nt)" by fastforce
  have "g \<in> set gs"
    using assms n by (auto simp: append_generated_steps_def one_update_def Let_def split: if_splits sum.splits dest!: keep_known_sub)
  then have "g \<in> set (fst (namespace_generated_steps s (py_slice_to (max_width_of (xr_budget xr) s) (res_generated_steps r))))"
    using n by (auto simp: normalise_generated_steps_def Let_def split: if_splits prod.splits)
  from namespace_raws [OF this] obtain i a raw where
    "raw \<in> set (py_slice_to (max_width_of (xr_budget xr) s) (res_generated_steps r))" "g = generated_step s i a raw" by blast
  then show ?thesis by (intro exI [of _ i] exI [of _ a] exI [of _ raw]) (simp add: subsetD [OF py_slice_to_sub])
qed

lemma stopped_spawns_nothing:
  assumes "step_gates xr cache now p = (Stop (Updated u), c)"
  shows "up_plan u = []"
proof -
  have app: "approval_stop xr s a b = Some (Updated u) \<Longrightarrow> up_plan u = []" for s a b
    by (auto simp: approval_stop_def one_update_def split: if_splits approval.splits)
  have bg: "before_gate xr cache now p a b bound = (Stop (Updated u), c) \<Longrightarrow> up_plan u = []" for a b bound
    by (auto simp: before_gate_def one_update_def split: prod.splits sum.splits hook_fail.splits option.splits intro: app)
  from assms show ?thesis
    by (auto simp: step_gates_def Let_def one_update_def split: sum.splits option.splits intro: bg)
qed

lemma run_step_spawns_forward:
  assumes "xr_hooks xr = default_hook_registry" "follow_ups_forward xr" "run_step xr cache now p = (Updated u, c)"
    and "g \<in> set (up_plan u)"
  shows "set (es_depends_on g) \<subseteq> insert (es_step_id (sp_step p)) (set (es_depends_on (sp_step p)))"
proof -
  let ?s = "sp_step p"
  from assms(3,4) obtain a bound c0 where fin: "finish_step xr c0 now p a bound = (Updated u, c)"
    using stopped_spawns_nothing [of xr cache now p u] by (auto simp: run_step_def split: prod.splits gate.splits)
  obtain r where r: "run_step_work xr ?s (sp_request p) (sp_previous_results p) bound = Inr r"
    using fin by (cases "run_step_work xr ?s (sp_request p) (sp_previous_results p) bound") (auto simp: finish_step_def)
  let ?ctx = "hook_ctx xr AFTER ?s (sp_request p) a (Some r) None c0 now"
  obtain f ctx where run: "hooks_run (xr_hooks xr) (after_invocation (ag_hooks a)) ?ctx = (f, ctx)" by fastforce
  obtain r' where r': "hc_result ctx = Some r'" "res_generated_steps r' = res_generated_steps r"
    using default_run_result [of ?ctx r "after_invocation (ag_hooks a)"] run assms(1) by (auto simp: hook_ctx_def)
  have "\<exists>q. append_generated_steps xr ?s q = Updated u \<and> set (res_generated_steps q) \<subseteq> set (res_generated_steps r)"
  proof (cases f)
    case (Inl e)
    with fin r run obtain m where "append_generated_steps xr ?s (make_result ?s ''failed'' JNull m [] None) = Updated u"
      by (cases e) (auto simp: finish_step_def Let_def)
    then show ?thesis by (intro exI conjI) (assumption, simp)
  next
    case (Inr x)
    with fin r run r' show ?thesis by (intro exI [of _ r']) (simp add: finish_step_def Let_def)
  qed
  then obtain i ag raw where raw: "raw \<in> set (res_generated_steps r)" "g = generated_step ?s i ag raw"
    using append_generated_raws assms(4) by blast
  have "set ds \<subseteq> insert (es_step_id ?s) (set (es_depends_on ?s))" if ds: "raw_depends_on raw = Some ds" for ds
  proof -
    obtain r0 where "xr_work xr ?s (sp_request p) (sp_previous_results p) bound = WorkResult r0" "r0 = r"
      using r raw(1) by (auto simp: run_step_work_def split: work_outcome.splits)
    with assms(2) raw(1) ds show ?thesis unfolding follow_ups_forward_def by blast
  qed
  then show ?thesis by (auto simp: raw(2) generated_step_def split: option.splits)
qed

end
