(* ===== verification/Samples.thy ===== *)
theory Samples
  imports RoutePlan
begin

text \<open>
  Concrete records that instantiate the properties: two active agents, one of which depends on the
  other, put into the registry by the store's own operations.
\<close>

definition sample_agent :: "string \<Rightarrow> string list \<Rightarrow> agent_record" where
  "sample_agent i deps = \<lparr>rec_id = i, rec_version = 1, rec_status = DRAFT, rec_owner = ''ops'',
     ag_description = ''sample'', ag_intent_family = ''read'', ag_chat_router_eligible = True,
     ag_domain = ''itsm'', ag_routing_shape = RS_SINGLE,
     ag_activation_condition = ActivationCondition LEAF (Some INTENT_IN) [''read''] False [],
     ag_tool_refs = [], ag_policy_refs = [],
     ag_abac_tags = \<lparr>at_service = [''itsm''], at_tier = ET_READ, at_audience = [''agent''],
       at_data_classification = DC_INTERNAL\<rparr>,
     ag_determinism_level = DL_HIGH, ag_hooks = \<lparr>before_invocation = [], after_invocation = []\<rparr>,
     ag_depends_on = deps, ag_excludes = [], ag_compound_of = [], ag_journey = None,
     ag_consumes_time_filter = False, ag_manages_own_approval = False, ag_fast_path = None\<rparr>"

definition sample_store :: "agent_record file_tree" where
  "sample_store =
     [(([], ''a''), Envelope \<lparr>env_id = ''a'',
          env_versions = [(1, (sample_agent ''a'' [''b''])\<lparr>rec_status := ACTIVE\<rparr>)], env_active_version = Some 1\<rparr>),
      (([], ''b''), Envelope \<lparr>env_id = ''b'',
          env_versions = [(1, (sample_agent ''b'' [])\<lparr>rec_status := ACTIVE\<rparr>)], env_active_version = Some 1\<rparr>)]"

definition sample_registry :: registry where
  "sample_registry = \<lparr>agents = sample_store, tools = [], schemas = []\<rparr>"

definition sample_route :: sub_query_route where
  "sample_route = \<lparr>sq_id = ''sq1'', sq_agent_ids = [''a''], sq_parameters_by_agent = [],
     sq_depends_on = [], sq_bindings = []\<rparr>"

definition stored :: "reg_error + 'r \<times> 'r file_tree \<Rightarrow> 'r file_tree" where
  "stored res = (case res of Inl _ \<Rightarrow> [] | Inr (_, fs) \<Rightarrow> fs)"

definition sample_store1 :: "agent_record file_tree" where
  "sample_store1 = stored (create [] (sample_agent ''a'' [''b'']))"

definition sample_store2 :: "agent_record file_tree" where
  "sample_store2 = stored (create sample_store1 (sample_agent ''b'' []))"

definition sample_store3 :: "agent_record file_tree" where
  "sample_store3 = snd (activate agent_schema_ok sample_store2 ''a'' 1)"

lemma sample_create1: "create [] (sample_agent ''a'' [''b'']) = Inr (sample_agent ''a'' [''b''], sample_store1)"
  by code_simp

lemma sample_create2: "create sample_store1 (sample_agent ''b'' []) = Inr (sample_agent ''b'' [], sample_store2)"
  by code_simp

lemma sample_activate4: "snd (activate agent_schema_ok sample_store3 ''b'' 1) = sample_store"
  by code_simp

lemma store_step_activate: "submit_step submits schema_ok fs (snd (activate schema_ok fs i v))"
  by (rule step_activate) (rule surjective_pairing)

lemma sample_path:
  assumes "DRAFT \<in> submits"
  shows "submit_reachable submits agent_schema_ok sample_store3"
    and "submit_reachable submits agent_schema_ok sample_store"
proof -
  have draft: "rec_status (sample_agent i deps) \<in> submits" for i deps
    using assms by (simp add: sample_agent_def)
  have "submit_reachable submits agent_schema_ok sample_store2"
    by (intro reach_step [OF _ step_create [OF draft sample_create2]]
        reach_step [OF reach_empty step_create [OF draft sample_create1]])
  then show three: "submit_reachable submits agent_schema_ok sample_store3"
    by (rule reach_step) (unfold sample_store3_def, rule store_step_activate)
  then show "submit_reachable submits agent_schema_ok sample_store"
    by (rule reach_step) (unfold sample_activate4 [symmetric], rule store_step_activate)
qed

lemma sample_reachable3: "store_reachable agent_schema_ok sample_store3"
  by (simp add: store_reachable_def sample_path)

lemma sample_reachable: "store_reachable agent_schema_ok (agents sample_registry)"
  by (simp add: store_reachable_def sample_registry_def sample_path)

lemma sample_drafts_reachable: "submit_reachable {DRAFT} agent_schema_ok (agents sample_registry)"
  by (simp add: sample_registry_def sample_path)

lemma sample_integrity: "check_integrity sample_registry = Some (Inr ())"
  by code_simp

lemma sample_plan: "map_option (map_sum id plan_agent_ids) (assemble_plan [sample_route] sample_registry)
    = Some (Inr [''b'', ''a''])"
  by code_simp

end
