(* ===== verification/ExecSamples.thy ===== *)
theory ExecSamples
  imports Executor Samples
begin

text \<open>
  A concrete executor for the properties of the turn: the sample registry, the default hooks, a role
  with a write permission, a generation budget of depth 3 and width 8, a user who approves, and
  handlers that echo the inputs bound for the step.
\<close>

definition guarded_agent :: agent_record where
  "guarded_agent = (sample_agent ''g'' [])\<lparr>rec_status := ACTIVE,
     ag_abac_tags := \<lparr>at_service = [''itsm''], at_tier = ET_ACTION, at_audience = [''agent''],
       at_data_classification = DC_INTERNAL\<rparr>,
     ag_hooks := \<lparr>before_invocation = [''builtin:authz_recheck''], after_invocation = []\<rparr>\<rparr>"

definition guarded_registry :: registry where
  "guarded_registry = \<lparr>agents = [(([], ''g''), Envelope \<lparr>env_id = ''g'', env_versions = [(1, guarded_agent)],
     env_active_version = Some 1\<rparr>)], tools = [], schemas = []\<rparr>"

definition guarded_resource :: resource_descriptor where
  "guarded_resource = \<lparr>r_resource_id = ''g'', r_resource_tenant_id = ''t1'', r_tier = TIER_ACTION,
     r_data_classification = CLS_INTERNAL, r_audience = [''agent''], r_required_scopes = []\<rparr>"

definition guarded_digest :: "key_payload \<Rightarrow> string" where
  "guarded_digest x = (if x = key_payload_of sample_principal guarded_resource then ''d1'' else ''d2'')"

definition echo_work ::
  "exec_step \<Rightarrow> request_env \<Rightarrow> (string \<times> step_result) list \<Rightarrow> (string \<times> json) list \<Rightarrow> work_outcome" where
  "echo_work s req previous bound = WorkResult (make_result s ''success'' (JObj bound) None [] None)"

definition sample_xr :: "registry \<Rightarrow> int executor" where
  "sample_xr reg = \<lparr>xr_registry = reg, xr_policy = None, xr_hooks = default_hook_registry,
     xr_authz = Some sample_az, xr_digest = guarded_digest,
     xr_budget = \<lparr>gb_max_depth = 3, gb_max_width = 8\<rparr>, xr_getattr = (\<lambda>_ _. JNull),
     xr_work = echo_work, xr_approval = (\<lambda>_. Some (JBool True))\<rparr>"

definition sample_step :: "string \<Rightarrow> string list \<Rightarrow> exec_step" where
  "sample_step i deps = \<lparr>es_step_id = i, es_agent_id = i, es_parameters = [], es_depends_on = deps,
     es_turn_id = None, es_parameter_bindings = [], es_dependency_types = [], es_tool_id = None,
     es_intent = None, es_gen_depth = None, es_gen_max_depth = None, es_gen_max_width = None\<rparr>"

definition sample_request :: request_env where
  "sample_request = \<lparr>env_request_id = ''r1'', env_tenant_id = ''t1'', env_session_id = ''s1'', env_user_id = ''u1'',
     env_role = ''agent'', env_message = ''do it'', env_focus_entity_id = [], env_focus_service_id = [],
     env_time_filter = []\<rparr>"

definition sample_send :: send_payload where
  "sample_send = \<lparr>sp_step = sample_step ''g'' [], sp_request = sample_request, sp_previous_results = []\<rparr>"

definition sample_state :: "exec_step list \<Rightarrow> executor_state" where
  "sample_state plan = \<lparr>x_request_id = ''r1'', x_tenant_id = ''t1'', x_session_id = ''s1'', x_user_id = ''u1'',
     x_role = ''agent'', x_message = ''do it'', x_conversation_history = [], x_forced_agent_ids = [],
     x_focus_entity_id = [], x_focus_service_id = [], x_control_gate_outcome = [], x_route_outcome = None,
     x_boundary_reason = [], x_entity_clarification = [], x_plan = plan, x_unrouted = [],
     x_route_diagnostics = [], x_step_results = [], x_final_status = [], x_final_response = [],
     x_time_filter = [], x_entry_mode = []\<rparr>"

lemma guarded_collision_free: "collision_free guarded_digest (key_payload_of sample_principal guarded_resource)"
  by (simp add: collision_free_def guarded_digest_def)

lemma sample_reads: "\<exists>r. agents_get_optional sample_registry i = Inr r"
proof (cases "i = ''a'' \<or> i = ''b''")
  case True
  have "isl (map_sum id id (agents_get_optional sample_registry ''a'')) = False"
    "isl (map_sum id id (agents_get_optional sample_registry ''b'')) = False" by code_simp+
  with True show ?thesis by (metis isl_map_sum sum.collapse(2))
next
  case False
  then have "fb_read sample_store i = Inr None"
    by (auto simp: sample_store_def fb_read_def fb_path_def)
  then show ?thesis
    by (simp add: agents_get_optional_def get_optional_def get_def sample_registry_def require_envelope_def load_envelope_def)
qed

lemma no_tools: "tools reg = [] \<Longrightarrow> \<exists>r. tools_get_optional reg i None = Inr r"
  by (simp add: tools_get_optional_def get_optional_def get_def require_envelope_def load_envelope_def
      fb_read_def fb_path_def)

end
