(* ===== verification/TurnCorrectness.thy ===== *)
theory TurnCorrectness
  imports ExecSamples
begin

text \<open>
  The executor as a whole: the wave loop driven by the real step pipeline, the gates in front of the
  handlers, and what the aggregation reports.
\<close>

section \<open>The handler runs only behind its gates\<close>

text \<open>Everything that must hold before a handler is called.\<close>

definition gates_hold :: "'t executor \<Rightarrow> 't decision_cache \<Rightarrow> 't \<Rightarrow> send_payload \<Rightarrow> agent_record \<Rightarrow> bool \<Rightarrow> bool" where
  "gates_hold xr cache now p a is_action \<longleftrightarrow>
     agents_get_optional (xr_registry xr) (es_agent_id (sp_step p)) = Inr (Some a)
     \<and> evaluate_step_policy xr (sp_step p) (sp_request p) a = None
     \<and> (\<exists>bound. resolve_bindings (xr_getattr xr) (sp_step p) (sp_previous_results p) = Inr bound)
     \<and> step_is_action xr (sp_step p) a = Inr is_action
     \<and> fst (hooks_run (xr_hooks xr) (before_invocation (ag_hooks a))
          (hook_ctx xr BEFORE (sp_step p) (sp_request p) a None (Some is_action) cache now)) = Inr ()
     \<and> (is_action \<and> \<not> ag_manages_own_approval a \<longrightarrow> action_approval_gate xr (sp_step p) = Approved)"

lemma step_gates_Go:
  assumes "step_gates xr cache now p = (Go a bound, c)"
  shows "\<exists>is_action. gates_hold xr cache now p a is_action
    \<and> resolve_bindings (xr_getattr xr) (sp_step p) (sp_previous_results p) = Inr bound"
proof -
  let ?s = "sp_step p"
  obtain a' where a': "agents_get_optional (xr_registry xr) (es_agent_id ?s) = Inr (Some a')"
    using assms by (cases "agents_get_optional (xr_registry xr) (es_agent_id ?s)")
      (auto simp: step_gates_def Let_def split: option.splits)
  have pol: "evaluate_step_policy xr ?s (sp_request p) a' = None"
    using assms a' by (cases "evaluate_step_policy xr ?s (sp_request p) a'") (auto simp: step_gates_def Let_def)
  obtain b' where b': "resolve_bindings (xr_getattr xr) ?s (sp_previous_results p) = Inr b'"
    using assms a' pol by (cases "resolve_bindings (xr_getattr xr) ?s (sp_previous_results p)")
      (auto simp: step_gates_def Let_def)
  obtain i where i: "step_is_action xr ?s a' = Inr i"
    using assms a' pol b' by (cases "step_is_action xr ?s a'") (auto simp: step_gates_def Let_def)
  have bg: "before_gate xr cache now p a' i b' = (Go a bound, c)"
    using assms a' pol b' i by (simp add: step_gates_def Let_def)
  obtain f ctx where h: "hooks_run (xr_hooks xr) (before_invocation (ag_hooks a'))
      (hook_ctx xr BEFORE ?s (sp_request p) a' None (Some i) cache now) = (f, ctx)" by fastforce
  have f: "f = Inr ()" and app: "approval_stop xr ?s a' i = None" and eq: "a' = a" "b' = bound"
    using bg h by (auto simp: before_gate_def split: sum.splits hook_fail.splits option.splits)
  have "i \<and> \<not> ag_manages_own_approval a \<longrightarrow> action_approval_gate xr ?s = Approved"
    using app eq by (auto simp: approval_stop_def split: approval.splits if_splits)
  with a' pol b' i h f eq show ?thesis unfolding gates_hold_def by auto
qed

lemma gates_ignore_work:
  "evaluate_step_policy (xr\<lparr>xr_work := w\<rparr>) = evaluate_step_policy xr"
  "step_is_action (xr\<lparr>xr_work := w\<rparr>) = step_is_action xr"
  "approval_stop (xr\<lparr>xr_work := w\<rparr>) = approval_stop xr"
  "hook_ctx (xr\<lparr>xr_work := w\<rparr>) = hook_ctx xr"
  "xr_registry (xr\<lparr>xr_work := w\<rparr>) = xr_registry xr" "xr_hooks (xr\<lparr>xr_work := w\<rparr>) = xr_hooks xr"
  "xr_getattr (xr\<lparr>xr_work := w\<rparr>) = xr_getattr xr"
  by (simp_all add: fun_eq_iff evaluate_step_policy_def step_is_action_def approval_stop_def
      action_approval_gate_def hook_ctx_def Let_def)

lemma step_gates_ignores_work: "step_gates (xr\<lparr>xr_work := w\<rparr>) cache now p = step_gates xr cache now p"
  unfolding step_gates_def before_gate_def gates_ignore_work ..

text \<open>
  C3: a handler takes part in a step only behind every gate. If replacing the handler layer by any
  other one can change what a step does, then the agent is active, no policy rule denies or cans the
  step, its bindings resolved, all its before-hooks passed and, for an action step of an agent that
  does not manage approval itself, the user approved it.
\<close>

theorem handler_runs_behind_gates:
  assumes "run_step (xr\<lparr>xr_work := w\<rparr>) cache now p \<noteq> run_step xr cache now p"
  shows "\<exists>a is_action. gates_hold xr cache now p a is_action"
proof (cases "step_gates xr cache now p")
  case (Pair g c)
  show ?thesis
  proof (cases g)
    case (Stop out)
    with Pair assms show ?thesis by (simp add: run_step_def step_gates_ignores_work)
  next
    case (Go a bound)
    with Pair step_gates_Go [of xr cache now p a bound c] show ?thesis by auto
  qed
qed

definition denying_work ::
  "exec_step \<Rightarrow> request_env \<Rightarrow> (string \<times> step_result) list \<Rightarrow> (string \<times> json) list \<Rightarrow> work_outcome" where
  "denying_work s req previous bound = WorkResult (make_result s ''failed'' JNull None [] None)"

definition status_of :: "step_outcome \<times> 'c \<Rightarrow> string list" where
  "status_of oc = (case fst oc of Updated u \<Rightarrow> map res_status (up_step_results u) | _ \<Rightarrow> [])"

lemma sample_runs:
  "status_of (run_step (sample_xr guarded_registry) [] 0 sample_send) = [''success'']"
  "status_of (run_step ((sample_xr guarded_registry)\<lparr>xr_work := denying_work\<rparr>) [] 0 sample_send) = [''failed'']"
  by code_simp+

theorem handler_runs_behind_gates_witness:
  "\<exists>a is_action. gates_hold (sample_xr guarded_registry) [] 0 sample_send a is_action"
proof -
  have "run_step ((sample_xr guarded_registry)\<lparr>xr_work := denying_work\<rparr>) [] 0 sample_send
      \<noteq> run_step (sample_xr guarded_registry) [] 0 sample_send"
    using sample_runs by fastforce
  from handler_runs_behind_gates [OF this] show ?thesis .
qed

text \<open>
  C4: authorisation at the moment of action. When a step of an agent that declares the built-in
  authorisation re-check gets past its gates, the caller named by the request is permitted to use the
  agent at the tier of this very step, by the five access rules and the permissions of the caller's
  role; no state of the decision cache that the service itself built can change that.
\<close>

theorem gated_step_authorised:
  assumes "gates_hold xr cache now p a is_action" and "xr_hooks xr = default_hook_registry"
    and "''builtin:authz_recheck'' \<in> set (before_invocation (ag_hooks a))"
    and "xr_authz xr = Some az" and "cache_reachable (xr_digest xr) az cache now"
    and "\<forall>q. principal_from_request (sp_request p) = Inr q \<longrightarrow>
           collision_free (xr_digest xr) (key_payload_of q (resource_from_agent a q (Some is_action)))"
  shows "\<exists>q. principal_from_request (sp_request p) = Inr q
    \<and> access_permitted q (resource_from_agent a q (Some is_action)) (permissions_for (az_rbac az) (p_role q))"
proof -
  let ?ctx = "hook_ctx xr BEFORE (sp_step p) (sp_request p) a None (Some is_action) cache now"
  have run: "fst (hooks_run default_hook_registry (before_invocation (ag_hooks a)) ?ctx) = Inr ()"
    using assms(1,2) by (simp add: gates_hold_def)
  have "\<exists>az' a' q. hc_authz ?ctx = Some az' \<and> hc_agent ?ctx = Some a' \<and> principal_from_request (hc_request ?ctx) = Inr q
    \<and> access_permitted q (resource_from_agent a' q (hc_step_is_action ?ctx)) (permissions_for (az_rbac az') (p_role q))"
    by (rule authz_gate [OF run assms(3)]) (use assms(4,5,6) in \<open>auto simp: hook_ctx_def\<close>)
  then show ?thesis using assms(4) by (auto simp: hook_ctx_def)
qed

lemma guarded_lookup: "agents_get_optional guarded_registry ''g'' = Inr (Some guarded_agent)"
  by code_simp

lemma guarded_checks:
  "step_is_action (sample_xr guarded_registry) (sample_step ''g'' []) guarded_agent = Inr True"
  "evaluate_step_policy (sample_xr guarded_registry) (sample_step ''g'' []) sample_request guarded_agent = None"
  "resolve_bindings (\<lambda>_ _. JNull) (sample_step ''g'' []) [] = Inr []"
  "action_approval_gate (sample_xr guarded_registry) (sample_step ''g'' []) = Approved"
  "fst (hooks_run default_hook_registry [''builtin:authz_recheck'']
     (hook_ctx (sample_xr guarded_registry) BEFORE (sample_step ''g'' []) sample_request guarded_agent None (Some True) [] 0)) = Inr ()"
  by code_simp+

lemma guarded_gates: "gates_hold (sample_xr guarded_registry) [] 0 sample_send guarded_agent True"
  unfolding gates_hold_def
  using guarded_lookup guarded_checks
  by (simp add: sample_send_def sample_xr_def sample_step_def guarded_agent_def)

lemma guarded_principal: "principal_from_request sample_request = Inr sample_principal"
  by code_simp

lemma guarded_is_resource: "resource_from_agent guarded_agent sample_principal (Some True) = guarded_resource"
  by code_simp

theorem gated_step_authorised_witness:
  "access_permitted sample_principal guarded_resource (permissions_for (az_rbac sample_az) ''agent'')"
proof -
  have "\<exists>q. principal_from_request (sp_request sample_send) = Inr q
    \<and> access_permitted q (resource_from_agent guarded_agent q (Some True)) (permissions_for (az_rbac sample_az) (p_role q))"
  proof (rule gated_step_authorised [OF guarded_gates])
    show "xr_hooks (sample_xr guarded_registry) = default_hook_registry" "xr_authz (sample_xr guarded_registry) = Some sample_az"
      by (simp_all add: sample_xr_def)
    show "''builtin:authz_recheck'' \<in> set (before_invocation (ag_hooks guarded_agent))" by (simp add: guarded_agent_def)
    show "cache_reachable (xr_digest (sample_xr guarded_registry)) sample_az [] 0" by (rule cache_empty)
    show "\<forall>q. principal_from_request (sp_request sample_send) = Inr q \<longrightarrow>
        collision_free (xr_digest (sample_xr guarded_registry)) (key_payload_of q (resource_from_agent guarded_agent q (Some True)))"
      using guarded_collision_free guarded_is_resource guarded_principal by (simp add: sample_send_def sample_xr_def)
  qed
  then show ?thesis using guarded_principal guarded_is_resource by (simp add: sample_send_def sample_principal_def)
qed

section \<open>A turn runs its plan to the end\<close>

text \<open>
  The environment of an undisturbed turn: the registry reads without error, the decision cache has a
  positive time to live, pending approvals were answered, and no handler interrupts. Handlers label
  their results with the id of the step they were given.
\<close>

definition undisturbed :: "'t :: linordered_idom executor \<Rightarrow> bool" where
  "undisturbed xr \<longleftrightarrow> xr_hooks xr = default_hook_registry \<and> labels_results xr
     \<and> (\<forall>i. \<exists>r. agents_get_optional (xr_registry xr) i = Inr r)
     \<and> (\<forall>i. \<exists>r. tools_get_optional (xr_registry xr) i None = Inr r)
     \<and> (\<forall>az. xr_authz xr = Some az \<longrightarrow> 0 < az_ttl az)
     \<and> (\<forall>s. xr_approval xr s \<noteq> None)
     \<and> (\<forall>s req prev bound j. xr_work xr s req prev bound \<noteq> WorkInterrupt j)"

lemma check_raises_only_without_ttl:
  "check digest az c now later p r = (Inl e, c') \<Longrightarrow> az_ttl az \<le> 0"
proof -
  assume ck: "check digest az c now later p r = (Inl e, c')"
  obtain d where d: "decide az p r = Inr d" using decide_Inr by blast
  obtain res c1 where g: "dc_get c now (decision_key digest p r) = (res, c1)" by fastforce
  show ?thesis
  proof (cases res)
    case None
    with g ck check_miss [OF _ d, of c now digest c1 later] show ?thesis by (auto split: if_splits)
  next
    case (Some w)
    with g ck check_hit [of c now digest p r w c1 az later] show ?thesis by simp
  qed
qed

lemma default_hook_no_raise:
  fixes ctx :: "'t :: linordered_idom hook_context"
  assumes "map_of default_hook_registry i = Some h" "\<And>az. hc_authz ctx = Some az \<Longrightarrow> 0 < az_ttl az"
  shows "fst (h ctx) \<noteq> Inl (HookRaise e)"
proof -
  have "fst (hook_authz_recheck ctx) \<noteq> Inl (HookRaise e)"
  proof
    assume f: "fst (hook_authz_recheck ctx) = Inl (HookRaise e)"
    then obtain az a where az: "require_authz_services ctx = Inr (az, a)"
      by (cases "require_authz_services ctx")
        (auto simp: hook_authz_recheck_def require_authz_services_def split: option.splits)
    then have some: "hc_authz ctx = Some az" by (auto simp: require_authz_services_def split: option.splits)
    obtain q where q: "principal_from_request (hc_request ctx) = Inr q"
      using f az by (cases "principal_from_request (hc_request ctx)")
        (auto simp: hook_authz_recheck_def principal_from_request_def Let_def split: if_splits)
    obtain res c where ck: "check (hc_digest ctx) az (hc_cache ctx) (hc_now ctx) (hc_now ctx) q
        (resource_from_agent a q (hc_step_is_action ctx)) = (res, c)" by fastforce
    have "res = Inl e" using f az q ck by (cases res) (auto simp: hook_authz_recheck_def split: if_splits)
    with ck check_raises_only_without_ttl assms(2) [OF some] show False by (metis not_less)
  qed
  with assms(1) show ?thesis
    by (auto simp: default_hook_registry_def hook_state_validate_def hook_output_redact_def
        split: if_splits option.splits)
qed

lemma default_run_no_raise:
  fixes ctx :: "'t :: linordered_idom hook_context"
  shows "(\<And>az. hc_authz ctx = Some az \<Longrightarrow> 0 < az_ttl az) \<Longrightarrow>
    fst (hooks_run default_hook_registry ids ctx) \<noteq> Inl (HookRaise e)"
proof (induction ids arbitrary: ctx)
  case (Cons i ids)
  show ?case
  proof (cases "map_of (default_hook_registry :: 't hook_registry) i")
    case (Some h)
    obtain f c where h: "h ctx = (f, c)" by fastforce
    have nr: "f \<noteq> Inl (HookRaise e)"
      using default_hook_no_raise [OF Some, of ctx e] Cons.prems h by simp
    have "hc_authz c = hc_authz ctx" using frame_default [OF Some, of ctx] h by (simp add: hook_frame_def)
    with Cons.IH [of c] Cons.prems have "fst (hooks_run default_hook_registry ids c) \<noteq> Inl (HookRaise e)" by auto
    with Some h nr show ?thesis by (cases f) (auto simp: hook_get_def)
  qed (simp add: hook_get_def)
qed simp

lemma keep_known_total:
  "(\<And>i. \<exists>r. agents_get_optional reg i = Inr r) \<Longrightarrow> \<exists>v. keep_known reg ss nt = Inr v"
proof (induction ss arbitrary: nt)
  case (Cons s ss)
  obtain a where a: "agents_get_optional reg (es_agent_id s) = Inr a" using Cons.prems by blast
  show ?case
  proof (cases a)
    case (Some x)
    with Cons.IH [OF Cons.prems, of nt] a show ?thesis by auto
  qed (use Cons.IH [OF Cons.prems] a in simp)
qed simp

lemma append_generated_total:
  "(\<And>i. \<exists>r. agents_get_optional (xr_registry xr) i = Inr r) \<Longrightarrow> \<exists>u. append_generated_steps xr s r = Updated u"
  using keep_known_total [of "xr_registry xr" "fst (normalise_generated_steps (xr_budget xr) s (res_generated_steps r))"
      "snd (normalise_generated_steps (xr_budget xr) s (res_generated_steps r))"]
  by (auto simp: append_generated_steps_def one_update_def Let_def split: prod.splits)

lemma run_step_updates:
  fixes xr :: "'t :: linordered_idom executor"
  assumes "undisturbed xr"
  shows "\<exists>u c. run_step xr cache now p = (Updated u, c)"
proof -
  have reg: "\<exists>r. agents_get_optional (xr_registry xr) i = Inr r" for i
    using assms by (simp add: undisturbed_def)
  have noraise: "fst (hooks_run (xr_hooks xr) ids (hook_ctx xr ph s req a res b c n)) \<noteq> Inl (HookRaise e)" for ids ph s req a res b c n e
    using assms default_run_no_raise [of "hook_ctx xr ph s req a res b c n" ids e]
    by (simp add: undisturbed_def hook_ctx_def)
  have tier: "\<exists>b. step_is_action xr s a = Inr b" for s a
  proof -
    obtain t where "tools_get_optional (xr_registry xr) (strip (case es_tool_id s of None \<Rightarrow> [] | Some t \<Rightarrow> t)) None = Inr t"
      using assms unfolding undisturbed_def by blast
    then show ?thesis by (cases t) (simp_all add: step_is_action_def Let_def)
  qed
  have appr: "\<exists>u. o' = Updated u" if "approval_stop xr s a b = Some o'" for s a b o'
  proof -
    obtain d where "xr_approval xr s = Some d" using assms unfolding undisturbed_def by blast
    with that show ?thesis
      by (auto simp: approval_stop_def action_approval_gate_def one_update_def split: if_splits)
  qed
  have fin: "\<exists>u c'. finish_step xr c now p a bound = (Updated u, c')" for c a bound
  proof -
    obtain r where r: "run_step_work xr (sp_step p) (sp_request p) (sp_previous_results p) bound = Inr r"
      using assms by (cases "xr_work xr (sp_step p) (sp_request p) (sp_previous_results p) bound")
        (auto simp: run_step_work_def undisturbed_def)
    let ?ctx = "hook_ctx xr AFTER (sp_step p) (sp_request p) a (Some r) None c now"
    obtain f ctx where h: "hooks_run (xr_hooks xr) (after_invocation (ag_hooks a)) ?ctx = (f, ctx)" by fastforce
    have f: "f \<noteq> Inl (HookRaise e)" for e
      using noraise [of "after_invocation (ag_hooks a)" AFTER "sp_step p" "sp_request p" a "Some r" None c now e] h by simp
    show ?thesis
    proof (cases f)
      case (Inl e)
      then obtain m where m: "e = HookError m" using f by (cases e) simp_all
      show ?thesis
        using append_generated_total [OF reg]
        by (simp only: finish_step_def r Let_def h Inl m sum.case hook_fail.case prod.case one_update_def) blast
    next
      case (Inr v)
      show ?thesis
        using append_generated_total [OF reg]
        by (simp only: finish_step_def r Let_def h Inr sum.case hook_fail.case prod.case one_update_def) blast
    qed
  qed
  have stops: "\<exists>u. out = Updated u" if "step_gates xr cache now p = (Stop out, c)" for out c
  proof -
    obtain ao where ao: "agents_get_optional (xr_registry xr) (es_agent_id (sp_step p)) = Inr ao" using reg by blast
    show ?thesis
    proof (cases ao)
      case None
      with that ao show ?thesis by (auto simp: step_gates_def Let_def one_update_def)
    next
      case (Some a)
      obtain b where b: "step_is_action xr (sp_step p) a = Inr b" using tier by blast
      obtain f ctx where h: "hooks_run (xr_hooks xr) (before_invocation (ag_hooks a))
          (hook_ctx xr BEFORE (sp_step p) (sp_request p) a None (Some b) cache now) = (f, ctx)" by fastforce
      have f: "f \<noteq> Inl (HookRaise e)" for e
        using noraise [of "before_invocation (ag_hooks a)" BEFORE "sp_step p" "sp_request p" a None "Some b" cache now e] h by simp
      have bg: "\<exists>u. out = Updated u" if "before_gate xr cache now p a b bound = (Stop out, c)" for bound
        using that h f appr
        by (auto simp: before_gate_def one_update_def split: sum.splits hook_fail.splits option.splits)
      from that ao Some b bg show ?thesis
        by (auto simp: step_gates_def Let_def one_update_def split: option.splits sum.splits)
    qed
  qed
  obtain g c where g: "step_gates xr cache now p = (g, c)" by fastforce
  show ?thesis
  proof (cases g)
    case (Stop out)
    with stops g show ?thesis by (auto simp: run_step_def)
  next
    case (Go a bound)
    with fin [of c a bound] g show ?thesis by (simp add: run_step_def)
  qed
qed

text \<open>The loop's view of a step; steps of one wave may find the decision cache in any state.\<close>

definition step_runner ::
  "'t executor \<Rightarrow> (send_payload \<Rightarrow> 't decision_cache) \<Rightarrow> 't \<Rightarrow> send_payload \<Rightarrow> step_update" where
  "step_runner xr caches now p =
     (case fst (run_step xr (caches p) now p) of
        Updated u \<Rightarrow> u
      | _ \<Rightarrow> \<lparr>up_step_results = [], up_plan = []\<rparr>)"

lemma step_runner_ok:
  fixes xr :: "'t :: linordered_idom executor"
  assumes "undisturbed xr"
  shows "update_ok xr (sp_step p) (step_runner xr caches now p)"
proof -
  obtain u c where u: "run_step xr (caches p) now p = (Updated u, c)" using run_step_updates [OF assms] by blast
  moreover have "xr_hooks xr = default_hook_registry" "labels_results xr" using assms by (auto simp: undisturbed_def)
  ultimately show ?thesis using run_step_ok [of xr "caches p" now p u c] by (simp add: step_runner_def)
qed

lemma step_runner_contract:
  fixes xr :: "'t :: linordered_idom executor"
  assumes "undisturbed xr"
  shows "one_result (step_runner xr caches now)"
    and "spends (width_ok (xr_budget xr)) (step_budget (xr_budget xr)) (step_runner xr caches now)"
proof -
  note ok = step_runner_ok [OF assms, of _ caches now]
  show "one_result (step_runner xr caches now)" using ok unfolding one_result_def update_ok_def by blast
  show "spends (width_ok (xr_budget xr)) (step_budget (xr_budget xr)) (step_runner xr caches now)"
    using ok unfolding spends_def update_ok_def by blast
qed

definition gen_room :: "gen_budget \<Rightarrow> exec_step \<Rightarrow> nat" where
  "gen_room gb s = nat (max_depth_of gb s - gen_depth s)"

lemma step_runner_spawns_below:
  fixes xr :: "'t :: linordered_idom executor"
  assumes "undisturbed xr"
  shows "spawns_below (gen_room (xr_budget xr)) (step_runner xr caches now)"
  unfolding spawns_below_def
proof (intro allI ballI)
  fix p x assume "x \<in> set (up_plan (step_runner xr caches now p))"
  with step_runner_ok [OF assms, of p caches now] obtain i a raw where
    "x = generated_step (sp_step p) i a raw" "gen_depth (sp_step p) < max_depth_of (xr_budget xr) (sp_step p)"
    unfolding update_ok_def by blast
  then show "gen_room (xr_budget xr) x < gen_room (xr_budget xr) (sp_step p)"
    by (simp add: gen_room_def generated_inherits)
qed

lemma step_runner_forward:
  fixes xr :: "'t :: linordered_idom executor"
  assumes "undisturbed xr" "follow_ups_forward xr"
  shows "spawns_forward (step_runner xr caches now)"
  unfolding spawns_forward_def
proof (intro allI ballI)
  fix p x assume x: "x \<in> set (up_plan (step_runner xr caches now p))"
  obtain u c where u: "run_step xr (caches p) now p = (Updated u, c)" using run_step_updates [OF assms(1)] by blast
  have "xr_hooks xr = default_hook_registry" using assms(1) by (simp add: undisturbed_def)
  from run_step_spawns_forward [OF this assms(2) u] x u
  show "set (es_depends_on x) \<subseteq> insert (es_step_id (sp_step p)) (set (es_depends_on (sp_step p)))"
    by (simp add: step_runner_def)
qed

text \<open>
  C2: on an undisturbed turn, with a generation width that is not negative, a well-formed plan is run to
  its end or the recursion limit aborts the turn, and nothing in between. The wave loop needs some number
  \<open>w\<close> of rounds, at most what the generation budget of the plan's steps allows. Under LangGraph's limit,
  with \<open>m\<close> supersteps left, it raises \<open>GraphRecursionError\<close> exactly when \<open>m < 2 * w + 3\<close>. Otherwise it
  ends, and then every planned step has exactly one result, namely what the step pipeline gives for it
  when it is fed the results of its dependencies, all of which ran; no two steps share an id; and a step
  that was generated on the way and did not run waits for a step that has no result.
\<close>

theorem turn_runs_plan:
  fixes xr :: "'t :: linordered_idom executor"
  assumes "undisturbed xr" and "0 \<le> gb_max_width (xr_budget xr)"
    and "plan_wf steps" and "x_plan st = serialise_plan steps turn" and "x_step_results st = []"
  shows "\<exists>w st'. w \<le> sum_list (map (step_budget (xr_budget xr)) (x_plan st))
    \<and> (\<forall>m. wave_loop m (step_runner xr caches now) st = (if 2 * w + 3 \<le> m then Inr st' else Inl GraphRecursionError))
    \<and> distinct (map es_step_id (x_plan st')) \<and> prefix (x_plan st) (x_plan st')
    \<and> (\<forall>s \<in> set (x_plan st).
         (\<exists>!r. r \<in> set (x_step_results st') \<and> res_step_id r = es_step_id s)
         \<and> up_step_results (step_runner xr caches now (mk_send st' s)) = [result_of (step_runner xr caches now) (mk_send st' s)]
         \<and> result_of (step_runner xr caches now) (mk_send st' s) \<in> set (x_step_results st')
         \<and> set (es_depends_on s) \<subseteq> completed (x_step_results st'))
    \<and> (\<forall>s \<in> set (x_plan st'). es_step_id s \<notin> completed (x_step_results st') \<longrightarrow>
         (\<exists>d \<in> set (es_depends_on s). d \<notin> completed (x_step_results st')))"
proof -
  let ?run = "step_runner xr caches now" and ?gb = "xr_budget xr"
  note one = step_runner_contract(1) [OF assms(1), of caches now]
  note wf = serialise_plan_wf [OF assms(3), of turn]
  have inv: "loop_inv ?run st" using wf assms(4,5) by (intro loop_inv_start) simp_all
  have good: "list_all (width_ok ?gb) (x_plan st)"
    using assms(2) by (simp add: assms(4) list_all_iff serialise_plan_def serialise_step_def width_ok_def max_width_of_def override_def)
  have rem: "remaining_steps st = x_plan st" using assms(5) by (simp add: remaining_steps_def completed_def)
  obtain st' where st': "waves (Suc (sum_list (map (step_budget ?gb) (x_plan st)))) ?run st = Some st'"
    "loop_inv ?run st'" "dispatch_wave st' = ToAggregate" "prefix (x_plan st) (x_plan st')"
    using waves_terminate [OF one step_runner_contract(2) [OF assms(1)] inv good, of "Suc (sum_list (map (step_budget ?gb) (x_plan st)))"]
    by (auto simp: rem)
  have all: "es_step_id s \<in> completed (x_step_results st')" "s \<in> set (x_plan st')" if "s \<in> set (x_plan st)" for s
    using wf_prefix_completes [OF st'(4) _ st'(3)] wf assms(4) that st'(4) by (auto simp: prefix_def)
  have "distinct (map es_step_id (x_plan st'))" using st'(2) by (simp add: loop_inv_def)
  moreover have "\<forall>s \<in> set (x_plan st). (\<exists>!r. r \<in> set (x_step_results st') \<and> res_step_id r = es_step_id s)
      \<and> up_step_results (?run (mk_send st' s)) = [result_of ?run (mk_send st' s)]
      \<and> result_of ?run (mk_send st' s) \<in> set (x_step_results st')
      \<and> set (es_depends_on s) \<subseteq> completed (x_step_results st')"
  proof
    fix s assume s: "s \<in> set (x_plan st)"
    show "(\<exists>!r. r \<in> set (x_step_results st') \<and> res_step_id r = es_step_id s)
      \<and> up_step_results (?run (mk_send st' s)) = [result_of ?run (mk_send st' s)]
      \<and> result_of ?run (mk_send st' s) \<in> set (x_step_results st')
      \<and> set (es_depends_on s) \<subseteq> completed (x_step_results st')"
      using loop_inv_unique [OF one st'(2) all(2) [OF s] all(1) [OF s]] one_result_hd [OF one, of "mk_send st' s"] by blast
  qed
  moreover obtain w where "w < Suc (sum_list (map (step_budget ?gb) (x_plan st)))"
    "\<forall>m. wave_loop m ?run st = (if 2 * w + 3 \<le> m then Inr st' else Inl GraphRecursionError)"
    using wave_loop_exact [OF st'(1)] by blast
  ultimately show ?thesis
    using st'(4) dispatch_Aggregate [OF st'(3)] less_Suc_eq_le [of w] by (intro exI [of _ w] exI [of _ st'] conjI) blast+
qed

lemma sample_undisturbed: "undisturbed (sample_xr sample_registry)"
  using sample_reads no_tools [of sample_registry]
  by (simp add: undisturbed_def sample_xr_def labels_results_def echo_work_def make_result_def sample_az_def)
    (simp add: sample_registry_def)

definition sample_steps :: "plan_step list" where
  "sample_steps = (case assemble_plan [sample_route] sample_registry of Some (Inr p) \<Rightarrow> rp_steps p | _ \<Rightarrow> [])"

lemma sample_steps_shape: "map (\<lambda>s. (ps_step_id s, ps_depends_on s)) sample_steps
    = [(''step_1'', []), (''step_2'', [''step_1''])]"
  by code_simp

lemma sample_steps_wf: "plan_wf sample_steps"
proof -
  have "plan_wf ss" if "map (\<lambda>s. (ps_step_id s, ps_depends_on s)) ss = [(''step_1'', []), (''step_2'', [''step_1''])]" for ss
    using that by (auto simp: map_eq_Cons_conv plan_wf_def deps_before_nth less_Suc_eq)
  then show ?thesis using sample_steps_shape .
qed

lemma sample_plan_ids: "set (map es_step_id (x_plan (sample_state (serialise_plan sample_steps ''t'')))) = {''step_1'', ''step_2''}"
proof -
  have "map es_step_id (x_plan (sample_state (serialise_plan sample_steps ''t''))) = map fst (map (\<lambda>s. (ps_step_id s, ps_depends_on s)) sample_steps)"
    by (simp add: sample_state_def serialise_plan_def serialise_step_def)
  then show ?thesis unfolding sample_steps_shape by simp
qed

theorem turn_runs_plan_witness:
  "\<exists>w st'. wave_loop (2 * w + 3) (step_runner (sample_xr sample_registry) (\<lambda>_. []) 0)
       (sample_state (serialise_plan sample_steps ''t'')) = Inr st' \<and> {''step_1'', ''step_2''} \<subseteq> completed (x_step_results st')"
proof -
  let ?st = "sample_state (serialise_plan sample_steps ''t'')"
  have plan: "x_plan ?st = serialise_plan sample_steps ''t''" "x_step_results ?st = []"
    by (simp_all add: sample_state_def)
  have width: "0 \<le> gb_max_width (xr_budget (sample_xr sample_registry))" by (simp add: sample_xr_def)
  obtain w st' where run: "\<forall>m. wave_loop m (step_runner (sample_xr sample_registry) (\<lambda>_. []) 0) ?st
        = (if 2 * w + 3 \<le> m then Inr st' else Inl GraphRecursionError)"
    and all: "\<forall>s \<in> set (x_plan ?st). \<exists>!r. r \<in> set (x_step_results st') \<and> res_step_id r = es_step_id s"
    using turn_runs_plan [OF sample_undisturbed width sample_steps_wf plan, of "\<lambda>_. []" 0]
    by (elim exE conjE) (rule that, assumption, rule ballI, drule (1) bspec, erule conjunct1)
  have "set (map es_step_id (x_plan ?st)) \<subseteq> completed (x_step_results st')"
  proof
    fix i assume "i \<in> set (map es_step_id (x_plan ?st))"
    then obtain s where s: "s \<in> set (x_plan ?st)" "i = es_step_id s" unfolding set_map by blast
    from ex1_implies_ex [OF bspec [OF all s(1)]] show "i \<in> completed (x_step_results st')"
      unfolding completed_def set_map s(2) by (elim exE conjE) (metis image_eqI)
  qed
  then have "{''step_1'', ''step_2''} \<subseteq> completed (x_step_results st')" by (simp only: sample_plan_ids)
  with run show ?thesis by (intro exI [of _ w] exI [of _ st']) simp
qed

text \<open>
  C40: the floor under the recursion limit is enough for real plans. When the caller sets no limit of its
  own, whatever limit the operator configured, an undisturbed turn whose plan waits at most sixteen levels
  deep, and whose follow-up steps wait only for the step that spawned them and what that step waited for,
  is never aborted: the wave loop ends with a result for every step, planned or generated. LangGraph may
  charge up to three supersteps of its own.
\<close>

theorem recursion_floor_suffices:
  fixes xr :: "'t :: linordered_idom executor"
  assumes "undisturbed xr" and "follow_ups_forward xr"
    and "plan_wf steps" and "x_plan st = serialise_plan steps turn" and "x_step_results st = []"
    and "\<forall>s \<in> set (x_plan st). level (es_step_id s) < (16 :: nat) \<and> (\<forall>d \<in> set (es_depends_on s). level d < level (es_step_id s))"
    and "charge \<le> 3"
  shows "\<exists>st'. turn_waves charge button (turn_limit None (gb_max_depth (xr_budget xr)) configured)
      (step_runner xr caches now) st = Inr st'
    \<and> prefix (x_plan st) (x_plan st') \<and> es_step_id ` set (x_plan st') = completed (x_step_results st')"
proof -
  let ?run = "step_runner xr caches now" and ?gb = "xr_budget xr"
  let ?M = "16 + nat (max 0 (gb_max_depth ?gb))"
  note one = step_runner_contract(1) [OF assms(1), of caches now]
  note fwd = step_runner_forward [OF assms(1,2), of caches now]
  note wf = serialise_plan_wf [OF assms(3), of turn]
  have inv: "loop_inv ?run st" using wf assms(4,5) by (intro loop_inv_start) simp_all
  have before: "deps_before es_depends_on es_step_id (x_plan st)" using wf assms(4) by simp
  have room: "gen_room ?gb s = nat (gb_max_depth ?gb)" if "s \<in> set (x_plan st)" for s
    using that by (auto simp: assms(4) serialise_plan_def serialise_step_def gen_room_def max_depth_of_def gen_depth_def override_def)
  have rk: "ranked (gen_room ?gb) ?M level (x_plan st)" using assms(6) room by (fastforce simp: ranked_def)
  obtain st' where w: "waves (Suc ?M) ?run st = Some st'"
    using ranked_waves [OF one fwd step_runner_spawns_below [OF assms(1)] inv before rk, of 0 ?M] by auto
  obtain r where r: "r < Suc ?M" "waves (Suc r) ?run st = Some st'"
    "\<forall>m. wave_loop m ?run st = (if 2 * r + 3 \<le> m then Inr st' else Inl GraphRecursionError)"
    using wave_loop_exact [OF w] by blast
  note fin = waves_end [OF one w inv]
  have "es_step_id ` set (x_plan st') \<subseteq> completed (x_step_results st')"
    using wf_plan_completes [OF waves_deps_before [OF one fwd w inv before] fin(2)] .
  moreover have "completed (x_step_results st') \<subseteq> es_step_id ` set (x_plan st')"
    using loop_inv_completed_ids [OF one fin(1)] .
  ultimately show ?thesis
    unfolding turn_waves_def using r(1,3) floor_leaves [OF assms(7), of ?M _ r] fin(3) by auto
qed

theorem recursion_floor_suffices_witness:
  "\<exists>st'. turn_waves 1 False (turn_limit None 3 60) (step_runner (sample_xr sample_registry) (\<lambda>_. []) 0)
       (sample_state (serialise_plan sample_steps ''t'')) = Inr st' \<and> {''step_1'', ''step_2''} \<subseteq> completed (x_step_results st')"
proof -
  let ?st = "sample_state (serialise_plan sample_steps ''t'')" and ?xr = "sample_xr sample_registry"
  have plan: "x_plan ?st = serialise_plan sample_steps ''t''" "x_step_results ?st = []"
    by (simp_all add: sample_state_def)
  have fwd: "follow_ups_forward ?xr"
    by (simp add: follow_ups_forward_def sample_xr_def echo_work_def make_result_def)
  let ?level = "\<lambda>i. if i = ''step_2'' then 1 else 0 :: nat"
  have lv: "\<forall>s \<in> set (x_plan ?st). ?level (es_step_id s) < 16 \<and> (\<forall>d \<in> set (es_depends_on s). ?level d < ?level (es_step_id s))"
  proof -
    obtain a b where ss: "sample_steps = [a, b]" and ab: "ps_step_id a = ''step_1''" "ps_depends_on a = []"
      "ps_step_id b = ''step_2''" "ps_depends_on b = [''step_1'']"
      using sample_steps_shape by (auto simp: map_eq_Cons_conv)
    show ?thesis unfolding plan(1) ss by (simp add: sample_state_def serialise_plan_def serialise_step_def ab)
  qed
  obtain st' where run: "turn_waves 1 False (turn_limit None (gb_max_depth (xr_budget ?xr)) 60) (step_runner ?xr (\<lambda>_. []) 0) ?st = Inr st'"
    and pre: "prefix (x_plan ?st) (x_plan st')" and all: "es_step_id ` set (x_plan st') = completed (x_step_results st')"
    using recursion_floor_suffices [OF sample_undisturbed fwd sample_steps_wf plan lv, of 1 False 60 "\<lambda>_. []" 0] by auto
  have "gb_max_depth (xr_budget ?xr) = 3" by (simp add: sample_xr_def)
  note run = run [unfolded this]
  have "set (map es_step_id (x_plan ?st)) \<subseteq> completed (x_step_results st')"
    unfolding all [symmetric] set_map using set_mono_prefix [OF pre] by (rule image_mono)
  then have "{''step_1'', ''step_2''} \<subseteq> completed (x_step_results st')" by (simp only: sample_plan_ids)
  with run show ?thesis by (intro exI conjI)
qed

section \<open>What aggregation reports\<close>

lemma ordered_results_set:
  "set (ordered_results st) = set (turn_results st)
     \<union> (\<lambda>s. make_result s ''blocked'' JNull (Some not_executed) [] None) `
         {s \<in> set (turn_plan st). es_step_id s \<notin> completed (turn_results st)}"
  by (auto simp: ordered_results_def Let_def completed_def)

text \<open>
  C5: nothing is skipped silently. The aggregated list holds every result of the turn and, for every
  planned step of the turn without one, a result with status blocked, and nothing else; it follows
  the order of the plan; and the turn is reported as executed only if every planned step has a result,
  at least one succeeded, none failed, was denied or blocked, and no part of the message was left
  unrouted.
\<close>

theorem aggregate_complete:
  "(\<forall>s \<in> set (turn_plan st). \<exists>r \<in> set (ordered_results st). res_step_id r = es_step_id s)
   \<and> set (turn_results st) \<subseteq> set (ordered_results st)
   \<and> (\<forall>r \<in> set (ordered_results st) - set (turn_results st). res_status r = ''blocked''
        \<and> (\<exists>s \<in> set (turn_plan st). res_step_id r = es_step_id s \<and> es_step_id s \<notin> completed (turn_results st)))
   \<and> sorted (map (\<lambda>r. plan_position (turn_plan st) (res_step_id r)) (ordered_results st))
   \<and> (x_final_status (aggregate other st) = ''executed'' \<longleftrightarrow>
        es_step_id ` set (turn_plan st) \<subseteq> completed (turn_results st) \<and> x_unrouted st = []
        \<and> (\<exists>r \<in> set (turn_results st). res_status r = ''success'')
        \<and> (\<forall>r \<in> set (turn_results st). res_status r \<notin> {''failed'', ''denied'', ''blocked''}))"
proof -
  let ?syn = "\<lambda>s. make_result s ''blocked'' JNull (Some not_executed) [] None"
  let ?open = "{s \<in> set (turn_plan st). es_step_id s \<notin> completed (turn_results st)}"
  note os = ordered_results_set [of st]
  have cov: "\<forall>s \<in> set (turn_plan st). \<exists>r \<in> set (ordered_results st). res_step_id r = es_step_id s"
  proof
    fix s assume s: "s \<in> set (turn_plan st)"
    show "\<exists>r \<in> set (ordered_results st). res_step_id r = es_step_id s"
    proof (cases "es_step_id s \<in> completed (turn_results st)")
      case True
      then show ?thesis unfolding os by (auto simp: completed_def)
    next
      case False
      with s have "?syn s \<in> set (ordered_results st)" unfolding os by blast
      then show ?thesis by (rule rev_bexI) simp
    qed
  qed
  have exec: "overall_status xs us = ''executed'' \<longleftrightarrow> us = [] \<and> (\<exists>r \<in> set xs. res_status r = ''success'')
      \<and> (\<forall>r \<in> set xs. res_status r \<notin> {''failed'', ''denied'', ''blocked''})" for xs us
    by (auto simp: overall_status_def Let_def filter_empty_conv)
  have f1: "x_final_status (aggregate other st) = overall_status (ordered_results st) (x_unrouted st)"
    by (simp add: aggregate_def Let_def)
  have f2: "(\<forall>r \<in> set (ordered_results st). res_status r \<notin> {''failed'', ''denied'', ''blocked''}) \<longleftrightarrow>
      ?open = {} \<and> (\<forall>r \<in> set (turn_results st). res_status r \<notin> {''failed'', ''denied'', ''blocked''})"
    unfolding os by (simp add: ball_Un) blast
  have f3: "?open = {} \<longleftrightarrow> es_step_id ` set (turn_plan st) \<subseteq> completed (turn_results st)" by auto
  have f4: "(\<exists>r \<in> set (ordered_results st). res_status r = ''success'') \<longleftrightarrow> (\<exists>r \<in> set (turn_results st). res_status r = ''success'')"
    unfolding os by auto
  have status: "x_final_status (aggregate other st) = ''executed'' \<longleftrightarrow>
        es_step_id ` set (turn_plan st) \<subseteq> completed (turn_results st) \<and> x_unrouted st = []
        \<and> (\<exists>r \<in> set (turn_results st). res_status r = ''success'')
        \<and> (\<forall>r \<in> set (turn_results st). res_status r \<notin> {''failed'', ''denied'', ''blocked''})"
    unfolding f1 exec f2 f3 f4 by (simp only: conj_ac)
  have "sorted (map (\<lambda>r. plan_position (turn_plan st) (res_step_id r)) (ordered_results st))"
    by (simp add: ordered_results_def Let_def)
  moreover have "\<forall>r \<in> set (ordered_results st) - set (turn_results st). res_status r = ''blocked''
        \<and> (\<exists>s \<in> set (turn_plan st). res_step_id r = es_step_id s \<and> es_step_id s \<notin> completed (turn_results st))"
    unfolding os by auto
  moreover have "set (turn_results st) \<subseteq> set (ordered_results st)" unfolding os by simp
  ultimately show ?thesis using cov status by blast
qed

text \<open>One of two planned steps has run: the other is reported as blocked and the turn is not executed.\<close>

definition half_run :: executor_state where
  "half_run = (sample_state [sample_step ''g'' [], sample_step ''h'' []])\<lparr>x_step_results :=
     [make_result (sample_step ''g'' []) ''success'' JNull None [] None]\<rparr>"

lemma half_run_open:
  "turn_plan half_run = [sample_step ''g'' [], sample_step ''h'' []]" "completed (turn_results half_run) = {''g''}"
  by code_simp+

theorem aggregate_complete_witness:
  "x_final_status (aggregate (\<lambda>_. []) half_run) \<noteq> ''executed''
   \<and> (\<exists>r \<in> set (ordered_results half_run). res_step_id r = ''h'' \<and> res_status r = ''blocked'')"
proof -
  note agg = aggregate_complete [of half_run "\<lambda>_. []"]
  have h: "sample_step ''h'' [] \<in> set (turn_plan half_run)" "es_step_id (sample_step ''h'' []) = ''h''"
    by (simp_all add: half_run_open sample_step_def)
  obtain r where r: "r \<in> set (ordered_results half_run)" "res_step_id r = ''h''"
    using bspec [OF conjunct1 [OF agg] h(1)] h(2) by (elim bexE) simp
  have "res_step_id ` set (turn_results half_run) = {''g''}" using half_run_open(2) by (simp add: completed_def)
  then have "r \<notin> set (turn_results half_run)" using r(2) by (intro notI) (drule imageI [of _ _ res_step_id], simp)
  with r(1) have "r \<in> set (ordered_results half_run) - set (turn_results half_run)" by simp
  note st = conjunct1 [OF bspec [OF conjunct1 [OF conjunct2 [OF conjunct2 [OF agg]]] this]]
  have "\<not> es_step_id ` set (turn_plan half_run) \<subseteq> completed (turn_results half_run)"
    unfolding half_run_open by (simp add: sample_step_def)
  then have "x_final_status (aggregate (\<lambda>_. []) half_run) \<noteq> ''executed''"
    using conjunct2 [OF conjunct2 [OF conjunct2 [OF conjunct2 [OF agg]]]] by (simp only: simp_thms)
  then show ?thesis using r st by blast
qed

end
