(* ===== verification/RegistryCorrectness.thy ===== *)
theory RegistryCorrectness
  imports Samples
begin

text \<open>
  The promises of the registry: the version lifecycle, rollback, the backend behind it and the
  integrity check at start-up.
\<close>

section \<open>Properties\<close>

text \<open>
  C10: the version lifecycle is an invariant of the store. However a store was reached by its
  operations, every record file is a version envelope under its own id, its versions are numbered
  one, two, three without a gap and carry their own number and id, and a set active pointer names a
  version that is ACTIVE or DEPRECATED. \<open>create\<close> and \<open>update\<close> store whatever status the submitted
  record carries; \<open>submits\<close> is the set of those statuses, and as long as no record is submitted as
  ACTIVE, at most one version is ACTIVE and it is the one the active pointer names.
\<close>

theorem version_lifecycle:
  assumes "submit_reachable submits schema_ok fs" and "fb_content fs i = Some f"
  shows "\<exists>e. f = Envelope e \<and> env_id e = i \<and> env_versions e \<noteq> []
    \<and> map fst (env_versions e) = map (\<lambda>n. int n + 1) [0..<length (env_versions e)]
    \<and> (\<forall>(k, r) \<in> set (env_versions e). rec_version r = k \<and> rec_id r = i)
    \<and> set_option (env_active_version e) \<subseteq>
        {k. \<exists>r. (k, r) \<in> set (env_versions e) \<and> rec_status r \<in> {ACTIVE, DEPRECATED}}
    \<and> (ACTIVE \<notin> submits \<longrightarrow>
        {k. \<exists>r. (k, r) \<in> set (env_versions e) \<and> rec_status r = ACTIVE} \<subseteq> set_option (env_active_version e))"
proof -
  from submit_reachable_ok [OF assms(1)] assms(2) obtain e where e: "f = Envelope e" "env_id e = i" "env_ok e"
    unfolding store_ok_def by blast
  have "single_active e" if "ACTIVE \<notin> submits"
    using reachable_single_active [OF assms(1) that] assms(2) e(1) by blast
  with e show ?thesis by (intro exI [of _ e]) (auto simp: env_ok_def single_active_def)
qed

text \<open>An ACTIVE version without a pointer does exist once a record is submitted as ACTIVE.\<close>

lemma active_submission_unpointed:
  "\<exists>fs e. store_reachable agent_schema_ok fs \<and> fb_content fs ''a'' = Some (Envelope e)
     \<and> env_active_version e = None \<and> \<not> single_active e"
proof -
  let ?r = "(sample_agent ''a'' [])\<lparr>rec_status := ACTIVE\<rparr>"
  let ?fs = "stored (create [] ?r)"
  have c: "create [] ?r = Inr (?r, ?fs)" by code_simp
  have "store_reachable agent_schema_ok ?fs"
    unfolding store_reachable_def by (rule reach_step [OF reach_empty step_create [OF UNIV_I c]])
  moreover have "fb_content ?fs ''a'' = Some (Envelope \<lparr>env_id = ''a'', env_versions = [(1, ?r)], env_active_version = None\<rparr>)"
    by code_simp
  ultimately show ?thesis by (intro exI conjI) (auto simp: single_active_def)
qed

theorem version_lifecycle_witness:
  "{k. \<exists>r. (k, r) \<in> set (env_versions \<lparr>env_id = ''b'', env_versions = [(1, (sample_agent ''b'' [])\<lparr>rec_status := ACTIVE\<rparr>)],
       env_active_version = Some 1\<rparr>) \<and> rec_status r = ACTIVE} \<subseteq> {1}"
proof -
  have "fb_content (agents sample_registry) ''b'' = Some (Envelope \<lparr>env_id = ''b'',
      env_versions = [(1, (sample_agent ''b'' [])\<lparr>rec_status := ACTIVE\<rparr>)], env_active_version = Some 1\<rparr>)"
    by (simp add: sample_registry_def sample_store_def fb_content_def)
  from version_lifecycle [OF sample_drafts_reachable this] show ?thesis by auto
qed

text \<open>
  C11: rollback. A successful \<open>activate i v\<close> makes \<open>get\<close> serve exactly version \<open>v\<close> of \<open>i\<close>, now
  ACTIVE; the version that was active before is RETIRED, every other version keeps its payload, and
  no other record changes what it serves.
\<close>

theorem activate_switches_version:
  assumes "store_reachable schema_ok fs" and "activate schema_ok fs i v = (Inr r, fs')"
  shows "get schema_ok fs' i None = Inr r \<and> rec_version r = v \<and> rec_status r = ACTIVE
    \<and> (\<forall>j w. j \<noteq> i \<longrightarrow> get schema_ok fs' j w = get schema_ok fs j w)
    \<and> (\<exists>env env'. fb_content fs i = Some (Envelope env) \<and> fb_content fs' i = Some (Envelope env')
         \<and> (\<forall>k x. (k, x) \<in> set (env_versions env) \<and> k \<noteq> v \<longrightarrow>
              (k, if env_active_version env = Some k then x\<lparr>rec_status := RETIRED\<rparr> else x) \<in> set (env_versions env')))"
proof -
  note ok = reachable_store_ok [OF assms(1)]
  obtain env env' where e: "fb_content fs i = Some (Envelope env)" "activate_env env v = Inr env'"
    "fb_content fs' = (fb_content fs)(i \<mapsto> Envelope env')" "store_ok fs'"
    using activate_effect [OF ok assms(2)] by metis
  have "get schema_ok fs' j w = get schema_ok fs j w" if "j \<noteq> i" for j w
    using that e(3) by (intro get_content_cong ok e(4)) simp
  moreover have "(k, if env_active_version env = Some k then x\<lparr>rec_status := RETIRED\<rparr> else x) \<in> set (env_versions env')"
    if "(k, x) \<in> set (env_versions env)" "k \<noteq> v" for k x
    using e(2) that by (force simp: activate_env_def Let_def set_status_def split: if_splits option.splits)
  ultimately show ?thesis using activate_then_get [OF ok assms(2)] e by auto
qed

theorem activate_switches_version_witness:
  "get agent_schema_ok sample_store ''b'' None = Inr ((sample_agent ''b'' [])\<lparr>rec_status := ACTIVE\<rparr>)"
proof -
  have reach: "store_reachable agent_schema_ok sample_store3"
    by (rule sample_reachable3)
  have act: "activate agent_schema_ok sample_store3 ''b'' 1
      = (Inr ((sample_agent ''b'' [])\<lparr>rec_status := ACTIVE\<rparr>), sample_store)"
    by code_simp
  from activate_switches_version [OF reach act] show ?thesis by blast
qed

text \<open>
  The file backend keeps what it is given. On a directory with no duplicate id every write and
  delete succeeds and keeps that invariant; a written record reads back, a deleted one is gone,
  every other record reads as before, and the listing names exactly the stored ids, sorted.
\<close>

theorem backend_roundtrip:
  assumes "fb_invar fs" and "fb_readable f"
  shows "\<exists>fs' fs''. fb_write fs i f = Inr fs' \<and> fb_invar fs' \<and> fb_read fs' i = Inr (Some f)
    \<and> fb_delete fs' i = Inr (True, fs'') \<and> fb_invar fs'' \<and> fb_read fs'' i = Inr None
    \<and> (\<forall>j. j \<noteq> i \<longrightarrow> fb_content fs' j = fb_content fs j \<and> fb_content fs'' j = fb_content fs j)
    \<and> (\<exists>ids. fb_list_ids fs' = Inr ids \<and> set ids = insert i (dom (fb_content fs)) \<and> sorted ids \<and> distinct ids)"
proof -
  obtain fs' where w: "fb_write fs i f = Inr fs'" "fb_content fs' = (fb_content fs)(i \<mapsto> f)" "fb_invar fs'"
    using fb.write_content [OF assms(1)] by blast
  obtain fs'' where d: "fb_delete fs' i = Inr (True, fs'')" "fb_content fs'' = (fb_content fs')(i := None)" "fb_invar fs''"
    using fb.delete_content [OF w(3), of i] w(2) by auto
  obtain ids where ids: "fb_list_ids fs' = Inr ids \<and> set ids = dom (fb_content fs') \<and> distinct ids \<and> sorted ids"
    using fb.list_ids_content [OF w(3)] by (rule exE)
  moreover have "dom (fb_content fs') = insert i (dom (fb_content fs))" by (simp add: w(2))
  ultimately have l: "\<exists>ids. fb_list_ids fs' = Inr ids \<and> set ids = insert i (dom (fb_content fs)) \<and> sorted ids \<and> distinct ids"
    by metis
  have o': "\<forall>j. j \<noteq> i \<longrightarrow> fb_content fs' j = fb_content fs j \<and> fb_content fs'' j = fb_content fs j"
    by (simp add: w(2) d(2))
  have r: "fb_read fs' i = Inr (Some f)" by (rule fb.write_read [OF assms(1) w(1) assms(2)])
  have g: "fb_read fs'' i = Inr None" using fb.delete_read [OF w(3) d(1)] by (rule conjunct1)
  show ?thesis
    by (rule exI [of _ fs'], rule exI [of _ fs'']) (rule conjI w(1) w(3) r d(1) d(3) g o' l)+
qed

theorem backend_roundtrip_witness:
  "\<exists>fs'. fb_write sample_store ''c'' NoVersions = Inr fs' \<and> fb_read fs' ''c'' = Inr (Some NoVersions)"
proof -
  have "fb_invar sample_store" "fb_readable (NoVersions :: agent_record reg_file)"
    by (simp_all add: sample_store_def fb_invar_def fb_readable_def)
  from backend_roundtrip [OF this, of "''c''"] show ?thesis by (elim exE conjE) (intro exI conjI)
qed

text \<open>
  C12: the start-up integrity check terminates and decides. On readable registries it passes exactly
  when every active agent's tools, dependencies, exclusions and compound members are active and its
  exclusion priorities differ, and the dependency graph of the active agents has no cycle; otherwise
  it raises with at least one violation.
\<close>

theorem integrity_check_decides:
  assumes "list_active agent_schema_ok (agents reg) = Inr act" and "list_active tool_schema_ok (tools reg) = Inr ts"
  shows "\<exists>r. check_integrity reg = Some r
    \<and> (r = Inr () \<longleftrightarrow>
         (\<forall>(i, a) \<in> set (agents_by_id act). references_resolved a (rec_id ` set act) (rec_id ` set ts))
         \<and> acyclic (dep_edges (graph_deps (agents_by_id act)) (rec_id ` set act)))
    \<and> (r \<noteq> Inr () \<longrightarrow> (\<exists>vs. vs \<noteq> [] \<and> r = Inl (RegistryIntegrityError vs)))"
proof -
  let ?as = "agents_by_id act"
  obtain c where c: "find_dependency_cycle ?as = Some c"
    "c = [] \<longleftrightarrow> acyclic (dep_edges (graph_deps ?as) (fst ` set ?as))"
    using find_dependency_cycle_decides by blast
  have v: "concat (map (\<lambda>(i, a). agent_violations a ?as (map rec_id ts)) ?as) = []
      \<longleftrightarrow> (\<forall>(i, a) \<in> set ?as. references_resolved a (fst ` set ?as) (rec_id ` set ts))"
    by (auto simp: agent_violations_Nil)
  show ?thesis
    unfolding check_integrity_def assms sum.case Let_def c(1) option.case
    using v c(2) unfolding agents_by_id_keys by auto
qed

theorem integrity_check_decides_witness:
  "\<exists>act. list_active agent_schema_ok (agents sample_registry) = Inr act
     \<and> acyclic (dep_edges (graph_deps (agents_by_id act)) (rec_id ` set act))"
proof -
  have "\<not> isl (list_active agent_schema_ok (agents sample_registry))" by code_simp
  then obtain act where act: "list_active agent_schema_ok (agents sample_registry) = Inr act"
    by (metis sum.collapse(2))
  have "list_active tool_schema_ok (tools sample_registry) = Inr []" by code_simp
  from integrity_check_decides [OF act this] sample_integrity act show ?thesis by auto
qed

end
