(* ===== verification/Conditions.thy ===== *)
theory Conditions
  imports RegistryModels
begin

text \<open>
  Stage 3 of the routing funnel (\<open>router/conditions.py\<close>, \<open>router/signals.py\<close>): the three-valued
  evaluation of an agent's activation condition over the deterministic facts of a request. The
  \<open>ValueError\<close> of a leaf without a known signal is \<open>Inl\<close>; conditions that passed the registry's
  validators never raise it.
\<close>

datatype ternary = PASS | FAIL | INDETERMINATE

record request_signals =
  rs_role :: string
  rs_tenant_id :: string
  rs_present_entities :: "(string \<times> string) list"
  rs_tenant_capabilities :: "string set"
  rs_has_active_focus :: bool
  rs_intents :: "string set option"

definition entity_services :: "request_signals \<Rightarrow> string set" where
  "entity_services s = set [svc. (e, svc) \<leftarrow> rs_present_entities s, svc \<noteq> []]"

definition has_entity :: "request_signals \<Rightarrow> bool" where
  "has_entity s = (length (rs_present_entities s) > 0)"

definition with_intents :: "request_signals \<Rightarrow> string set \<Rightarrow> request_signals" where
  "with_intents s is = \<lparr>rs_role = rs_role s, rs_tenant_id = rs_tenant_id s,
     rs_present_entities = rs_present_entities s, rs_tenant_capabilities = rs_tenant_capabilities s,
     rs_has_active_focus = rs_has_active_focus s, rs_intents = Some is\<rparr>"

definition flip_ternary :: "ternary \<Rightarrow> ternary" where
  "flip_ternary r = (if r = PASS then FAIL else if r = FAIL then PASS else INDETERMINATE)"

definition bool_ternary :: "bool \<Rightarrow> ternary" where
  "bool_ternary passed = (if passed then PASS else FAIL)"

text \<open>\<open>ValueError\<close>: a signal the evaluator does not know.\<close>

datatype cond_error = UnknownSignal

definition eval_leaf ::
  "condition_signal option \<Rightarrow> string list \<Rightarrow> bool \<Rightarrow> request_signals \<Rightarrow> cond_error + ternary" where
  "eval_leaf sig vals neg s =
     (let values = set vals;
          flip = (\<lambda>r. Inr (if neg then flip_ternary r else r))
      in case sig of
           Some INTENT_IN \<Rightarrow>
             (case rs_intents s of
                None \<Rightarrow> Inr INDETERMINATE
              | Some is \<Rightarrow> flip (bool_ternary (is \<inter> values \<noteq> {})))
         | Some ENTITY_PRESENT \<Rightarrow> flip (bool_ternary (has_entity s))
         | Some ENTITY_SERVICE_IN \<Rightarrow> flip (bool_ternary (entity_services s \<inter> values \<noteq> {}))
         | Some FOCUS_REQUIRED \<Rightarrow> flip (bool_ternary (rs_has_active_focus s))
         | Some TENANT_CAPABILITY \<Rightarrow> flip (bool_ternary (rs_tenant_capabilities s \<inter> values \<noteq> {}))
         | Some ROLE_IN \<Rightarrow> flip (bool_ternary (rs_role s \<in> values))
         | None \<Rightarrow> Inl UnknownSignal)"

definition all_of :: "ternary list \<Rightarrow> ternary" where
  "all_of rs = (if FAIL \<in> set rs then FAIL
                else if INDETERMINATE \<in> set rs then INDETERMINATE else PASS)"

definition any_of :: "ternary list \<Rightarrow> ternary" where
  "any_of rs = (if PASS \<in> set rs then PASS
                else if INDETERMINATE \<in> set rs then INDETERMINATE else FAIL)"

fun evaluate_condition :: "activation_condition \<Rightarrow> request_signals \<Rightarrow> cond_error + ternary" where
  "evaluate_condition (ActivationCondition op sig vals neg cls) s =
     (if op = LEAF then eval_leaf sig vals neg s
      else sbind (mapM_sum (\<lambda>c. evaluate_condition c s) cls) (\<lambda>rs.
             if op = ALL_OF then Inr (all_of rs) else Inr (any_of rs)))"

definition survives_filter :: "activation_condition \<Rightarrow> request_signals \<Rightarrow> cond_error + bool" where
  "survives_filter c s = sbind (evaluate_condition c s) (\<lambda>r. Inr (r \<noteq> FAIL))"

section \<open>Reference semantics\<close>

text \<open>What a condition means once every signal is known: a Boolean formula.\<close>

definition leaf_holds :: "condition_signal option \<Rightarrow> string set \<Rightarrow> request_signals \<Rightarrow> bool" where
  "leaf_holds sig vals s \<longleftrightarrow>
     (case sig of
        Some INTENT_IN \<Rightarrow> (\<exists>is. rs_intents s = Some is \<and> is \<inter> vals \<noteq> {})
      | Some ENTITY_PRESENT \<Rightarrow> rs_present_entities s \<noteq> []
      | Some ENTITY_SERVICE_IN \<Rightarrow> (\<exists>e svc. (e, svc) \<in> set (rs_present_entities s) \<and> svc \<noteq> [] \<and> svc \<in> vals)
      | Some FOCUS_REQUIRED \<Rightarrow> rs_has_active_focus s
      | Some TENANT_CAPABILITY \<Rightarrow> rs_tenant_capabilities s \<inter> vals \<noteq> {}
      | Some ROLE_IN \<Rightarrow> rs_role s \<in> vals
      | None \<Rightarrow> False)"

fun holds :: "activation_condition \<Rightarrow> request_signals \<Rightarrow> bool" where
  "holds (ActivationCondition op sig vals neg cls) s \<longleftrightarrow>
     (case op of
        LEAF \<Rightarrow> leaf_holds sig (set vals) s \<noteq> neg
      | ALL_OF \<Rightarrow> (\<forall>c \<in> set cls. holds c s)
      | ANY_OF \<Rightarrow> (\<exists>c \<in> set cls. holds c s))"

lemma flip_bool: "(if neg then flip_ternary (bool_ternary b) else bool_ternary b) = bool_ternary (b \<noteq> neg)"
  by (simp add: flip_ternary_def bool_ternary_def)

lemma entity_services_meet:
  "entity_services s \<inter> V \<noteq> {} \<longleftrightarrow>
     (\<exists>e svc. (e, svc) \<in> set (rs_present_entities s) \<and> svc \<noteq> [] \<and> svc \<in> V)"
  by (auto simp: entity_services_def)

lemma eval_leaf_known:
  assumes "rs_intents s \<noteq> None"
  shows "eval_leaf (Some sg) vals neg s = Inr (bool_ternary (leaf_holds (Some sg) (set vals) s \<noteq> neg))"
  using assms
  by (cases sg) (auto simp only: eval_leaf_def leaf_holds_def flip_bool has_entity_def entity_services_meet
      Let_def option.simps condition_signal.simps length_greater_0_conv not_None_eq option.inject ex_simps simp_thms)

lemma all_of_bool: "all_of (map (\<lambda>x. bool_ternary (P x)) xs) = bool_ternary (\<forall>x \<in> set xs. P x)"
  by (auto simp: all_of_def bool_ternary_def)

lemma any_of_bool: "any_of (map (\<lambda>x. bool_ternary (P x)) xs) = bool_ternary (\<exists>x \<in> set xs. P x)"
  by (auto simp: any_of_def bool_ternary_def)

lemma valid_leaf_signal:
  "check_shape (ActivationCondition LEAF sig vals neg cls) = None \<Longrightarrow> \<exists>sg. sig = Some sg"
  by (auto split: option.splits)

lemma evaluate_known:
  "valid_condition c \<Longrightarrow> rs_intents s \<noteq> None \<Longrightarrow> evaluate_condition c s = Inr (bool_ternary (holds c s))"
proof (induction c s rule: evaluate_condition.induct)
  case (1 op sig vals neg cls s)
  show ?case
  proof (cases "op = LEAF")
    case True
    with 1 obtain sg where "sig = Some sg" using valid_leaf_signal by fastforce
    with True 1 show ?thesis by (simp add: eval_leaf_known)
  next
    case False
    have "mapM_sum (\<lambda>c. evaluate_condition c s) cls = Inr (map (\<lambda>c. bool_ternary (holds c s)) cls)"
      using 1 False by (auto simp: mapM_sum_Inr list_all2_conv_all_nth)
    with False show ?thesis by (cases op) (auto simp: all_of_bool any_of_bool)
  qed
qed

section \<open>The filter before intent classification\<close>

text \<open>Information order: what is known stays, what is unknown may become anything.\<close>

definition refines :: "ternary \<Rightarrow> ternary \<Rightarrow> bool" where
  "refines r r' \<longleftrightarrow> r = INDETERMINATE \<or> r' = r"

lemma refines_all_of: "list_all2 refines rs rs' \<Longrightarrow> refines (all_of rs) (all_of rs')"
  by (induction rs rs' rule: list_all2_induct) (auto simp: all_of_def refines_def split: if_splits)

lemma refines_any_of: "list_all2 refines rs rs' \<Longrightarrow> refines (any_of rs) (any_of rs')"
  by (induction rs rs' rule: list_all2_induct) (auto simp: any_of_def refines_def split: if_splits)

lemma eval_leaf_refines:
  assumes "rs_intents s = None"
  shows "\<exists>r r'. eval_leaf (Some sg) vals neg s = Inr r
    \<and> eval_leaf (Some sg) vals neg (with_intents s is) = Inr r' \<and> refines r r'"
  using assms
  by (cases sg) (auto simp: eval_leaf_def with_intents_def refines_def has_entity_def entity_services_def Let_def)

lemma evaluate_refines:
  "valid_condition c \<Longrightarrow> rs_intents s = None \<Longrightarrow>
     \<exists>r r'. evaluate_condition c s = Inr r \<and> evaluate_condition c (with_intents s is) = Inr r' \<and> refines r r'"
proof (induction c s rule: evaluate_condition.induct)
  case (1 op sig vals neg cls s)
  show ?case
  proof (cases "op = LEAF")
    case True
    with 1 obtain sg where "sig = Some sg" using valid_leaf_signal by fastforce
    with True 1 eval_leaf_refines show ?thesis by simp
  next
    case False
    have step: "\<exists>r r'. evaluate_condition c s = Inr r \<and> evaluate_condition c (with_intents s is) = Inr r' \<and> refines r r'"
      if "c \<in> set cls" for c
      using 1 False that by simp
    have "\<exists>rs rs'. mapM_sum (\<lambda>c. evaluate_condition c s) cs = Inr rs
        \<and> mapM_sum (\<lambda>c. evaluate_condition c (with_intents s is)) cs = Inr rs' \<and> list_all2 refines rs rs'"
      if "set cs \<subseteq> set cls" for cs
      using that
    proof (induction cs)
      case (Cons c cs)
      then obtain rs rs' where "mapM_sum (\<lambda>c. evaluate_condition c s) cs = Inr rs"
        "mapM_sum (\<lambda>c. evaluate_condition c (with_intents s is)) cs = Inr rs'" "list_all2 refines rs rs'" by auto
      with step [of c] Cons.prems show ?case by auto
    qed simp
    then obtain rs rs' where "mapM_sum (\<lambda>c. evaluate_condition c s) cls = Inr rs"
      "mapM_sum (\<lambda>c. evaluate_condition c (with_intents s is)) cls = Inr rs'" "list_all2 refines rs rs'" by blast
    with False show ?thesis by (auto simp: refines_all_of refines_any_of)
  qed
qed

section \<open>Properties\<close>

text \<open>
  C9: once the intent is classified, the three-valued evaluator of a validated condition agrees
  with the Boolean reading of the condition, so no leaf, negation or group is lost.
\<close>

theorem condition_classified:
  assumes "valid_condition c" "rs_intents s \<noteq> None"
  shows "evaluate_condition c s = Inr (if holds c s then PASS else FAIL)
    \<and> survives_filter c s = Inr (holds c s)"
  using evaluate_known [OF assms] by (simp add: bool_ternary_def survives_filter_def)

definition sample_condition :: activation_condition where
  "sample_condition = ActivationCondition ALL_OF None [] False
     [ActivationCondition LEAF (Some INTENT_IN) [''summarize''] False [],
      ActivationCondition LEAF (Some ROLE_IN) [''guest''] True []]"

definition sample_signals :: request_signals where
  "sample_signals = \<lparr>rs_role = ''agent'', rs_tenant_id = ''t1'', rs_present_entities = [(''INC1'', ''incident'')],
     rs_tenant_capabilities = {}, rs_has_active_focus = False, rs_intents = None\<rparr>"

lemma sample_condition_valid: "valid_condition sample_condition"
  by code_simp

theorem condition_classified_witness:
  "evaluate_condition sample_condition (with_intents sample_signals {''summarize''}) = Inr PASS
   \<and> survives_filter sample_condition (with_intents sample_signals {''other''}) = Inr False"
proof -
  have "holds sample_condition (with_intents sample_signals {''summarize''})"
    "\<not> holds sample_condition (with_intents sample_signals {''other''})"
    by (simp_all add: sample_condition_def sample_signals_def with_intents_def leaf_holds_def)
  moreover have "rs_intents (with_intents sample_signals is) \<noteq> None" for "is" by (simp add: with_intents_def)
  ultimately show ?thesis using condition_classified [OF sample_condition_valid] by simp
qed

text \<open>
  The filter before intent classification never drops a candidate wrongly: if the condition
  survives under some later classification of the intent it already survived without one, and a
  definite PASS or FAIL given early is final whatever intents are found.
\<close>

theorem early_filter_sound:
  assumes "valid_condition c" "rs_intents s = None"
  shows "(survives_filter c (with_intents s is) = Inr True \<longrightarrow> survives_filter c s = Inr True)
    \<and> (evaluate_condition c s \<in> {Inr PASS, Inr FAIL} \<longrightarrow>
           evaluate_condition c (with_intents s is) = evaluate_condition c s)"
  using evaluate_refines [OF assms, of "is"] by (auto simp: survives_filter_def refines_def)

theorem early_filter_sound_witness:
  "survives_filter sample_condition sample_signals = Inr True"
proof -
  have "survives_filter sample_condition (with_intents sample_signals {''summarize''}) = Inr True"
    by (simp add: sample_condition_def sample_signals_def with_intents_def survives_filter_def eval_leaf_def
        bool_ternary_def flip_ternary_def all_of_def)
  moreover have "rs_intents sample_signals = None" by (simp add: sample_signals_def)
  ultimately show ?thesis using early_filter_sound [OF sample_condition_valid] by blast
qed

end
