(* ===== verification/ToolContext.thy ===== *)
theory ToolContext
  imports Authz
begin

text \<open>
  The ambient context of a tool call: \<open>TenantContext\<close> (\<open>tenancy/context.py\<close>) and \<open>ToolContext\<close>
  (\<open>toolrunner/context.py\<close>) with their validators, and \<open>ToolContext.from_request\<close>. A request is a
  record of the keys the code reads, each at the JSON type its field declares and \<open>None\<close> when the key
  is absent; keys the models ignore are listed by name, since they still make a payload non-empty.
  A pydantic \<open>ValidationError\<close> carries the names of the fields that fail.
\<close>

section \<open>Character classes of the two patterns\<close>

definition char_in :: "nat \<Rightarrow> nat \<Rightarrow> char \<Rightarrow> bool" where
  "char_in lo hi c = (let n = of_char c :: nat in lo \<le> n \<and> n \<le> hi)"

abbreviation is_az :: "char \<Rightarrow> bool" where "is_az \<equiv> char_in 97 122"
abbreviation is_AZ :: "char \<Rightarrow> bool" where "is_AZ \<equiv> char_in 65 90"
abbreviation is_09 :: "char \<Rightarrow> bool" where "is_09 \<equiv> char_in 48 57"

text \<open>The dollar sign of Python's \<open>re\<close> also matches before one final newline.\<close>

definition at_dollar :: "string \<Rightarrow> bool" where
  "at_dollar s \<longleftrightarrow> s = [] \<or> s = [CHR 0x0A]"

definition locale_region_end :: "string \<Rightarrow> bool" where
  "locale_region_end s \<longleftrightarrow> at_dollar s
     \<or> (case s of d # a # b # rest \<Rightarrow> d = CHR ''-'' \<and> is_AZ a \<and> is_AZ b \<and> at_dollar rest | _ \<Rightarrow> False)"

definition LOCALE_RE :: "string \<Rightarrow> bool" where
  "LOCALE_RE s \<longleftrightarrow>
     (case s of
        a # b # rest \<Rightarrow> is_az a \<and> is_az b
          \<and> (locale_region_end rest
             \<or> (case rest of c # rest' \<Rightarrow> is_az c \<and> locale_region_end rest' | [] \<Rightarrow> False))
      | _ \<Rightarrow> False)"

definition flag_char :: "char \<Rightarrow> bool" where
  "flag_char c \<longleftrightarrow> is_az c \<or> is_09 c \<or> c = CHR ''_''"

definition FLAG_KEY_RE :: "string \<Rightarrow> bool" where
  "FLAG_KEY_RE s \<longleftrightarrow>
     (case s of
        [] \<Rightarrow> False
      | a # rest \<Rightarrow> is_az a
          \<and> (let body = takeWhile flag_char rest
             in 2 \<le> length body \<and> length body \<le> 63 \<and> at_dollar (dropWhile flag_char rest)))"

section \<open>The tenant\<close>

datatype tenant_tier = TT_FREE | TT_PRO | TT_ENTERPRISE

definition parse_tier :: "string \<Rightarrow> tenant_tier option" where
  "parse_tier s =
     (if s = ''free'' then Some TT_FREE else if s = ''pro'' then Some TT_PRO
      else if s = ''enterprise'' then Some TT_ENTERPRISE else None)"

record tenant_context =
  tc_tenant_id :: string
  tc_tier :: tenant_tier
  tc_region :: string
  tc_locale :: string
  tc_feature_flags :: "(string \<times> bool) list"
  tc_residency :: "string option"

datatype ctx_error =
    CtxValueError string
  | CtxKeyError string
  | CtxTypeError
  | CtxValidationError "string list"
  | CtxAuthz authz_error

text \<open>The payload under the key \<open>tenant\<close>; \<open>Some None\<close> of the residency is an explicit null.\<close>

record tenant_payload =
  tnp_tenant_id :: "string option"
  tnp_tier :: "string option"
  tnp_region :: "string option"
  tnp_locale :: "string option"
  tnp_feature_flags :: "(string \<times> bool) list option"
  tnp_residency :: "string option option"
  tnp_extra :: "string list"

definition empty_tenant_payload :: tenant_payload where
  "empty_tenant_payload = \<lparr>tnp_tenant_id = None, tnp_tier = None, tnp_region = None, tnp_locale = None,
     tnp_feature_flags = None, tnp_residency = None, tnp_extra = []\<rparr>"

definition len_in :: "nat \<Rightarrow> nat \<Rightarrow> string \<Rightarrow> bool" where
  "len_in lo hi s \<longleftrightarrow> lo \<le> length s \<and> length s \<le> hi"

definition field_error :: "string \<Rightarrow> bool \<Rightarrow> string list" where
  "field_error name ok = (if ok then [] else [name])"

definition tenant_invalid :: "string \<Rightarrow> tenant_payload \<Rightarrow> string list" where
  "tenant_invalid tenant_id p =
     field_error ''tenant_id'' (len_in 1 128 tenant_id)
     @ field_error ''tier'' (case tnp_tier p of None \<Rightarrow> True | Some t \<Rightarrow> parse_tier t \<noteq> None)
     @ field_error ''region'' (case tnp_region p of None \<Rightarrow> True | Some r \<Rightarrow> len_in 1 64 r)
     @ field_error ''locale'' (case tnp_locale p of None \<Rightarrow> True | Some l \<Rightarrow> len_in 2 16 l \<and> LOCALE_RE l)
     @ field_error ''feature_flags''
         (case tnp_feature_flags p of None \<Rightarrow> True | Some fs \<Rightarrow> list_all (FLAG_KEY_RE \<circ> fst) fs)
     @ field_error ''residency'' (case tnp_residency p of Some (Some r) \<Rightarrow> length r \<le> 64 | _ \<Rightarrow> True)"

definition dflt_to :: "'a \<Rightarrow> 'a option \<Rightarrow> 'a" where
  "dflt_to d x = (case x of None \<Rightarrow> d | Some v \<Rightarrow> v)"

definition tenant_of :: "string \<Rightarrow> tenant_payload \<Rightarrow> tenant_context" where
  "tenant_of tenant_id p =
     \<lparr>tc_tenant_id = tenant_id,
      tc_tier = (case tnp_tier p of None \<Rightarrow> TT_FREE | Some t \<Rightarrow> dflt_to TT_FREE (parse_tier t)),
      tc_region = dflt_to ''default'' (tnp_region p), tc_locale = dflt_to ''en'' (tnp_locale p),
      tc_feature_flags = dflt_to [] (tnp_feature_flags p), tc_residency = dflt_to None (tnp_residency p)\<rparr>"

text \<open>\<open>TenantContext(tenant_id=..., **payload)\<close>: a second \<open>tenant_id\<close> is a \<open>TypeError\<close>.\<close>

definition tenant_init :: "string \<Rightarrow> tenant_payload \<Rightarrow> ctx_error + tenant_context" where
  "tenant_init tenant_id p =
     (if tnp_tenant_id p \<noteq> None then Inl CtxTypeError
      else if tenant_invalid tenant_id p \<noteq> [] then Inl (CtxValidationError (tenant_invalid tenant_id p))
      else Inr (tenant_of tenant_id p))"

definition has_flag :: "tenant_context \<Rightarrow> string \<Rightarrow> bool" where
  "has_flag t k = dflt_to False (map_of (tc_feature_flags t) k)"

section \<open>The cache hint\<close>

datatype cache_source = CS_IDEMPOTENCY | CS_READ_CACHE | CS_NONE

definition parse_source :: "string \<Rightarrow> cache_source option" where
  "parse_source s =
     (if s = ''idempotency'' then Some CS_IDEMPOTENCY else if s = ''read_cache'' then Some CS_READ_CACHE
      else if s = ''none'' then Some CS_NONE else None)"

record cache_hint =
  ch_hit :: bool
  ch_age_s :: "int option"
  ch_source :: cache_source
  ch_fetched_at :: "string option"

record cache_payload =
  chp_hit :: "bool option"
  chp_age_s :: "int option"
  chp_source :: "string option"
  chp_fetched_at :: "string option"

definition cache_hint_init :: "cache_payload \<Rightarrow> ctx_error + cache_hint" where
  "cache_hint_init p =
     (let bad = field_error ''hit'' (chp_hit p \<noteq> None)
            @ field_error ''age_s'' (case chp_age_s p of None \<Rightarrow> True | Some a \<Rightarrow> 0 \<le> a)
            @ field_error ''source'' (case chp_source p of None \<Rightarrow> True | Some s \<Rightarrow> parse_source s \<noteq> None)
      in if bad \<noteq> [] then Inl (CtxValidationError bad)
         else let hit = dflt_to False (chp_hit p);
                  src = (case chp_source p of None \<Rightarrow> CS_NONE | Some s \<Rightarrow> dflt_to CS_NONE (parse_source s))
              in if hit \<and> chp_age_s p = None then Inl (CtxValueError ''CacheHint.hit=True requires age_s'')
                 else if \<not> hit \<and> src \<noteq> CS_NONE then Inl (CtxValueError ''CacheHint.hit=False requires source=NONE'')
                 else Inr \<lparr>ch_hit = hit, ch_age_s = chp_age_s p, ch_source = src, ch_fetched_at = chp_fetched_at p\<rparr>)"

section \<open>The tool context\<close>

record tool_context =
  cx_tenant :: tenant_context
  cx_principal :: principal
  cx_authz :: authz_decision
  cx_cache_hint :: "cache_hint option"
  cx_request_id :: string
  cx_trace_id :: string
  cx_defaulted_fields :: "string list"

record principal_payload =
  pp_tenant_id :: "string option"
  pp_user_id :: "string option"
  pp_role :: "string option"
  pp_attributes :: "(string \<times> string) list option"
  pp_extra :: "string list"

record authz_payload =
  ap_effect :: "string option"
  ap_reasons :: "string list option"
  ap_extra :: "string list"

record tool_request =
  tq_tenant_id :: "string option"
  tq_request_id :: "string option"
  tq_trace_id :: "string option"
  tq_idempotency_key :: "string option"
  tq_tenant :: "tenant_payload option"
  tq_principal :: "principal_payload option"
  tq_authz :: "authz_payload option"
  tq_cache_hint :: "cache_payload option"

definition absent :: "string option \<Rightarrow> bool" where
  "absent x \<longleftrightarrow> x = None \<or> x = Some []"

definition missing_fields :: "tool_request \<Rightarrow> string list" where
  "missing_fields q =
     (if absent (tq_tenant_id q) then [''tenant_id''] else [])
     @ (if absent (tq_request_id q) then [''request_id''] else [])"

text \<open>\<open>request.get(key) or {}\<close>: an empty payload counts as none.\<close>

definition nonempty_payload :: "'p \<Rightarrow> 'p option \<Rightarrow> 'p option" where
  "nonempty_payload blank p = (if p = Some blank then None else p)"

definition principal_of_request :: "string \<Rightarrow> principal_payload option \<Rightarrow> ctx_error + principal \<times> string list" where
  "principal_of_request tenant_id p =
     (case nonempty_payload \<lparr>pp_tenant_id = None, pp_user_id = None, pp_role = None, pp_attributes = None, pp_extra = []\<rparr> p of
        None \<Rightarrow> (case principal_init \<lparr>p_tenant_id = tenant_id, p_user_id = ''__system__'', p_role = ''__system__'', p_attributes = []\<rparr> of
                  Inl e \<Rightarrow> Inl (CtxAuthz e) | Inr pr \<Rightarrow> Inr (pr, [''principal'']))
      | Some pl \<Rightarrow>
          (case pp_user_id pl of
             None \<Rightarrow> Inl (CtxKeyError ''user_id'')
           | Some u \<Rightarrow>
               (case pp_role pl of
                  None \<Rightarrow> Inl (CtxKeyError ''role'')
                | Some r \<Rightarrow>
                    (case principal_init \<lparr>p_tenant_id = dflt_to tenant_id (pp_tenant_id pl), p_user_id = u, p_role = r,
                             p_attributes = dflt_to [] (pp_attributes pl)\<rparr> of
                       Inl e \<Rightarrow> Inl (CtxAuthz e) | Inr pr \<Rightarrow> Inr (pr, [])))))"

definition authz_of_request :: "authz_payload option \<Rightarrow> ctx_error + authz_decision \<times> string list" where
  "authz_of_request p =
     (case nonempty_payload \<lparr>ap_effect = None, ap_reasons = None, ap_extra = []\<rparr> p of
        None \<Rightarrow> Inr (allow False, [''authz''])
      | Some pl \<Rightarrow>
          let e = dflt_to ''allow'' (ap_effect pl);
              reasons = dflt_to [] (ap_reasons pl)
          in if e = ''allow'' then Inr (allow False, [])
             else if e = ''deny'' then
               (case deny (if reasons = [] then [''unspecified''] else reasons) False of
                  Inl x \<Rightarrow> Inl (CtxAuthz x) | Inr d \<Rightarrow> Inr (d, []))
             else Inl (CtxValueError (quoted e @ '' is not a valid Effect'')))"

text \<open>The constructor of the model: its field bounds, then the cross-tenant guard.\<close>

definition context_init :: "tool_context \<Rightarrow> ctx_error + tool_context" where
  "context_init c =
     (let bad = field_error ''request_id'' (len_in 1 128 (cx_request_id c) \<and> strip (cx_request_id c) \<noteq> [])
            @ field_error ''trace_id'' (length (cx_trace_id c) \<le> 64)
      in if bad \<noteq> [] then Inl (CtxValidationError bad)
         else if p_tenant_id (cx_principal c) \<noteq> tc_tenant_id (cx_tenant c)
         then Inl (CtxValueError ''ToolContext cross-tenant guard'')
         else Inr c)"

definition from_request :: "tool_request \<Rightarrow> ctx_error + tool_context" where
  "from_request q =
     (if missing_fields q \<noteq> []
      then Inl (CtxValueError (''ToolContext.from_request: missing mandatory request fields '' @ repr_list (missing_fields q)))
      else
        let tenant_id = dflt_to [] (tq_tenant_id q);
            payload = nonempty_payload empty_tenant_payload (tq_tenant q)
        in sbind (tenant_init tenant_id (dflt_to empty_tenant_payload payload)) (\<lambda>tenant.
           sbind (principal_of_request tenant_id (tq_principal q)) (\<lambda>(pr, d2).
           sbind (authz_of_request (tq_authz q)) (\<lambda>(az, d3).
           sbind (case nonempty_payload \<lparr>chp_hit = None, chp_age_s = None, chp_source = None, chp_fetched_at = None\<rparr> (tq_cache_hint q) of
                    None \<Rightarrow> Inr None | Some p \<Rightarrow> sbind (cache_hint_init p) (\<lambda>h. Inr (Some h))) (\<lambda>hint.
             context_init \<lparr>cx_tenant = tenant, cx_principal = pr, cx_authz = az, cx_cache_hint = hint,
               cx_request_id = dflt_to [] (tq_request_id q), cx_trace_id = dflt_to [] (tq_trace_id q),
               cx_defaulted_fields = (if payload = None then [''tenant.tier'', ''tenant.region'', ''tenant.locale''] else [])
                  @ d2 @ d3\<rparr>)))))"

section \<open>Lemmas\<close>

lemma context_init_Inr:
  "context_init c = Inr c' \<longleftrightarrow> c' = c \<and> len_in 1 128 (cx_request_id c) \<and> strip (cx_request_id c) \<noteq> []
     \<and> length (cx_trace_id c) \<le> 64 \<and> p_tenant_id (cx_principal c) = tc_tenant_id (cx_tenant c)"
  by (auto simp: context_init_def field_error_def Let_def)

lemma tenant_init_Inr:
  "tenant_init i p = Inr t \<longleftrightarrow> t = tenant_of i p \<and> tnp_tenant_id p = None \<and> tenant_invalid i p = []"
  by (auto simp: tenant_init_def)

lemma cache_hint_init_Inr:
  assumes "cache_hint_init p = Inr h"
  shows "ch_hit h \<longrightarrow> (\<exists>a \<ge> 0. ch_age_s h = Some a)" and "\<not> ch_hit h \<longrightarrow> ch_source h = CS_NONE"
  using assms by (auto simp: cache_hint_init_def field_error_def Let_def split: if_splits option.splits)

text \<open>What a successful construction went through.\<close>

lemma from_request_Inr:
  assumes "from_request q = Inr c"
  obtains i pr d2 az d3 where "tq_tenant_id q = Some i" "i \<noteq> []" "\<not> absent (tq_request_id q)"
    "cx_tenant c = tenant_of i (dflt_to empty_tenant_payload (nonempty_payload empty_tenant_payload (tq_tenant q)))"
    "principal_of_request i (tq_principal q) = Inr (cx_principal c, d2)"
    "authz_of_request (tq_authz q) = Inr (cx_authz c, d3)"
    "cx_request_id c = dflt_to [] (tq_request_id q)" "strip (cx_request_id c) \<noteq> []"
    "p_tenant_id (cx_principal c) = tc_tenant_id (cx_tenant c)"
    "\<forall>h. cx_cache_hint c = Some h \<longrightarrow> (\<exists>p. cache_hint_init p = Inr h)"
    "cx_defaulted_fields c = (if nonempty_payload empty_tenant_payload (tq_tenant q) = None
       then [''tenant.tier'', ''tenant.region'', ''tenant.locale''] else []) @ d2 @ d3"
proof -
  from assms have m: "missing_fields q = []" by (auto simp: from_request_def split: if_splits)
  then obtain i where i: "tq_tenant_id q = Some i" "i \<noteq> []" and r: "\<not> absent (tq_request_id q)"
    by (auto simp: missing_fields_def absent_def split: if_splits)
  let ?p = "nonempty_payload empty_tenant_payload (tq_tenant q)"
  obtain t where t: "tenant_init i (dflt_to empty_tenant_payload ?p) = Inr t"
    using assms m i by (cases "tenant_init i (dflt_to empty_tenant_payload ?p)") (simp_all add: from_request_def Let_def dflt_to_def)
  obtain pr d2 where p: "principal_of_request i (tq_principal q) = Inr (pr, d2)"
    using assms m i t by (cases "principal_of_request i (tq_principal q)") (auto simp: from_request_def Let_def dflt_to_def)
  obtain az d3 where a: "authz_of_request (tq_authz q) = Inr (az, d3)"
    using assms m i t p by (cases "authz_of_request (tq_authz q)") (auto simp: from_request_def Let_def dflt_to_def)
  from assms m i t p a obtain h where h: "context_init \<lparr>cx_tenant = t, cx_principal = pr, cx_authz = az, cx_cache_hint = h,
       cx_request_id = dflt_to [] (tq_request_id q), cx_trace_id = dflt_to [] (tq_trace_id q),
       cx_defaulted_fields = (if ?p = None then [''tenant.tier'', ''tenant.region'', ''tenant.locale''] else [])
          @ d2 @ d3\<rparr> = Inr c" "\<forall>x. h = Some x \<longrightarrow> (\<exists>p. cache_hint_init p = Inr x)"
    by (fastforce simp: from_request_def Let_def dflt_to_def split: option.splits)
  from h(1) have c: "c = \<lparr>cx_tenant = t, cx_principal = pr, cx_authz = az, cx_cache_hint = h,
       cx_request_id = dflt_to [] (tq_request_id q), cx_trace_id = dflt_to [] (tq_trace_id q),
       cx_defaulted_fields = (if ?p = None then [''tenant.tier'', ''tenant.region'', ''tenant.locale''] else [])
          @ d2 @ d3\<rparr>" and g: "strip (dflt_to [] (tq_request_id q)) \<noteq> []" "p_tenant_id pr = tc_tenant_id t"
    by (simp_all add: context_init_Inr)
  have "t = tenant_of i (dflt_to empty_tenant_payload ?p)" using t by (simp add: tenant_init_Inr)
  with i r p a c g h(2) show ?thesis by (intro that [of i d2 d3]) simp_all
qed

lemma principal_of_request_Inr:
  assumes "principal_of_request i pp = Inr (pr, d)"
  shows "p_role pr \<noteq> []" and "pp = Some pl \<Longrightarrow> pp_tenant_id pl = Some t \<Longrightarrow> p_tenant_id pr = t"
    and "d = [] \<or> d = [''principal''] \<and> p_role pr = ''__system__''"
  using assms by (auto simp: principal_of_request_def principal_init_def nonempty_payload_def dflt_to_def
      split: option.splits if_splits)

lemma authz_of_request_Inr:
  assumes "authz_of_request ap = Inr (az, d)"
  shows "d = [] \<or> d = [''authz''] \<and> allowed az" and "\<not> allowed az \<Longrightarrow> d_reasons az \<noteq> []"
  using assms by (auto simp: authz_of_request_def Let_def allow_def deny_def allowed_def
      split: option.splits if_splits)

section \<open>Properties\<close>

text \<open>
  A tool context never mixes tenants. A context built from a request is about exactly the tenant
  and the request the request names; its principal belongs to that tenant and has a role, and a
  request whose principal names another tenant gives no context; a cache hit always carries its age; and
  a denial carries reasons and was given, not defaulted.
\<close>

theorem context_single_tenant:
  assumes "from_request q = Inr c"
  shows "tq_tenant_id q = Some (tc_tenant_id (cx_tenant c)) \<and> p_tenant_id (cx_principal c) = tc_tenant_id (cx_tenant c)
    \<and> tc_tenant_id (cx_tenant c) \<noteq> [] \<and> p_role (cx_principal c) \<noteq> []
    \<and> tq_request_id q = Some (cx_request_id c) \<and> strip (cx_request_id c) \<noteq> []
    \<and> (\<forall>pl t. tq_principal q = Some pl \<and> pp_tenant_id pl = Some t \<longrightarrow> t = tc_tenant_id (cx_tenant c))
    \<and> (\<forall>h. cx_cache_hint c = Some h \<and> ch_hit h \<longrightarrow> (\<exists>a \<ge> 0. ch_age_s h = Some a))
    \<and> (\<not> allowed (cx_authz c) \<longrightarrow> d_reasons (cx_authz c) \<noteq> [] \<and> ''authz'' \<notin> set (cx_defaulted_fields c))"
proof -
  from assms obtain i d2 d3 where i: "tq_tenant_id q = Some i" "i \<noteq> []" "\<not> absent (tq_request_id q)"
    and t: "cx_tenant c = tenant_of i (dflt_to empty_tenant_payload (nonempty_payload empty_tenant_payload (tq_tenant q)))"
    and p: "principal_of_request i (tq_principal q) = Inr (cx_principal c, d2)"
    and a: "authz_of_request (tq_authz q) = Inr (cx_authz c, d3)"
    and r: "cx_request_id c = dflt_to [] (tq_request_id q)" "strip (cx_request_id c) \<noteq> []"
    and g: "p_tenant_id (cx_principal c) = tc_tenant_id (cx_tenant c)"
    and h: "\<forall>h. cx_cache_hint c = Some h \<longrightarrow> (\<exists>p. cache_hint_init p = Inr h)"
    and d: "cx_defaulted_fields c = (if nonempty_payload empty_tenant_payload (tq_tenant q) = None
       then [''tenant.tier'', ''tenant.region'', ''tenant.locale''] else []) @ d2 @ d3"
    by (rule from_request_Inr)
  have ti: "tc_tenant_id (cx_tenant c) = i" by (simp add: t tenant_of_def)
  note pi = principal_of_request_Inr [OF p] and ai = authz_of_request_Inr [OF a]
  have "tq_request_id q = Some (cx_request_id c)" using i(3) r(1) by (cases "tq_request_id q") (auto simp: absent_def dflt_to_def)
  moreover have "\<forall>pl t. tq_principal q = Some pl \<and> pp_tenant_id pl = Some t \<longrightarrow> t = tc_tenant_id (cx_tenant c)"
    using pi(2) g by metis
  moreover have "\<forall>h. cx_cache_hint c = Some h \<and> ch_hit h \<longrightarrow> (\<exists>a \<ge> 0. ch_age_s h = Some a)"
    using h cache_hint_init_Inr(1) by metis
  moreover have "\<not> allowed (cx_authz c) \<longrightarrow> d_reasons (cx_authz c) \<noteq> [] \<and> ''authz'' \<notin> set (cx_defaulted_fields c)"
  proof
    assume na: "\<not> allowed (cx_authz c)"
    then have "d3 = []" using ai(1) by blast
    then show "d_reasons (cx_authz c) \<noteq> [] \<and> ''authz'' \<notin> set (cx_defaulted_fields c)"
      using ai(2) [OF na] pi(3) by (auto simp: d)
  qed
  ultimately show ?thesis using i ti g pi(1) r(2) by metis
qed

definition sample_tool_request :: tool_request where
  "sample_tool_request = \<lparr>tq_tenant_id = Some ''t1'', tq_request_id = Some ''r1'', tq_trace_id = None,
     tq_idempotency_key = None, tq_tenant = Some (empty_tenant_payload\<lparr>tnp_locale := Some ''en-US''\<rparr>),
     tq_principal = Some \<lparr>pp_tenant_id = None, pp_user_id = Some ''u1'', pp_role = Some ''agent'', pp_attributes = None, pp_extra = []\<rparr>,
     tq_authz = Some \<lparr>ap_effect = Some ''deny'', ap_reasons = None, ap_extra = []\<rparr>, tq_cache_hint = None\<rparr>"

lemma sample_tool_context: "\<not> isl (from_request sample_tool_request)"
  by code_simp

theorem context_single_tenant_witness:
  "\<exists>c. from_request sample_tool_request = Inr c \<and> p_tenant_id (cx_principal c) = ''t1''"
proof -
  obtain c where c: "from_request sample_tool_request = Inr c"
    using sample_tool_context by (cases "from_request sample_tool_request") simp_all
  have "tq_tenant_id sample_tool_request = Some ''t1''" by (simp add: sample_tool_request_def)
  with context_single_tenant [OF c] c show ?thesis by simp
qed

end
