(* ===== verification/ToolRunner.thy ===== *)
theory ToolRunner
  imports ExecSamples ToolContext
begin

text \<open>
  Safe execution of tools (\<open>toolrunner/\<close>): the result values, the idempotency store, the variable
  store, the handler resolver, \<open>ToolRunner.run\<close> and \<open>ToolStepExecutor.run\<close>. A handler is a function
  of its arguments, the context, the timeout it is awaited under and the state \<open>'w\<close> of the systems it
  acts on; it tells how the await ended. Importing a module is a parameter (an import may also raise what the module raises), and so are the clock and
  the random names. Tool outputs are JSON values, so the size of an output is the length of its
  \<open>json.dumps\<close> text and never the fallback for values that cannot be serialised.
\<close>

section \<open>JSON text\<close>

definition hex_digit :: "nat \<Rightarrow> char" where
  "hex_digit d = (if d < 10 then char_of (48 + d) else char_of (87 + d))"

definition json_char :: "char \<Rightarrow> string" where
  "json_char c =
     (let n = of_char c :: nat; bs = CHR 0x5C in
      if n = 34 \<or> n = 92 then [bs, c]
      else if n = 10 then [bs, CHR ''n'']
      else if n = 13 then [bs, CHR ''r'']
      else if n = 9 then [bs, CHR ''t'']
      else if n = 12 then [bs, CHR ''f'']
      else if n = 8 then [bs, CHR ''b'']
      else if 32 \<le> n \<and> n \<le> 126 then [c]
      else [bs, CHR ''u'', CHR ''0'', CHR ''0'', hex_digit (n div 16), hex_digit (n mod 16)])"

definition json_quote :: "string \<Rightarrow> string" where
  "json_quote s = [CHR 0x22] @ concat (map json_char s) @ [CHR 0x22]"

fun json_dumps :: "json \<Rightarrow> string" where
  "json_dumps JNull = ''null''"
| "json_dumps (JBool b) = (if b then ''true'' else ''false'')"
| "json_dumps (JInt i) = int_str i"
| "json_dumps (JStr s) = json_quote s"
| "json_dumps (JList xs) = ''['' @ join '', '' (map json_dumps xs) @ '']''"
| "json_dumps (JObj kvs) = ''{'' @ join '', '' (map (\<lambda>kv. json_quote (fst kv) @ '': '' @ json_dumps (snd kv)) kvs) @ ''}''"

section \<open>Tool results\<close>

datatype tool_status = TS_SUCCESS | TS_FAILED | TS_TIMEOUT

record variable_ref =
  vr_name :: string
  vr_preview :: string
  vr_size_bytes :: int

datatype tool_output = OutValue json | OutRef variable_ref

record tool_result =
  trs_tool_id :: string
  trs_status :: tool_status
  trs_output :: tool_output
  trs_error :: "string option"
  trs_latency_ms :: int
  trs_from_cache :: bool

definition trs_ok :: "tool_result \<Rightarrow> bool" where
  "trs_ok r = (trs_status r = TS_SUCCESS)"

definition result_success :: "string \<Rightarrow> tool_output \<Rightarrow> int \<Rightarrow> bool \<Rightarrow> tool_result" where
  "result_success i out latency from_cache = \<lparr>trs_tool_id = i, trs_status = TS_SUCCESS, trs_output = out,
     trs_error = None, trs_latency_ms = latency, trs_from_cache = from_cache\<rparr>"

definition result_failed :: "string \<Rightarrow> string \<Rightarrow> int \<Rightarrow> tool_result" where
  "result_failed i err latency = \<lparr>trs_tool_id = i, trs_status = TS_FAILED, trs_output = OutValue JNull,
     trs_error = Some err, trs_latency_ms = latency, trs_from_cache = False\<rparr>"

definition result_timed_out :: "string \<Rightarrow> int \<Rightarrow> int \<Rightarrow> tool_result" where
  "result_timed_out i timeout_ms latency = \<lparr>trs_tool_id = i, trs_status = TS_TIMEOUT, trs_output = OutValue JNull,
     trs_error = Some (''tool exceeded its '' @ int_str timeout_ms @ ''ms timeout''), trs_latency_ms = latency,
     trs_from_cache = False\<rparr>"

section \<open>The idempotency store\<close>

type_synonym 't idem_store = "(string, tool_result, 't) ttl_dict"

definition flag_replay :: "tool_result \<Rightarrow> tool_result" where
  "flag_replay r = \<lparr>trs_tool_id = trs_tool_id r, trs_status = trs_status r, trs_output = trs_output r,
     trs_error = trs_error r, trs_latency_ms = trs_latency_ms r, trs_from_cache = True\<rparr>"

definition idem_get :: "'t :: linordered_idom idem_store \<Rightarrow> 't \<Rightarrow> string \<Rightarrow> tool_result option \<times> 't idem_store" where
  "idem_get d now k = ttl_get flag_replay d now k"

definition idem_put :: "int \<Rightarrow> 't :: linordered_idom idem_store \<Rightarrow> 't \<Rightarrow> string \<Rightarrow> tool_result \<Rightarrow> 't idem_store" where
  "idem_put ttl d now k r =
     (if trs_status r \<noteq> TS_SUCCESS then d else AList.update k (r, now + of_int ttl) d)"

interpretation idem: ttl_store idem_get "idem_put ttl" ttl_live flag_replay "\<lambda>r. trs_status r = TS_SUCCESS" "\<lambda>t t'. t' < t + of_int ttl" for ttl
  by unfold_locales
    (auto simp: idem_get_def idem_put_def ttl_get_value ttl_get_keeps ttl_live_update dest: ttl_live_expires)

section \<open>The variable store\<close>

record variable_store =
  vs_threshold :: int
  vs_preview_chars :: int
  vs_values :: "(string \<times> json) list"

definition serialised_size :: "json \<Rightarrow> int" where
  "serialised_size v = int (length (json_dumps v))"

text \<open>The one-character ellipsis of the preview.\<close>

definition ellipsis :: char where
  "ellipsis = CHR 0x85"

definition preview :: "json \<Rightarrow> int \<Rightarrow> string" where
  "preview v chars =
     (let text = (case v of JStr s \<Rightarrow> s | _ \<Rightarrow> json_dumps v)
      in py_slice_to chars text @ (if int (length text) > chars then [ellipsis] else []))"

definition capture :: "string \<Rightarrow> variable_store \<Rightarrow> json \<Rightarrow> string \<Rightarrow> tool_output \<times> variable_store" where
  "capture uuid vs v hint =
     (if serialised_size v \<le> vs_threshold vs then (OutValue v, vs)
      else let name = hint @ ''_'' @ uuid
           in (OutRef \<lparr>vr_name = name, vr_preview = preview v (vs_preview_chars vs), vr_size_bytes = serialised_size v\<rparr>,
               vs\<lparr>vs_values := AList.update name v (vs_values vs)\<rparr>))"

definition vs_get :: "variable_store \<Rightarrow> string \<Rightarrow> json option" where
  "vs_get vs name = map_of (vs_values vs) name"

definition vs_has :: "variable_store \<Rightarrow> string \<Rightarrow> bool" where
  "vs_has vs name \<longleftrightarrow> name \<in> fst ` set (vs_values vs)"

section \<open>Handler resolution\<close>

text \<open>How awaiting a handler under its timeout ends.\<close>

datatype awaited = Returned json | TimedOut | Raised string string

type_synonym 'w handler = "(string \<times> json) list \<Rightarrow> tool_context \<Rightarrow> int \<Rightarrow> 'w \<Rightarrow> (awaited \<times> int) \<times> 'w"

text \<open>\<open>importlib.import_module\<close> followed by \<open>getattr\<close>.\<close>

datatype 'h imported = NoModule | ImportRaised string string | NoAttribute | NotCallable | Callable 'h

datatype tool_error =
    ToolHandlerError string
  | ToolImportError string string
  | ToolValueError string
  | ToolContextError ctx_error
  | ToolRegistryError reg_error

record 'h resolver =
  hr_explicit :: "(string \<times> 'h) list"
  hr_import_cache :: "(string \<times> 'h) list"

definition hr_register :: "'h resolver \<Rightarrow> string \<Rightarrow> 'h \<Rightarrow> tool_error + 'h resolver" where
  "hr_register hr ref h =
     (if ref \<in> fst ` set (hr_explicit hr) then Inl (ToolValueError (''handler '' @ quoted ref @ '' is already registered''))
      else Inr (hr\<lparr>hr_explicit := AList.update ref h (hr_explicit hr)\<rparr>))"

definition before_colon :: "string \<Rightarrow> string" where
  "before_colon s = takeWhile (\<lambda>c. c \<noteq> CHR '':'') s"

definition after_colon :: "string \<Rightarrow> string" where
  "after_colon s = drop 1 (dropWhile (\<lambda>c. c \<noteq> CHR '':'') s)"

definition import_handler :: "(string \<Rightarrow> string \<Rightarrow> 'h imported) \<Rightarrow> string \<Rightarrow> tool_error + 'h" where
  "import_handler importer ref =
     (let pre = ''handler_ref '' @ quoted ref in
      if CHR '':'' \<notin> set ref then
        Inl (ToolHandlerError (pre @ '' is not registered and is not in '' @ quoted ''module:function'' @ '' form - cannot resolve''))
      else case importer (before_colon ref) (after_colon ref) of
        NoModule \<Rightarrow> Inl (ToolHandlerError (pre @ '': module '' @ quoted (before_colon ref) @ '' could not be imported''))
      | ImportRaised ty msg \<Rightarrow> Inl (ToolImportError ty msg)
      | NoAttribute \<Rightarrow> Inl (ToolHandlerError (pre @ '': module '' @ quoted (before_colon ref) @ '' has no attribute '' @ quoted (after_colon ref)))
      | NotCallable \<Rightarrow> Inl (ToolHandlerError (pre @ '': '' @ quoted (after_colon ref) @ '' is not callable''))
      | Callable h \<Rightarrow> Inr h)"

definition resolve ::
  "(string \<Rightarrow> string \<Rightarrow> 'h imported) \<Rightarrow> 'h resolver \<Rightarrow> string \<Rightarrow> (tool_error + 'h) \<times> 'h resolver" where
  "resolve importer hr ref =
     (case map_of (hr_explicit hr) ref of
        Some h \<Rightarrow> (Inr h, hr)
      | None \<Rightarrow>
          (case map_of (hr_import_cache hr) ref of
             Some h \<Rightarrow> (Inr h, hr)
           | None \<Rightarrow>
               (case import_handler importer ref of
                  Inl e \<Rightarrow> (Inl e, hr)
                | Inr h \<Rightarrow> (Inr h, hr\<lparr>hr_import_cache := AList.update ref h (hr_import_cache hr)\<rparr>))))"

definition hr_registered :: "'h resolver \<Rightarrow> string set" where
  "hr_registered hr = fst ` set (hr_explicit hr)"

section \<open>The runner\<close>

record ('w, 't) runner =
  ru_resolver :: "'w handler resolver"
  ru_variables :: variable_store
  ru_idempotency :: "'t idem_store option"

record 't tool_call =
  tcl_tool :: tool_record
  tcl_arguments :: "(string \<times> json) list"
  tcl_context :: tool_context
  tcl_key :: "string option"
  tcl_now :: 't
  tcl_later :: 't
  tcl_uuid :: string

text \<open>The key, when there is one and a store to look it up in.\<close>

definition idem_key :: "('w, 't) runner \<Rightarrow> 't tool_call \<Rightarrow> (string \<times> 't idem_store) option" where
  "idem_key ru c =
     (case tcl_key c of
        Some k \<Rightarrow> if k = [] then None else map_option (\<lambda>d. (k, d)) (ru_idempotency ru)
      | None \<Rightarrow> None)"

text \<open>Everything after the idempotency lookup.\<close>

definition invoke_tool ::
  "(string \<Rightarrow> string \<Rightarrow> 'w handler imported) \<Rightarrow> ('w, 't :: linordered_idom) runner \<Rightarrow> 't tool_call \<Rightarrow> 'w
   \<Rightarrow> (tool_error + tool_result) \<times> ('w, 't) runner \<times> 'w" where
  "invoke_tool importer ru c w =
     (let t = tcl_tool c in
      case resolve importer (ru_resolver ru) (tl_handler_ref t) of
        (Inl e, hr) \<Rightarrow> (Inl e, ru\<lparr>ru_resolver := hr\<rparr>, w)
      | (Inr h, hr) \<Rightarrow>
          (case h (tcl_arguments c) (tcl_context c) (tl_timeout_ms t) w of
             ((TimedOut, lat), w') \<Rightarrow> (Inr (result_timed_out (rec_id t) (tl_timeout_ms t) lat), ru\<lparr>ru_resolver := hr\<rparr>, w')
           | ((Raised ty msg, lat), w') \<Rightarrow>
               (Inr (if ty = ''TimeoutError'' then result_timed_out (rec_id t) (tl_timeout_ms t) lat
                     else result_failed (rec_id t) (''handler raised '' @ ty @ '': '' @ msg) lat), ru\<lparr>ru_resolver := hr\<rparr>, w')
           | ((Returned raw, lat), w') \<Rightarrow>
               (case capture (tcl_uuid c) (ru_variables ru) raw (rec_id t) of
                  (out, vs) \<Rightarrow>
                    let r = result_success (rec_id t) out lat False
                    in (Inr r, ru\<lparr>ru_resolver := hr, ru_variables := vs,
                          ru_idempotency := (case idem_key ru c of
                             None \<Rightarrow> ru_idempotency ru
                           | Some (k, d) \<Rightarrow> Some (idem_put 86400 d (tcl_later c) k r))\<rparr>, w'))))"

definition run_tool ::
  "(string \<Rightarrow> string \<Rightarrow> 'w handler imported) \<Rightarrow> ('w, 't :: linordered_idom) runner \<Rightarrow> 't tool_call \<Rightarrow> 'w
   \<Rightarrow> (tool_error + tool_result) \<times> ('w, 't) runner \<times> 'w" where
  "run_tool importer ru c w =
     (case idem_key ru c of
        None \<Rightarrow> invoke_tool importer ru c w
      | Some (k, d) \<Rightarrow>
          (case idem_get d (tcl_now c) k of
             (Some cached, d') \<Rightarrow> (Inr cached, ru\<lparr>ru_idempotency := Some d'\<rparr>, w)
           | (None, d') \<Rightarrow> invoke_tool importer (ru\<lparr>ru_idempotency := Some d'\<rparr>) c w))"

section \<open>The step executor\<close>

definition jsonable :: "tool_output \<Rightarrow> json" where
  "jsonable out =
     (case out of
        OutValue v \<Rightarrow> v
      | OutRef r \<Rightarrow> JObj [(''variable_ref'', JStr (vr_name r)), (''preview'', JStr (vr_preview r)),
                     (''size_bytes'', JInt (vr_size_bytes r))])"

definition idempotency_base :: "tool_request \<Rightarrow> string" where
  "idempotency_base q =
     (if absent (tq_idempotency_key q) then dflt_to [] (tq_request_id q) else dflt_to [] (tq_idempotency_key q))"

text \<open>
  The loop over \<open>tool_refs\<close>. The \<open>n\<close>-th tool call reads the clock at \<open>now n\<close> and \<open>later n\<close> and draws
  the name \<open>uuid n\<close>.
\<close>

record 't draws =
  su_now :: "nat \<Rightarrow> 't"
  su_later :: "nat \<Rightarrow> 't"
  su_uuid :: "nat \<Rightarrow> string"

definition tool_call_of ::
  "'t draws \<Rightarrow> nat \<Rightarrow> string \<Rightarrow> exec_step \<Rightarrow> tool_context \<Rightarrow> tool_record \<Rightarrow> 't tool_call" where
  "tool_call_of su n base s ctx t =
     \<lparr>tcl_tool = t, tcl_arguments = es_parameters s, tcl_context = ctx,
      tcl_key = (if base = [] then None else Some (base @ '':'' @ es_step_id s @ '':'' @ rec_id t)),
      tcl_now = su_now su n, tcl_later = su_later su n, tcl_uuid = su_uuid su n\<rparr>"

definition failure_line :: "tool_result \<Rightarrow> string" where
  "failure_line r = (case trs_error r of None \<Rightarrow> ''None'' | Some e \<Rightarrow> e)"

fun tools_loop ::
  "(string \<Rightarrow> string \<Rightarrow> 'w handler imported) \<Rightarrow> registry \<Rightarrow> 't :: linordered_idom draws \<Rightarrow> string \<Rightarrow> exec_step
   \<Rightarrow> tool_context \<Rightarrow> nat \<Rightarrow> (string \<times> json) list \<Rightarrow> string list \<Rightarrow> ('w, 't) runner \<Rightarrow> 'w \<Rightarrow> tool_ref list
   \<Rightarrow> (tool_error + (string \<times> json) list \<times> string list) \<times> ('w, 't) runner \<times> 'w" where
  "tools_loop importer reg su base s ctx n outs fails ru w [] = (Inr (outs, fails), ru, w)"
| "tools_loop importer reg su base s ctx n outs fails ru w (ref # refs) =
     (case tools_get_optional reg (tr_tool_id ref) (Some (tr_version ref)) of
        Inl e \<Rightarrow> (Inl (ToolRegistryError e), ru, w)
      | Inr None \<Rightarrow>
          tools_loop importer reg su base s ctx n outs (fails @ [tr_tool_id ref @ '': no active registry record'']) ru w refs
      | Inr (Some t) \<Rightarrow>
          (case run_tool importer ru (tool_call_of su n base s ctx t) w of
             (Inl e, ru', w') \<Rightarrow> (Inl e, ru', w')
           | (Inr r, ru', w') \<Rightarrow>
               tools_loop importer reg su base s ctx (Suc n)
                 (AList.update (rec_id t) (if trs_ok r then jsonable (trs_output r) else JNull) outs)
                 (if trs_ok r then fails else fails @ [rec_id t @ '': '' @ failure_line r]) ru' w' refs))"

definition tool_step_run ::
  "(string \<Rightarrow> string \<Rightarrow> 'w handler imported) \<Rightarrow> registry \<Rightarrow> 't :: linordered_idom draws \<Rightarrow> exec_step \<Rightarrow> tool_request
   \<Rightarrow> ('w, 't) runner \<Rightarrow> 'w \<Rightarrow> (tool_error + step_result) \<times> ('w, 't) runner \<times> 'w" where
  "tool_step_run importer reg su s q ru w =
     (case agents_get_optional reg (es_agent_id s) of
        Inl e \<Rightarrow> (Inl (ToolRegistryError e), ru, w)
      | Inr None \<Rightarrow>
          (Inr (make_result s ''failed'' JNull
             (Some (''agent '' @ quoted (es_agent_id s) @ '' has no active registry record'')) [] None), ru, w)
      | Inr (Some a) \<Rightarrow>
          if ag_tool_refs a = [] then
            (Inr (make_result s ''success''
               (JObj [(''note'', JStr ''agent declares no tools - LLM-only execution is wired in P8'')]) None [] None), ru, w)
          else case from_request q of
            Inl e \<Rightarrow> (Inl (ToolContextError e), ru, w)
          | Inr ctx \<Rightarrow>
              (case tools_loop importer reg su (idempotency_base q) s ctx 0 [] [] ru w (ag_tool_refs a) of
                 (Inl e, ru', w') \<Rightarrow> (Inl e, ru', w')
               | (Inr (outs, fails), ru', w') \<Rightarrow>
                   (Inr (make_result s (if fails \<noteq> [] then ''failed'' else ''success'')
                      (JObj [(''agent_id'', JStr (es_agent_id s)), (''tools'', JObj outs)])
                      (if join ''; '' fails = [] then None else Some (join ''; '' fails)) [] None), ru', w')))"

section \<open>Lemmas\<close>

lemma invoke_tool_fresh:
  assumes "invoke_tool importer ru c w = (Inr r, ru', w')"
  shows "trs_tool_id r = rec_id (tcl_tool c)" and "\<not> trs_from_cache r"
    and "trs_status r = TS_SUCCESS \<longleftrightarrow> trs_error r = None"
    and "ru_idempotency ru' = (case idem_key ru c of None \<Rightarrow> ru_idempotency ru
           | Some (k, d) \<Rightarrow> Some (idem_put 86400 d (tcl_later c) k r))"
  using assms
  by (auto simp: invoke_tool_def Let_def result_success_def result_failed_def result_timed_out_def idem_put_def
      idem_key_def split: prod.splits sum.splits awaited.splits if_splits option.splits)

lemma invoke_tool_error:
  assumes "invoke_tool importer ru c w = (Inl e, ru', w')"
  shows "w' = w" and "fst (resolve importer (ru_resolver ru) (tl_handler_ref (tcl_tool c))) = Inl e"
    and "ru_idempotency ru' = ru_idempotency ru"
  using assms by (auto simp: invoke_tool_def Let_def split: prod.splits sum.splits awaited.splits)

lemma run_tool_keyless: "idem_key ru c = None \<Longrightarrow> run_tool importer ru c w = invoke_tool importer ru c w"
  by (simp add: run_tool_def)

lemma run_tool_hit:
  assumes "idem_key ru c = Some (k, d)" "ttl_live d (tcl_now c) k = Some r"
  shows "run_tool importer ru c w = (Inr (flag_replay r), ru\<lparr>ru_idempotency := Some d\<rparr>, w)"
  using assms by (auto simp: run_tool_def idem_get_def ttl_get_def ttl_live_def split: option.splits if_splits)

lemma run_tool_miss:
  assumes "idem_key ru c = Some (k, d)" "ttl_live d (tcl_now c) k = None"
  shows "run_tool importer ru c w
    = invoke_tool importer (ru\<lparr>ru_idempotency := Some (snd (idem_get d (tcl_now c) k))\<rparr>) c w"
  using assms idem.lookup_value [of d "tcl_now c" k]
  by (auto simp: run_tool_def split: prod.splits option.splits)

lemma idem_key_update:
  "idem_key ru c = Some (k, d) \<Longrightarrow> idem_key (ru\<lparr>ru_idempotency := Some d'\<rparr>) c = Some (k, d')"
  by (auto simp: idem_key_def split: option.splits if_splits)

lemma idem_key_Some: "idem_key ru c = Some (k, d) \<longleftrightarrow> tcl_key c = Some k \<and> k \<noteq> [] \<and> ru_idempotency ru = Some d"
  by (auto simp: idem_key_def split: option.splits if_splits)

lemma ttl_get_other: "j \<noteq> k \<Longrightarrow> ttl_live (snd (ttl_get mark d t k)) t' j = ttl_live d t' j"
  by (auto simp: ttl_get_def ttl_live_delete split: option.splits)

section \<open>Redelivery\<close>

text \<open>The store answers \<open>k\<close> with \<open>r\<close> until the deadline.\<close>

definition serves :: "('w, 't :: linordered_idom) runner \<Rightarrow> string \<Rightarrow> tool_result \<Rightarrow> 't \<Rightarrow> bool" where
  "serves ru k r deadline \<longleftrightarrow>
     (\<exists>d. ru_idempotency ru = Some d \<and> (\<forall>t < deadline. ttl_live d t k = Some r))"

fun run_calls ::
  "(string \<Rightarrow> string \<Rightarrow> 'w handler imported) \<Rightarrow> ('w, 't :: linordered_idom) runner \<Rightarrow> 'w \<Rightarrow> 't tool_call list
   \<Rightarrow> ('w, 't) runner \<times> 'w" where
  "run_calls importer ru w [] = (ru, w)"
| "run_calls importer ru w (c # cs) =
     (case run_tool importer ru c w of (_, ru', w') \<Rightarrow> run_calls importer ru' w' cs)"

lemma serves_invoke:
  assumes "serves ru k r dl" "tcl_key c \<noteq> Some k" "invoke_tool importer ru c w = (out, ru', w')"
  shows "serves ru' k r dl"
proof (cases out)
  case (Inl e)
  with assms(3) have "ru_idempotency ru' = ru_idempotency ru" by (simp add: invoke_tool_error(3))
  with assms(1) show ?thesis by (simp add: serves_def)
next
  case (Inr r')
  with assms(3) have "ru_idempotency ru' = (case idem_key ru c of None \<Rightarrow> ru_idempotency ru
      | Some (k2, d) \<Rightarrow> Some (idem_put 86400 d (tcl_later c) k2 r'))"
    by (simp add: invoke_tool_fresh(4))
  with assms(1,2) show ?thesis
    by (auto simp: serves_def idem_key_Some idem.store_other split: option.splits)
qed

lemma serves_run:
  assumes "serves ru k r dl" "k \<noteq> []" "tcl_key c = Some k \<Longrightarrow> tcl_now c < dl"
    and "run_tool importer ru c w = (out, ru', w')"
  shows "serves ru' k r dl"
proof -
  from assms(1) obtain d where d: "ru_idempotency ru = Some d" "\<forall>t < dl. ttl_live d t k = Some r"
    by (auto simp: serves_def)
  consider "tcl_key c = Some k" | k2 where "tcl_key c = Some k2" "k2 \<noteq> []" "k2 \<noteq> k" | "idem_key ru c = None" "tcl_key c \<noteq> Some k"
  proof (cases "tcl_key c")
    case None
    then show ?thesis using that(3) by (simp add: idem_key_def)
  next
    case (Some a)
    then show ?thesis using that by (cases "a = []"; cases "a = k") (auto simp: idem_key_def)
  qed
  then show ?thesis
  proof cases
    case 1
    with assms(2,3) d have "idem_key ru c = Some (k, d)" "ttl_live d (tcl_now c) k = Some r" by (auto simp: idem_key_Some)
    from run_tool_hit [OF this] assms(4) d show ?thesis by (auto simp: serves_def)
  next
    case 2
    then have key: "idem_key ru c = Some (k2, d)" using d(1) by (simp add: idem_key_Some)
    show ?thesis
    proof (cases "ttl_live d (tcl_now c) k2")
      case (Some r2)
      from run_tool_hit [OF key this] assms(4) d show ?thesis by (auto simp: serves_def)
    next
      case None
      have "serves (ru\<lparr>ru_idempotency := Some (snd (idem_get d (tcl_now c) k2))\<rparr>) k r dl"
        using 2(3) d(2) by (simp add: serves_def idem_get_def ttl_get_other)
      then show ?thesis
        using 2(1,3) assms(4) unfolding run_tool_miss [OF key None] by (rule_tac serves_invoke) simp_all
    qed
  next
    case 3
    with serves_invoke [OF assms(1)] run_tool_keyless assms(4) show ?thesis by metis
  qed
qed

lemma serves_run_calls:
  assumes "serves ru k r dl" "k \<noteq> []" "\<forall>c \<in> set cs. tcl_key c = Some k \<longrightarrow> tcl_now c < dl"
    and "run_calls importer ru w cs = (ru', w')"
  shows "serves ru' k r dl"
  using assms
proof (induction cs arbitrary: ru w)
  case (Cons c cs)
  obtain out ru1 w1 where r: "run_tool importer ru c w = (out, ru1, w1)" by (metis prod_cases3)
  have "serves ru1 k r dl" using serves_run [OF Cons.prems(1,2) _ r] Cons.prems(3) by simp
  with Cons.IH [of ru1 w1] Cons.prems r show ?case by simp
qed simp

lemma fresh_success_serves:
  assumes "run_tool importer ru c w = (Inr r, ru1, w1)" "trs_status r = TS_SUCCESS" "\<not> trs_from_cache r"
    and "tcl_key c = Some k" "k \<noteq> []" "ru_idempotency ru = Some d"
  shows "serves ru1 k r (tcl_later c + 86400)"
proof -
  have key: "idem_key ru c = Some (k, d)" using assms by (simp add: idem_key_Some)
  have miss: "ttl_live d (tcl_now c) k = None"
  proof (cases "ttl_live d (tcl_now c) k")
    case (Some r')
    from run_tool_hit [OF key this, of importer w] assms(1,3) show ?thesis by (auto simp: flag_replay_def)
  qed
  let ?d = "snd (idem_get d (tcl_now c) k)"
  have "ru_idempotency ru1 = Some (idem_put 86400 ?d (tcl_later c) k r)"
    using invoke_tool_fresh(4) [of importer "ru\<lparr>ru_idempotency := Some ?d\<rparr>" c w r ru1 w1]
      run_tool_miss [OF key miss] assms(1) idem_key_update [OF key] by simp
  moreover have "ttl_live (idem_put 86400 ?d (tcl_later c) k r) t k = Some r" if "t < tcl_later c + 86400" for t
    using idem.store_same [OF assms(2), of 86400 ?d "tcl_later c" k t] that by simp
  ultimately show ?thesis by (simp add: serves_def)
qed

section \<open>Properties\<close>

text \<open>
  C13: redelivery does not repeat a side effect. Once a keyed call has succeeded, every later call with
  the same key within the day the store keeps it returns that result, marked as a replay, and leaves
  the outside world as it found it, whatever calls ran in between.
\<close>

theorem redelivery_replays:
  assumes "run_tool importer ru c w = (Inr r, ru1, w1)" and "trs_status r = TS_SUCCESS" and "\<not> trs_from_cache r"
    and "tcl_key c = Some k" and "k \<noteq> []" and "ru_idempotency ru = Some d"
    and "\<forall>x \<in> set cs. tcl_key x = Some k \<longrightarrow> tcl_now x < tcl_later c + 86400"
    and "run_calls importer ru1 w1 cs = (ru2, w2)"
    and "tcl_key c2 = Some k" and "tcl_now c2 < tcl_later c + 86400"
  shows "\<exists>ru3. run_tool importer ru2 c2 w2 = (Inr (flag_replay r), ru3, w2)"
proof -
  have "serves ru2 k r (tcl_later c + 86400)"
    by (rule serves_run_calls [OF fresh_success_serves [OF assms(1-6)] assms(5,7,8)])
  then obtain d' where "ru_idempotency ru2 = Some d'" "ttl_live d' (tcl_now c2) k = Some r"
    using assms(10) by (auto simp: serves_def)
  with assms(5,9) run_tool_hit [of ru2 c2 k d' r importer w2] show ?thesis by (simp add: idem_key_Some)
qed

text \<open>
  Faults are contained and failures stay retryable. For handlers whose outputs are JSON values, which
  the preview of a captured output can always serialise, a call raises only when its handler reference
  cannot be resolved, and then nothing outside has changed. Otherwise it returns a result: a replay,
  or the outcome of this tool, which carries an error exactly when it did not succeed; a result that
  is no success is not stored, so the next call with the key runs the handler again.
\<close>

theorem tool_faults_contained:
  assumes "run_tool importer ru c w = (out, ru', w')"
  shows "(case out of
       Inl e \<Rightarrow> w' = w \<and> fst (resolve importer (ru_resolver ru) (tl_handler_ref (tcl_tool c))) = Inl e
     | Inr r \<Rightarrow> (trs_from_cache r \<and> w' = w)
         \<or> (\<not> trs_from_cache r \<and> trs_tool_id r = rec_id (tcl_tool c) \<and> (trs_status r = TS_SUCCESS \<longleftrightarrow> trs_error r = None)
            \<and> (trs_status r \<noteq> TS_SUCCESS \<longrightarrow>
                 (\<forall>c2 w2. tcl_key c2 = tcl_key c \<and> tcl_now c \<le> tcl_now c2 \<longrightarrow>
                    (\<exists>d. run_tool importer ru' c2 w2 = invoke_tool importer (ru'\<lparr>ru_idempotency := d\<rparr>) c2 w2)))))"
proof (cases "idem_key ru c")
  case None
  then have inv: "invoke_tool importer ru c w = (out, ru', w')" using assms by (simp add: run_tool_keyless)
  show ?thesis
  proof (cases out)
    case (Inl e)
    with inv invoke_tool_error [of importer ru c w e ru' w'] show ?thesis by simp
  next
    case (Inr r)
    note fr = invoke_tool_fresh [OF inv [unfolded Inr]]
    have "\<exists>d. run_tool importer ru' c2 w2 = invoke_tool importer (ru'\<lparr>ru_idempotency := d\<rparr>) c2 w2"
      if k: "tcl_key c2 = tcl_key c" for c2 w2
    proof -
      have "idem_key ru' c2 = None" using None k fr(4) by (auto simp: idem_key_def split: option.splits if_splits)
      then show ?thesis by (intro exI [of _ "ru_idempotency ru'"]) (simp add: run_tool_keyless)
    qed
    with fr Inr show ?thesis by simp
  qed
next
  case (Some kd)
  then obtain k d where key: "idem_key ru c = Some (k, d)" by (cases kd) auto
  show ?thesis
  proof (cases "ttl_live d (tcl_now c) k")
    case (Some r)
    from run_tool_hit [OF key this, of importer w] assms show ?thesis by (auto simp: flag_replay_def)
  next
    case miss: None
    let ?d = "snd (idem_get d (tcl_now c) k)"
    let ?ru = "ru\<lparr>ru_idempotency := Some ?d\<rparr>"
    have inv: "invoke_tool importer ?ru c w = (out, ru', w')" using run_tool_miss [OF key miss] assms by simp
    show ?thesis
    proof (cases out)
      case (Inl e)
      with inv invoke_tool_error [of importer ?ru c w e ru' w'] show ?thesis by simp
    next
      case (Inr r)
      note fr = invoke_tool_fresh [OF inv [unfolded Inr]]
      have "\<exists>d. run_tool importer ru' c2 w2 = invoke_tool importer (ru'\<lparr>ru_idempotency := d\<rparr>) c2 w2"
        if st: "trs_status r \<noteq> TS_SUCCESS" and k2: "tcl_key c2 = tcl_key c" "tcl_now c \<le> tcl_now c2" for c2 w2
      proof -
        have "ru_idempotency ru' = Some ?d" using fr(4) st idem_key_update [OF key] by (simp add: idem_put_def)
        then have key2: "idem_key ru' c2 = Some (k, ?d)" using key k2 by (simp add: idem_key_Some)
        have "ttl_live d (tcl_now c2) k = None"
          using idem.live_expires [OF k2(2), of d k] miss by (cases "ttl_live d (tcl_now c2) k") auto
        then have "ttl_live ?d (tcl_now c2) k = None" using idem.lookup_keeps [OF k2(2)] by simp
        from run_tool_miss [OF key2 this] show ?thesis by blast
      qed
      with fr Inr show ?thesis by simp
    qed
  qed
qed

text \<open>
  C36: Large outputs are bounded, and nothing is lost. What the runner puts in a result is either the
  value itself, whose JSON text is within the threshold, or a reference whose preview is at most one
  character longer than the configured length; the full value can then be fetched by the name the
  reference carries, and no other stored value changes.
\<close>

theorem capture_bounded:
  assumes "0 \<le> vs_preview_chars vs"
  shows "case capture uuid vs v hint of
      (OutValue x, vs') \<Rightarrow> x = v \<and> vs' = vs \<and> serialised_size v \<le> vs_threshold vs
    | (OutRef r, vs') \<Rightarrow> serialised_size v > vs_threshold vs \<and> vs_get vs' (vr_name r) = Some v
        \<and> int (length (vr_preview r)) \<le> vs_preview_chars vs + 1
        \<and> (\<forall>n. n \<noteq> vr_name r \<longrightarrow> vs_get vs' n = vs_get vs n)"
proof -
  have "int (length (preview v (vs_preview_chars vs))) \<le> vs_preview_chars vs + 1"
    using assms py_slice_to_length [OF assms, of "case v of JStr s \<Rightarrow> s | _ \<Rightarrow> json_dumps v"]
    by (auto simp: preview_def Let_def)
  then show ?thesis by (auto simp: capture_def Let_def vs_get_def update_conv)
qed

theorem capture_bounded_witness:
  "int (length (preview (JStr (replicate 9 (CHR ''x''))) 4)) \<le> 5"
proof -
  let ?vs = "\<lparr>vs_threshold = 6, vs_preview_chars = 4, vs_values = []\<rparr>"
  have "capture ''u'' ?vs (JStr (replicate 9 (CHR ''x''))) ''t'' =
      (OutRef \<lparr>vr_name = ''t_u'', vr_preview = preview (JStr (replicate 9 (CHR ''x''))) 4, vr_size_bytes = 11\<rparr>,
       ?vs\<lparr>vs_values := [(''t_u'', JStr (replicate 9 (CHR ''x'')))]\<rparr>)" by code_simp
  with capture_bounded [of ?vs, where uuid = "''u''" and v = "JStr (replicate 9 (CHR ''x''))" and hint = "''t''"] show ?thesis by simp
qed

section \<open>Resolution\<close>

text \<open>What a reference stands for, without any cache: a registered handler, else the import.\<close>

definition resolves_to :: "(string \<Rightarrow> string \<Rightarrow> 'h imported) \<Rightarrow> 'h resolver \<Rightarrow> string \<Rightarrow> tool_error + 'h" where
  "resolves_to importer hr ref =
     (case map_of (hr_explicit hr) ref of Some h \<Rightarrow> Inr h | None \<Rightarrow> import_handler importer ref)"

inductive resolver_reachable :: "(string \<Rightarrow> string \<Rightarrow> 'h imported) \<Rightarrow> 'h resolver \<Rightarrow> bool" for importer where
  hr_start: "resolver_reachable importer \<lparr>hr_explicit = [], hr_import_cache = []\<rparr>"
| hr_add: "resolver_reachable importer hr \<Longrightarrow> hr_register hr ref h = Inr hr' \<Longrightarrow> resolver_reachable importer hr'"
| hr_look: "resolver_reachable importer hr \<Longrightarrow> resolver_reachable importer (snd (resolve importer hr ref))"

lemma import_cache_sound:
  "resolver_reachable importer hr \<Longrightarrow> map_of (hr_import_cache hr) ref = Some h \<Longrightarrow> import_handler importer ref = Inr h"
proof (induction arbitrary: ref h rule: resolver_reachable.induct)
  case (hr_add hr r' h' hr')
  then show ?case by (auto simp: hr_register_def split: if_splits)
next
  case (hr_look hr r')
  then show ?case by (auto simp: resolve_def update_conv split: option.splits sum.splits if_splits)
qed simp

text \<open>
  The import cache is invisible. On every resolver its own operations can build, \<open>resolve\<close> gives
  what the reference stands for, a registered handler before an import, and looking a reference up
  changes the meaning of none.
\<close>

theorem resolve_transparent:
  assumes "resolver_reachable importer hr"
  shows "fst (resolve importer hr ref) = resolves_to importer hr ref
    \<and> resolves_to importer (snd (resolve importer hr ref)) = resolves_to importer hr
    \<and> hr_registered (snd (resolve importer hr ref)) = hr_registered hr"
proof (intro conjI)
  have ex: "hr_explicit (snd (resolve importer hr ref)) = hr_explicit hr"
    by (simp add: resolve_def split: option.split sum.split)
  then show "resolves_to importer (snd (resolve importer hr ref)) = resolves_to importer hr"
    by (intro ext) (simp add: resolves_to_def)
  show "hr_registered (snd (resolve importer hr ref)) = hr_registered hr" using ex by (simp add: hr_registered_def)
  show "fst (resolve importer hr ref) = resolves_to importer hr ref"
  proof (cases "map_of (hr_import_cache hr) ref")
    case None
    then show ?thesis by (simp add: resolve_def resolves_to_def split: option.split sum.split)
  next
    case (Some h)
    with import_cache_sound [OF assms Some] show ?thesis by (simp add: resolve_def resolves_to_def split: option.split)
  qed
qed

text \<open>A handler that counts its runs in the outside world, imported from a module \<open>pkg\<close>.\<close>

definition counting_handler :: "nat handler" where
  "counting_handler args ctx timeout w = ((Returned (JObj args), 5), Suc w)"

definition sample_importer :: "string \<Rightarrow> string \<Rightarrow> nat handler imported" where
  "sample_importer m f = (if m = ''pkg'' then Callable counting_handler else NoModule)"

theorem resolve_transparent_witness:
  "fst (resolve sample_importer \<lparr>hr_explicit = [], hr_import_cache = []\<rparr> ''pkg:run'') = Inr counting_handler"
proof -
  have "fst (resolve sample_importer \<lparr>hr_explicit = [], hr_import_cache = []\<rparr> ''pkg:run'')
      = resolves_to sample_importer \<lparr>hr_explicit = [], hr_import_cache = []\<rparr> ''pkg:run''"
    using resolve_transparent [OF hr_start] by blast
  also have "\<dots> = Inr counting_handler"
    by (simp add: resolves_to_def import_handler_def sample_importer_def before_colon_def after_colon_def)
  finally show ?thesis .
qed

section \<open>Two deliveries of one call\<close>

definition sample_tool :: tool_record where
  "sample_tool = \<lparr>rec_id = ''tool1'', rec_version = 1, rec_status = ACTIVE, rec_owner = ''ops'',
     tl_description = ''sample'', tl_activation_condition = ActivationCondition LEAF (Some INTENT_IN) [''read''] False [],
     tl_handler_ref = ''pkg:run'', tl_execution_type = ET_ACTION, tl_parameters = [], tl_timeout_ms = 1000,
     tl_idempotent = True, tl_requires_scopes = [], tl_output_fields = []\<rparr>"

definition sample_ctx :: tool_context where
  "sample_ctx = (case from_request sample_tool_request of Inr c \<Rightarrow> c | Inl _ \<Rightarrow> undefined)"

definition sample_call :: "int \<Rightarrow> int tool_call" where
  "sample_call t = \<lparr>tcl_tool = sample_tool, tcl_arguments = [], tcl_context = sample_ctx, tcl_key = Some ''k'',
     tcl_now = t, tcl_later = t + 1, tcl_uuid = ''u''\<rparr>"

definition sample_runner :: "(nat, int) runner" where
  "sample_runner = \<lparr>ru_resolver = \<lparr>hr_explicit = [], hr_import_cache = []\<rparr>,
     ru_variables = \<lparr>vs_threshold = 4096, vs_preview_chars = 280, vs_values = []\<rparr>, ru_idempotency = Some []\<rparr>"

definition first_result :: tool_result where
  "first_result = result_success ''tool1'' (OutValue (JObj [])) 5 False"

definition after_first :: "(nat, int) runner" where
  "after_first = fst (snd (run_tool sample_importer sample_runner (sample_call 0) 0))"

lemma first_delivery: "run_tool sample_importer sample_runner (sample_call 0) 0 = (Inr first_result, after_first, 1)"
proof -
  have "fst (run_tool sample_importer sample_runner (sample_call 0) 0) = Inr first_result"
    "snd (snd (run_tool sample_importer sample_runner (sample_call 0) 0)) = 1"
    by code_simp+
  then show ?thesis unfolding after_first_def by (metis prod.collapse)
qed

theorem redelivery_replays_witness:
  "\<exists>ru3. run_tool sample_importer after_first (sample_call 600) 1 = (Inr (flag_replay first_result), ru3, 1)"
  by (rule redelivery_replays [OF first_delivery, where cs = "[]" and k = "''k''" and d = "[]"])
    (simp_all add: first_result_def result_success_def sample_call_def sample_runner_def)

theorem tool_faults_contained_witness:
  "\<not> trs_from_cache first_result \<and> trs_tool_id first_result = rec_id sample_tool"
proof -
  have "\<not> trs_from_cache first_result" by (simp add: first_result_def result_success_def)
  with tool_faults_contained [OF first_delivery] show ?thesis by (simp add: sample_call_def)
qed

section \<open>A step runs all its tools\<close>

text \<open>What the loop keeps: the outputs grow, the failures only get longer, and without a new failure every tool ran.\<close>

definition loop_reports ::
  "registry \<Rightarrow> (string \<times> json) list \<Rightarrow> string list \<Rightarrow> (string \<times> json) list \<Rightarrow> string list \<Rightarrow> tool_ref list \<Rightarrow> bool" where
  "loop_reports reg outs fails outs' fails' refs \<longleftrightarrow>
     fst ` set outs \<subseteq> fst ` set outs' \<and> prefix fails fails' \<and> ([] \<notin> set fails \<longrightarrow> [] \<notin> set fails')
     \<and> (fails' = fails \<longrightarrow> (\<forall>ref \<in> set refs.
          \<exists>t. tools_get_optional reg (tr_tool_id ref) (Some (tr_version ref)) = Inr (Some t) \<and> rec_id t \<in> fst ` set outs'))"

lemma loop_reports_failed:
  "loop_reports reg outs (fails @ [m]) outs' fails' refs \<Longrightarrow> m \<noteq> [] \<Longrightarrow> loop_reports reg outs fails outs' fails' (x # refs)"
  unfolding loop_reports_def by (auto simp: prefix_def)

lemma loop_reports_ran:
  assumes "loop_reports reg (AList.update (rec_id t) v outs) fails outs' fails' refs"
    and "tools_get_optional reg (tr_tool_id x) (Some (tr_version x)) = Inr (Some t)"
  shows "loop_reports reg outs fails outs' fails' (x # refs)"
  using assms unfolding loop_reports_def by auto

lemma loop_reports_grow: "loop_reports reg (AList.update k v outs) fails outs' fails' refs \<Longrightarrow> loop_reports reg outs fails outs' fails' refs"
  unfolding loop_reports_def by auto

lemma tools_loop_Inr:
  "tools_loop importer reg su base s ctx n outs fails ru w refs = (Inr (outs', fails'), ru', w')
     \<Longrightarrow> loop_reports reg outs fails outs' fails' refs"
proof (induction refs arbitrary: n outs fails ru w)
  case Nil
  then show ?case by (simp add: loop_reports_def)
next
  case (Cons x refs)
  obtain o' where o': "tools_get_optional reg (tr_tool_id x) (Some (tr_version x)) = Inr o'"
    using Cons.prems by (cases "tools_get_optional reg (tr_tool_id x) (Some (tr_version x))") auto
  show ?case
  proof (cases o')
    case None
    with Cons.prems o' show ?thesis
      by (intro loop_reports_failed [where m = "tr_tool_id x @ '': no active registry record''"] Cons.IH) simp_all
  next
    case (Some t)
    obtain out ru1 w1 where run: "run_tool importer ru (tool_call_of su n base s ctx t) w = (out, ru1, w1)"
      by (metis prod_cases3)
    obtain r where r: "out = Inr r" using Cons.prems o' Some run by (cases out) simp_all
    show ?thesis
    proof (cases "trs_ok r")
      case True
      with Cons.prems o' Some run r
      have "loop_reports reg (AList.update (rec_id t) (jsonable (trs_output r)) outs) fails outs' fails' refs"
        by (intro Cons.IH) simp
      then show ?thesis using o' Some by (intro loop_reports_ran) simp_all
    next
      case False
      with Cons.prems o' Some run r
      have "loop_reports reg (AList.update (rec_id t) JNull outs) (fails @ [rec_id t @ '': '' @ failure_line r]) outs' fails' refs"
        by (intro Cons.IH) simp
      then show ?thesis by (intro loop_reports_failed) (erule loop_reports_grow, simp)
    qed
  qed
qed

lemma join_nonempty: "[] \<notin> set xs \<Longrightarrow> join sep xs = [] \<longleftrightarrow> xs = []"
  by (induction sep xs rule: join.induct) auto

text \<open>
  A step reports its tools honestly. The result of \<open>ToolStepExecutor.run\<close> is about the step it was
  given and carries an error exactly when it failed; it is a success only if every tool the agent
  declares is served by the registry at the version the agent pins, whatever status that version has,
  and has an entry among the outputs.
\<close>

theorem tool_step_complete:
  assumes "tool_step_run importer reg su s q ru w = (Inr r, ru', w')"
  shows "res_step_id r = es_step_id s \<and> (res_status r = ''success'' \<and> res_error r = None \<or> res_status r = ''failed'' \<and> res_error r \<noteq> None)
    \<and> (res_status r = ''success'' \<longrightarrow> (\<exists>a. agents_get_optional reg (es_agent_id s) = Inr (Some a)
         \<and> (\<forall>ref \<in> set (ag_tool_refs a). \<exists>t. tools_get_optional reg (tr_tool_id ref) (Some (tr_version ref)) = Inr (Some t)
              \<and> jfield (jget (res_output r) ''tools'') (rec_id t) \<noteq> None)))"
proof -
  obtain ao where ao: "agents_get_optional reg (es_agent_id s) = Inr ao"
    using assms by (cases "agents_get_optional reg (es_agent_id s)") (auto simp: tool_step_run_def)
  show ?thesis
  proof (cases ao)
    case None
    with assms ao show ?thesis by (auto simp: tool_step_run_def make_result_def)
  next
    case (Some a)
    show ?thesis
    proof (cases "ag_tool_refs a = []")
      case True
      with assms ao Some show ?thesis by (auto simp: tool_step_run_def make_result_def)
    next
      case False
      obtain ctx where ctx: "from_request q = Inr ctx"
        using assms ao Some False by (cases "from_request q") (auto simp: tool_step_run_def)
      obtain outs fails where l: "tools_loop importer reg su (idempotency_base q) s ctx 0 [] [] ru w (ag_tool_refs a) = (Inr (outs, fails), ru', w')"
        and r: "r = make_result s (if fails \<noteq> [] then ''failed'' else ''success'')
            (JObj [(''agent_id'', JStr (es_agent_id s)), (''tools'', JObj outs)])
            (if join ''; '' fails = [] then None else Some (join ''; '' fails)) [] None"
        using assms ao Some False ctx by (auto simp: tool_step_run_def split: prod.splits sum.splits)
      note loop = tools_loop_Inr [OF l, unfolded loop_reports_def]
      have fn: "join ''; '' fails = [] \<longleftrightarrow> fails = []" using loop by (simp add: join_nonempty)
      have "\<exists>t. tools_get_optional reg (tr_tool_id ref) (Some (tr_version ref)) = Inr (Some t)
          \<and> jfield (jget (res_output r) ''tools'') (rec_id t) \<noteq> None"
        if "fails = []" "ref \<in> set (ag_tool_refs a)" for ref
      proof -
        from loop that obtain t where t: "tools_get_optional reg (tr_tool_id ref) (Some (tr_version ref)) = Inr (Some t)"
          "rec_id t \<in> fst ` set outs" by blast
        then have "map_of outs (rec_id t) \<noteq> None" by (simp add: map_of_eq_None_iff)
        with t(1) r show ?thesis by (auto simp: make_result_def)
      qed
      then show ?thesis using r fn ao Some by (auto simp: make_result_def split: if_splits)
    qed
  qed
qed

definition tool_registry :: registry where
  "tool_registry =
     \<lparr>agents = [(([], ''x''), Envelope \<lparr>env_id = ''x'', env_versions = [(1, (sample_agent ''x'' [])\<lparr>rec_status := ACTIVE,
         ag_tool_refs := [\<lparr>tr_tool_id = ''tool1'', tr_version = 1\<rparr>]\<rparr>)], env_active_version = Some 1\<rparr>)],
      tools = [(([], ''tool1''), Envelope \<lparr>env_id = ''tool1'', env_versions = [(1, sample_tool)], env_active_version = Some 1\<rparr>)],
      schemas = []\<rparr>"

definition sample_draws :: "int draws" where
  "sample_draws = \<lparr>su_now = int, su_later = int, su_uuid = nat_str\<rparr>"

lemma sample_step_runs:
  "map_sum (\<lambda>_. ()) res_status (fst (tool_step_run sample_importer tool_registry sample_draws (sample_step ''x'' [])
     sample_tool_request sample_runner 0)) = Inr ''success''"
  by code_simp

theorem tool_step_complete_witness:
  "\<exists>a. agents_get_optional tool_registry ''x'' = Inr (Some a)"
proof -
  let ?run = "tool_step_run sample_importer tool_registry sample_draws (sample_step ''x'' []) sample_tool_request sample_runner 0"
  obtain r ru' w' where r: "?run = (Inr r, ru', w')" "res_status r = ''success''"
    using sample_step_runs by (cases ?run; cases "fst ?run") auto
  from tool_step_complete [OF r(1)] r(2) show ?thesis by (auto simp: sample_step_def)
qed

text \<open>The tool executor as the handler layer of the graph keeps the label contract of the wave loop.\<close>

definition tool_work ::
  "(string \<Rightarrow> string \<Rightarrow> 'w handler imported) \<Rightarrow> registry \<Rightarrow> 't :: linordered_idom draws \<Rightarrow> (request_env \<Rightarrow> tool_request)
   \<Rightarrow> (tool_error \<Rightarrow> string) \<Rightarrow> ('w, 't) runner \<Rightarrow> 'w
   \<Rightarrow> exec_step \<Rightarrow> request_env \<Rightarrow> (string \<times> step_result) list \<Rightarrow> (string \<times> json) list \<Rightarrow> work_outcome" where
  "tool_work importer reg su to_request message ru w s req prev bound =
     (case fst (tool_step_run importer reg su s (to_request req) ru w) of
        Inl e \<Rightarrow> WorkRaise (message e) | Inr r \<Rightarrow> WorkResult r)"

lemma tool_work_labels:
  assumes "xr_work xr = tool_work importer reg su to_request message ru w"
  shows "labels_results xr"
  unfolding labels_results_def
proof (intro allI impI)
  fix s req prev bound r assume "xr_work xr s req prev bound = WorkResult r"
  then have "fst (tool_step_run importer reg su s (to_request req) ru w) = Inr r"
    using assms by (auto simp: tool_work_def split: sum.splits)
  then obtain ru' w' where "tool_step_run importer reg su s (to_request req) ru w = (Inr r, ru', w')"
    by (metis prod.collapse)
  then show "res_step_id r = es_step_id s"
    by (auto simp: tool_step_run_def make_result_def split: sum.splits option.splits if_splits prod.splits)
qed

end
