(* ===== verification/EntityId.thy ===== *)
theory EntityId
  imports Prelude
begin

text \<open>
  The entity-id normalizer (\<open>router/entity_id.py\<close>): canonical ids from free text. The prefix table is
  data; the four patterns are matchers at one position, and \<open>finditer\<close> scans with them from left to
  right without overlaps. Messages are ASCII text: the dash and the quotation marks of the reply texts
  are written in ASCII.
\<close>

section \<open>Characters and patterns\<close>

definition char_between :: "nat \<Rightarrow> nat \<Rightarrow> char \<Rightarrow> bool" where
  "char_between lo hi c = (let n = of_char c :: nat in lo \<le> n \<and> n \<le> hi)"

abbreviation is_upper :: "char \<Rightarrow> bool" where "is_upper \<equiv> char_between 65 90"
abbreviation is_lower :: "char \<Rightarrow> bool" where "is_lower \<equiv> char_between 97 122"
abbreviation is_digit :: "char \<Rightarrow> bool" where "is_digit \<equiv> char_between 48 57"

definition is_letter :: "char \<Rightarrow> bool" where
  "is_letter c \<longleftrightarrow> is_upper c \<or> is_lower c"

definition is_alnum :: "char \<Rightarrow> bool" where
  "is_alnum c \<longleftrightarrow> is_letter c \<or> is_digit c"

text \<open>\<open>\w\<close> and \<open>[ \t\-_]\<close>.\<close>

definition is_word :: "char \<Rightarrow> bool" where
  "is_word c \<longleftrightarrow> is_alnum c \<or> c = CHR ''_''"

definition is_sep :: "char \<Rightarrow> bool" where
  "is_sep c \<longleftrightarrow> c \<in> {CHR '' '', CHR 0x09, CHR ''-'', CHR ''_''}"

definition upper_char :: "char \<Rightarrow> char" where
  "upper_char c = (let n = of_char c :: nat in if 97 \<le> n \<and> n \<le> 122 then char_of (n - 32) else c)"

definition upper :: "string \<Rightarrow> string" where
  "upper s = map upper_char s"

definition isupper :: "string \<Rightarrow> bool" where
  "isupper s \<longleftrightarrow> (\<exists>c \<in> set s. is_letter c) \<and> (\<forall>c \<in> set s. \<not> is_lower c)"

definition all_digits :: "string \<Rightarrow> bool" where
  "all_digits s \<longleftrightarrow> s \<noteq> [] \<and> list_all is_digit s"

text \<open>A matcher sees the character before the position and the rest; it gives the length of the match.\<close>

type_synonym matcher = "char option \<Rightarrow> string \<Rightarrow> nat option"

fun finditer :: "matcher \<Rightarrow> char option \<Rightarrow> string \<Rightarrow> (string \<times> string) list" where
  "finditer m prev [] = []"
| "finditer m prev (c # cs) =
     (case m prev (c # cs) of
        Some (Suc n) \<Rightarrow> (take (Suc n) (c # cs), drop n cs)
                        # finditer m (Some (last (c # take n cs))) (drop n cs)
      | _ \<Rightarrow> finditer m (Some c) cs)"

definition no_word_before :: "char option \<Rightarrow> bool" where
  "no_word_before prev \<longleftrightarrow> (case prev of None \<Rightarrow> True | Some c \<Rightarrow> \<not> is_word c)"

definition no_word_next :: "string \<Rightarrow> bool" where
  "no_word_next s \<longleftrightarrow> (case s of [] \<Rightarrow> True | c # _ \<Rightarrow> \<not> is_word c)"

definition LEADS_DIGITS :: "string \<Rightarrow> bool" where
  "LEADS_DIGITS s \<longleftrightarrow> (case dropWhile is_sep s of [] \<Rightarrow> False | c # _ \<Rightarrow> is_digit c)"

definition CANDIDATE :: matcher where
  "CANDIDATE prev s =
     (let letters = takeWhile is_letter s; rest = dropWhile is_letter s in
      if 2 \<le> length letters \<and> length letters \<le> 5 \<and> LEADS_DIGITS rest
      then Some (length letters + length (takeWhile (\<lambda>c. is_digit c \<or> is_sep c) rest)) else None)"

definition ALPHA_WORD :: matcher where
  "ALPHA_WORD prev s =
     (let n = length (takeWhile is_letter s) in
      if no_word_before prev \<and> 2 \<le> n \<and> n \<le> 12 \<and> no_word_next (drop n s) then Some n else None)"

definition BARE_DIGITS :: matcher where
  "BARE_DIGITS prev s =
     (let n = length (takeWhile is_digit s) in
      if no_word_before prev \<and> 2 \<le> n \<and> n \<le> 12 \<and> no_word_next (drop n s) then Some n else None)"

definition MIXED_RE :: matcher where
  "MIXED_RE prev s =
     (let n = length (takeWhile is_alnum s); u = length (takeWhile is_upper s) in
      if no_word_before prev \<and> no_word_next (drop n s)
         \<and> (\<exists>k \<in> {2, 3, 4, 5}. k \<le> u \<and> k + 1 \<le> n \<and> n \<le> k + 10)
      then Some n else None)"

section \<open>Results\<close>

datatype id_acceptance = ACCEPTED | CLARIFY | REJECTED

record normalized_entity =
  ne_entity_id :: string
  ne_service_id :: string
  ne_raw :: string

record normalization_result =
  nr_ok :: bool
  nr_raw :: string
  nr_acceptance :: id_acceptance
  nr_entity :: "normalized_entity option"
  nr_reason :: string
  nr_matched_prefix :: string
  nr_suggested :: "normalized_entity option"
  nr_candidates :: "normalized_entity list"

definition nr_good :: "normalized_entity \<Rightarrow> normalization_result" where
  "nr_good e = \<lparr>nr_ok = True, nr_raw = ne_raw e, nr_acceptance = ACCEPTED, nr_entity = Some e, nr_reason = [],
     nr_matched_prefix = [], nr_suggested = None, nr_candidates = []\<rparr>"

definition nr_bad :: "string \<Rightarrow> string \<Rightarrow> string \<Rightarrow> normalization_result" where
  "nr_bad raw reason pfx = \<lparr>nr_ok = False, nr_raw = raw, nr_acceptance = REJECTED, nr_entity = None,
     nr_reason = reason, nr_matched_prefix = pfx, nr_suggested = None, nr_candidates = []\<rparr>"

definition nr_clarify ::
  "string \<Rightarrow> string \<Rightarrow> string \<Rightarrow> normalized_entity option \<Rightarrow> normalized_entity list \<Rightarrow> normalization_result" where
  "nr_clarify raw reason pfx suggested candidates = \<lparr>nr_ok = False, nr_raw = raw, nr_acceptance = CLARIFY,
     nr_entity = None, nr_reason = reason, nr_matched_prefix = pfx, nr_suggested = suggested, nr_candidates = candidates\<rparr>"

record extraction_result =
  xt_entities :: "normalized_entity list"
  xt_malformed :: "normalization_result list"

definition has_entities :: "extraction_result \<Rightarrow> bool" where
  "has_entities x \<longleftrightarrow> xt_entities x \<noteq> []"

section \<open>The normalizer\<close>

record normalizer =
  nz_prefix_to_service :: "(string \<times> string) list"
  nz_prefixes :: "string list"

definition normalizer_init :: "(string \<times> string) list \<Rightarrow> string + normalizer" where
  "normalizer_init prefix_to_service =
     (let table = foldl (\<lambda>d (p, s). AList.update (upper p) s d) [] prefix_to_service;
          prefixes = sort_key (\<lambda>p. - int (length p)) (map fst table)
      in if prefixes = [] then Inl ''EntityIdNormalizer built with no prefixes''
         else Inr \<lparr>nz_prefix_to_service = table, nz_prefixes = prefixes\<rparr>)"

text \<open>The parsed service schema: the fields \<open>from_registry_file\<close> reads of each service.\<close>

record service_row =
  sr_service_id :: "string option"
  sr_id_prefix :: "string option"
  sr_alias_prefixes :: "string list"

definition add_service :: "(string \<times> string) list \<Rightarrow> service_row \<Rightarrow> (string \<times> string) list" where
  "add_service mapping svc =
     (case (sr_service_id svc, sr_id_prefix svc) of
        (Some i, Some p) \<Rightarrow>
          if i = [] \<or> p = [] then mapping
          else foldl (\<lambda>d a. AList.update a i d) (AList.update p i mapping) (sr_alias_prefixes svc)
      | _ \<Rightarrow> mapping)"

definition from_registry :: "service_row list \<Rightarrow> string + normalizer" where
  "from_registry services = normalizer_init (foldl add_service [] services)"

definition service_of :: "normalizer \<Rightarrow> string \<Rightarrow> string" where
  "service_of nz p = (case map_of (nz_prefix_to_service nz) p of None \<Rightarrow> [] | Some s \<Rightarrow> s)"

definition cleaned :: "string \<Rightarrow> string" where
  "cleaned token = upper (filter is_alnum token)"

definition normalize_token :: "normalizer \<Rightarrow> string \<Rightarrow> normalization_result" where
  "normalize_token nz raw =
     (let c = cleaned raw in
      if c = [] then nr_bad raw ''no entity reference found in the input'' []
      else case find (\<lambda>p. prefix p c) (nz_prefixes nz) of
        None \<Rightarrow> nr_bad raw (quoted c @ '' does not begin with a recognised ID prefix (expected one of: ''
                  @ join '', '' (sort (nz_prefixes nz)) @ '')'') []
      | Some p \<Rightarrow>
          let body = drop (length p) c in
          if body = [] then nr_bad raw (quoted p @ '' is a valid ID prefix but has no number after it'') p
          else if \<not> list_all is_digit body
          then nr_bad raw (''the part after '' @ quoted p @ '' is not a number: '' @ quoted body) p
          else nr_good \<lparr>ne_entity_id = p @ body, ne_service_id = service_of nz p, ne_raw = raw\<rparr>)"

section \<open>Scanning a message\<close>

text \<open>The lists and sets the passes share.\<close>

record scan_state =
  ss_entities :: "normalized_entity list"
  ss_seen_ok :: "string list"
  ss_malformed :: "normalization_result list"
  ss_seen_bad :: "string list"

definition record_bad :: "scan_state \<Rightarrow> normalization_result \<Rightarrow> scan_state" where
  "record_bad st r =
     (let key = upper (strip (nr_raw r)) in
      if key \<in> set (ss_seen_bad st) then st
      else st\<lparr>ss_seen_bad := key # ss_seen_bad st, ss_malformed := ss_malformed st @ [r]\<rparr>)"

definition pass1_step :: "normalizer \<Rightarrow> scan_state \<Rightarrow> string \<Rightarrow> scan_state" where
  "pass1_step nz st tok =
     (let r = normalize_token nz tok in
      case (nr_ok r, nr_entity r) of
        (True, Some e) \<Rightarrow>
          if ne_entity_id e \<in> set (ss_seen_ok st) then st
          else st\<lparr>ss_seen_ok := ne_entity_id e # ss_seen_ok st, ss_entities := ss_entities st @ [e]\<rparr>
      | _ \<Rightarrow> if nr_matched_prefix r \<noteq> [] then record_bad st r else st)"

definition pass1_digit_tokens :: "normalizer \<Rightarrow> string \<Rightarrow> scan_state \<Rightarrow> scan_state" where
  "pass1_digit_tokens nz text st = foldl (pass1_step nz) st (map fst (finditer CANDIDATE None text))"

definition is_digitless_id_attempt :: "normalizer \<Rightarrow> string \<Rightarrow> bool" where
  "is_digitless_id_attempt nz w =
     (let u = upper w in
      if u = w \<and> u \<in> fst ` set (nz_prefix_to_service nz) \<and> length u \<ge> 3 then True
      else if isupper w
      then list_ex (\<lambda>p. prefix p u \<and> length u > length p) (filter (\<lambda>p. length p \<ge> 3) (nz_prefixes nz))
      else False)"

definition note_garble :: "normalizer \<Rightarrow> scan_state \<Rightarrow> string \<Rightarrow> scan_state" where
  "note_garble nz st w =
     (let r = normalize_token nz w in if \<not> nr_ok r \<and> nr_matched_prefix r \<noteq> [] then record_bad st r else st)"

definition pass2_step :: "normalizer \<Rightarrow> scan_state \<Rightarrow> string \<times> string \<Rightarrow> scan_state" where
  "pass2_step nz st m =
     (case m of (w, rest) \<Rightarrow>
        if LEADS_DIGITS rest then st
        else if \<not> is_digitless_id_attempt nz w then st
        else note_garble nz st w)"

definition pass2_digitless_garbles :: "normalizer \<Rightarrow> string \<Rightarrow> scan_state \<Rightarrow> scan_state" where
  "pass2_digitless_garbles nz text st = foldl (pass2_step nz) st (finditer ALPHA_WORD None text)"

definition pass25_step :: "normalizer \<Rightarrow> scan_state \<Rightarrow> string \<Rightarrow> scan_state" where
  "pass25_step nz st tok =
     (if list_ex is_digit tok then st
      else if isupper tok then st
      else case find (\<lambda>p. prefix p (upper tok)) (nz_prefixes nz) of
        None \<Rightarrow> st
      | Some p \<Rightarrow> if p = [] then st else note_garble nz st tok)"

definition pass25_mixed_case :: "normalizer \<Rightarrow> string \<Rightarrow> scan_state \<Rightarrow> scan_state" where
  "pass25_mixed_case nz text st = foldl (pass25_step nz) st (map fst (finditer MIXED_RE None text))"

definition dq :: "string \<Rightarrow> string" where
  "dq x = [CHR 0x22] @ x @ [CHR 0x22]"

definition bare_digits_reason :: "string \<Rightarrow> string" where
  "bare_digits_reason body = dq body
     @ '' looks like a record number but is missing its type prefix. Please share the full ID - e.g. ''
     @ dq (''INC'' @ body) @ '' for an incident or '' @ dq (''REQ'' @ body) @ '' for a request.''"

definition pass3_step :: "scan_state \<Rightarrow> string \<Rightarrow> scan_state" where
  "pass3_step st body =
     (if length body < 7 then st
      else if list_ex (\<lambda>e. suffix body (ne_entity_id e)) (ss_entities st) then st
      else if list_ex (\<lambda>b. suffix body (nr_raw b)) (ss_malformed st) then st
      else record_bad st (nr_bad body (bare_digits_reason body) []))"

definition pass3_bare_digits :: "string \<Rightarrow> scan_state \<Rightarrow> scan_state" where
  "pass3_bare_digits text st = foldl pass3_step st (map fst (finditer BARE_DIGITS None text))"

definition extract_ids :: "normalizer \<Rightarrow> string \<Rightarrow> extraction_result" where
  "extract_ids nz text =
     (let st = pass3_bare_digits text (pass25_mixed_case nz text (pass2_digitless_garbles nz text
                 (pass1_digit_tokens nz text
                    \<lparr>ss_entities = [], ss_seen_ok = [], ss_malformed = [], ss_seen_bad = []\<rparr>)))
      in \<lparr>xt_entities = ss_entities st, xt_malformed = ss_malformed st\<rparr>)"

section \<open>The clarification text\<close>

definition describe_one :: "normalizer \<Rightarrow> normalization_result \<Rightarrow> string" where
  "describe_one nz r =
     (let shown = (if strip (nr_raw r) = [] then nr_raw r else strip (nr_raw r)) in
      if nr_matched_prefix r \<noteq> [] then
        (let service = service_of nz (nr_matched_prefix r); example = nr_matched_prefix r @ ''0001234''
         in dq shown @ '' looks like a '' @ service @ '' ID but is not valid - '' @ service @ '' IDs look like ''
            @ dq example @ ''. Please share the correct ID.'')
      else dq shown @ '' is not a record ID I recognise. IDs begin with a type prefix - e.g. ''
           @ dq ''INC0001234'' @ '' for an incident or '' @ dq ''REQ0001234'' @ '' for a request. Which record did you mean?'')"

fun clarification_lines :: "normalizer \<Rightarrow> string list \<Rightarrow> normalization_result list \<Rightarrow> string list" where
  "clarification_lines nz seen [] = []"
| "clarification_lines nz seen (r # rs) =
     (if nr_ok r then clarification_lines nz seen rs
      else let key = strip (nr_raw r) in
        if key \<in> set seen then clarification_lines nz seen rs
        else describe_one nz r # clarification_lines nz (key # seen) rs)"

definition clarification_message :: "normalizer \<Rightarrow> normalization_result list \<Rightarrow> string" where
  "clarification_message nz rs =
     (case clarification_lines nz [] rs of
        [] \<Rightarrow> []
      | [l] \<Rightarrow> l
      | ls \<Rightarrow> ''I spotted a few record IDs that do not look right:'' @ [CHR 0x0A]
             @ join [CHR 0x0A] (map (\<lambda>l. ''- '' @ l) ls))"

section \<open>Lemmas\<close>

lemma upper_char_alnum [simp]: "is_alnum (upper_char c) \<longleftrightarrow> is_alnum c"
  by (auto simp: upper_char_def is_alnum_def is_letter_def char_between_def Let_def)

lemma upper_char_idem [simp]: "upper_char (upper_char c) = upper_char c"
  by (auto simp: upper_char_def Let_def)

lemma upper_digit: "is_digit c \<Longrightarrow> upper_char c = c"
  by (auto simp: upper_char_def char_between_def Let_def)

lemma cleaned_cleaned [simp]: "cleaned (cleaned s) = cleaned s"
proof -
  have "list_all is_alnum (cleaned s)" by (auto simp: cleaned_def upper_def list_all_iff)
  then have "filter is_alnum (cleaned s) = cleaned s" by (simp add: list_all_iff)
  then show ?thesis by (simp add: cleaned_def [of "cleaned s"]) (simp add: cleaned_def upper_def comp_def)
qed

lemma find_sorted:
  "find P xs = Some x \<Longrightarrow> sorted (map f xs) \<Longrightarrow> y \<in> set xs \<Longrightarrow> P y \<Longrightarrow> f x \<le> f y"
  by (induction xs) (auto split: if_splits)

lemma find_Some_in: "find P xs = Some x \<Longrightarrow> x \<in> set xs \<and> P x"
  by (induction xs) (auto split: if_splits)

lemma normalizer_init_Inr:
  assumes "normalizer_init m = Inr nz"
  shows "set (nz_prefixes nz) = fst ` set (nz_prefix_to_service nz)"
    and "sorted (map (\<lambda>p. - int (length p)) (nz_prefixes nz))"
proof -
  from assms have "nz_prefixes nz = sort_key (\<lambda>p. - int (length p)) (map fst (nz_prefix_to_service nz))"
    by (auto simp: normalizer_init_def Let_def split: if_splits)
  then show "set (nz_prefixes nz) = fst ` set (nz_prefix_to_service nz)"
    and "sorted (map (\<lambda>p. - int (length p)) (nz_prefixes nz))" by simp_all
qed

text \<open>The prefix that decides: the longest entry of the table that the cleaned text starts with.\<close>

definition deciding_prefix :: "normalizer \<Rightarrow> string \<Rightarrow> string \<Rightarrow> bool" where
  "deciding_prefix nz c p \<longleftrightarrow> p \<in> fst ` set (nz_prefix_to_service nz) \<and> prefix p c
     \<and> (\<forall>q \<in> fst ` set (nz_prefix_to_service nz). prefix q c \<longrightarrow> length q \<le> length p)"

lemma deciding_prefix_unique: "deciding_prefix nz c p \<Longrightarrow> deciding_prefix nz c q \<Longrightarrow> p = q"
  unfolding deciding_prefix_def by (metis order_antisym prefix_length_prefix prefix_order.antisym)

lemma find_deciding:
  assumes "normalizer_init m = Inr nz"
  shows "find (\<lambda>p. prefix p c) (nz_prefixes nz) = Some p \<longleftrightarrow> deciding_prefix nz c p"
proof -
  note nz = normalizer_init_Inr [OF assms]
  have fwd: "deciding_prefix nz c p" if f: "find (\<lambda>p. prefix p c) (nz_prefixes nz) = Some p" for p
    using find_Some_in [OF f] find_sorted [OF f nz(2)] nz(1) by (auto simp: deciding_prefix_def)
  have "\<exists>q. find (\<lambda>p. prefix p c) (nz_prefixes nz) = Some q" if d: "deciding_prefix nz c p"
    using d nz(1) find_None_iff [of "\<lambda>p. prefix p c" "nz_prefixes nz"]
    by (cases "find (\<lambda>p. prefix p c) (nz_prefixes nz)") (auto simp: deciding_prefix_def)
  then show ?thesis using fwd deciding_prefix_unique by metis
qed

lemma normalize_good:
  assumes "normalizer_init m = Inr nz"
  shows "nr_ok (normalize_token nz raw) \<longleftrightarrow> (\<exists>p ds. deciding_prefix nz (cleaned raw) p \<and> cleaned raw = p @ ds \<and> all_digits ds)"
proof (cases "find (\<lambda>p. prefix p (cleaned raw)) (nz_prefixes nz)")
  case None
  then have "\<not> deciding_prefix nz (cleaned raw) p" for p using find_deciding [OF assms] by (metis option.distinct(1))
  then show ?thesis using None by (auto simp: normalize_token_def Let_def nr_bad_def)
next
  case (Some p)
  then have p: "deciding_prefix nz (cleaned raw) p" by (simp add: find_deciding [OF assms])
  then obtain ds where ds: "cleaned raw = p @ ds" by (auto simp: deciding_prefix_def prefix_def)
  have "(\<exists>p ds. deciding_prefix nz (cleaned raw) p \<and> cleaned raw = p @ ds \<and> all_digits ds) \<longleftrightarrow> all_digits ds"
    using p ds deciding_prefix_unique by (metis same_append_eq)
  then show ?thesis using Some ds by (auto simp: normalize_token_def Let_def nr_bad_def nr_good_def all_digits_def)
qed

lemma normalize_ok_same:
  assumes "nr_ok (normalize_token nz raw)"
  shows "\<exists>e. ne_entity_id e = cleaned raw
    \<and> (\<forall>raw'. cleaned raw' = cleaned raw \<longrightarrow> normalize_token nz raw' = nr_good (e\<lparr>ne_raw := raw'\<rparr>))"
proof -
  obtain p where f: "find (\<lambda>p. prefix p (cleaned raw)) (nz_prefixes nz) = Some p" and c: "cleaned raw \<noteq> []"
    and b: "drop (length p) (cleaned raw) \<noteq> []" "list_all is_digit (drop (length p) (cleaned raw))"
    using assms by (auto simp: normalize_token_def Let_def nr_bad_def split: option.splits if_splits)
  have "p @ drop (length p) (cleaned raw) = cleaned raw"
    using find_Some_in [OF f] by (auto simp: prefix_def)
  with f c b show ?thesis
    by (intro exI [of _ "\<lparr>ne_entity_id = cleaned raw, ne_service_id = service_of nz p, ne_raw = raw\<rparr>"])
      (simp add: normalize_token_def Let_def)
qed

lemma normalize_ok_entity:
  assumes "nr_ok (normalize_token nz raw)"
  shows "\<exists>e. normalize_token nz raw = nr_good e \<and> ne_entity_id e = cleaned raw \<and> ne_raw e = raw"
proof -
  from normalize_ok_same [OF assms] obtain e where "ne_entity_id e = cleaned raw"
    "normalize_token nz raw = nr_good (e\<lparr>ne_raw := raw\<rparr>)" by blast
  then show ?thesis by (intro exI [of _ "e\<lparr>ne_raw := raw\<rparr>"]) simp
qed

lemma normalize_not_ok: "\<not> nr_ok (normalize_token nz raw) \<Longrightarrow>
    nr_acceptance (normalize_token nz raw) = REJECTED \<and> nr_entity (normalize_token nz raw) = None \<and> nr_reason (normalize_token nz raw) \<noteq> []"
  by (auto simp: normalize_token_def Let_def nr_bad_def nr_good_def quoted_def split: option.splits if_splits)

lemma normalize_raw [simp]: "nr_raw (normalize_token nz raw) = raw"
  by (auto simp: normalize_token_def Let_def nr_bad_def nr_good_def split: option.splits)

lemma finditer_parts: "(m, rest) \<in> set (finditer M prev s) \<Longrightarrow> \<exists>before. s = before @ m @ rest"
proof (induction M prev s rule: finditer.induct)
  case (2 M prev c cs)
  show ?case
  proof (cases "\<exists>n. M prev (c # cs) = Some (Suc n)")
    case True
    then obtain n where n: "M prev (c # cs) = Some (Suc n)" by blast
    with 2 consider "m = take (Suc n) (c # cs)" "rest = drop n cs"
      | "\<exists>before. drop n cs = before @ m @ rest" by auto
    then show ?thesis
    proof cases
      case 1
      then have "c # cs = [] @ m @ rest" by simp
      then show ?thesis by blast
    next
      case 2
      then obtain before where "drop n cs = before @ m @ rest" by blast
      then have "c # cs = (c # take n cs @ before) @ m @ rest" by (metis append_Cons append_assoc append_take_drop_id)
      then show ?thesis by blast
    qed
  next
    case False
    then have "finditer M prev (c # cs) = finditer M (Some c) cs" by (auto split: option.splits nat.splits)
    with 2 False have "\<exists>before. cs = before @ m @ rest" by (auto split: option.splits nat.splits)
    then show ?thesis by (metis append_Cons)
  qed
qed simp

section \<open>What the passes keep\<close>

definition bad_key :: "normalization_result \<Rightarrow> string" where
  "bad_key r = upper (strip (nr_raw r))"

text \<open>
  The bookkeeping is exact, every entity is the normal form of a piece of the text, and every
  near-miss is a refused piece of the text with a reason.
\<close>

definition scan_ok :: "normalizer \<Rightarrow> string \<Rightarrow> scan_state \<Rightarrow> bool" where
  "scan_ok nz text st \<longleftrightarrow>
     set (ss_seen_ok st) = ne_entity_id ` set (ss_entities st) \<and> distinct (map ne_entity_id (ss_entities st))
     \<and> set (ss_seen_bad st) = bad_key ` set (ss_malformed st) \<and> distinct (map bad_key (ss_malformed st))
     \<and> (\<forall>e \<in> set (ss_entities st). sublist (ne_raw e) text \<and> normalize_token nz (ne_raw e) = nr_good e)
     \<and> (\<forall>r \<in> set (ss_malformed st). sublist (nr_raw r) text \<and> \<not> nr_ok r \<and> nr_reason r \<noteq> [])"

lemma scan_ok_record_bad [invs]:
  "scan_ok nz text st \<Longrightarrow> sublist (nr_raw r) text \<Longrightarrow> \<not> nr_ok r \<Longrightarrow> nr_reason r \<noteq> [] \<Longrightarrow> scan_ok nz text (record_bad st r)"
  by (auto simp: scan_ok_def record_bad_def Let_def bad_key_def)

lemma record_bad_grows:
  "set (ss_malformed st) \<subseteq> set (ss_malformed (record_bad st r))" "ss_entities (record_bad st r) = ss_entities st"
  by (auto simp: record_bad_def Let_def)

lemma record_bad_key: "scan_ok nz text st \<Longrightarrow> bad_key r \<in> bad_key ` set (ss_malformed (record_bad st r))"
  by (auto simp: scan_ok_def record_bad_def Let_def bad_key_def)

lemma scan_ok_note_garble [invs]: "scan_ok nz text st \<Longrightarrow> sublist w text \<Longrightarrow> scan_ok nz text (note_garble nz st w)"
  unfolding note_garble_def Let_def
  using normalize_not_ok [of nz w] by (auto intro!: scan_ok_record_bad)

lemma note_garble_grows:
  "set (ss_malformed st) \<subseteq> set (ss_malformed (note_garble nz st w))" "ss_entities (note_garble nz st w) = ss_entities st"
  using record_bad_grows by (auto simp: note_garble_def Let_def)

lemma pass1_step_cases:
  obtains e where "normalize_token nz tok = nr_good e" "nr_ok (normalize_token nz tok)" "ne_raw e = tok"
      "pass1_step nz st tok = (if ne_entity_id e \<in> set (ss_seen_ok st) then st
         else st\<lparr>ss_seen_ok := ne_entity_id e # ss_seen_ok st, ss_entities := ss_entities st @ [e]\<rparr>)"
  | "\<not> nr_ok (normalize_token nz tok)" "pass1_step nz st tok = note_garble nz st tok"
proof (cases "nr_ok (normalize_token nz tok)")
  case True
  then obtain e where e: "normalize_token nz tok = nr_good e" "ne_raw e = tok" using normalize_ok_entity by blast
  then have "pass1_step nz st tok = (if ne_entity_id e \<in> set (ss_seen_ok st) then st
         else st\<lparr>ss_seen_ok := ne_entity_id e # ss_seen_ok st, ss_entities := ss_entities st @ [e]\<rparr>)"
    by (simp add: pass1_step_def nr_good_def)
  with True e that(1) show ?thesis by blast
next
  case False
  then have "pass1_step nz st tok = note_garble nz st tok"
    by (simp add: pass1_step_def note_garble_def Let_def split: option.split)
  with False that(2) show ?thesis by blast
qed

lemma scan_ok_pass1_step [invs]: "scan_ok nz text st \<Longrightarrow> sublist tok text \<Longrightarrow> scan_ok nz text (pass1_step nz st tok)"
proof -
  assume a: "scan_ok nz text st" "sublist tok text"
  show ?thesis
  proof (rule pass1_step_cases [of nz tok st])
    fix e assume "normalize_token nz tok = nr_good e" "ne_raw e = tok"
      "pass1_step nz st tok = (if ne_entity_id e \<in> set (ss_seen_ok st) then st
         else st\<lparr>ss_seen_ok := ne_entity_id e # ss_seen_ok st, ss_entities := ss_entities st @ [e]\<rparr>)"
    with a show ?thesis by (auto simp: scan_ok_def)
  next
    assume "pass1_step nz st tok = note_garble nz st tok"
    with scan_ok_note_garble [OF a] show ?thesis by simp
  qed
qed

lemma scan_ok_pass2_step [invs]: "scan_ok nz text st \<Longrightarrow> sublist (fst m) text \<Longrightarrow> scan_ok nz text (pass2_step nz st m)"
  by (cases m) (auto simp: pass2_step_def intro: invs)

lemma scan_ok_pass25_step [invs]: "scan_ok nz text st \<Longrightarrow> sublist tok text \<Longrightarrow> scan_ok nz text (pass25_step nz st tok)"
  by (auto simp: pass25_step_def intro: invs split: option.split)

lemma scan_ok_pass3_step [invs]: "scan_ok nz text st \<Longrightarrow> sublist b text \<Longrightarrow> scan_ok nz text (pass3_step st b)"
  by (auto simp: pass3_step_def nr_bad_def bare_digits_reason_def dq_def intro!: scan_ok_record_bad)

lemma finditer_sublist: "m \<in> set (finditer M prev s) \<Longrightarrow> sublist (fst m) s"
proof -
  assume "m \<in> set (finditer M prev s)"
  then have "(fst m, snd m) \<in> set (finditer M prev s)" by simp
  from finditer_parts [OF this] show ?thesis by (auto simp: sublist_def)
qed

lemma scan_ok_foldl:
  assumes "scan_ok nz text st" "\<And>st x. scan_ok nz text st \<Longrightarrow> x \<in> set xs \<Longrightarrow> scan_ok nz text (f st x)"
  shows "scan_ok nz text (foldl f st xs)"
  using assms by (induction xs arbitrary: st) auto

lemma foldl_grows:
  assumes "\<And>st x. set (ss_malformed st) \<subseteq> set (ss_malformed (f st x)) \<and> set (ss_entities st) \<subseteq> set (ss_entities (f st x))"
  shows "set (ss_malformed st) \<subseteq> set (ss_malformed (foldl f st xs)) \<and> set (ss_entities st) \<subseteq> set (ss_entities (foldl f st xs))"
proof (induction xs arbitrary: st)
  case (Cons x xs)
  from Cons.IH [of "f st x"] assms [of st x] show ?case by auto
qed simp

lemma steps_grow:
  "set (ss_malformed st) \<subseteq> set (ss_malformed (pass1_step nz st t)) \<and> set (ss_entities st) \<subseteq> set (ss_entities (pass1_step nz st t))"
  "set (ss_malformed st) \<subseteq> set (ss_malformed (pass2_step nz st m)) \<and> set (ss_entities st) \<subseteq> set (ss_entities (pass2_step nz st m))"
  "set (ss_malformed st) \<subseteq> set (ss_malformed (pass25_step nz st t)) \<and> set (ss_entities st) \<subseteq> set (ss_entities (pass25_step nz st t))"
  "set (ss_malformed st) \<subseteq> set (ss_malformed (pass3_step st t)) \<and> set (ss_entities st) \<subseteq> set (ss_entities (pass3_step st t))"
proof -
  show "set (ss_malformed st) \<subseteq> set (ss_malformed (pass1_step nz st t)) \<and> set (ss_entities st) \<subseteq> set (ss_entities (pass1_step nz st t))"
    by (rule pass1_step_cases [of nz t st]) (use note_garble_grows [where st = st and nz = nz and w = t] in auto)
  show "set (ss_malformed st) \<subseteq> set (ss_malformed (pass2_step nz st m)) \<and> set (ss_entities st) \<subseteq> set (ss_entities (pass2_step nz st m))"
    using note_garble_grows [where st = st and nz = nz and w = "fst m"] by (cases m) (simp add: pass2_step_def)
  show "set (ss_malformed st) \<subseteq> set (ss_malformed (pass25_step nz st t)) \<and> set (ss_entities st) \<subseteq> set (ss_entities (pass25_step nz st t))"
    using note_garble_grows [where st = st and nz = nz and w = t] by (simp add: pass25_step_def split: option.split)
  show "set (ss_malformed st) \<subseteq> set (ss_malformed (pass3_step st t)) \<and> set (ss_entities st) \<subseteq> set (ss_entities (pass3_step st t))"
    using record_bad_grows by (simp add: pass3_step_def)
qed

text \<open>Nothing pass 1 sees is dropped silently.\<close>

definition token_reported :: "normalizer \<Rightarrow> string \<Rightarrow> scan_state \<Rightarrow> bool" where
  "token_reported nz tok st \<longleftrightarrow>
     (nr_ok (normalize_token nz tok) \<longrightarrow> cleaned tok \<in> ne_entity_id ` set (ss_entities st))
     \<and> (\<not> nr_ok (normalize_token nz tok) \<and> nr_matched_prefix (normalize_token nz tok) \<noteq> [] \<longrightarrow>
          upper (strip tok) \<in> bad_key ` set (ss_malformed st))"

lemma pass1_step_reports:
  assumes "scan_ok nz text st"
  shows "token_reported nz tok (pass1_step nz st tok)"
proof (rule pass1_step_cases [of nz tok st])
  fix e assume e: "normalize_token nz tok = nr_good e" "nr_ok (normalize_token nz tok)"
    "pass1_step nz st tok = (if ne_entity_id e \<in> set (ss_seen_ok st) then st
       else st\<lparr>ss_seen_ok := ne_entity_id e # ss_seen_ok st, ss_entities := ss_entities st @ [e]\<rparr>)"
  have "ne_entity_id e = cleaned tok" using normalize_ok_entity [OF e(2)] e(1) by (auto simp: nr_good_def)
  with e assms show ?thesis by (auto simp: token_reported_def scan_ok_def)
next
  assume n: "\<not> nr_ok (normalize_token nz tok)" "pass1_step nz st tok = note_garble nz st tok"
  have "upper (strip tok) \<in> bad_key ` set (ss_malformed (note_garble nz st tok))" if "nr_matched_prefix (normalize_token nz tok) \<noteq> []"
    using record_bad_key [OF assms, of "normalize_token nz tok"] n(1) that by (simp add: note_garble_def Let_def bad_key_def)
  with n show ?thesis by (simp add: token_reported_def)
qed

lemma token_reported_mono:
  "token_reported nz tok st \<Longrightarrow> set (ss_malformed st) \<subseteq> set (ss_malformed st') \<and> set (ss_entities st) \<subseteq> set (ss_entities st')
     \<Longrightarrow> token_reported nz tok st'"
  unfolding token_reported_def by blast

lemma pass1_reports:
  assumes "scan_ok nz text st" "\<And>t. t \<in> set toks \<Longrightarrow> sublist t text" "tok \<in> set toks"
  shows "token_reported nz tok (foldl (pass1_step nz) st toks)"
  using assms
proof (induction toks arbitrary: st)
  case (Cons t toks)
  have ok: "scan_ok nz text (pass1_step nz st t)" using Cons.prems by (intro invs) simp_all
  show ?case
  proof (cases "tok \<in> set toks")
    case True
    with Cons.IH [OF ok] Cons.prems show ?thesis by simp
  next
    case False
    with Cons.prems have "tok = t" by simp
    have "set (ss_malformed (pass1_step nz st t)) \<subseteq> set (ss_malformed (foldl (pass1_step nz) (pass1_step nz st t) toks))
      \<and> set (ss_entities (pass1_step nz st t)) \<subseteq> set (ss_entities (foldl (pass1_step nz) (pass1_step nz st t) toks))"
      by (rule foldl_grows) (rule steps_grow(1))
    with pass1_step_reports [OF Cons.prems(1)] show ?thesis
      unfolding \<open>tok = t\<close> foldl.simps by (rule token_reported_mono)
  qed
qed simp

section \<open>Properties\<close>

text \<open>
  C37: Normalisation is canonical. A token is accepted exactly when, stripped of everything but letters
  and digits and put in upper case, it is the longest fitting prefix of the table followed by one or
  more digits. Its id is then that cleaned text, two spellings with the same cleaned text get the same
  id and service, and normalising an id again gives the id. Everything else is refused with a reason.
\<close>

theorem normalize_canonical:
  assumes "normalizer_init m = Inr nz"
  shows "(nr_ok (normalize_token nz raw) \<longleftrightarrow>
       (\<exists>p ds. deciding_prefix nz (cleaned raw) p \<and> cleaned raw = p @ ds \<and> all_digits ds))
    \<and> (nr_ok (normalize_token nz raw) \<longrightarrow> (\<exists>e. normalize_token nz raw = nr_good e \<and> ne_entity_id e = cleaned raw
         \<and> (\<forall>raw'. cleaned raw' = cleaned raw \<longrightarrow> normalize_token nz raw' = nr_good (e\<lparr>ne_raw := raw'\<rparr>))
         \<and> normalize_token nz (ne_entity_id e) = nr_good (e\<lparr>ne_raw := ne_entity_id e\<rparr>)))
    \<and> (\<not> nr_ok (normalize_token nz raw) \<longrightarrow> nr_acceptance (normalize_token nz raw) = REJECTED
         \<and> nr_entity (normalize_token nz raw) = None \<and> nr_reason (normalize_token nz raw) \<noteq> [])"
proof (intro conjI impI)
  show "nr_ok (normalize_token nz raw) \<longleftrightarrow> (\<exists>p ds. deciding_prefix nz (cleaned raw) p \<and> cleaned raw = p @ ds \<and> all_digits ds)"
    by (rule normalize_good [OF assms])
  assume ok: "nr_ok (normalize_token nz raw)"
  obtain e where e: "ne_entity_id e = cleaned raw"
    "\<forall>raw'. cleaned raw' = cleaned raw \<longrightarrow> normalize_token nz raw' = nr_good (e\<lparr>ne_raw := raw'\<rparr>)"
    using normalize_ok_same [OF ok] by blast
  then show "\<exists>e. normalize_token nz raw = nr_good e \<and> ne_entity_id e = cleaned raw
         \<and> (\<forall>raw'. cleaned raw' = cleaned raw \<longrightarrow> normalize_token nz raw' = nr_good (e\<lparr>ne_raw := raw'\<rparr>))
         \<and> normalize_token nz (ne_entity_id e) = nr_good (e\<lparr>ne_raw := ne_entity_id e\<rparr>)"
    by (intro exI [of _ "e\<lparr>ne_raw := raw\<rparr>"]) simp
qed (use normalize_not_ok in blast)+

definition sample_prefixes :: "(string \<times> string) list" where
  "sample_prefixes = [(''INC'', ''incident''), (''req'', ''request''), (''KB'', ''kb_knowledge'')]"

definition sample_normalizer :: normalizer where
  "sample_normalizer = \<lparr>nz_prefix_to_service = [(''INC'', ''incident''), (''REQ'', ''request''), (''KB'', ''kb_knowledge'')],
     nz_prefixes = [''INC'', ''REQ'', ''KB'']\<rparr>"

lemma sample_normalizer_init: "normalizer_init sample_prefixes = Inr sample_normalizer"
  by code_simp

theorem normalize_canonical_witness:
  "\<exists>e. normalize_token sample_normalizer ''(inc-0048_213)'' = nr_good e \<and> ne_entity_id e = ''INC0048213''"
proof -
  have "nr_ok (normalize_token sample_normalizer ''(inc-0048_213)'')" "cleaned ''(inc-0048_213)'' = ''INC0048213''"
    by code_simp+
  with normalize_canonical [OF sample_normalizer_init, of "''(inc-0048_213)''"] show ?thesis by auto
qed

text \<open>The state the four passes end in, and that it satisfies the invariant.\<close>

lemma extract_scan_ok:
  "\<exists>st. scan_ok nz text st \<and> xt_entities (extract_ids nz text) = ss_entities st \<and> xt_malformed (extract_ids nz text) = ss_malformed st
     \<and> (\<forall>tok \<in> fst ` set (finditer CANDIDATE None text). token_reported nz tok st)"
proof -
  define s0 where "s0 = \<lparr>ss_entities = [], ss_seen_ok = [], ss_malformed = [], ss_seen_bad = []\<rparr>"
  define s1 where "s1 = pass1_digit_tokens nz text s0"
  define s2 where "s2 = pass2_digitless_garbles nz text s1"
  define s3 where "s3 = pass25_mixed_case nz text s2"
  define s4 where "s4 = pass3_bare_digits text s3"
  have x: "xt_entities (extract_ids nz text) = ss_entities s4" "xt_malformed (extract_ids nz text) = ss_malformed s4"
    by (simp_all add: extract_ids_def s0_def s1_def s2_def s3_def s4_def Let_def)
  have ok0: "scan_ok nz text s0" by (simp add: scan_ok_def s0_def)
  have ok1: "scan_ok nz text s1"
    unfolding s1_def pass1_digit_tokens_def by (rule scan_ok_foldl [OF ok0]) (auto intro: invs dest: finditer_sublist)
  have ok2: "scan_ok nz text s2"
    unfolding s2_def pass2_digitless_garbles_def by (rule scan_ok_foldl [OF ok1]) (auto intro: invs dest: finditer_sublist)
  have ok3: "scan_ok nz text s3"
    unfolding s3_def pass25_mixed_case_def by (rule scan_ok_foldl [OF ok2]) (auto intro: invs dest: finditer_sublist)
  have ok4: "scan_ok nz text s4"
    unfolding s4_def pass3_bare_digits_def by (rule scan_ok_foldl [OF ok3]) (auto intro: invs dest: finditer_sublist)
  have g2: "set (ss_malformed s1) \<subseteq> set (ss_malformed s2) \<and> set (ss_entities s1) \<subseteq> set (ss_entities s2)"
    unfolding s2_def pass2_digitless_garbles_def by (rule foldl_grows) (rule steps_grow(2))
  have g3: "set (ss_malformed s2) \<subseteq> set (ss_malformed s3) \<and> set (ss_entities s2) \<subseteq> set (ss_entities s3)"
    unfolding s3_def pass25_mixed_case_def by (rule foldl_grows) (rule steps_grow(3))
  have g4: "set (ss_malformed s3) \<subseteq> set (ss_malformed s4) \<and> set (ss_entities s3) \<subseteq> set (ss_entities s4)"
    unfolding s4_def pass3_bare_digits_def by (rule foldl_grows) (rule steps_grow(4))
  have "token_reported nz tok s4" if "tok \<in> fst ` set (finditer CANDIDATE None text)" for tok
  proof (rule token_reported_mono)
    show "token_reported nz tok s1"
      unfolding s1_def pass1_digit_tokens_def
      by (rule pass1_reports [OF ok0]) (use that finditer_sublist in auto)
    show "set (ss_malformed s1) \<subseteq> set (ss_malformed s4) \<and> set (ss_entities s1) \<subseteq> set (ss_entities s4)"
      using g2 g3 g4 by blast
  qed
  then show ?thesis using ok4 x by blast
qed

lemma extract_sound: "e \<in> set (xt_entities (extract_ids nz text)) \<Longrightarrow> sublist (ne_raw e) text"
  using extract_scan_ok [of nz "text"] by (auto simp: scan_ok_def)

text \<open>
  C15: scanning a message loses nothing. The ids found are pairwise different and each is the normal
  form of a piece of the message; every near-miss is a piece of the message with a reason, reported
  once; and every letter-digit token of the message that is an id is found, and one that starts with a
  known prefix but is no id is reported.
\<close>

theorem extract_complete:
  "distinct (map ne_entity_id (xt_entities (extract_ids nz text)))
   \<and> (\<forall>e \<in> set (xt_entities (extract_ids nz text)). sublist (ne_raw e) text \<and> normalize_token nz (ne_raw e) = nr_good e)
   \<and> distinct (map bad_key (xt_malformed (extract_ids nz text)))
   \<and> (\<forall>r \<in> set (xt_malformed (extract_ids nz text)). sublist (nr_raw r) text \<and> \<not> nr_ok r \<and> nr_reason r \<noteq> [])
   \<and> (\<forall>tok \<in> fst ` set (finditer CANDIDATE None text).
        (nr_ok (normalize_token nz tok) \<longrightarrow> cleaned tok \<in> ne_entity_id ` set (xt_entities (extract_ids nz text)))
        \<and> (\<not> nr_ok (normalize_token nz tok) \<and> nr_matched_prefix (normalize_token nz tok) \<noteq> [] \<longrightarrow>
             upper (strip tok) \<in> bad_key ` set (xt_malformed (extract_ids nz text))))"
proof -
  obtain st where st: "scan_ok nz text st" "xt_entities (extract_ids nz text) = ss_entities st"
    "xt_malformed (extract_ids nz text) = ss_malformed st"
    "\<forall>tok \<in> fst ` set (finditer CANDIDATE None text). token_reported nz tok st"
    using extract_scan_ok by blast
  show ?thesis unfolding st(2,3) using st(1,4) unfolding scan_ok_def token_reported_def by blast
qed

theorem extract_complete_witness:
  "''INC0048213'' \<in> ne_entity_id ` set (xt_entities (extract_ids sample_normalizer ''close inc 0048213 and INCX1''))"
proof -
  have "''inc 0048213 '' \<in> fst ` set (finditer CANDIDATE None ''close inc 0048213 and INCX1'')"
    "nr_ok (normalize_token sample_normalizer ''inc 0048213 '')" "cleaned ''inc 0048213 '' = ''INC0048213''"
    by code_simp+
  with extract_complete [of sample_normalizer "''close inc 0048213 and INCX1''"] show ?thesis by metis
qed

text \<open>
  The width of the number is not checked. With a table of prefixes made of letters, every prefix
  followed by any positive number of digits is accepted as it stands, one digit as well as eight or
  more, and no token is ever answered with a request to clarify.
\<close>

theorem digit_width_unchecked:
  assumes "normalizer_init m = Inr nz" and "\<forall>q \<in> fst ` set (nz_prefix_to_service nz). list_all is_letter q"
    and "p \<in> fst ` set (nz_prefix_to_service nz)" and "cleaned p = p" and "all_digits ds"
  shows "nr_acceptance (normalize_token nz (p @ ds)) = ACCEPTED
    \<and> map_option ne_entity_id (nr_entity (normalize_token nz (p @ ds))) = Some (p @ ds)
    \<and> nr_acceptance (normalize_token nz raw) \<noteq> CLARIFY"
proof -
  have ds: "filter is_alnum ds = ds" "map upper_char ds = ds"
    using assms(5) upper_digit by (auto simp: all_digits_def is_alnum_def list_all_iff filter_id_conv intro!: map_idI)
  have c: "cleaned (p @ ds) = p @ ds"
    using assms(4) ds by (simp add: cleaned_def upper_def)
  have "length q \<le> length p" if q: "q \<in> fst ` set (nz_prefix_to_service nz)" "prefix q (p @ ds)" for q
  proof (rule ccontr)
    assume "\<not> length q \<le> length p"
    then obtain x xs where "q = p @ x # xs" "prefix (x # xs) ds"
      using q(2) by (auto simp: prefix_append neq_Nil_conv dest: prefix_length_le)
    then have "is_letter x" "is_digit x"
      using assms(2,5) q(1) by (auto simp: list_all_iff all_digits_def prefix_def)
    then show False by (auto simp: is_letter_def char_between_def Let_def)
  qed
  then have "deciding_prefix nz (cleaned (p @ ds)) p" using assms(3) c by (simp add: deciding_prefix_def)
  then have ok: "nr_ok (normalize_token nz (p @ ds))" unfolding normalize_good [OF assms(1)] using c assms(5) by blast
  have "nr_acceptance (normalize_token nz raw) \<noteq> CLARIFY"
    using normalize_not_ok [of nz raw] normalize_ok_entity [of nz raw] by (cases "nr_ok (normalize_token nz raw)") (auto simp: nr_good_def)
  then show ?thesis using normalize_ok_entity [OF ok] c by (auto simp: nr_good_def)
qed

theorem digit_width_unchecked_witness: "nr_acceptance (normalize_token sample_normalizer ''INC1'') = ACCEPTED"
proof -
  have "\<forall>q \<in> fst ` set (nz_prefix_to_service sample_normalizer). list_all is_letter q"
    "''INC'' \<in> fst ` set (nz_prefix_to_service sample_normalizer)" "cleaned ''INC'' = ''INC''" "all_digits ''1''"
    by code_simp+
  from digit_width_unchecked [OF sample_normalizer_init this] show ?thesis by simp
qed

end
