(* ===== verification/Elicitation.thy ===== *)
theory Elicitation
  imports EntityId
begin

text \<open>
  Slot filling for a missing entity (\<open>executor/entity_elicitation.py\<close>): the question to the user, the
  layered resolution of the reply, and the bindings it gives. The language model is a parameter (the
  text it answers, or a failure), its answer is decoded by \<open>json.loads\<close> (a parameter too: \<open>None\<close> for
  text that is no JSON), and so are the ticket store and the answer to the interrupt. A candidate is a row of the ticket store's
  protocol, which always has the four keys; \<open>None\<close> is a null value.
\<close>

record candidate =
  cd_ticket_id :: "string option"
  cd_service_id :: "string option"
  cd_status :: "string option"
  cd_title :: "string option"

text \<open>\<open>str(x)\<close> and \<open>str(x or "")\<close> of an optional string.\<close>

definition str_of :: "string option \<Rightarrow> string" where
  "str_of x = (case x of None \<Rightarrow> ''None'' | Some s \<Rightarrow> s)"

definition or_empty :: "string option \<Rightarrow> string" where
  "or_empty x = (case x of None \<Rightarrow> [] | Some s \<Rightarrow> s)"

record resolution =
  rs_resolved :: bool
  rs_ticket_id :: string
  rs_service_id :: string
  rs_method :: string
  rs_reason :: string

definition unresolved_because :: "string \<Rightarrow> resolution" where
  "unresolved_because reason = \<lparr>rs_resolved = False, rs_ticket_id = [], rs_service_id = [], rs_method = ''none'', rs_reason = reason\<rparr>"

definition candidates_by_id :: "candidate list \<Rightarrow> (string \<times> candidate) list" where
  "candidates_by_id cs = foldl (\<lambda>d c. AList.update (str_of (cd_ticket_id c)) c d) [] cs"

definition resolve_reply ::
  "normalizer \<Rightarrow> (string \<Rightarrow> candidate list \<Rightarrow> string option) \<Rightarrow> string \<Rightarrow> candidate list \<Rightarrow> resolution" where
  "resolve_reply nz pick reply cs =
     (let text = strip reply in
      if text = [] then unresolved_because ''empty reply''
      else case xt_entities (extract_ids nz text) of
        e # _ \<Rightarrow> \<lparr>rs_resolved = True, rs_ticket_id = ne_entity_id e, rs_service_id = ne_service_id e,
                  rs_method = ''literal'', rs_reason = []\<rparr>
      | [] \<Rightarrow>
          if cs = [] then unresolved_because ''no recent records to resolve against''
          else case pick text cs of
            None \<Rightarrow> unresolved_because ''resolver error''
          | Some answer \<Rightarrow>
              let chosen = strip answer in
              if chosen = [] then unresolved_because ''reply did not identify a known record''
              else case map_of (candidates_by_id cs) chosen of
                None \<Rightarrow> unresolved_because ''resolver chose an id outside the candidate set''
              | Some c \<Rightarrow> \<lparr>rs_resolved = True, rs_ticket_id = str_of (cd_ticket_id c),
                            rs_service_id = or_empty (cd_service_id c), rs_method = ''llm'', rs_reason = []\<rparr>)"

section \<open>The picker\<close>

definition render_line :: "nat \<Rightarrow> candidate \<Rightarrow> string" where
  "render_line i c = nat_str i @ ''. id='' @ or_empty (cd_ticket_id c) @ '' type='' @ or_empty (cd_service_id c)
     @ '' status='' @ or_empty (cd_status c) @ '' title='' @ dq (or_empty (cd_title c))"

definition render_candidates :: "candidate list \<Rightarrow> string" where
  "render_candidates cs = join [CHR 0x0A] (map (\<lambda>(i, c). render_line (Suc i) c) (enumerate 0 cs))"

text \<open>The user message of the prompt; the system message is a constant.\<close>

definition pick_user_block :: "string \<Rightarrow> candidate list \<Rightarrow> string" where
  "pick_user_block reply cs = ''User reply: '' @ strip reply @ [CHR 0x0A, CHR 0x0A]
     @ ''Candidates (most recent first):'' @ [CHR 0x0A] @ render_candidates cs"

definition parse_pick :: "(string \<Rightarrow> json option) \<Rightarrow> string \<Rightarrow> candidate list \<Rightarrow> string" where
  "parse_pick loads raw cs =
     (case loads (if raw = [] then ''{}'' else raw) of
        Some (JObj kvs) \<Rightarrow>
          (case map_of kvs ''ticket_id'' of
             Some (JStr chosen) \<Rightarrow>
               if strip chosen \<noteq> [] \<and> strip chosen \<in> str_of ` cd_ticket_id ` set cs then strip chosen else []
           | _ \<Rightarrow> [])
      | _ \<Rightarrow> [])"

text \<open>\<open>CandidatePicker.pick\<close>: \<open>gateway\<close> is the call with the rendered prompt, \<open>None\<close> when it fails.\<close>

definition candidate_pick ::
  "(string \<Rightarrow> json option) \<Rightarrow> (string \<Rightarrow> string option) \<Rightarrow> string \<Rightarrow> candidate list \<Rightarrow> string" where
  "candidate_pick loads gateway reply cs =
     (if reply = [] \<or> cs = [] then []
      else case gateway (pick_user_block reply cs) of
        None \<Rightarrow> []
      | Some content \<Rightarrow> parse_pick loads content cs)"

section \<open>Asking and binding\<close>

definition answer_keys :: "string list" where
  "answer_keys = [''answer'', ''value'', ''text'', ''reply'', ''ticket_id'', ''id'']"

definition text_under :: "json \<Rightarrow> string \<Rightarrow> string option" where
  "text_under d k = (case jget d k of JStr s \<Rightarrow> if strip s = [] then None else Some (strip s) | _ \<Rightarrow> None)"

definition answer_text :: "json \<Rightarrow> string" where
  "answer_text a =
     (case a of
        JStr s \<Rightarrow> strip s
      | JObj _ \<Rightarrow>
          (case List.map_filter (text_under a) answer_keys of [] \<Rightarrow> [] | t # _ \<Rightarrow> t)
      | _ \<Rightarrow> [])"

definition build_question :: "candidate list \<Rightarrow> string" where
  "build_question cs =
     (if cs \<noteq> [] then ''Which record do you mean? You can tell me its id, or describe it - for example ''
        @ dq ''my last ticket'' @ '' or '' @ dq ''the open one'' @ ''.''
      else ''Which record should I use? Please tell me its id (for example an incident or request number).'')"

definition hint_ids :: "candidate list \<Rightarrow> string list" where
  "hint_ids cs = [t. Some t \<leftarrow> map cd_ticket_id (take 3 cs), t \<noteq> []]"

text \<open>The pause with the question, or the outcome once the user has replied.\<close>

datatype elicited = Asked string "string list" | Answered "(string \<times> string) list option"

text \<open>\<open>recent\<close> is the store's answer (\<open>None\<close>: the read failed), \<open>reply\<close> the resume value if there is one.\<close>

definition elicit_entity ::
  "normalizer \<Rightarrow> (string \<Rightarrow> candidate list \<Rightarrow> string) \<Rightarrow> candidate list option \<Rightarrow> json option \<Rightarrow> string \<Rightarrow> string \<Rightarrow> elicited" where
  "elicit_entity nz pick recent reply param_name service_param =
     (let cs = (case recent of None \<Rightarrow> [] | Some cs \<Rightarrow> cs) in
      case reply of
        None \<Rightarrow> Asked (build_question cs) (hint_ids cs)
      | Some answer \<Rightarrow>
          let res = resolve_reply nz (\<lambda>r c. Some (pick r c)) (answer_text answer) cs in
          if \<not> rs_resolved res then Answered None
          else Answered (Some ((param_name, rs_ticket_id res)
                 # (if service_param \<noteq> [] \<and> rs_service_id res \<noteq> []
                    then (if service_param = param_name then [] else [(service_param, rs_service_id res)]) else []))))"

section \<open>Lemmas\<close>

lemma candidates_by_id_in:
  assumes "map_of (candidates_by_id cs) i = Some c"
  shows "c \<in> set cs \<and> str_of (cd_ticket_id c) = i"
proof -
  have "map_of (foldl (\<lambda>d c. AList.update (str_of (cd_ticket_id c)) c d) d cs) i = Some c
      \<Longrightarrow> map_of d i = Some c \<or> c \<in> set cs \<and> str_of (cd_ticket_id c) = i" for d
  proof (induction cs arbitrary: d)
    case (Cons x xs)
    from Cons.IH [of "AList.update (str_of (cd_ticket_id x)) x d"] Cons.prems
    show ?case by (auto simp: update_conv split: if_splits)
  qed simp
  from this [of "[]"] assms show ?thesis by (simp add: candidates_by_id_def)
qed

lemma parse_pick_grounded: "parse_pick loads raw cs \<in> insert [] (str_of ` cd_ticket_id ` set cs)"
proof (cases "loads (if raw = [] then ''{}'' else raw)")
  case (Some j)
  show ?thesis
  proof (cases j)
    case (JObj kvs)
    show ?thesis
    proof (cases "map_of kvs ''ticket_id''")
      case (Some v)
      with \<open>loads _ = _\<close> JObj show ?thesis by (cases v) (simp_all only: parse_pick_def option.case json.case, simp_all)
    qed (use Some JObj in \<open>simp only: parse_pick_def option.case json.case, simp\<close>)
  qed (use Some in \<open>simp only: parse_pick_def option.case json.case, simp\<close>)+
qed (simp only: parse_pick_def option.case, simp)

section \<open>Properties\<close>

text \<open>
  C38: A reply never binds a record the user could not have meant. Whatever the language model
  answers, a resolved reply names either an id that stands literally in the reply text, or one of the
  candidate records; a picker built on the model can return nothing but a candidate's id or nothing.
\<close>

theorem elicitation_grounded:
  "(rs_resolved (resolve_reply nz pick reply cs) \<longrightarrow>
      (\<exists>e \<in> set (xt_entities (extract_ids nz (strip reply))). sublist (ne_raw e) (strip reply)
         \<and> rs_ticket_id (resolve_reply nz pick reply cs) = ne_entity_id e)
      \<or> (\<exists>c \<in> set cs. rs_ticket_id (resolve_reply nz pick reply cs) = str_of (cd_ticket_id c)
         \<and> rs_service_id (resolve_reply nz pick reply cs) = or_empty (cd_service_id c)))
   \<and> (\<not> rs_resolved (resolve_reply nz pick reply cs) \<longrightarrow> rs_reason (resolve_reply nz pick reply cs) \<noteq> [])
   \<and> candidate_pick loads gateway reply cs \<in> insert [] (str_of ` cd_ticket_id ` set cs)"
proof (intro conjI)
  let ?r = "resolve_reply nz pick reply cs"
  show "rs_resolved ?r \<longrightarrow>
      (\<exists>e \<in> set (xt_entities (extract_ids nz (strip reply))). sublist (ne_raw e) (strip reply) \<and> rs_ticket_id ?r = ne_entity_id e)
      \<or> (\<exists>c \<in> set cs. rs_ticket_id ?r = str_of (cd_ticket_id c) \<and> rs_service_id ?r = or_empty (cd_service_id c))"
  proof
    assume res: "rs_resolved ?r"
    show "(\<exists>e \<in> set (xt_entities (extract_ids nz (strip reply))). sublist (ne_raw e) (strip reply) \<and> rs_ticket_id ?r = ne_entity_id e)
      \<or> (\<exists>c \<in> set cs. rs_ticket_id ?r = str_of (cd_ticket_id c) \<and> rs_service_id ?r = or_empty (cd_service_id c))"
    proof (cases "xt_entities (extract_ids nz (strip reply))")
      case (Cons e es)
      then have "sublist (ne_raw e) (strip reply)" using extract_sound [of e nz "strip reply"] by simp
      with Cons res show ?thesis by (auto simp: resolve_reply_def Let_def unresolved_because_def split: if_splits)
    next
      case Nil
      with res obtain c i where "map_of (candidates_by_id cs) i = Some c"
        "?r = \<lparr>rs_resolved = True, rs_ticket_id = str_of (cd_ticket_id c), rs_service_id = or_empty (cd_service_id c), rs_method = ''llm'', rs_reason = []\<rparr>"
        by (auto simp: resolve_reply_def Let_def unresolved_because_def split: if_splits option.splits)
      with candidates_by_id_in show ?thesis by fastforce
    qed
  qed
  show "\<not> rs_resolved ?r \<longrightarrow> rs_reason ?r \<noteq> []"
    by (auto simp: resolve_reply_def Let_def unresolved_because_def split: list.splits option.splits)
  show "candidate_pick loads gateway reply cs \<in> insert [] (str_of ` cd_ticket_id ` set cs)"
    using parse_pick_grounded by (simp add: candidate_pick_def split: option.split)
qed

definition sample_candidates :: "candidate list" where
  "sample_candidates = [\<lparr>cd_ticket_id = Some ''INC0000001'', cd_service_id = Some ''incident'', cd_status = None, cd_title = Some ''VPN''\<rparr>]"

theorem elicitation_grounded_witness:
  "\<exists>c \<in> set sample_candidates.
     rs_ticket_id (resolve_reply sample_normalizer (\<lambda>_ _. Some ''INC0000001'') ''the VPN one'' sample_candidates) = str_of (cd_ticket_id c)"
proof -
  let ?p = "\<lambda>_ _. Some ''INC0000001''"
  have "rs_resolved (resolve_reply sample_normalizer ?p ''the VPN one'' sample_candidates)"
    "xt_entities (extract_ids sample_normalizer (strip ''the VPN one'')) = []" by code_simp+
  with elicitation_grounded [of sample_normalizer ?p "''the VPN one''" sample_candidates] show ?thesis by auto
qed

end
