(* ===== verification/StepRunner.thy ===== *)
theory StepRunner
  imports ToolRunner Elicitation
begin

text \<open>
  \<open>HandlerStepExecutor\<close> (\<open>executor/step_runner.py\<close>): the production executor of one plan step. It
  selects a tool of the agent, resolves its handler, merges the bound inputs into the arguments, asks
  for a missing entity, and types whatever the handler does into a step result. A handler is a function
  of its arguments, the context and the timeout in milliseconds it is awaited under; formatting the
  timeout in seconds with one decimal is the parameter \<open>se_fmt\<close>.
\<close>

section \<open>Parameter shapes\<close>

definition CONTEXT_BOUND_PARAMS :: "string list" where
  "CONTEXT_BOUND_PARAMS = [''tenant_id'', ''user_id'', ''role'', ''request_id'', ''session_id'', ''trace_id'']"

definition ENTITY_SHAPED_PARAMS :: "string list" where
  "ENTITY_SHAPED_PARAMS = [''ticket_id'', ''article_id'', ''entity_id'', ''incident_id'', ''request_id'', ''problem_id'',
     ''change_id'', ''asset_id'', ''ci_id'', ''kb_id'']"

definition required_params :: "tool_record \<Rightarrow> string set" where
  "required_params t = set [tp_name p. p \<leftarrow> tl_parameters t, tp_required p \<and> tp_name p \<notin> set CONTEXT_BOUND_PARAMS]"

definition tool_specificity :: "string set \<Rightarrow> nat \<times> nat" where
  "tool_specificity need = (card need, card (need \<inter> set ENTITY_SHAPED_PARAMS))"

text \<open>\<open>v not in (None, "", [], {})\<close>.\<close>

definition given :: "json \<Rightarrow> bool" where
  "given v \<longleftrightarrow> v \<notin> {JNull, JStr [], JList [], JObj []}"

definition present_params :: "(string \<times> json) list \<Rightarrow> string set" where
  "present_params params = fst ` set (filter (\<lambda>(k, v). given v) params)"

section \<open>Tool selection\<close>

definition candidate_tool_ids :: "agent_record \<Rightarrow> string list \<times> string" where
  "candidate_tool_ids a =
     (let primary = (case ag_fast_path a of None \<Rightarrow> [] | Some fp \<Rightarrow> fp_primary_tool_id fp);
          refs = map tr_tool_id (ag_tool_refs a)
      in (if refs = [] then (if primary = [] then [] else [primary]) else refs, primary))"

abbreviation active_tool :: "registry \<Rightarrow> string \<Rightarrow> reg_error + tool_record option" where
  "active_tool reg i \<equiv> tools_get_optional reg i None"

definition primary_tool_if_fits ::
  "registry \<Rightarrow> string \<Rightarrow> string list \<Rightarrow> string set \<Rightarrow> reg_error + (string \<times> tool_record) option" where
  "primary_tool_if_fits reg primary cands present =
     (if primary = [] \<or> primary \<notin> set cands then Inr None
      else sbind (active_tool reg primary) (\<lambda>t.
        Inr (case t of
               None \<Rightarrow> None
             | Some t' \<Rightarrow> if required_params t' \<subseteq> present then Some (primary, t') else None)))"

text \<open>The scan keeps the best tool so far with its score; a later tool must score strictly higher.\<close>

definition lex_less :: "nat \<times> nat \<Rightarrow> nat \<times> nat \<Rightarrow> bool" where
  "lex_less x y \<longleftrightarrow> fst x < fst y \<or> fst x = fst y \<and> snd x < snd y"

definition better :: "string set \<Rightarrow> string \<Rightarrow> tool_record option \<Rightarrow> (string \<times> tool_record) option \<Rightarrow> (string \<times> tool_record) option" where
  "better present tid t best =
     (case t of
        None \<Rightarrow> best
      | Some t' \<Rightarrow>
          if required_params t' \<noteq> {} \<and> required_params t' \<subseteq> present
             \<and> (case best of None \<Rightarrow> True
                | Some (_, b) \<Rightarrow> lex_less (tool_specificity (required_params b)) (tool_specificity (required_params t')))
          then Some (tid, t') else best)"

fun best_specificity_tool ::
  "registry \<Rightarrow> string set \<Rightarrow> (string \<times> tool_record) option \<Rightarrow> string list \<Rightarrow> reg_error + (string \<times> tool_record) option" where
  "best_specificity_tool reg present best [] = Inr best"
| "best_specificity_tool reg present best (tid # tids) =
     sbind (active_tool reg tid) (\<lambda>t. best_specificity_tool reg present (better present tid t best) tids)"

definition pick_tool ::
  "registry \<Rightarrow> agent_record \<Rightarrow> (string \<times> json) list \<Rightarrow> reg_error + string \<times> tool_record option" where
  "pick_tool reg a params =
     (case candidate_tool_ids a of (cands, primary) \<Rightarrow>
        (case cands of
           [] \<Rightarrow> Inr ([], None)
         | [only] \<Rightarrow> sbind (active_tool reg only) (\<lambda>t. Inr (only, t))
         | first # _ \<Rightarrow>
             let present = present_params params in
             sbind (primary_tool_if_fits reg primary cands present) (\<lambda>hit.
               case hit of
                 Some (i, t) \<Rightarrow> Inr (i, Some t)
               | None \<Rightarrow> sbind (best_specificity_tool reg present None cands) (\<lambda>best.
                   case best of
                     Some (i, t) \<Rightarrow> Inr (i, Some t)
                   | None \<Rightarrow>
                       if primary \<noteq> [] then sbind (active_tool reg primary) (\<lambda>t. Inr (primary, t))
                       else sbind (active_tool reg first) (\<lambda>t. Inr (first, t))))))"

definition select_tool ::
  "registry \<Rightarrow> agent_record \<Rightarrow> exec_step \<Rightarrow> (string \<times> json) list \<Rightarrow> reg_error + string \<times> tool_record option" where
  "select_tool reg a s params =
     (let explicit = strip (case es_tool_id s of None \<Rightarrow> [] | Some t \<Rightarrow> t) in
      if explicit \<noteq> [] then
        (if explicit \<in> tr_tool_id ` set (ag_tool_refs a) then sbind (active_tool reg explicit) (\<lambda>t. Inr (explicit, t))
         else Inr (explicit, None))
      else pick_tool reg a params)"

section \<open>The handler's context\<close>

record handler_context =
  hx_tenant_id :: string
  hx_user_id :: string
  hx_role :: string
  hx_session_id :: string
  hx_request_id :: string
  hx_focus_entity_id :: string
  hx_focus_service_id :: string
  hx_time_filter :: "(string \<times> json) list"
  hx_bound_inputs :: "(string \<times> json) list"
  hx_previous_results :: "(string \<times> step_result) list"

text \<open>The envelope carries no locale, attributes or history, so those keys of the context are empty.\<close>

definition build_handler_context ::
  "request_env \<Rightarrow> (string \<times> step_result) list \<Rightarrow> (string \<times> json) list \<Rightarrow> handler_context" where
  "build_handler_context req prev bound =
     \<lparr>hx_tenant_id = env_tenant_id req, hx_user_id = env_user_id req, hx_role = env_role req,
      hx_session_id = env_session_id req, hx_request_id = env_request_id req,
      hx_focus_entity_id = env_focus_entity_id req, hx_focus_service_id = env_focus_service_id req,
      hx_time_filter = env_time_filter req, hx_bound_inputs = bound, hx_previous_results = prev\<rparr>"

definition missing_entity_slot :: "tool_record \<Rightarrow> (string \<times> json) list \<Rightarrow> (string \<times> string) option" where
  "missing_entity_slot t arguments =
     (let present = present_params arguments;
          service = (if ''service_id'' \<in> tp_name ` set (tl_parameters t) then ''service_id'' else [])
      in map_option (\<lambda>p. (tp_name p, service))
           (find (\<lambda>p. tp_required p \<and> tp_name p \<in> set ENTITY_SHAPED_PARAMS \<and> tp_name p \<notin> present) (tl_parameters t)))"

section \<open>One step\<close>

datatype handler_end = HReturned json | HInterrupt json | HTimeout | HRaised string string

type_synonym step_handler = "(string \<times> json) list \<Rightarrow> handler_context \<Rightarrow> int \<Rightarrow> handler_end \<times> int"

record step_env =
  se_registry :: registry
  se_importer :: "string \<Rightarrow> string \<Rightarrow> step_handler imported"
  se_resolver :: "step_handler resolver"
  se_default_timeout_ms :: int
  se_elicitation :: bool
  se_elicit :: "string \<Rightarrow> string \<Rightarrow> handler_context \<Rightarrow> string + elicited"
  se_fmt :: "int \<Rightarrow> string"

definition handler_error_result :: "(int \<Rightarrow> string) \<Rightarrow> exec_step \<Rightarrow> string \<Rightarrow> int \<Rightarrow> handler_end \<Rightarrow> int \<Rightarrow> step_result" where
  "handler_error_result fmt s tid timeout ending lat =
     make_result s ''failed'' JNull
       (Some (case ending of
          HRaised ty msg \<Rightarrow> if ty = ''TimeoutError'' then ''handler timed out after '' @ fmt timeout @ ''s (tool='' @ tid @ '')''
                            else ''handler raised '' @ ty @ '': '' @ msg
        | _ \<Rightarrow> ''handler timed out after '' @ fmt timeout @ ''s (tool='' @ tid @ '')'')) tid (Some lat)"

definition invoke_handler ::
  "(int \<Rightarrow> string) \<Rightarrow> step_handler \<Rightarrow> (string \<times> json) list \<Rightarrow> handler_context \<Rightarrow> exec_step \<Rightarrow> string \<Rightarrow> int \<Rightarrow> work_outcome" where
  "invoke_handler fmt h arguments ctx s tid timeout =
     (case h arguments ctx timeout of
        (HReturned out, lat) \<Rightarrow> WorkResult (make_result s ''success'' out None tid (Some lat))
      | (HInterrupt j, lat) \<Rightarrow> WorkInterrupt j
      | (ending, lat) \<Rightarrow> WorkResult (handler_error_result fmt s tid timeout ending lat))"

definition resolver_error_text :: "tool_error \<Rightarrow> string" where
  "resolver_error_text e =
     (case e of
        ToolHandlerError m \<Rightarrow> ''handler unresolvable: '' @ m
      | ToolImportError ty m \<Rightarrow> ''handler resolver raised '' @ ty @ '': '' @ m
      | _ \<Rightarrow> ''handler resolver raised'')"

definition merge_bound :: "(string \<times> json) list \<Rightarrow> (string \<times> json) list \<Rightarrow> (string \<times> json) list" where
  "merge_bound arguments bound = foldl (\<lambda>d (k, v). AList.update k v d) arguments bound"

definition question_payload :: "string \<Rightarrow> string list \<Rightarrow> json" where
  "question_payload q hints = JObj [(''kind'', JStr ''user_clarification''), (''question'', JStr q), (''hints'', JList (map JStr hints))]"

text \<open>
  \<open>maybe_elicit_entity\<close>: the normalizer of the prefix table may refuse its configuration, and
  \<open>interrupt()\<close> pauses the turn (\<open>Inr None\<close>), returns the reply, or raises outside a graph; \<open>recents\<close>
  reads the user's recent tickets, \<open>pick\<close> is the picker. It is what \<open>se_elicit\<close> holds in production.
\<close>

definition maybe_elicit_entity ::
  "(string \<times> string) list \<Rightarrow> (string \<Rightarrow> candidate list \<Rightarrow> string) \<Rightarrow> (handler_context \<Rightarrow> candidate list option)
   \<Rightarrow> (handler_context \<Rightarrow> string + json option) \<Rightarrow> string \<Rightarrow> string \<Rightarrow> handler_context \<Rightarrow> string + elicited" where
  "maybe_elicit_entity table pick recents interrupt param service ctx =
     sbind (normalizer_init table) (\<lambda>nz. sbind (interrupt ctx) (\<lambda>reply.
       Inr (elicit_entity nz pick (recents ctx) reply param service)))"

text \<open>
  The slot-filling gate: the arguments to call the handler with, or how the step ends. The call of \<open>maybe_elicit_entity\<close> is
  outside every try, so what it raises (\<open>Inl\<close> of \<open>se_elicit\<close>) is raised out of the step.
\<close>

definition fill_slot ::
  "step_env \<Rightarrow> tool_record \<Rightarrow> handler_context \<Rightarrow> (string \<times> json) list \<Rightarrow> work_outcome + (string \<times> json) list" where
  "fill_slot se t ctx arguments =
     (if se_elicitation se \<and> hx_focus_entity_id ctx = [] then
        (case missing_entity_slot t arguments of
           None \<Rightarrow> Inr arguments
         | Some (param, service) \<Rightarrow>
             (case se_elicit se param service ctx of
                Inl m \<Rightarrow> Inl (WorkRaise m)
              | Inr (Asked q hints) \<Rightarrow> Inl (WorkInterrupt (question_payload q hints))
              | Inr (Answered None) \<Rightarrow> Inr arguments
              | Inr (Answered (Some bs)) \<Rightarrow> Inr (merge_bound arguments (map (\<lambda>(k, v). (k, JStr v)) bs))))
      else Inr arguments)"

definition run_selected ::
  "step_env \<Rightarrow> exec_step \<Rightarrow> request_env \<Rightarrow> (string \<times> step_result) list \<Rightarrow> (string \<times> json) list \<Rightarrow> string \<Rightarrow> tool_record \<Rightarrow> work_outcome" where
  "run_selected se s req prev bound tid t =
     (case fst (resolve (se_importer se) (se_resolver se) (tl_handler_ref t)) of
        Inl e \<Rightarrow> WorkResult (make_result s ''failed'' JNull (Some (resolver_error_text e)) [] None)
      | Inr h \<Rightarrow>
          let timeout = (if tl_timeout_ms t \<noteq> 0 then tl_timeout_ms t else se_default_timeout_ms se);
              arguments = merge_bound (es_parameters s) bound;
              ctx = build_handler_context req prev bound
          in case fill_slot se t ctx arguments of
               Inl out \<Rightarrow> out
             | Inr arguments' \<Rightarrow> invoke_handler (se_fmt se) h arguments' ctx s tid timeout)"

definition handler_step_run ::
  "step_env \<Rightarrow> exec_step \<Rightarrow> request_env \<Rightarrow> (string \<times> step_result) list \<Rightarrow> (string \<times> json) list
   \<Rightarrow> reg_error + work_outcome" where
  "handler_step_run se s req prev bound =
     (let agent_id = strip (es_agent_id s) in
      if agent_id = [] then Inr (WorkResult (make_result s ''failed'' JNull (Some ''step has no agent_id'') [] None))
      else sbind (agents_get_optional (se_registry se) agent_id) (\<lambda>ao.
        case ao of
          None \<Rightarrow> Inr (WorkResult (make_result s ''failed'' JNull (Some (''unknown agent '' @ repr_str agent_id)) [] None))
        | Some a \<Rightarrow> sbind (select_tool (se_registry se) a s (es_parameters s)) (\<lambda>(tid, to).
            case to of
              None \<Rightarrow> Inr (WorkResult (make_result s ''failed'' JNull
                 (Some (''agent '' @ agent_id @ '' has no invokable tool - tool_refs missing or none satisfies the step parameter shape'')) [] None))
            | Some t \<Rightarrow> Inr (run_selected se s req prev bound tid t))))"

text \<open>The executor as the graph calls it: a registry error is raised out of \<open>run\<close>.\<close>

definition handler_work ::
  "(reg_error \<Rightarrow> string) \<Rightarrow> step_env \<Rightarrow> exec_step \<Rightarrow> request_env \<Rightarrow> (string \<times> step_result) list \<Rightarrow> (string \<times> json) list \<Rightarrow> work_outcome" where
  "handler_work message se s req prev bound =
     (case handler_step_run se s req prev bound of Inl e \<Rightarrow> WorkRaise (message e) | Inr out \<Rightarrow> out)"

section \<open>Lemmas\<close>

definition fits :: "string set \<Rightarrow> tool_record \<Rightarrow> bool" where
  "fits present t \<longleftrightarrow> required_params t \<noteq> {} \<and> required_params t \<subseteq> present"

definition score :: "tool_record \<Rightarrow> nat \<times> nat" where
  "score t = tool_specificity (required_params t)"

lemma better_cases:
  "better present tid t best = best \<and> (\<forall>t'. t = Some t' \<and> fits present t' \<longrightarrow> (\<exists>i b. best = Some (i, b) \<and> \<not> lex_less (score b) (score t')))
   \<or> (\<exists>t'. t = Some t' \<and> fits present t' \<and> better present tid t best = Some (tid, t')
       \<and> (\<forall>i b. best = Some (i, b) \<longrightarrow> lex_less (score b) (score t')))"
  by (auto simp: better_def fits_def score_def split: option.splits prod.splits)

text \<open>The tool kept so far fits, and no tool seen so far that fits scores higher.\<close>

definition best_of :: "registry \<Rightarrow> string set \<Rightarrow> (string \<times> tool_record) option \<Rightarrow> string set \<Rightarrow> bool" where
  "best_of reg present best seen \<longleftrightarrow>
     (\<forall>i t. best = Some (i, t) \<longrightarrow> i \<in> seen \<and> active_tool reg i = Inr (Some t) \<and> fits present t)
     \<and> (\<forall>i t. i \<in> seen \<and> active_tool reg i = Inr (Some t) \<and> fits present t \<longrightarrow>
          (\<exists>j b. best = Some (j, b) \<and> \<not> lex_less (score b) (score t)))"

lemma best_of_step:
  assumes "best_of reg present best seen" "active_tool reg tid = Inr t"
  shows "best_of reg present (better present tid t best) (insert tid seen)"
  using better_cases [of present tid t best]
proof
  assume "better present tid t best = best \<and> (\<forall>t'. t = Some t' \<and> fits present t' \<longrightarrow> (\<exists>i b. best = Some (i, b) \<and> \<not> lex_less (score b) (score t')))"
  with assms show ?thesis by (auto simp: best_of_def)
next
  assume "\<exists>t'. t = Some t' \<and> fits present t' \<and> better present tid t best = Some (tid, t')
       \<and> (\<forall>i b. best = Some (i, b) \<longrightarrow> lex_less (score b) (score t'))"
  then obtain t' where t': "t = Some t'" "fits present t'" "better present tid t best = Some (tid, t')"
    "\<forall>i b. best = Some (i, b) \<longrightarrow> lex_less (score b) (score t')" by blast
  have "\<not> lex_less (score t') (score u)" if u: "i \<in> insert tid seen" "active_tool reg i = Inr (Some u)" "fits present u" for i u
  proof (cases "i \<in> seen")
    case True
    then obtain j b where b: "best = Some (j, b)" "\<not> lex_less (score b) (score u)"
      using assms(1) u unfolding best_of_def by blast
    with t'(4) show ?thesis by (auto simp: lex_less_def)
  next
    case False
    with u assms(2) t'(1) show ?thesis by (simp add: lex_less_def)
  qed
  with t' assms show ?thesis by (auto simp: best_of_def)
qed

lemma best_specificity_best:
  "best_specificity_tool reg present best tids = Inr r \<Longrightarrow> best_of reg present best seen
     \<Longrightarrow> best_of reg present r (seen \<union> set tids)"
proof (induction tids arbitrary: best seen)
  case (Cons tid tids)
  from Cons.prems(1) obtain t where t: "active_tool reg tid = Inr t"
    "best_specificity_tool reg present (better present tid t best) tids = Inr r" by auto
  from Cons.IH [OF t(2) best_of_step [OF Cons.prems(2) t(1)]] show ?case by simp
qed simp

lemma best_of_None: "best_of reg present None {}"
  by (simp add: best_of_def)

lemma pick_tool_Inr:
  assumes "pick_tool reg a params = Inr (tid, Some t)"
  shows "active_tool reg tid = Inr (Some t) \<and> (tid \<in> set (fst (candidate_tool_ids a)) \<or> tid = snd (candidate_tool_ids a) \<and> tid \<noteq> [])"
proof -
  obtain cands primary where c: "candidate_tool_ids a = (cands, primary)" by fastforce
  consider "cands = []" | only where "cands = [only]" | first x xs where "cands = first # x # xs"
    by (cases cands; cases "tl cands") auto
  then show ?thesis
  proof cases
    case (3 first x xs)
    let ?present = "present_params params"
    from assms c 3 obtain hit where hit: "primary_tool_if_fits reg primary cands ?present = Inr hit"
      by (auto simp: pick_tool_def Let_def)
    show ?thesis
    proof (cases hit)
      case (Some ht)
      with assms c 3 hit have "hit = Some (tid, t)" by (auto simp: pick_tool_def Let_def split: prod.splits)
      with hit c show ?thesis by (auto simp: primary_tool_if_fits_def split: if_splits option.splits)
    next
      case None
      from assms c 3 hit None obtain best where best: "best_specificity_tool reg ?present None cands = Inr best"
        by (auto simp: pick_tool_def Let_def)
      show ?thesis
      proof (cases best)
        case (Some bt)
        with assms c 3 hit None best have "best = Some (tid, t)" by (auto simp: pick_tool_def Let_def split: prod.splits)
        with best_specificity_best [OF best best_of_None] c show ?thesis by (auto simp: best_of_def)
      next
        case best_None: None
        with assms c 3 hit None best show ?thesis by (auto simp: pick_tool_def Let_def split: if_splits)
      qed
    qed
  qed (use assms c in \<open>auto simp: pick_tool_def\<close>)
qed

section \<open>Properties\<close>

text \<open>
  C14: a step only ever runs a tool of its agent. For an agent record that passed its validators and
  whose fast path, if it has one, is enabled, the tool selected for a step is an active tool the agent
  declares; and a step that names a tool runs that tool or none.
\<close>

theorem selection_within_toolset:
  assumes "cross_field_rules a = None" and "\<forall>fp. ag_fast_path a = Some fp \<longrightarrow> fp_enabled fp"
    and "select_tool reg a s params = Inr (tid, Some t)"
  shows "tid \<in> tr_tool_id ` set (ag_tool_refs a) \<and> active_tool reg tid = Inr (Some t)
    \<and> (\<forall>x. es_tool_id s = Some x \<and> strip x \<noteq> [] \<longrightarrow> tid = strip x)"
proof -
  let ?e = "strip (case es_tool_id s of None \<Rightarrow> [] | Some t \<Rightarrow> t)"
  show ?thesis
  proof (cases "?e = []")
    case False
    with assms(3) show ?thesis by (auto simp: select_tool_def Let_def split: if_splits)
  next
    case True
    with assms(3) have p: "pick_tool reg a params = Inr (tid, Some t)" by (simp add: select_tool_def)
    have prim: "fp_primary_tool_id fp \<in> tr_tool_id ` set (ag_tool_refs a)" if "ag_fast_path a = Some fp" for fp
      using cross_field_rules_fast_path [OF assms(1) that] assms(2) that by blast
    from pick_tool_Inr [OF p] prim have "tid \<in> tr_tool_id ` set (ag_tool_refs a)"
      by (auto simp: candidate_tool_ids_def Let_def split: if_splits option.splits)
    with pick_tool_Inr [OF p] True show ?thesis by auto
  qed
qed

text \<open>Two tools that fit by shape; the one that needs a ticket is the more specific.\<close>

definition shaped_tool :: "string \<Rightarrow> string list \<Rightarrow> tool_record" where
  "shaped_tool i needs = sample_tool\<lparr>rec_id := i, tl_parameters :=
     map (\<lambda>n. \<lparr>tp_name = n, tp_type = ''string'', tp_required = True, tp_data_classification = DC_INTERNAL\<rparr>) needs\<rparr>"

definition shaped_file :: "string \<Rightarrow> string list \<Rightarrow> (string list \<times> string) \<times> tool_record reg_file" where
  "shaped_file i needs = (([], i), Envelope \<lparr>env_id = i, env_versions = [(1, shaped_tool i needs)], env_active_version = Some 1\<rparr>)"

definition shaped_registry :: registry where
  "shaped_registry = \<lparr>agents = [], tools = [shaped_file ''search'' [''query''], shaped_file ''show'' [''ticket_id''],
     shaped_file ''other'' [''query'']], schemas = []\<rparr>"

definition shaped_agent :: agent_record where
  "shaped_agent = (sample_agent ''x'' [])\<lparr>ag_tool_refs := [\<lparr>tr_tool_id = ''search'', tr_version = 1\<rparr>, \<lparr>tr_tool_id = ''show'', tr_version = 1\<rparr>]\<rparr>"

definition shaped_params :: "(string \<times> json) list" where
  "shaped_params = [(''query'', JStr ''vpn''), (''ticket_id'', JStr ''INC0000001'')]"

lemma shaped_selects:
  "select_tool shaped_registry shaped_agent (sample_step ''x'' []) shaped_params = Inr (''show'', Some (shaped_tool ''show'' [''ticket_id'']))"
  by code_simp

theorem selection_within_toolset_witness:
  "''show'' \<in> tr_tool_id ` set (ag_tool_refs shaped_agent)"
proof -
  have "cross_field_rules shaped_agent = None" "ag_fast_path shaped_agent = None" by code_simp+
  with selection_within_toolset [OF _ _ shaped_selects] show ?thesis by simp
qed

text \<open>
  Among several tools the most specific one that fits is chosen. The scan returns a tool whose
  required parameters are all given and whose score (number of required parameters, then number of
  entity-shaped ones) no fitting candidate exceeds, and returns nothing only if no candidate fits.
\<close>

theorem most_specific_tool:
  assumes "best_specificity_tool reg present None tids = Inr r"
  shows "(\<forall>i t. r = Some (i, t) \<longrightarrow> i \<in> set tids \<and> active_tool reg i = Inr (Some t) \<and> fits present t)
    \<and> (\<forall>i t. i \<in> set tids \<and> active_tool reg i = Inr (Some t) \<and> fits present t \<longrightarrow>
         (\<exists>j b. r = Some (j, b) \<and> \<not> lex_less (score b) (score t)))"
  using best_specificity_best [OF assms best_of_None] by (simp only: best_of_def Un_empty_left)

theorem most_specific_tool_witness:
  "fits {''query'', ''ticket_id''} (shaped_tool ''show'' [''ticket_id''])"
proof -
  have "best_specificity_tool shaped_registry {''query'', ''ticket_id''} None [''search'', ''show'']
      = Inr (Some (''show'', shaped_tool ''show'' [''ticket_id'']))" by code_simp
  from most_specific_tool [OF this] show ?thesis by blast
qed

definition escaping_agent :: agent_record where
  "escaping_agent = shaped_agent\<lparr>ag_fast_path := Some \<lparr>fp_enabled = False, fp_primary_tool_id = ''other'',
     fp_input_fields = [], fp_response_schema_ref = None\<rparr>\<rparr>"

definition escaping_params :: "(string \<times> json) list" where
  "escaping_params = [(''title'', JStr ''x'')]"

text \<open>
  A disabled fast path escapes the tool set. An agent record can pass all its validators, name in a
  disabled fast path a primary tool it does not declare, and still have that tool selected when no
  declared tool fits the parameters of the step.
\<close>

theorem disabled_fast_path_escapes:
  "cross_field_rules escaping_agent = None \<and> ''other'' \<notin> tr_tool_id ` set (ag_tool_refs escaping_agent)
   \<and> select_tool shaped_registry escaping_agent (sample_step ''x'' []) escaping_params
       = Inr (''other'', Some (shaped_tool ''other'' [''query'']))"
proof (intro conjI)
  show "cross_field_rules escaping_agent = None" by code_simp
  show "''other'' \<notin> tr_tool_id ` set (ag_tool_refs escaping_agent)" by code_simp
  show "select_tool shaped_registry escaping_agent (sample_step ''x'' []) escaping_params
       = Inr (''other'', Some (shaped_tool ''other'' [''query'']))" by code_simp
qed

section \<open>What a step returns\<close>

lemma invoke_handler_cases:
  obtains out lat where "h arguments ctx timeout = (HReturned out, lat)"
      "invoke_handler fmt h arguments ctx s tid timeout = WorkResult (make_result s ''success'' out None tid (Some lat))"
  | j lat where "h arguments ctx timeout = (HInterrupt j, lat)" "invoke_handler fmt h arguments ctx s tid timeout = WorkInterrupt j"
  | ending lat where "invoke_handler fmt h arguments ctx s tid timeout = WorkResult (handler_error_result fmt s tid timeout ending lat)"
proof -
  obtain e lat where e: "h arguments ctx timeout = (e, lat)" by fastforce
  show ?thesis using e that by (cases e) (simp_all add: invoke_handler_def)
qed

text \<open>What holds of any outcome of a step that is not a pause.\<close>

definition typed_outcome :: "step_env \<Rightarrow> exec_step \<Rightarrow> bool \<Rightarrow> work_outcome \<Rightarrow> bool" where
  "typed_outcome se s may_succeed out \<longleftrightarrow>
     (case out of
        WorkResult r \<Rightarrow> res_step_id r = es_step_id s
          \<and> (res_status r = ''success'' \<and> may_succeed \<and> res_error r = None \<or> res_status r = ''failed'' \<and> res_error r \<noteq> None)
      | WorkInterrupt _ \<Rightarrow> True
      | WorkRaise m \<Rightarrow> se_elicitation se \<and> (\<exists>param service ctx. se_elicit se param service ctx = Inl m))"

lemma fill_slot_stop: "fill_slot se t ctx arguments = Inl out \<Longrightarrow> typed_outcome se s ok out"
  by (auto simp: fill_slot_def typed_outcome_def split: if_splits option.splits sum.splits elicited.splits prod.splits) metis

lemma run_selected_typed: "typed_outcome se s True (run_selected se s req prev bound tid t)"
proof (cases "fst (resolve (se_importer se) (se_resolver se) (tl_handler_ref t))")
  case (Inl e)
  then show ?thesis by (simp add: run_selected_def typed_outcome_def make_result_def)
next
  case (Inr h)
  let ?ctx = "build_handler_context req prev bound" and ?args = "merge_bound (es_parameters s) bound"
  let ?timeout = "if tl_timeout_ms t \<noteq> 0 then tl_timeout_ms t else se_default_timeout_ms se"
  show ?thesis
  proof (cases "fill_slot se t ?ctx ?args")
    case (Inl out)
    with Inr fill_slot_stop [OF Inl] show ?thesis by (simp add: run_selected_def Let_def)
  next
    case fs: (Inr args')
    have r: "run_selected se s req prev bound tid t = invoke_handler (se_fmt se) h args' ?ctx s tid ?timeout"
      using Inr fs by (simp add: run_selected_def Let_def)
    show ?thesis
      unfolding r
      by (rule invoke_handler_cases [of h args' ?ctx ?timeout "se_fmt se" s tid])
        (simp_all add: typed_outcome_def make_result_def handler_error_result_def)
  qed
qed

lemma handler_step_run_cases:
  assumes "handler_step_run se s req prev bound = Inr out"
  obtains (refused) err where "out = WorkResult (make_result s ''failed'' JNull (Some err) [] None)"
  | (ran) a tid t where "agents_get_optional (se_registry se) (strip (es_agent_id s)) = Inr (Some a)"
      "select_tool (se_registry se) a s (es_parameters s) = Inr (tid, Some t)"
      "out = run_selected se s req prev bound tid t"
proof (cases "strip (es_agent_id s) = []")
  case True
  with assms have "\<exists>err. out = WorkResult (make_result s ''failed'' JNull (Some err) [] None)" by (auto simp: handler_step_run_def)
  then show ?thesis using refused by blast
next
  case False
  then obtain ao where ao: "agents_get_optional (se_registry se) (strip (es_agent_id s)) = Inr ao"
    using assms by (cases "agents_get_optional (se_registry se) (strip (es_agent_id s))") (simp_all add: handler_step_run_def)
  show ?thesis
  proof (cases ao)
    case None
    with False ao assms have "\<exists>err. out = WorkResult (make_result s ''failed'' JNull (Some err) [] None)" by (auto simp: handler_step_run_def)
    then show ?thesis using refused by blast
  next
    case (Some a)
    then obtain tid to where to: "select_tool (se_registry se) a s (es_parameters s) = Inr (tid, to)"
      using False ao assms by (cases "select_tool (se_registry se) a s (es_parameters s)") (auto simp: handler_step_run_def)
    show ?thesis
    proof (cases to)
      case None
      with False ao Some to assms have "\<exists>err. out = WorkResult (make_result s ''failed'' JNull (Some err) [] None)"
        by (auto simp: handler_step_run_def)
      then show ?thesis using refused by blast
    next
      case (Some t)
      with False ao \<open>ao = Some a\<close> to assms have "out = run_selected se s req prev bound tid t" by (simp add: handler_step_run_def)
      with ran ao \<open>ao = Some a\<close> to Some show ?thesis by blast
    qed
  qed
qed

text \<open>
  A step never escapes its type. Unless the registry raises, or the slot-filling question does, running a step pauses for the
  user or returns a result for that very step, which is a success without an error or a failure with
  one; it can be a success only if the agent is active and an active tool was selected whose handler
  resolves.
\<close>

theorem handler_step_typed:
  assumes "handler_step_run se s req prev bound = Inr out"
  shows "typed_outcome se s (\<exists>a tid t h. agents_get_optional (se_registry se) (strip (es_agent_id s)) = Inr (Some a)
       \<and> select_tool (se_registry se) a s (es_parameters s) = Inr (tid, Some t)
       \<and> fst (resolve (se_importer se) (se_resolver se) (tl_handler_ref t)) = Inr h) out"
  using assms
proof (cases rule: handler_step_run_cases)
  case (refused err)
  then show ?thesis by (simp add: typed_outcome_def make_result_def)
next
  case (ran a tid t)
  show ?thesis
  proof (cases "fst (resolve (se_importer se) (se_resolver se) (tl_handler_ref t))")
    case (Inl e)
    with ran show ?thesis by (simp add: run_selected_def typed_outcome_def make_result_def)
  next
    case (Inr h)
    with ran have "\<exists>a tid t h. agents_get_optional (se_registry se) (strip (es_agent_id s)) = Inr (Some a)
      \<and> select_tool (se_registry se) a s (es_parameters s) = Inr (tid, Some t)
      \<and> fst (resolve (se_importer se) (se_resolver se) (tl_handler_ref t)) = Inr h" by blast
    then show ?thesis using run_selected_typed [of se s req prev bound tid t] ran(3) by (simp only: simp_thms)
  qed
qed

definition echo_step :: step_handler where
  "echo_step arguments ctx timeout = (HReturned (JObj arguments), 7)"

definition sample_step_env :: step_env where
  "sample_step_env = \<lparr>se_registry = tool_registry, se_importer = (\<lambda>_ _. Callable echo_step),
     se_resolver = \<lparr>hr_explicit = [], hr_import_cache = []\<rparr>, se_default_timeout_ms = 30000, se_elicitation = True,
     se_elicit = maybe_elicit_entity [(''INC'', ''incident'')] (\<lambda>_ _. []) (\<lambda>_. None) (\<lambda>_. Inr None), se_fmt = int_str\<rparr>"

definition sample_step_outcome :: work_outcome where
  "sample_step_outcome = WorkResult (make_result (sample_step ''x'' []) ''success'' (JObj []) None ''tool1'' (Some 7))"

theorem handler_step_typed_witness:
  "\<exists>a. agents_get_optional tool_registry ''x'' = Inr (Some a)"
proof -
  have run: "handler_step_run sample_step_env (sample_step ''x'' []) sample_request [] [] = Inr sample_step_outcome"
    by code_simp
  have "se_registry sample_step_env = tool_registry" "strip (es_agent_id (sample_step ''x'' [])) = ''x''" by code_simp+
  with handler_step_typed [OF run] show ?thesis
    by (auto simp: typed_outcome_def sample_step_outcome_def make_result_def)
qed

text \<open>The production executor keeps the label contract of the wave loop.\<close>

lemma handler_work_labels:
  assumes "xr_work xr = handler_work message se"
  shows "labels_results xr"
  unfolding labels_results_def
proof (intro allI impI)
  fix s req prev bound r assume "xr_work xr s req prev bound = WorkResult r"
  then have "handler_work message se s req prev bound = WorkResult r" using assms by simp
  then have "handler_step_run se s req prev bound = Inr (WorkResult r)"
    by (cases "handler_step_run se s req prev bound") (simp_all add: handler_work_def)
  then show "res_step_id r = es_step_id s"
  proof (cases rule: handler_step_run_cases)
    case (ran a tid t)
    have "typed_outcome se s True (WorkResult r)" unfolding ran(3) by (rule run_selected_typed)
    then show ?thesis by (simp add: typed_outcome_def)
  qed (simp add: make_result_def)
qed

end
