(* ===== verification/Session.thy ===== *)
theory Session
  imports Executor
begin

text \<open>
  Conversation history (\<open>session/backend.py\<close>, \<open>session/store.py\<close>, and the turn recording of
  \<open>executor/nodes.py\<close>): the append-only cold log, the bounded hot window, the store composed of the
  two, and \<open>append_turn_events\<close>. The two protocols are locales, interpreted on the in-memory backends.
  A missing tenant or session id is a \<open>ValueError\<close>, the left value of the results.
\<close>

section \<open>The two protocols\<close>

text \<open>\<open>EventLog\<close>: \<open>events l k\<close> is the history of the session \<open>k\<close>.\<close>

locale event_log =
  fixes append' :: "'l \<Rightarrow> 'k \<Rightarrow> 'e \<Rightarrow> 'l"
    and prune' :: "'l \<Rightarrow> ('k \<Rightarrow> bool) \<Rightarrow> ('e \<Rightarrow> bool) \<Rightarrow> 'l"
    and events :: "'l \<Rightarrow> 'k \<Rightarrow> 'e list"
  assumes append_events: "events (append' l k e) j = (if j = k then events l k @ [e] else events l j)"
    and prune_events: "events (prune' l scope keep) j = (if scope j then filter keep (events l j) else events l j)"
begin

lemma append_prefix: "prefix (events l j) (events (append' l k e) j)"
  by (simp add: append_events)

lemma prune_foreign: "\<not> scope j \<Longrightarrow> events (prune' l scope keep) j = events l j"
  by (simp add: prune_events)

end

text \<open>\<open>HotWindow\<close>: \<open>cached h k\<close> is the window of the session \<open>k\<close>, \<open>None\<close> on a miss.\<close>

locale hot_window =
  fixes push' :: "'h \<Rightarrow> 'k \<Rightarrow> 'e \<Rightarrow> nat \<Rightarrow> 'h"
    and replace' :: "'h \<Rightarrow> 'k \<Rightarrow> 'e list \<Rightarrow> 'h"
    and evict' :: "'h \<Rightarrow> 'k \<Rightarrow> 'h"
    and cached :: "'h \<Rightarrow> 'k \<Rightarrow> 'e list option"
  assumes push_cached: "cached (push' h k e n) j =
      (if j = k then map_option (\<lambda>w. last_n n (w @ [e])) (cached h k) else cached h j)"
    and replace_cached: "cached (replace' h k es) j = (if j = k then Some es else cached h j)"
    and evict_cached: "cached (evict' h k) j = (if j = k then None else cached h j)"
begin

text \<open>A window that mirrors the end of a history still does after the same event went to both.\<close>

lemma push_mirrors:
  assumes "\<And>w. cached h k = Some w \<Longrightarrow> w = last_n n es" "0 < n"
  shows "cached (push' h k e n) k = Some w \<Longrightarrow> w = last_n n (es @ [e])"
  using assms by (auto simp: push_cached last_n_snoc)

end

section \<open>In-memory backends\<close>

record conversation_event =
  ev_session_id :: string
  ev_turn_role :: string
  ev_content :: string
  ev_turn_index :: int
  ev_occurred_at :: int

type_synonym skey = "string \<times> string"

definition session_key :: "string \<Rightarrow> string \<Rightarrow> string + skey" where
  "session_key tenant session =
     (if tenant = [] then Inl ''tenant_id is mandatory - no session access is tenant-less''
      else if session = [] then Inl ''session_id is mandatory''
      else Inr (tenant, session))"

record cold_log =
  cl_log :: "(skey \<times> (int \<times> conversation_event) list) list"
  cl_seq :: int

definition cl_entries :: "cold_log \<Rightarrow> skey \<Rightarrow> (int \<times> conversation_event) list" where
  "cl_entries l k = (case map_of (cl_log l) k of None \<Rightarrow> [] | Some es \<Rightarrow> es)"

definition cl_events :: "cold_log \<Rightarrow> skey \<Rightarrow> conversation_event list" where
  "cl_events l k = map snd (cl_entries l k)"

definition cold_append :: "cold_log \<Rightarrow> skey \<Rightarrow> conversation_event \<Rightarrow> cold_log" where
  "cold_append l k e =
     l\<lparr>cl_seq := cl_seq l + 1, cl_log := AList.update k (cl_entries l k @ [(cl_seq l + 1, e)]) (cl_log l)\<rparr>"

definition cold_read :: "cold_log \<Rightarrow> skey \<Rightarrow> int \<Rightarrow> conversation_event list" where
  "cold_read l k from_turn = filter (\<lambda>e. ev_turn_index e \<ge> from_turn) (cl_events l k)"

definition cold_prune :: "cold_log \<Rightarrow> (skey \<Rightarrow> bool) \<Rightarrow> (conversation_event \<Rightarrow> bool) \<Rightarrow> cold_log" where
  "cold_prune l scope keep =
     l\<lparr>cl_log := map (\<lambda>(k, es). (k, if scope k then filter (keep \<circ> snd) es else es)) (cl_log l)\<rparr>"

definition cold_removed :: "cold_log \<Rightarrow> (skey \<Rightarrow> bool) \<Rightarrow> (conversation_event \<Rightarrow> bool) \<Rightarrow> nat" where
  "cold_removed l scope keep =
     sum_list (map (\<lambda>(k, es). if scope k then length es - length (filter (keep \<circ> snd) es) else 0) (cl_log l))"

type_synonym hot_cache = "(skey \<times> conversation_event list) list"

definition hot_push :: "hot_cache \<Rightarrow> skey \<Rightarrow> conversation_event \<Rightarrow> nat \<Rightarrow> hot_cache" where
  "hot_push h k e n =
     (case map_of h k of None \<Rightarrow> h | Some w \<Rightarrow> AList.update k (last_n n (w @ [e])) h)"

definition hot_replace :: "hot_cache \<Rightarrow> skey \<Rightarrow> conversation_event list \<Rightarrow> hot_cache" where
  "hot_replace h k es = AList.update k es h"

definition hot_evict :: "hot_cache \<Rightarrow> skey \<Rightarrow> hot_cache" where
  "hot_evict h k = AList.delete k h"

lemma map_of_map_value: "map_of (map (\<lambda>(k, v). (k, f k v)) al) j = map_option (f j) (map_of al j)"
  by (induction al) auto

interpretation cold: event_log cold_append cold_prune cl_events
  by unfold_locales
    (auto simp: cl_events_def cl_entries_def cold_append_def cold_prune_def update_conv map_of_map_value filter_map comp_def
      split: option.splits)

interpretation hot: hot_window hot_push hot_replace hot_evict map_of
  by unfold_locales
    (auto simp: hot_push_def hot_replace_def hot_evict_def update_conv delete_conv split: option.splits)

section \<open>The session store\<close>

record retention_policy =
  rp_hot_window_events :: int
  rp_cold_retention_days :: int

definition cold_cutoff :: "retention_policy \<Rightarrow> int \<Rightarrow> int" where
  "cold_cutoff p now = now - rp_cold_retention_days p * 86400000"

record session_store =
  st_cold :: cold_log
  st_hot :: hot_cache
  st_retention :: retention_policy

text \<open>\<open>append\<close>: cold first; a push with a window smaller than one raises after the cold write.\<close>

definition store_append ::
  "session_store \<Rightarrow> string \<Rightarrow> string \<Rightarrow> conversation_event \<Rightarrow> (string + int) \<times> session_store" where
  "store_append st tenant session e =
     (case session_key tenant session of
        Inl x \<Rightarrow> (Inl x, st)
      | Inr k \<Rightarrow>
          let st1 = st\<lparr>st_cold := cold_append (st_cold st) k e\<rparr>; n = rp_hot_window_events (st_retention st)
          in if n < 1 then (Inl ''max_events must be >= 1'', st1)
             else (Inr (cl_seq (st_cold st1)), st1\<lparr>st_hot := hot_push (st_hot st) k e (nat n)\<rparr>))"

text \<open>\<open>full[-n:]\<close> keeps the last \<open>n\<close> for a positive \<open>n\<close>, and otherwise drops the first \<open>-n\<close>.\<close>

definition store_recent ::
  "session_store \<Rightarrow> string \<Rightarrow> string \<Rightarrow> (string + conversation_event list) \<times> session_store" where
  "store_recent st tenant session =
     (case session_key tenant session of
        Inl x \<Rightarrow> (Inl x, st)
      | Inr k \<Rightarrow>
          (case map_of (st_hot st) k of
             Some w \<Rightarrow> (Inr w, st)
           | None \<Rightarrow>
               let full = cold_read (st_cold st) k 0; n = rp_hot_window_events (st_retention st);
                   window = (if n > 0 then last_n (nat n) full else drop (nat (- n)) full)
               in (Inr window, st\<lparr>st_hot := hot_replace (st_hot st) k window\<rparr>)))"

definition store_replay :: "session_store \<Rightarrow> string \<Rightarrow> string \<Rightarrow> int \<Rightarrow> string + conversation_event list" where
  "store_replay st tenant session from_turn =
     (case session_key tenant session of Inl x \<Rightarrow> Inl x | Inr k \<Rightarrow> Inr (cold_read (st_cold st) k from_turn))"

definition apply_retention :: "session_store \<Rightarrow> string \<Rightarrow> int \<Rightarrow> (string + nat) \<times> session_store" where
  "apply_retention st tenant now =
     (if tenant = [] then (Inl ''tenant_id is mandatory'', st)
      else let cutoff = cold_cutoff (st_retention st) now; scope = (\<lambda>k. fst k = tenant);
               keep = (\<lambda>e. ev_occurred_at e \<ge> cutoff)
           in (Inr (cold_removed (st_cold st) scope keep), st\<lparr>st_cold := cold_prune (st_cold st) scope keep\<rparr>))"

section \<open>Recording a turn\<close>

definition is_user_event :: "string \<Rightarrow> conversation_event \<Rightarrow> bool" where
  "is_user_event msg e \<longleftrightarrow> ev_turn_role e = ''user'' \<and> ev_content e = msg"

definition mk_event :: "string \<Rightarrow> string \<Rightarrow> string \<Rightarrow> int \<Rightarrow> int \<Rightarrow> conversation_event" where
  "mk_event session role content idx now =
     \<lparr>ev_session_id = session, ev_turn_role = role, ev_content = content, ev_turn_index = idx, ev_occurred_at = now\<rparr>"

definition append_turn_events ::
  "session_store \<Rightarrow> string \<Rightarrow> string \<Rightarrow> int \<Rightarrow> string \<Rightarrow> string \<Rightarrow> (string + unit) \<times> session_store" where
  "append_turn_events st tenant session now user assistant =
     (if tenant = [] \<or> session = [] then (Inr (), st)
      else case store_recent st tenant session of
        (Inl x, st1) \<Rightarrow> (Inl x, st1)
      | (Inr existing, st1) \<Rightarrow>
          let base = int (length existing);
              dup = (user \<noteq> [] \<and> list_ex (is_user_event user) (last_n 2 existing))
          in case (if user \<noteq> [] \<and> \<not> dup
                   then store_append st1 tenant session (mk_event session ''user'' user base now)
                   else (Inr 0, st1)) of
               (Inl x, st2) \<Rightarrow> (Inl x, st2)
             | (Inr _, st2) \<Rightarrow>
                 let base2 = (if user \<noteq> [] \<and> \<not> dup then base + 1 else base)
                 in if assistant = [] then (Inr (), st2)
                    else (case store_append st2 tenant session (mk_event session ''assistant'' assistant base2 now) of
                            (Inl x, st3) \<Rightarrow> (Inl x, st3)
                          | (Inr _, st3) \<Rightarrow> (Inr (), st3)))"

text \<open>The \<open>persist\<close> node: nothing without a store.\<close>

definition persist :: "session_store option \<Rightarrow> executor_state \<Rightarrow> int \<Rightarrow> (string + unit) \<times> session_store option" where
  "persist store st now =
     (case store of
        None \<Rightarrow> (Inr (), None)
      | Some ss \<Rightarrow>
          if x_tenant_id st = [] \<or> x_session_id st = [] then (Inr (), store)
          else (case append_turn_events ss (x_tenant_id st) (x_session_id st) now (x_message st) (x_final_response st) of
                  (r, ss') \<Rightarrow> (r, Some ss')))"

section \<open>The hot window mirrors the log\<close>

abbreviation history :: "session_store \<Rightarrow> skey \<Rightarrow> conversation_event list" where
  "history st \<equiv> cl_events (st_cold st)"

abbreviation window_size :: "session_store \<Rightarrow> nat" where
  "window_size st \<equiv> nat (rp_hot_window_events (st_retention st))"

definition coherent :: "session_store \<Rightarrow> bool" where
  "coherent st \<longleftrightarrow> 0 < rp_hot_window_events (st_retention st)
     \<and> (\<forall>k w. map_of (st_hot st) k = Some w \<longrightarrow> w = last_n (window_size st) (history st k))
     \<and> (\<forall>k. \<forall>e \<in> set (history st k). 0 \<le> ev_turn_index e)"

text \<open>
  The stores reached by appending, reading, evicting and retention. A retention run prunes the log and
  leaves the cached windows alone, so only a run that spares the sessions with a cached window keeps the
  two in step (\<open>stale_window_after_retention\<close> shows the other case).
\<close>

definition retention_spares_cached :: "session_store \<Rightarrow> string \<Rightarrow> int \<Rightarrow> bool" where
  "retention_spares_cached st t now \<longleftrightarrow>
     (\<forall>(k, w) \<in> set (st_hot st). history (snd (apply_retention st t now)) k = history st k)"

inductive session_reachable :: "session_store \<Rightarrow> bool" where
  ss_start: "0 < rp_hot_window_events p \<Longrightarrow>
     session_reachable \<lparr>st_cold = \<lparr>cl_log = [], cl_seq = 0\<rparr>, st_hot = [], st_retention = p\<rparr>"
| ss_append: "session_reachable st \<Longrightarrow> 0 \<le> ev_turn_index e \<Longrightarrow> session_reachable (snd (store_append st t s e))"
| ss_recent: "session_reachable st \<Longrightarrow> session_reachable (snd (store_recent st t s))"
| ss_evict: "session_reachable st \<Longrightarrow> session_reachable (st\<lparr>st_hot := hot_evict (st_hot st) k\<rparr>)"
| ss_retain: "session_reachable st \<Longrightarrow> retention_spares_cached st t now \<Longrightarrow> session_reachable (snd (apply_retention st t now))"

lemma coherentD:
  assumes "coherent st"
  shows "0 < rp_hot_window_events (st_retention st)"
    and "map_of (st_hot st) k = Some w \<Longrightarrow> w = last_n (window_size st) (history st k)"
    and "e \<in> set (history st k) \<Longrightarrow> 0 \<le> ev_turn_index e"
  using assms unfolding coherent_def by blast+

lemma coherentI:
  assumes "0 < rp_hot_window_events (st_retention st)"
    and "\<And>k w. map_of (st_hot st) k = Some w \<Longrightarrow> w = last_n (window_size st) (history st k)"
    and "\<And>k e. e \<in> set (history st k) \<Longrightarrow> 0 \<le> ev_turn_index e"
  shows "coherent st"
  using assms unfolding coherent_def by blast

lemma store_append_shape:
  assumes "coherent st" "session_key t s = Inr k"
  shows "store_append st t s e = (Inr (cl_seq (st_cold st) + 1),
     st\<lparr>st_cold := cold_append (st_cold st) k e, st_hot := hot_push (st_hot st) k e (window_size st)\<rparr>)"
  using assms coherentD(1) [OF assms(1)] by (simp add: store_append_def cold_append_def Let_def)

lemma coherent_append [invs]:
  assumes c: "coherent st" and e: "0 \<le> ev_turn_index e"
  shows "coherent (snd (store_append st t s e))"
proof (cases "session_key t s")
  case (Inl x)
  with c show ?thesis by (simp add: store_append_def)
next
  case (Inr k)
  let ?st = "st\<lparr>st_cold := cold_append (st_cold st) k e, st_hot := hot_push (st_hot st) k e (window_size st)\<rparr>"
  have "coherent ?st"
  proof (rule coherentI, goal_cases)
    case 1
    show ?case using coherentD(1) [OF c] by simp
  next
    case (2 j w)
    show ?case
    proof (cases "j = k")
      case True
      have "w = last_n (window_size st) (history st k @ [e])"
        using 2 True coherentD(1) [OF c] by (intro hot.push_mirrors [OF coherentD(2) [OF c]]) simp_all
      with True show ?thesis by (simp add: cold.append_events)
    next
      case False
      with 2 have "map_of (st_hot st) j = Some w" by (simp add: hot.push_cached)
      from coherentD(2) [OF c this] False show ?thesis by (simp add: cold.append_events)
    qed
  next
    case (3 j x)
    then have "x \<in> set (history st j) \<or> x = e" by (auto simp: cold.append_events split: if_splits)
    with coherentD(3) [OF c] e show ?case by blast
  qed
  then show ?thesis by (simp add: store_append_shape [OF c Inr])
qed

lemma cold_read_all: "coherent st \<Longrightarrow> cold_read (st_cold st) k 0 = history st k"
  unfolding cold_read_def by (rule filter_True) (blast dest: coherentD(3))

lemma recent_coherent:
  assumes c: "coherent st" and k: "session_key t s = Inr k"
  shows "store_recent st t s = (Inr (last_n (window_size st) (history st k)),
    case map_of (st_hot st) k of Some w \<Rightarrow> st
      | None \<Rightarrow> st\<lparr>st_hot := hot_replace (st_hot st) k (last_n (window_size st) (history st k))\<rparr>)"
proof (cases "map_of (st_hot st) k")
  case None
  with k coherentD(1) [OF c] show ?thesis by (simp add: store_recent_def Let_def cold_read_all [OF c])
next
  case (Some w)
  with k coherentD(2) [OF c Some] show ?thesis by (simp add: store_recent_def)
qed

lemma coherent_recent [invs]:
  assumes c: "coherent st"
  shows "coherent (snd (store_recent st t s))"
proof (cases "session_key t s")
  case (Inr k)
  let ?st = "st\<lparr>st_hot := hot_replace (st_hot st) k (last_n (window_size st) (history st k))\<rparr>"
  have "coherent ?st"
    using coherentD [OF c] by (intro coherentI) (auto simp: hot.replace_cached split: if_splits)
  with c show ?thesis by (simp add: recent_coherent [OF c Inr] split: option.split)
qed (simp add: store_recent_def c)

lemma coherent_evict [invs]:
  assumes c: "coherent st"
  shows "coherent (st\<lparr>st_hot := hot_evict (st_hot st) k\<rparr>)"
  using coherentD [OF c] by (intro coherentI) (auto simp: hot.evict_cached split: if_splits)

lemma coherent_start: "0 < rp_hot_window_events p \<Longrightarrow>
    coherent \<lparr>st_cold = \<lparr>cl_log = [], cl_seq = 0\<rparr>, st_hot = [], st_retention = p\<rparr>"
  by (rule coherentI) (simp_all add: cl_events_def cl_entries_def)

lemma apply_retention_history:
  "history (snd (apply_retention st t now)) k =
     (if t \<noteq> [] \<and> fst k = t
      then filter (\<lambda>e. cold_cutoff (st_retention st) now \<le> ev_occurred_at e) (history st k) else history st k)"
  by (auto simp: apply_retention_def Let_def cold.prune_events)

lemma coherent_retain [invs]:
  assumes c: "coherent st" and spares: "retention_spares_cached st t now"
  shows "coherent (snd (apply_retention st t now))"
proof (rule coherentI)
  let ?st = "snd (apply_retention st t now)"
  have same: "st_hot ?st = st_hot st" "st_retention ?st = st_retention st"
    by (auto simp: apply_retention_def Let_def)
  show "0 < rp_hot_window_events (st_retention ?st)" using coherentD(1) [OF c] same by simp
  show "w = last_n (window_size ?st) (history ?st k)" if "map_of (st_hot ?st) k = Some w" for k w
    using that coherentD(2) [OF c, of k w] spares same map_of_SomeD [of "st_hot st" k w]
    by (auto simp: retention_spares_cached_def)
  show "0 \<le> ev_turn_index e" if "e \<in> set (history ?st k)" for k e
    using that coherentD(3) [OF c, of e k] by (auto simp: apply_retention_history split: if_splits)
qed

lemma reachable_coherent: "session_reachable st \<Longrightarrow> coherent st"
  by (induction rule: session_reachable.induct) (blast intro: coherent_start invs)+

lemma store_append_history:
  assumes "coherent st" "session_key t s = Inr k"
  shows "history (snd (store_append st t s e)) j = (if j = k then history st k @ [e] else history st j)"
    and "st_retention (snd (store_append st t s e)) = st_retention st"
  by (simp_all add: store_append_shape [OF assms] cold.append_events)

lemma store_recent_history: "history (snd (store_recent st t s)) = history st"
    "st_retention (snd (store_recent st t s)) = st_retention st"
  by (auto simp: store_recent_def Let_def split: sum.splits option.splits)

lemma key_ok: "t \<noteq> [] \<Longrightarrow> s \<noteq> [] \<Longrightarrow> session_key t s = Inr (t, s)"
  by (simp add: session_key_def)

text \<open>What one turn adds to a history: the user event unless it is among the last two, then the reply.\<close>

definition turn_events ::
  "nat \<Rightarrow> conversation_event list \<Rightarrow> string \<Rightarrow> int \<Rightarrow> string \<Rightarrow> string \<Rightarrow> conversation_event list" where
  "turn_events n h session now user assistant =
     (let w = last_n n h; base = int (length w);
          fresh = (user \<noteq> [] \<and> \<not> list_ex (is_user_event user) (last_n 2 w))
      in (if fresh then [mk_event session ''user'' user base now] else [])
         @ (if assistant \<noteq> []
            then [mk_event session ''assistant'' assistant (if fresh then base + 1 else base) now] else []))"

lemma mk_event_simps [simp]:
  "ev_turn_index (mk_event s r c i now) = i" "ev_turn_role (mk_event s r c i now) = r"
  "ev_content (mk_event s r c i now) = c"
  by (simp_all add: mk_event_def)

lemma append_step:
  assumes "session_reachable st" "session_key t s = Inr k" "0 \<le> ev_turn_index e"
  obtains i st' where "store_append st t s e = (Inr i, st')" "session_reachable st'"
    "history st' = (history st)(k := history st k @ [e])" "st_retention st' = st_retention st"
proof -
  note c = reachable_coherent [OF assms(1)]
  have "fst (store_append st t s e) = Inr (cl_seq (st_cold st) + 1)"
    by (simp add: store_append_shape [OF c assms(2)])
  moreover have "history (snd (store_append st t s e)) = (history st)(k := history st k @ [e])"
    by (rule ext) (simp add: store_append_history(1) [OF c assms(2)])
  ultimately show thesis
    using that ss_append [OF assms(1,3)] store_append_history(2) [OF c assms(2)] by (metis prod.collapse)
qed

lemma recent_step:
  assumes "session_reachable st" "session_key t s = Inr k"
  obtains st' where "store_recent st t s = (Inr (last_n (window_size st) (history st k)), st')" "session_reachable st'"
    "history st' = history st" "st_retention st' = st_retention st"
  using recent_coherent [OF reachable_coherent [OF assms(1)] assms(2)] ss_recent [OF assms(1)]
    store_recent_history by (metis prod.collapse fst_conv)

section \<open>Properties\<close>

text \<open>
C16: On every store reached by appends, reads, evictions and retention runs that remove nothing from a
session whose window is cached, \<open>recent\<close> returns exactly the newest
\<open>hot_window_events\<close> events of the durable log, whether the window was cached or rebuilt, and the read
changes no history; \<open>replay\<close> returns the whole history.
\<close>

theorem recent_mirrors_log:
  assumes "session_reachable st" "t \<noteq> []" "s \<noteq> []"
  shows "fst (store_recent st t s) = Inr (last_n (window_size st) (history st (t, s)))
    \<and> history (snd (store_recent st t s)) = history st
    \<and> store_replay st t s 0 = Inr (history st (t, s))"
proof (intro conjI)
  note c = reachable_coherent [OF assms(1)] and k = key_ok [OF assms(2,3)]
  show "fst (store_recent st t s) = Inr (last_n (window_size st) (history st (t, s)))"
    by (simp add: recent_coherent [OF c k])
  show "history (snd (store_recent st t s)) = history st" by (rule store_recent_history(1))
  show "store_replay st t s 0 = Inr (history st (t, s))" by (simp add: store_replay_def k cold_read_all [OF c])
qed

lemma turn_step:
  assumes "session_reachable st" "t \<noteq> []" "s \<noteq> []"
  shows "\<exists>st'. append_turn_events st t s now user reply = (Inr (), st') \<and> session_reachable st'
    \<and> history st' = (history st)((t, s) :=
        history st (t, s) @ turn_events (window_size st) (history st (t, s)) s now user reply)
    \<and> st_retention st' = st_retention st"
proof -
  let ?w = "last_n (window_size st) (history st (t, s))" and ?b = "int (length (last_n (window_size st) (history st (t, s))))"
  let ?fresh = "user \<noteq> [] \<and> \<not> list_ex (is_user_event user) (last_n 2 ?w)"
  note k = key_ok [OF assms(2,3)]
  obtain st1 where r: "store_recent st t s = (Inr ?w, st1)" and s1: "session_reachable st1"
    and h1: "history st1 = history st" and p1: "st_retention st1 = st_retention st" using recent_step [OF assms(1) k] by metis
  obtain i st2 where r2: "(if ?fresh then store_append st1 t s (mk_event s ''user'' user ?b now) else (Inr 0, st1)) = (Inr i, st2)"
    and s2: "session_reachable st2"
    and h2: "history st2 = (history st)((t, s) := history st (t, s) @ (if ?fresh then [mk_event s ''user'' user ?b now] else []))"
    and p2: "st_retention st2 = st_retention st"
  proof (cases ?fresh)
    case True
    show thesis by (rule append_step [OF s1 k, of "mk_event s ''user'' user ?b now"])
        (use True that h1 p1 in \<open>simp_all\<close>)
  next
    case False
    show thesis by (rule that [of 0 st1]) (simp_all only: False if_False s1 h1 p1 append_Nil2 fun_upd_triv)
  qed
  let ?b2 = "if ?fresh then ?b + 1 else ?b"
  show ?thesis
  proof (cases "reply = []")
    case True
    then show ?thesis using assms(2,3) r r2 s2 h2 p2
      by (intro exI [of _ st2], cases ?fresh) (auto simp: append_turn_events_def turn_events_def Let_def)
  next
    case False
    obtain j st3 where r3: "store_append st2 t s (mk_event s ''assistant'' reply ?b2 now) = (Inr j, st3)"
      and s3: "session_reachable st3"
      and h3: "history st3 = (history st2)((t, s) := history st2 (t, s) @ [mk_event s ''assistant'' reply ?b2 now])"
      and p3: "st_retention st3 = st_retention st2"
      by (rule append_step [OF s2 k, of "mk_event s ''assistant'' reply ?b2 now"]) auto
    show ?thesis using False assms(2,3) r r2 r3 s3 h2 h3 p2 p3
      by (intro exI [of _ st3], cases ?fresh) (auto simp: append_turn_events_def turn_events_def Let_def)
  qed
qed

text \<open>
  C17: \<open>append_turn_events\<close> succeeds on every store reached as in the property before, retention runs included: the
  history of the session grows by exactly the user message, left out when it is already among the last two events, and the
  reply; no other session changes, the append-only order is kept and the store stays coherent.
\<close>

theorem turn_recorded:
  assumes "session_reachable st" "t \<noteq> []" "s \<noteq> []"
  shows "\<exists>st'. append_turn_events st t s now user reply = (Inr (), st') \<and> session_reachable st'
    \<and> history st' = (history st)((t, s) :=
        history st (t, s) @ turn_events (window_size st) (history st (t, s)) s now user reply)"
  using turn_step [OF assms] by blast

text \<open>The roles and contents of a history.\<close>

definition transcript :: "session_store \<Rightarrow> skey \<Rightarrow> (string \<times> string) list" where
  "transcript st k = map (\<lambda>e. (ev_turn_role e, ev_content e)) (history st k)"

lemma last_2_snoc2: "2 \<le> n \<Longrightarrow> last_n 2 (last_n n (xs @ [x, y])) = [x, y]"
  by (auto simp: last_n_def)

lemma turn_events_after:
  assumes "2 \<le> n" "is_user_event user x" "user \<noteq> []" "reply \<noteq> []"
  shows "map (\<lambda>e. (ev_turn_role e, ev_content e)) (turn_events n (h @ [x, y]) s now user reply) = [(''assistant'', reply)]"
  using assms by (simp add: turn_events_def last_2_snoc2 Let_def)

lemma turn_index_bounded:
  "\<forall>e \<in> set (turn_events n h s now user reply). ev_turn_index e \<le> int n + 1"
  by (auto simp: turn_events_def Let_def)

text \<open>
A message that pauses and resumes is recorded once: when the window holds at least two events and the
message was not already among the last two, recording the same message with a second reply adds only
the reply. The same holds for a message the user really sends twice in a row.
\<close>

theorem resume_records_once:
  assumes "session_reachable st" "t \<noteq> []" "s \<noteq> []" "2 \<le> window_size st"
    and "user \<noteq> []" "reply \<noteq> []" "reply' \<noteq> []"
    and fresh: "\<not> list_ex (is_user_event user) (last_n 2 (last_n (window_size st) (history st (t, s))))"
  shows "transcript (snd (append_turn_events (snd (append_turn_events st t s now user reply)) t s now' user reply')) (t, s)
    = transcript st (t, s) @ [(''user'', user), (''assistant'', reply), (''assistant'', reply')]"
proof -
  obtain st1 where 1: "append_turn_events st t s now user reply = (Inr (), st1)" and s1: "session_reachable st1"
    and h1: "history st1 = (history st)((t, s) :=
        history st (t, s) @ turn_events (window_size st) (history st (t, s)) s now user reply)"
    and n: "st_retention st1 = st_retention st"
    using turn_step [OF assms(1-3)] by metis
  obtain st2 where 2: "append_turn_events st1 t s now' user reply' = (Inr (), st2)"
    and h2: "history st2 = (history st1)((t, s) :=
        history st1 (t, s) @ turn_events (window_size st1) (history st1 (t, s)) s now' user reply')"
    using turn_step [OF s1 assms(2,3)] by metis
  obtain x y where xy: "turn_events (window_size st) (history st (t, s)) s now user reply = [x, y]" "is_user_event user x"
    "ev_turn_role x = ''user'' \<and> ev_content x = user" "ev_turn_role y = ''assistant'' \<and> ev_content y = reply"
    using assms(5,6) fresh by (simp add: turn_events_def Let_def is_user_event_def)
  show ?thesis
    using turn_events_after [OF assms(4) xy(2) assms(5,7)] xy
    by (simp add: 1 2 h1 h2 n transcript_def)
qed

text \<open>
The effect of retention: it removes, from the sessions of the named tenant, exactly the events older than the cutoff,
and leaves every other tenant's history alone; without a tenant it changes nothing. The module's
header says \<open>prune cold, evict hot\<close>, but the hot windows stay as they are.
\<close>

theorem retention_prunes_tenant:
  "history (snd (apply_retention st t now)) k =
     (if t \<noteq> [] \<and> fst k = t
      then filter (\<lambda>e. cold_cutoff (st_retention st) now \<le> ev_occurred_at e) (history st k) else history st k)
   \<and> st_hot (snd (apply_retention st t now)) = st_hot st
   \<and> (t = [] \<longleftrightarrow> (\<exists>x. fst (apply_retention st t now) = Inl x))"
  by (simp add: apply_retention_history) (auto simp: apply_retention_def Let_def)

section \<open>A concrete store\<close>

definition empty_store :: session_store where
  "empty_store = \<lparr>st_cold = \<lparr>cl_log = [], cl_seq = 0\<rparr>, st_hot = [],
     st_retention = \<lparr>rp_hot_window_events = 40, rp_cold_retention_days = 90\<rparr>\<rparr>"

lemma empty_store_reachable: "session_reachable empty_store"
  unfolding empty_store_def by (rule ss_start) simp

definition asked_store :: session_store where
  "asked_store = snd (append_turn_events empty_store ''t1'' ''s1'' 0 ''hi'' ''hello'')"

lemma asked_store_reachable: "session_reachable asked_store"
  using turn_step [OF empty_store_reachable, of "''t1''" "''s1''" 0 "''hi''" "''hello''"]
  by (auto simp: asked_store_def)

theorem recent_mirrors_log_witness:
  "fst (store_recent asked_store ''t1'' ''s1'') = Inr (last_n (window_size asked_store) (history asked_store (''t1'', ''s1'')))
   \<and> transcript asked_store (''t1'', ''s1'') = [(''user'', ''hi''), (''assistant'', ''hello'')]"
proof (rule conjI)
  show "fst (store_recent asked_store ''t1'' ''s1'') = Inr (last_n (window_size asked_store) (history asked_store (''t1'', ''s1'')))"
    using recent_mirrors_log [OF asked_store_reachable, of "''t1''" "''s1''"] by simp
  show "transcript asked_store (''t1'', ''s1'') = [(''user'', ''hi''), (''assistant'', ''hello'')]" by code_simp
qed

theorem turn_recorded_witness:
  "\<exists>st'. append_turn_events asked_store ''t1'' ''s1'' 5 ''more'' ''ok'' = (Inr (), st')
    \<and> history st' (''t1'', ''s1'') = history asked_store (''t1'', ''s1'')
       @ turn_events (window_size asked_store) (history asked_store (''t1'', ''s1'')) ''s1'' 5 ''more'' ''ok''"
  using turn_recorded [OF asked_store_reachable, of "''t1''" "''s1''" 5 "''more''" "''ok''"] by auto

theorem resume_records_once_witness:
  "transcript (snd (append_turn_events (snd (append_turn_events empty_store ''t1'' ''s1'' 0 ''hi'' ''which?''))
     ''t1'' ''s1'' 1 ''hi'' ''hello'')) (''t1'', ''s1'')
   = [(''user'', ''hi''), (''assistant'', ''which?''), (''assistant'', ''hello'')]"
proof -
  have "2 \<le> window_size empty_store" "history empty_store (''t1'', ''s1'') = []" by code_simp+
  with resume_records_once [OF empty_store_reachable, of "''t1''" "''s1''" "''hi''" "''which?''" "''hello''" 0 1]
  show ?thesis by (simp add: transcript_def last_n_def)
qed

text \<open>Retention prunes the log and the cached window keeps serving the pruned events.\<close>

lemma stale_window_after_retention:
  "let st = snd (store_recent asked_store ''t1'' ''s1''); st' = snd (apply_retention st ''t1'' 9999999999)
   in history st' (''t1'', ''s1'') = [] \<and> fst (store_recent st' ''t1'' ''s1'') = fst (store_recent asked_store ''t1'' ''s1'')
      \<and> fst (store_recent asked_store ''t1'' ''s1'') \<noteq> Inr []"
  by code_simp

end
