(* ===== verification/Memory.thy ===== *)
theory Memory
  imports Session ExecSamples
begin

text \<open>
  Conversation memory (\<open>executor/memory.py\<close>) and the \<open>load_session\<close> node: the token estimate, the two
  trimmers, and the history a turn starts from. The summariser is the callback the executor wires to
  the language model; it may raise, return nothing, or return a text.
\<close>

type_synonym message = "string \<times> string"

type_synonym summariser = "message list \<Rightarrow> string \<Rightarrow> string + string option"

text \<open>\<open>ConversationTrimError\<close>, by the values in its text, and what a summariser raises.\<close>

datatype trim_error =
    KeepWindowOverBudget nat int int
  | NoSummariser int int
  | NoTenant
  | EmptySummary

datatype trim_fault = TrimFailed trim_error | SummariserRaised string

record trim_result =
  tr_history :: "message list"
  tr_summary_emitted :: bool
  tr_tokens_before :: int
  tr_tokens_after :: int
  tr_keep_suffix :: nat

definition message_chars :: "message \<Rightarrow> nat" where
  "message_chars m = length (fst m) + length (snd m)"

definition estimate_tokens :: "message list \<Rightarrow> int" where
  "estimate_tokens ms = (if ms = [] then 0 else max 1 (int (sum_list (map message_chars ms)) div 4))"

definition unchanged :: "message list \<Rightarrow> trim_result" where
  "unchanged h = \<lparr>tr_history = h, tr_summary_emitted = False, tr_tokens_before = estimate_tokens h,
     tr_tokens_after = estimate_tokens h, tr_keep_suffix = length h\<rparr>"

definition noop_trim :: "message list \<Rightarrow> string \<Rightarrow> trim_fault + trim_result" where
  "noop_trim h tenant = Inr (unchanged h)"

record token_budget_trimmer =
  tb_max_tokens :: int
  tb_keep_last_turns :: int
  tb_summariser :: "summariser option"

text \<open>The constructor; the left value is the \<open>ValueError\<close>.\<close>

definition token_budget_trimmer_init :: "int \<Rightarrow> int \<Rightarrow> summariser option \<Rightarrow> string + token_budget_trimmer" where
  "token_budget_trimmer_init max_tokens keep summ =
     (if max_tokens \<le> 0 then Inl ''max_tokens must be > 0''
      else if keep \<le> 0 then Inl ''keep_last_turns must be > 0''
      else Inr \<lparr>tb_max_tokens = max_tokens, tb_keep_last_turns = keep, tb_summariser = summ\<rparr>)"

definition summary_message :: "string \<Rightarrow> message" where
  "summary_message text = (''system'', ''[Prior conversation summary] '' @ strip text)"

definition budget_trim :: "token_budget_trimmer \<Rightarrow> message list \<Rightarrow> string \<Rightarrow> trim_fault + trim_result" where
  "budget_trim tb h tenant =
     (let before = estimate_tokens h in
      if before \<le> tb_max_tokens tb then Inr (unchanged h)
      else if int (length h) \<le> tb_keep_last_turns tb
        then Inl (TrimFailed (KeepWindowOverBudget (length h) (tb_max_tokens tb) (tb_keep_last_turns tb)))
      else case tb_summariser tb of
        None \<Rightarrow> Inl (TrimFailed (NoSummariser before (tb_max_tokens tb)))
      | Some summ \<Rightarrow>
          let cut = length h - nat (tb_keep_last_turns tb); older = take cut h; suffix = drop cut h in
          if tenant = [] then Inl (TrimFailed NoTenant)
          else case summ older tenant of
            Inl x \<Rightarrow> Inl (SummariserRaised x)
          | Inr r \<Rightarrow>
              let summary = (case r of None \<Rightarrow> [] | Some t \<Rightarrow> t) in
              if strip summary = [] then Inl (TrimFailed EmptySummary)
              else let trimmed = summary_message summary # suffix in
                Inr \<lparr>tr_history = trimmed, tr_summary_emitted = True, tr_tokens_before = before,
                  tr_tokens_after = estimate_tokens trimmed, tr_keep_suffix = length suffix\<rparr>)"

section \<open>The \<open>load_session\<close> node\<close>

datatype load_fault = RecentFailed string | LoadSummariserRaised string

definition event_message :: "conversation_event \<Rightarrow> message" where
  "event_message e = (ev_turn_role e, ev_content e)"

text \<open>A trim error leaves the raw history; anything else the summariser raises leaves the node.\<close>

definition load_session ::
  "(message list \<Rightarrow> string \<Rightarrow> trim_fault + trim_result) \<Rightarrow> session_store option \<Rightarrow> executor_state
     \<Rightarrow> (load_fault + message list) \<times> session_store option" where
  "load_session trimmer store st =
     (case store of
        None \<Rightarrow> (Inr [], None)
      | Some ss \<Rightarrow>
          if x_tenant_id st = [] \<or> x_session_id st = [] then (Inr [], store)
          else (case store_recent ss (x_tenant_id st) (x_session_id st) of
                  (Inl x, ss') \<Rightarrow> (Inl (RecentFailed x), Some ss')
                | (Inr events, ss') \<Rightarrow>
                    let history = map event_message events in
                    (case trimmer history (x_tenant_id st) of
                       Inl (TrimFailed _) \<Rightarrow> (Inr history, Some ss')
                     | Inl (SummariserRaised x) \<Rightarrow> (Inl (LoadSummariserRaised x), Some ss')
                     | Inr r \<Rightarrow> (Inr (tr_history r), Some ss'))))"

section \<open>Properties\<close>

lemma budget_keep_positive: "token_budget_trimmer_init m k summ = Inr tb \<Longrightarrow> 0 < m \<and> 0 < k \<and>
    tb = \<lparr>tb_max_tokens = m, tb_keep_last_turns = k, tb_summariser = summ\<rparr>"
  by (auto simp: token_budget_trimmer_init_def split: if_splits)

text \<open>
C18: A trimmer never drops turns silently: a history within the budget comes back unchanged, and a
longer one either fails with a typed error or becomes one non-empty summary of exactly the oldest turns
followed by the last \<open>keep_last_turns\<close> turns word for word; the prefix summarised and the suffix kept
make up the whole history.
\<close>

theorem trim_never_drops:
  assumes "token_budget_trimmer_init m k summ = Inr tb" "budget_trim tb h t = Inr r"
  shows "(estimate_tokens h \<le> m \<and> r = unchanged h)
    \<or> (m < estimate_tokens h \<and> t \<noteq> [] \<and> (\<exists>f older text. summ = Some f \<and> h = older @ last_n (nat k) h
         \<and> f older t = Inr (Some text) \<and> strip text \<noteq> []
         \<and> tr_history r = summary_message text # last_n (nat k) h
         \<and> length (tr_history r) = Suc (nat k) \<and> length (tr_history r) \<le> length h
         \<and> tr_tokens_after r = estimate_tokens (tr_history r)))"
proof (cases "estimate_tokens h \<le> m")
  case True
  with assms budget_keep_positive [OF assms(1)] show ?thesis by (simp add: budget_trim_def)
next
  case False
  note tb = budget_keep_positive [OF assms(1)]
  have len: "k < int (length h)" using False assms(2) tb by (auto simp: budget_trim_def Let_def split: if_splits)
  obtain f where f: "summ = Some f" and t: "t \<noteq> []"
    using False assms(2) tb len by (auto simp: budget_trim_def Let_def split: if_splits option.splits)
  obtain summary where "f (take (length h - nat k) h) t = Inr (Some summary)" "strip summary \<noteq> []"
    "tr_history r = summary_message summary # last_n (nat k) h" "tr_tokens_after r = estimate_tokens (tr_history r)"
    using False assms(2) tb len f t
    by (auto simp: budget_trim_def Let_def last_n_def strip_def split: if_splits sum.splits option.splits)
  moreover have "h = take (length h - nat k) h @ last_n (nat k) h" by (simp add: last_n_def)
  moreover have "length (last_n (nat k) h) = nat k" "Suc (nat k) \<le> length h" using len tb by auto
  ultimately show ?thesis using False f t by (metis length_Cons linorder_not_le)
qed

text \<open>
On a reachable store \<open>load_session\<close> gives the turn exactly the newest events of its own session,
or their trimmed form; a trim error never blocks the turn, which then starts from the raw history, and no
history is changed.
\<close>

theorem load_session_history:
  assumes "session_reachable ss" "x_tenant_id st \<noteq> []" "x_session_id st \<noteq> []"
  shows "\<exists>ss'. load_session trimmer (Some ss) st =
      ((case trimmer (map event_message (last_n (window_size ss) (history ss (x_tenant_id st, x_session_id st)))) (x_tenant_id st) of
          Inl (TrimFailed _) \<Rightarrow> Inr (map event_message (last_n (window_size ss) (history ss (x_tenant_id st, x_session_id st))))
        | Inl (SummariserRaised x) \<Rightarrow> Inl (LoadSummariserRaised x)
        | Inr r \<Rightarrow> Inr (tr_history r)), Some ss')
    \<and> history ss' = history ss \<and> session_reachable ss'"
proof -
  obtain ss' where "store_recent ss (x_tenant_id st) (x_session_id st) =
      (Inr (last_n (window_size ss) (history ss (x_tenant_id st, x_session_id st))), ss')"
    "session_reachable ss'" "history ss' = history ss"
    using recent_step [OF assms(1) key_ok [OF assms(2,3)]] by metis
  with assms(2,3) show ?thesis
    by (intro exI [of _ ss']) (simp add: load_session_def Let_def split: sum.split trim_fault.split)
qed

section \<open>Witnesses\<close>

definition short_summariser :: summariser where
  "short_summariser ms t = Inr (Some ''asked about INC1'')"

definition long_history :: "message list" where
  "long_history = [(''user'', ''tell me everything about it''), (''assistant'', ''it is open''), (''user'', ''ok'')]"

theorem trim_never_drops_witness:
  "\<exists>r :: trim_result. token_budget_trimmer_init 5 1 (Some short_summariser) =
         Inr \<lparr>tb_max_tokens = 5, tb_keep_last_turns = 1, tb_summariser = Some short_summariser\<rparr>
     \<and> tr_history r = [(''system'', ''[Prior conversation summary] asked about INC1''), (''user'', ''ok'')]
     \<and> length (tr_history r) = Suc (nat 1)"
proof -
  let ?tb = "\<lparr>tb_max_tokens = 5, tb_keep_last_turns = 1, tb_summariser = Some short_summariser\<rparr>"
  have i: "token_budget_trimmer_init 5 1 (Some short_summariser) = Inr ?tb" by (simp add: token_budget_trimmer_init_def)
  obtain r where r: "budget_trim ?tb long_history ''t1'' = Inr r"
    "tr_history r = [(''system'', ''[Prior conversation summary] asked about INC1''), (''user'', ''ok'')]"
    by (rule that [of "projr (budget_trim ?tb long_history ''t1'')"]) code_simp+
  have "\<not> estimate_tokens long_history \<le> 5" by code_simp
  with trim_never_drops [OF i r(1)] have "length (tr_history r) = Suc (nat 1)" by (elim disjE conjE exE) simp_all
  with i r(2) show ?thesis by blast
qed

theorem load_session_history_witness:
  "\<exists>ss'. load_session noop_trim (Some asked_store) (sample_state []) =
      (Inr (map event_message (last_n (window_size asked_store) (history asked_store (x_tenant_id (sample_state []), x_session_id (sample_state []))))), Some ss')"
  using load_session_history [OF asked_store_reachable, of "sample_state []" noop_trim]
  by (auto simp: noop_trim_def unchanged_def sample_state_def)

text \<open>The kept turns alone may exceed the budget after a summary.\<close>

lemma trimmed_over_budget:
  "\<exists>r. budget_trim \<lparr>tb_max_tokens = 5, tb_keep_last_turns = 1, tb_summariser = Some short_summariser\<rparr> long_history ''t1'' = Inr r
     \<and> 5 < tr_tokens_after r"
  by (rule exI [of _ "projr (budget_trim \<lparr>tb_max_tokens = 5, tb_keep_last_turns = 1, tb_summariser = Some short_summariser\<rparr> long_history ''t1'')"])
    code_simp

end
