(* ===== verification/Breaker.thy ===== *)
theory Breaker
  imports Prelude Complex_Main
begin

text \<open>
  Calls over the message bus (\<open>adapters/nats_resilience.py\<close>): the rolling outcome window, the circuit
  breaker kept per subject and tenant, and the retry loop around one request. Clock readings and
  delays are rationals. A system state is the breakers with everything else a call may change;
  the probe of the client, the request and the sleep are parameters over it, and as each of them
  awaits, each may also change the breakers (other tasks run meanwhile).
\<close>

section \<open>The rolling window\<close>

type_synonym outcomes = "(rat \<times> bool) list"

definition expire :: "rat \<Rightarrow> outcomes \<Rightarrow> outcomes" where
  "expire cutoff evs = dropWhile (\<lambda>e. fst e < cutoff) evs"

definition window_record :: "rat \<Rightarrow> rat \<Rightarrow> bool \<Rightarrow> outcomes \<Rightarrow> outcomes" where
  "window_record seconds now ok evs = expire (now - seconds) (evs @ [(now, ok)])"

definition count_outcomes :: "outcomes \<Rightarrow> nat \<times> nat" where
  "count_outcomes evs = (length evs, length (filter (\<lambda>e. \<not> snd e) evs))"

definition window_stats :: "rat \<Rightarrow> rat \<Rightarrow> outcomes \<Rightarrow> (nat \<times> nat) \<times> outcomes" where
  "window_stats seconds now evs = (let evs' = expire (now - seconds) evs in (count_outcomes evs', evs'))"

section \<open>The circuit breaker\<close>

datatype breaker_mode = CLOSED | OPEN | HALF_OPEN

record breaker_state =
  bs_state :: breaker_mode
  bs_opened_at :: rat
  bs_window :: outcomes

record breaker_config =
  bc_failure_ratio :: rat
  bc_min_requests :: int
  bc_window_seconds :: rat
  bc_cooldown_seconds :: rat

type_synonym breakers = "(string \<times> breaker_state) list"

text \<open>
  The first four are \<open>NATSUnavailableError\<close>, told apart by where they are raised; \<open>CallRaised\<close> is any other.
\<close>

datatype call_error = BreakerOpen string | ClientDisconnected string | Unavailable string | NoResult string | CallRaised string

fun is_nats_unavailable :: "call_error \<Rightarrow> bool" where
  "is_nats_unavailable (CallRaised _) = False"
| "is_nats_unavailable _ = True"

definition fresh_breaker :: breaker_state where
  "fresh_breaker = \<lparr>bs_state = CLOSED, bs_opened_at = 0, bs_window = []\<rparr>"

definition breaker_of :: "breakers \<Rightarrow> string \<Rightarrow> breaker_state" where
  "breaker_of bs k = (case map_of bs k of None \<Rightarrow> fresh_breaker | Some st \<Rightarrow> st)"

definition before_call :: "breaker_config \<Rightarrow> rat \<Rightarrow> breakers \<Rightarrow> string \<Rightarrow> call_error option \<times> breakers" where
  "before_call cfg now bs k =
     (let st = breaker_of bs k in
      if bs_state st = OPEN then
        (if now - bs_opened_at st \<ge> bc_cooldown_seconds cfg
         then (None, AList.update k (st\<lparr>bs_state := HALF_OPEN\<rparr>) bs)
         else (Some (BreakerOpen k), AList.update k st bs))
      else (None, AList.update k st bs))"

text \<open>
  \<open>record\<close> reads the clock up to three times, in order: for the window, for the counts, for
  \<open>opened_at\<close> (the second reading when a probe failed). The ratio of an empty window is a
  \<open>ZeroDivisionError\<close>, raised after the window has changed.
\<close>

definition trips :: "breaker_config \<Rightarrow> nat \<times> nat \<Rightarrow> bool" where
  "trips cfg c \<longleftrightarrow> int (fst c) \<ge> bc_min_requests cfg
     \<and> of_nat (snd c) / of_nat (fst c) \<ge> bc_failure_ratio cfg"

definition breaker_record ::
  "breaker_config \<Rightarrow> rat \<times> rat \<times> rat \<Rightarrow> breakers \<Rightarrow> string \<Rightarrow> bool \<Rightarrow> call_error option \<times> breakers" where
  "breaker_record cfg ts bs k ok =
     (case ts of (t1, t2, t3) \<Rightarrow>
      let st = breaker_of bs k;
          st1 = st\<lparr>bs_window := window_record (bc_window_seconds cfg) t1 ok (bs_window st)\<rparr>
      in case bs_state st of
           HALF_OPEN \<Rightarrow>
             (None, AList.update k (if ok then st1\<lparr>bs_state := CLOSED\<rparr>
                                    else st1\<lparr>bs_state := OPEN, bs_opened_at := t2\<rparr>) bs)
         | OPEN \<Rightarrow> (None, AList.update k st1 bs)
         | CLOSED \<Rightarrow>
             (case window_stats (bc_window_seconds cfg) t2 (bs_window st1) of
                (c, evs) \<Rightarrow>
                  let st2 = st1\<lparr>bs_window := evs\<rparr> in
                  if int (fst c) \<ge> bc_min_requests cfg \<and> fst c = 0
                    then (Some (CallRaised ''ZeroDivisionError''), AList.update k st2 bs)
                  else if trips cfg c
                    then (None, AList.update k (st2\<lparr>bs_state := OPEN, bs_opened_at := t3\<rparr>) bs)
                  else (None, AList.update k st2 bs)))"

section \<open>The retry loop\<close>

record retry_policy =
  rp_max_attempts :: int
  rp_initial_delay_s :: rat
  rp_max_delay_s :: rat

text \<open>\<open>random.uniform(0, c)\<close> for the random number \<open>u\<close>.\<close>

definition delay_for :: "retry_policy \<Rightarrow> nat \<Rightarrow> rat \<Rightarrow> rat" where
  "delay_for pol attempt u = min (rp_initial_delay_s pol * 2 ^ attempt) (rp_max_delay_s pol) * u"

datatype probe = Connected | Disconnected | ProbeUnavailable string | ProbeRaised string

datatype 'r reply = Replied 'r | ReplyUnavailable string | ReplyRaised string

type_synonym 'w system = "breakers \<times> 'w"

record ('w, 'r) bus =
  bu_clock :: "'w \<Rightarrow> rat \<times> 'w"
  bu_random :: "'w \<Rightarrow> rat \<times> 'w"
  bu_probe :: "'w system \<Rightarrow> probe \<times> 'w system"
  bu_fn :: "'w system \<Rightarrow> 'r reply \<times> 'w system"
  bu_sleep :: "rat \<Rightarrow> 'w system \<Rightarrow> 'w system"

datatype 'r attempt = Finished 'r | Again | Failed call_error

definition admit :: "('w, 'r) bus \<Rightarrow> breaker_config \<Rightarrow> string \<Rightarrow> 'w system \<Rightarrow> call_error option \<times> 'w system" where
  "admit bu cfg k s =
     (case bu_clock bu (snd s) of (now, w) \<Rightarrow>
      case before_call cfg now (fst s) k of (e, bs) \<Rightarrow> (e, bs, w))"

definition note_outcome ::
  "('w, 'r) bus \<Rightarrow> breaker_config \<Rightarrow> string \<Rightarrow> bool \<Rightarrow> 'w system \<Rightarrow> call_error option \<times> 'w system" where
  "note_outcome bu cfg k ok s =
     (case bu_clock bu (snd s) of (t1, w1) \<Rightarrow>
      case bu_clock bu w1 of (t2, w2) \<Rightarrow>
      case bu_clock bu w2 of (t3, w3) \<Rightarrow>
      case breaker_record cfg (t1, t2, t3) (fst s) k ok of (e, bs) \<Rightarrow> (e, bs, w3))"

definition retry_or_exhaust ::
  "('w, 'r) bus \<Rightarrow> breaker_config \<Rightarrow> retry_policy \<Rightarrow> string \<Rightarrow> nat \<Rightarrow> call_error \<Rightarrow> 'w system
   \<Rightarrow> 'r attempt \<times> 'w system" where
  "retry_or_exhaust bu cfg pol k attempt exc s =
     (case note_outcome bu cfg k False s of
        (Some e, s1) \<Rightarrow> (Failed e, s1)
      | (None, s1) \<Rightarrow>
          if int attempt \<ge> rp_max_attempts pol - 1 then (Failed exc, s1)
          else case bu_random bu (snd s1) of
            (u, w) \<Rightarrow> (Again, bu_sleep bu (delay_for pol attempt u) (fst s1, w)))"

definition run_one_attempt ::
  "('w, 'r) bus \<Rightarrow> breaker_config \<Rightarrow> retry_policy \<Rightarrow> string \<Rightarrow> string \<Rightarrow> nat \<Rightarrow> 'w system
   \<Rightarrow> 'r attempt \<times> 'w system" where
  "run_one_attempt bu cfg pol subject k attempt s =
     (case admit bu cfg k s of
        (Some e, s1) \<Rightarrow> (Failed e, s1)
      | (None, s1) \<Rightarrow>
          (case bu_probe bu s1 of
             (ProbeRaised x, s2) \<Rightarrow> (Failed (CallRaised x), s2)
           | (ProbeUnavailable x, s2) \<Rightarrow> retry_or_exhaust bu cfg pol k attempt (Unavailable x) s2
           | (Disconnected, s2) \<Rightarrow> retry_or_exhaust bu cfg pol k attempt (ClientDisconnected subject) s2
           | (Connected, s2) \<Rightarrow>
               (case bu_fn bu s2 of
                  (ReplyUnavailable x, s3) \<Rightarrow> retry_or_exhaust bu cfg pol k attempt (Unavailable x) s3
                | (ReplyRaised x, s3) \<Rightarrow>
                    (case note_outcome bu cfg k False s3 of
                       (Some e, s4) \<Rightarrow> (Failed e, s4)
                     | (None, s4) \<Rightarrow> (Failed (CallRaised x), s4))
                | (Replied r, s3) \<Rightarrow>
                    (case note_outcome bu cfg k True s3 of
                       (Some e, s4) \<Rightarrow> (Failed e, s4)
                     | (None, s4) \<Rightarrow> (Finished r, s4)))))"

fun attempts ::
  "('w, 'r) bus \<Rightarrow> breaker_config \<Rightarrow> retry_policy \<Rightarrow> string \<Rightarrow> string \<Rightarrow> nat list \<Rightarrow> 'w system
   \<Rightarrow> (call_error + 'r) \<times> 'w system" where
  "attempts bu cfg pol subject k [] s = (Inl (NoResult subject), s)"
| "attempts bu cfg pol subject k (i # is) s =
     (case run_one_attempt bu cfg pol subject k i s of
        (Finished r, s') \<Rightarrow> (Inr r, s')
      | (Failed e, s') \<Rightarrow> (Inl e, s')
      | (Again, s') \<Rightarrow> attempts bu cfg pol subject k is s')"

definition breaker_key :: "string \<Rightarrow> string \<Rightarrow> string" where
  "breaker_key subject tenant = (if tenant \<noteq> [] then subject @ ''|'' @ tenant else subject)"

definition resilient_call ::
  "('w, 'r) bus \<Rightarrow> breaker_config \<Rightarrow> retry_policy \<Rightarrow> string \<Rightarrow> string \<Rightarrow> 'w system
   \<Rightarrow> (call_error + 'r) \<times> 'w system" where
  "resilient_call bu cfg pol subject tenant s =
     attempts bu cfg pol subject (breaker_key subject tenant) [0..<nat (rp_max_attempts pol)] s"

section \<open>The window counts exactly the recent outcomes\<close>

lemma breaker_of_update [simp]: "breaker_of (AList.update k st bs) j = (if j = k then st else breaker_of bs j)"
  by (simp add: breaker_of_def update_conv)

lemma expire_sorted: "sorted (map fst evs) \<Longrightarrow> expire c evs = filter (\<lambda>e. c \<le> fst e) evs"
proof (induction evs)
  case (Cons e evs)
  show ?case
  proof (cases "fst e < c")
    case True
    with Cons show ?thesis by (simp add: expire_def)
  next
    case False
    with Cons.prems have "\<forall>x \<in> set evs. c \<le> fst x" by fastforce
    with False show ?thesis by (simp add: expire_def)
  qed
qed (simp add: expire_def)

lemma expire_filter:
  assumes "sorted (map fst evs)" "c0 \<le> c"
  shows "expire c (filter (\<lambda>e. c0 \<le> fst e) evs) = filter (\<lambda>e. c \<le> fst e) evs"
proof -
  have "sorted (map fst (filter (\<lambda>e. c0 \<le> fst e) evs))" using assms(1) by (rule sorted_filter)
  with assms(2) show ?thesis by (auto simp: expire_sorted intro: filter_cong)
qed

text \<open>
  Runs: any interleaving of admissions and records on any keys under a clock that never goes back,
  with the log of the outcomes recorded so far.
\<close>

inductive breaker_run :: "breaker_config \<Rightarrow> rat \<Rightarrow> (string \<times> rat \<times> bool) list \<Rightarrow> breakers \<Rightarrow> bool" for cfg where
  br_start: "breaker_run cfg t [] []"
| br_before: "breaker_run cfg t hist bs \<Longrightarrow> t \<le> now \<Longrightarrow> breaker_run cfg now hist (snd (before_call cfg now bs k))"
| br_record: "breaker_run cfg t hist bs \<Longrightarrow> t \<le> t1 \<Longrightarrow> t1 \<le> t2 \<Longrightarrow> t2 \<le> t3 \<Longrightarrow>
    breaker_run cfg t3 (hist @ [(k, t1, ok)]) (snd (breaker_record cfg (t1, t2, t3) bs k ok))"

definition outcomes_of :: "(string \<times> rat \<times> bool) list \<Rightarrow> string \<Rightarrow> outcomes" where
  "outcomes_of hist k = map snd (filter (\<lambda>e. fst e = k) hist)"

definition window_from :: "rat \<Rightarrow> outcomes \<Rightarrow> outcomes" where
  "window_from c evs = filter (\<lambda>e. c \<le> fst e) evs"

definition windows_ok :: "breaker_config \<Rightarrow> rat \<Rightarrow> (string \<times> rat \<times> bool) list \<Rightarrow> breakers \<Rightarrow> bool" where
  "windows_ok cfg t hist bs \<longleftrightarrow> sorted (map (fst \<circ> snd) hist) \<and> (\<forall>e \<in> set hist. fst (snd e) \<le> t)
     \<and> (\<forall>k. \<exists>c \<le> t - bc_window_seconds cfg. bs_window (breaker_of bs k) = window_from c (outcomes_of hist k))"

lemma outcomes_of_snoc [simp]: "outcomes_of (hist @ [(k, t, ok)]) j = outcomes_of hist j @ (if j = k then [(t, ok)] else [])"
  by (simp add: outcomes_of_def)

lemma sorted_outcomes: "sorted (map (fst \<circ> snd) hist) \<Longrightarrow> sorted (map fst (outcomes_of hist k))"
  using sorted_filter [of "fst \<circ> snd" hist "\<lambda>e. fst e = k"] by (simp add: outcomes_of_def comp_def)

lemma before_call_window [simp]: "bs_window (breaker_of (snd (before_call cfg now bs k)) j) = bs_window (breaker_of bs j)"
  by (simp add: before_call_def Let_def)

text \<open>A recorded outcome joins a window that held the outcomes from \<open>c\<close> on.\<close>

lemma window_record_from:
  assumes "sorted (map fst (evs @ [(t1, ok)]))" "c \<le> t1 - w"
  shows "window_record w t1 ok (window_from c evs) = window_from (t1 - w) (evs @ [(t1, ok)])"
proof -
  have "sorted (map fst (window_from c evs @ [(t1, ok)]))"
    using assms(1) sorted_filter [of fst evs "\<lambda>e. c \<le> fst e"] by (auto simp: window_from_def sorted_append)
  with assms(2) show ?thesis by (auto simp: window_record_def expire_sorted window_from_def intro: filter_cong)
qed

lemma window_stats_from:
  assumes "sorted (map fst evs)" "c \<le> t - w"
  shows "window_stats w t (window_from c evs) = (count_outcomes (window_from (t - w) evs), window_from (t - w) evs)"
  using expire_filter [OF assms] by (simp add: window_stats_def window_from_def Let_def)

lemma record_window:
  assumes ok: "windows_ok cfg t hist bs" and t: "t \<le> t1" "t1 \<le> t2"
  shows "bs_window (breaker_of (snd (breaker_record cfg (t1, t2, t3) bs k ok)) k) =
     window_from ((if bs_state (breaker_of bs k) = CLOSED then t2 else t1) - bc_window_seconds cfg) (outcomes_of (hist @ [(k, t1, ok)]) k)"
    and "bs_state (breaker_of bs k) = CLOSED \<Longrightarrow>
      bs_state (breaker_of (snd (breaker_record cfg (t1, t2, t3) bs k ok)) k) =
        (let c = count_outcomes (window_from (t2 - bc_window_seconds cfg) (outcomes_of (hist @ [(k, t1, ok)]) k))
         in if fst c \<noteq> 0 \<and> trips cfg c then OPEN else CLOSED)"
proof -
  let ?w = "bc_window_seconds cfg" and ?evs = "outcomes_of hist k @ [(t1, ok)]"
  obtain c where c: "c \<le> t - ?w" "bs_window (breaker_of bs k) = window_from c (outcomes_of hist k)"
    using ok unfolding windows_ok_def by blast
  have "\<forall>e \<in> set (outcomes_of hist k). fst e \<le> t1" using ok t(1) unfolding windows_ok_def outcomes_of_def by fastforce
  then have sorted: "sorted (map fst ?evs)"
    using ok sorted_outcomes [of hist k] by (auto simp: windows_ok_def sorted_append)
  have w1: "window_record ?w t1 ok (window_from c (outcomes_of hist k)) = window_from (t1 - ?w) ?evs"
    using c(1) t(1) by (intro window_record_from [OF sorted]) simp
  have w2: "window_stats ?w t2 (window_from (t1 - ?w) ?evs) = (count_outcomes (window_from (t2 - ?w) ?evs), window_from (t2 - ?w) ?evs)"
    using t(2) by (intro window_stats_from [OF sorted]) simp
  show "bs_window (breaker_of (snd (breaker_record cfg (t1, t2, t3) bs k ok)) k) =
     window_from ((if bs_state (breaker_of bs k) = CLOSED then t2 else t1) - ?w) (outcomes_of (hist @ [(k, t1, ok)]) k)"
    using w1 w2 by (cases "bs_state (breaker_of bs k)"; cases ok) (simp_all add: breaker_record_def c(2) Let_def)
  show "bs_state (breaker_of (snd (breaker_record cfg (t1, t2, t3) bs k ok)) k) =
      (let c = count_outcomes (window_from (t2 - ?w) (outcomes_of (hist @ [(k, t1, ok)]) k))
       in if fst c \<noteq> 0 \<and> trips cfg c then OPEN else CLOSED)"
    if "bs_state (breaker_of bs k) = CLOSED"
    using that w1 w2 by (cases ok) (simp_all add: breaker_record_def c(2) Let_def trips_def)
qed

lemma record_other: "j \<noteq> k \<Longrightarrow> breaker_of (snd (breaker_record cfg ts bs k ok)) j = breaker_of bs j"
  by (simp add: breaker_record_def Let_def split: prod.split breaker_mode.split)

lemma windows_ok_later: "windows_ok cfg t hist bs \<Longrightarrow> t \<le> t' \<Longrightarrow> windows_ok cfg t' hist bs"
  unfolding windows_ok_def by (meson diff_right_mono order_trans)

lemma windows_ok_record:
  assumes ok: "windows_ok cfg t hist bs" and t: "t \<le> t1" "t1 \<le> t2" "t2 \<le> t3"
  shows "windows_ok cfg t3 (hist @ [(k, t1, ok)]) (snd (breaker_record cfg (t1, t2, t3) bs k ok))"
  unfolding windows_ok_def
proof (intro conjI allI)
  show "sorted (map (fst \<circ> snd) (hist @ [(k, t1, ok)]))" "\<forall>e \<in> set (hist @ [(k, t1, ok)]). fst (snd e) \<le> t3"
    using ok t by (fastforce simp: windows_ok_def sorted_append)+
  show "\<exists>c \<le> t3 - bc_window_seconds cfg. bs_window (breaker_of (snd (breaker_record cfg (t1, t2, t3) bs k ok)) j)
      = window_from c (outcomes_of (hist @ [(k, t1, ok)]) j)" for j
  proof (cases "j = k")
    case True
    have "(if bs_state (breaker_of bs k) = CLOSED then t2 else t1) - bc_window_seconds cfg \<le> t3 - bc_window_seconds cfg"
      using t by simp
    then show ?thesis unfolding True record_window(1) [OF ok t(1,2)] by blast
  next
    case False
    with windows_ok_later [OF ok, of t3] t show ?thesis by (simp add: record_other windows_ok_def)
  qed
qed

lemma run_windows_ok: "breaker_run cfg t hist bs \<Longrightarrow> windows_ok cfg t hist bs"
proof (induction rule: breaker_run.induct)
  case (br_start t)
  show ?case
    by (auto simp: windows_ok_def breaker_of_def fresh_breaker_def outcomes_of_def window_from_def)
next
  case (br_before t hist bs now k)
  then have "windows_ok cfg now hist bs" by (blast intro: windows_ok_later)
  then show ?case by (simp add: windows_ok_def)
next
  case (br_record t hist bs t1 t2 t3 k ok)
  then show ?case by (blast intro: windows_ok_record)
qed

section \<open>Properties\<close>

text \<open>
C19: The breaker counts exactly the recent outcomes: after any interleaving of admissions and records,
a record on a closed breaker opens it if and only if the outcomes of that key recorded within the last
\<open>window_seconds\<close> are at least \<open>min_requests\<close> (and one) and their failure ratio reaches \<open>failure_ratio\<close>;
the breakers of other keys do not change.
\<close>

theorem breaker_window_exact:
  assumes "breaker_run cfg t hist bs" "t \<le> t1" "t1 \<le> t2" "bs_state (breaker_of bs k) = CLOSED"
  shows "let recent = filter (\<lambda>e. t2 - bc_window_seconds cfg \<le> fst e) (outcomes_of hist k @ [(t1, ok)]);
             failures = length (filter (\<lambda>e. \<not> snd e) recent);
             bs' = snd (breaker_record cfg (t1, t2, t3) bs k ok)
         in (bs_state (breaker_of bs' k) = OPEN \<longleftrightarrow> recent \<noteq> [] \<and> bc_min_requests cfg \<le> int (length recent)
               \<and> bc_failure_ratio cfg \<le> of_nat failures / of_nat (length recent))
            \<and> (\<forall>j. j \<noteq> k \<longrightarrow> breaker_of bs' j = breaker_of bs j)"
  using record_window(2) [OF run_windows_ok [OF assms(1)] assms(2,3,4), of t3 ok]
  by (simp add: Let_def count_outcomes_def window_from_def trips_def record_other split: if_splits)

text \<open>The operations as data, for sequences of them.\<close>

datatype breaker_op = Admit rat | Note bool rat rat rat

fun apply_op :: "breaker_config \<Rightarrow> breakers \<Rightarrow> string \<times> breaker_op \<Rightarrow> breakers" where
  "apply_op cfg bs (k, Admit now) = snd (before_call cfg now bs k)"
| "apply_op cfg bs (k, Note ok t1 t2 t3) = snd (breaker_record cfg (t1, t2, t3) bs k ok)"

lemma open_stays_open:
  assumes "bs_state (breaker_of bs k) = OPEN"
    and "\<forall>now. (k, Admit now) \<in> set ops \<longrightarrow> now - bs_opened_at (breaker_of bs k) < bc_cooldown_seconds cfg"
  shows "bs_state (breaker_of (foldl (apply_op cfg) bs ops) k) = OPEN
    \<and> bs_opened_at (breaker_of (foldl (apply_op cfg) bs ops) k) = bs_opened_at (breaker_of bs k)"
  using assms
proof (induction ops arbitrary: bs)
  case (Cons op ops)
  have "bs_state (breaker_of (apply_op cfg bs op) k) = OPEN \<and> bs_opened_at (breaker_of (apply_op cfg bs op) k) = bs_opened_at (breaker_of bs k)"
  proof (cases op)
    case (Pair j x)
    show ?thesis
    proof (cases "j = k")
      case False
      then show ?thesis using Cons.prems(1) by (cases x) (simp_all add: Pair record_other before_call_def Let_def)
    next
      case True
      then show ?thesis using Cons.prems
        by (cases x) (auto simp: Pair before_call_def breaker_record_def Let_def)
    qed
  qed
  with Cons show ?case by auto
qed simp

text \<open>
C39: An open breaker fails fast: whatever operations run on any keys, it stays open with the same opening
time as long as nobody asks for admission after the cooldown, late results included; an admission is
then refused exactly when the cooldown has not passed, and otherwise makes it half-open.
\<close>

theorem open_breaker_fails_fast:
  assumes "bs_state (breaker_of bs k) = OPEN"
    and "\<forall>now. (k, Admit now) \<in> set ops \<longrightarrow> now - bs_opened_at (breaker_of bs k) < bc_cooldown_seconds cfg"
  shows "let bs' = foldl (apply_op cfg) bs ops in
    fst (before_call cfg now bs' k) =
       (if now - bs_opened_at (breaker_of bs k) < bc_cooldown_seconds cfg then Some (BreakerOpen k) else None)
    \<and> bs_state (breaker_of (snd (before_call cfg now bs' k)) k) =
       (if now - bs_opened_at (breaker_of bs k) < bc_cooldown_seconds cfg then OPEN else HALF_OPEN)"
  using open_stays_open [OF assms] by (simp add: before_call_def Let_def)

text \<open>Every caller is admitted while the breaker is half-open, not one probe.\<close>

lemma half_open_admits_all:
  assumes "bs_state (breaker_of bs k) = HALF_OPEN"
  shows "fst (before_call cfg now bs k) = None" "bs_state (breaker_of (snd (before_call cfg now bs k)) k) = HALF_OPEN"
  using assms by (simp_all add: before_call_def Let_def)

text \<open>\<open>rlog\<close> is a record of the replies to the requests made so far: only \<open>fn\<close> makes one, and its reply is logged.\<close>

definition logs_requests :: "('w, 'r) bus \<Rightarrow> ('w \<Rightarrow> 'r reply list) \<Rightarrow> bool" where
  "logs_requests bu rlog \<longleftrightarrow> (\<forall>s. rlog (snd (snd (bu_fn bu s))) = rlog (snd s) @ [fst (bu_fn bu s)])
     \<and> (\<forall>w. rlog (snd (bu_clock bu w)) = rlog w) \<and> (\<forall>w. rlog (snd (bu_random bu w)) = rlog w)
     \<and> (\<forall>s. rlog (snd (snd (bu_probe bu s))) = rlog (snd s)) \<and> (\<forall>d s. rlog (snd (bu_sleep bu d s)) = rlog (snd s))"

lemma logs_requestsD:
  assumes "logs_requests bu rlog"
  shows "bu_fn bu s = (r, s') \<Longrightarrow> rlog (snd s') = rlog (snd s) @ [r]"
    and "bu_clock bu w = (t, w') \<Longrightarrow> rlog w' = rlog w" and "bu_random bu w = (u, w') \<Longrightarrow> rlog w' = rlog w"
    and "bu_probe bu s = (q, s') \<Longrightarrow> rlog (snd s') = rlog (snd s)" and "rlog (snd (bu_sleep bu d s)) = rlog (snd s)"
  using assms unfolding logs_requests_def by (metis fst_conv snd_conv)+

lemma admit_calls:
  assumes "logs_requests bu rlog" "admit bu cfg k s = (e, s')"
  shows "rlog (snd s') = rlog (snd s) \<and> (\<forall>x. e = Some x \<longrightarrow> x = BreakerOpen k)"
  using assms(2) logs_requestsD(2) [OF assms(1)]
  by (auto simp: admit_def before_call_def Let_def split: prod.splits if_splits)

lemma note_outcome_calls:
  assumes "logs_requests bu rlog" "note_outcome bu cfg k ok s = (e, s')"
  shows "rlog (snd s') = rlog (snd s) \<and> (\<forall>x. e = Some x \<longrightarrow> x = CallRaised ''ZeroDivisionError'')"
proof -
  obtain t1 w1 t2 w2 t3 w3 where c: "bu_clock bu (snd s) = (t1, w1)" "bu_clock bu w1 = (t2, w2)" "bu_clock bu w2 = (t3, w3)"
    by (metis prod.collapse)
  have "rlog w3 = rlog (snd s)" using logs_requestsD(2) [OF assms(1)] c by metis
  moreover have "snd s' = w3" "e = fst (breaker_record cfg (t1, t2, t3) (fst s) k ok)"
    using assms(2) c by (auto simp: note_outcome_def split: prod.splits)
  moreover have "fst (breaker_record cfg (t1, t2, t3) (fst s) k ok) \<in> {None, Some (CallRaised ''ZeroDivisionError'')}"
    by (auto simp: breaker_record_def Let_def split: breaker_mode.split prod.split)
  ultimately show ?thesis by auto
qed

lemma retry_calls:
  assumes "logs_requests bu rlog" "retry_or_exhaust bu cfg pol k i exc s = (a, s')"
  shows "rlog (snd s') = rlog (snd s) \<and> (a = Again \<and> int i < rp_max_attempts pol - 1
      \<or> a = Failed exc \<or> a = Failed (CallRaised ''ZeroDivisionError''))"
proof -
  obtain e s1 where n: "note_outcome bu cfg k False s = (e, s1)" by (cases "note_outcome bu cfg k False s")
  obtain u w where u: "bu_random bu (snd s1) = (u, w)" by (cases "bu_random bu (snd s1)")
  note nc = note_outcome_calls [OF assms(1) n] and uc = logs_requestsD(3) [OF assms(1) u]
  from assms(2) nc uc show ?thesis
    by (cases e) (auto simp: retry_or_exhaust_def n u logs_requestsD(5) [OF assms(1)] split: if_splits)
qed

text \<open>What one attempt may do to the log of replies and how it may end: only an unavailable service is tried again.\<close>

definition retried :: "'r reply list \<Rightarrow> bool" where
  "retried made \<longleftrightarrow> (\<forall>y \<in> set made. \<exists>x. y = ReplyUnavailable x)"

definition attempt_ok :: "retry_policy \<Rightarrow> nat \<Rightarrow> 'r reply list \<Rightarrow> 'r attempt \<Rightarrow> 'r reply list \<Rightarrow> bool" where
  "attempt_ok pol i before a after \<longleftrightarrow> (\<exists>made. after = before @ made \<and> length made \<le> 1 \<and>
     (case a of
        Finished r \<Rightarrow> made = [Replied r]
      | Again \<Rightarrow> int i < rp_max_attempts pol - 1 \<and> retried made
      | Failed e \<Rightarrow> \<forall>x. e \<noteq> NoResult x))"

lemma attempt_ok_retry:
  assumes "logs_requests bu rlog" "retry_or_exhaust bu cfg pol k i exc s = (a, s')" "\<forall>x. exc \<noteq> NoResult x"
    and "rlog (snd s) = before @ made" "length made \<le> 1" "retried made"
  shows "attempt_ok pol i before a (rlog (snd s'))"
  using retry_calls [OF assms(1,2)] assms(3-6) by (auto simp: attempt_ok_def)

lemma attempt_ok_note:
  assumes "logs_requests bu rlog" "note_outcome bu cfg k ok s = (e, s')" "rlog (snd s) = before @ [y]"
    and "a = (case e of Some x \<Rightarrow> Failed x | None \<Rightarrow> b)" "b = Failed (CallRaised z) \<or> (\<exists>r. b = Finished r \<and> y = Replied r)"
  shows "attempt_ok pol i before a (rlog (snd s'))"
  using note_outcome_calls [OF assms(1,2)] assms(3-5) by (auto simp: attempt_ok_def split: option.splits)

lemma run_one_attempt_ok:
  assumes c: "logs_requests bu rlog" and r: "run_one_attempt bu cfg pol subject k i s = (a, s')"
  shows "attempt_ok pol i (rlog (snd s)) a (rlog (snd s'))"
proof -
  obtain e s1 where ad: "admit bu cfg k s = (e, s1)" by (cases "admit bu cfg k s")
  obtain q s2 where pr: "bu_probe bu s1 = (q, s2)" by (cases "bu_probe bu s1")
  obtain y s3 where fn: "bu_fn bu s2 = (y, s3)" by (cases "bu_fn bu s2")
  obtain e4 s4 where nf: "note_outcome bu cfg k False s3 = (e4, s4)" by (cases "note_outcome bu cfg k False s3")
  obtain e5 s5 where nt: "note_outcome bu cfg k True s3 = (e5, s5)" by (cases "note_outcome bu cfg k True s3")
  note n1 = admit_calls [OF c ad] and n2 = logs_requestsD(4) [OF c pr] and n3 = logs_requestsD(1) [OF c fn]
  show ?thesis
  proof (cases e)
    case (Some x)
    with r n1 show ?thesis by (auto simp: run_one_attempt_def ad attempt_ok_def)
  next
    case None
    note defs = run_one_attempt_def ad None pr fn
    show ?thesis
    proof (cases q)
      case Connected
      show ?thesis
      proof (cases y)
        case (Replied v)
        with r Connected have "a = (case e5 of Some x \<Rightarrow> Failed x | None \<Rightarrow> Finished v)" "s' = s5"
          by (auto simp: defs nt split: option.splits)
        with attempt_ok_note [OF c nt, of "rlog (snd s)" y a "Finished v"] n1 n2 n3 show ?thesis by (simp add: Replied)
      next
        case (ReplyUnavailable x)
        with r Connected have "retry_or_exhaust bu cfg pol k i (Unavailable x) s3 = (a, s')" by (simp add: defs)
        with attempt_ok_retry [OF c, of cfg pol k i "Unavailable x" s3 a s' "rlog (snd s)" "[y]"] n1 n2 n3 show ?thesis by (simp add: retried_def ReplyUnavailable)
      next
        case (ReplyRaised x)
        with r Connected have "a = (case e4 of Some x \<Rightarrow> Failed x | None \<Rightarrow> Failed (CallRaised x))" "s' = s4"
          by (auto simp: defs nf split: option.splits)
        with attempt_ok_note [OF c nf, of "rlog (snd s)" y a "Failed (CallRaised x)" x] n1 n2 n3 show ?thesis by simp
      qed
    next
      case Disconnected
      with r have "retry_or_exhaust bu cfg pol k i (ClientDisconnected subject) s2 = (a, s')" by (simp add: defs)
      with attempt_ok_retry [OF c, of cfg pol k i "ClientDisconnected subject" s2 a s' "rlog (snd s)" "[]"] n1 n2 show ?thesis by (simp add: retried_def)
    next
      case (ProbeUnavailable x)
      with r have "retry_or_exhaust bu cfg pol k i (Unavailable x) s2 = (a, s')" by (simp add: defs)
      with attempt_ok_retry [OF c, of cfg pol k i "Unavailable x" s2 a s' "rlog (snd s)" "[]"] n1 n2 show ?thesis by (simp add: retried_def)
    next
      case (ProbeRaised x)
      with r n1 n2 show ?thesis by (auto simp: defs attempt_ok_def)
    qed
  qed
qed

lemma attempts_ok:
  assumes "logs_requests bu rlog" "attempts bu cfg pol subject k is s = (res, s')"
  shows "\<exists>made. rlog (snd s') = rlog (snd s) @ made \<and> length made \<le> length is \<and> retried (butlast made)
    \<and> (\<forall>r. res = Inr r \<longrightarrow> made \<noteq> [] \<and> last made = Replied r)
    \<and> (is \<noteq> [] \<and> rp_max_attempts pol \<le> int (last is) + 1 \<longrightarrow> res \<noteq> Inl (NoResult subject))"
  using assms(2)
proof (induction "is" arbitrary: s)
  case Nil
  then show ?case by (auto simp: retried_def)
next
  case (Cons i "is")
  obtain a s1 where a: "run_one_attempt bu cfg pol subject k i s = (a, s1)"
    by (cases "run_one_attempt bu cfg pol subject k i s")
  obtain made1 where ok: "rlog (snd s1) = rlog (snd s) @ made1" "length made1 \<le> 1"
    "case a of Finished r \<Rightarrow> made1 = [Replied r] | Again \<Rightarrow> int i < rp_max_attempts pol - 1 \<and> retried made1
      | Failed e \<Rightarrow> \<forall>x. e \<noteq> NoResult x"
    using run_one_attempt_ok [OF assms(1) a] by (auto simp: attempt_ok_def)
  have short: "retried (butlast made1)" using ok(2) by (cases made1) (auto simp: retried_def)
  show ?case
  proof (cases a)
    case Again
    with Cons.prems a have "attempts bu cfg pol subject k is s1 = (res, s')" by simp
    from Cons.IH [OF this] obtain made where made: "rlog (snd s') = rlog (snd s1) @ made" "length made \<le> length is"
      "retried (butlast made)" "\<forall>r. res = Inr r \<longrightarrow> made \<noteq> [] \<and> last made = Replied r"
      "is \<noteq> [] \<and> rp_max_attempts pol \<le> int (last is) + 1 \<longrightarrow> res \<noteq> Inl (NoResult subject)" by blast
    have "retried (butlast (made1 @ made))"
      using made(3) ok(3) Again short by (auto simp: retried_def butlast_append)
    with made ok Again show ?thesis by (intro exI [of _ "made1 @ made"]) auto
  qed (use Cons.prems a ok short in auto)
qed

text \<open>
C20: Retries are bounded. Whatever the clock, the bus and the tasks running between the awaits do, a call
makes at most \<open>max_attempts\<close> requests; every request before the last one was answered by an unavailable
service; a result that is returned is the reply to the last request. With \<open>max_attempts\<close> at least one the
loop never falls through, and a breaker found open in its cooldown makes no request.
\<close>

theorem retry_bounded:
  assumes "logs_requests bu rlog" "resilient_call bu cfg pol subject tenant s = (res, s')"
  shows "\<exists>made. rlog (snd s') = rlog (snd s) @ made \<and> length made \<le> nat (rp_max_attempts pol)
    \<and> (\<forall>y \<in> set (butlast made). \<exists>x. y = ReplyUnavailable x)
    \<and> (\<forall>r. res = Inr r \<longrightarrow> made \<noteq> [] \<and> last made = Replied r)
    \<and> (1 \<le> rp_max_attempts pol \<longrightarrow> res \<noteq> Inl (NoResult subject))
    \<and> (1 \<le> rp_max_attempts pol
        \<and> fst (before_call cfg (fst (bu_clock bu (snd s))) (fst s) (breaker_key subject tenant)) \<noteq> None
        \<longrightarrow> res = Inl (BreakerOpen (breaker_key subject tenant)) \<and> made = [])"
proof -
  let ?k = "breaker_key subject tenant" and ?is = "[0..<nat (rp_max_attempts pol)]"
  note call = assms(2) [unfolded resilient_call_def]
  have "res = Inl (BreakerOpen ?k) \<and> rlog (snd s') = rlog (snd s)"
    if "1 \<le> rp_max_attempts pol" and refused: "fst (before_call cfg (fst (bu_clock bu (snd s))) (fst s) ?k) \<noteq> None"
  proof -
    obtain e s1 where ad: "admit bu cfg ?k s = (e, s1)" by (cases "admit bu cfg ?k s")
    then have "e \<noteq> None" using refused by (auto simp: admit_def split: prod.splits)
    then have e: "e = Some (BreakerOpen ?k)" "rlog (snd s1) = rlog (snd s)" using admit_calls [OF assms(1) ad] by auto
    have "?is = 0 # [Suc 0..<nat (rp_max_attempts pol)]" using that(1) by (simp add: upt_conv_Cons)
    with call ad e show ?thesis by (simp add: run_one_attempt_def)
  qed
  with attempts_ok [OF assms(1) call] show ?thesis by (auto simp: retried_def)
qed

section \<open>Witnesses\<close>

definition default_breaker :: breaker_config where
  "default_breaker = \<lparr>bc_failure_ratio = 1 / 2, bc_min_requests = 2, bc_window_seconds = 30, bc_cooldown_seconds = 15\<rparr>"

lemma one_failure_run:
  "breaker_run default_breaker 1 [(''s'', 1, False)] (snd (breaker_record default_breaker (1, 1, 1) [] ''s'' False))"
  using br_record [OF br_start, of 0 1 1 1 default_breaker "''s''" False] by simp

theorem breaker_window_exact_witness:
  "bs_state (breaker_of (snd (breaker_record default_breaker (2, 2, 2)
     (snd (breaker_record default_breaker (1, 1, 1) [] ''s'' False)) ''s'' False)) ''s'') = OPEN"
proof -
  have "bs_state (breaker_of (snd (breaker_record default_breaker (1, 1, 1) [] ''s'' False)) ''s'') = CLOSED" by code_simp
  from breaker_window_exact [OF one_failure_run _ _ this, of 2 2 False 2] show ?thesis
    by (simp add: Let_def outcomes_of_def default_breaker_def)
qed

definition tripped :: breakers where
  "tripped = [(''s'', \<lparr>bs_state = OPEN, bs_opened_at = 2, bs_window = []\<rparr>)]"

theorem open_breaker_fails_fast_witness:
  "fst (before_call default_breaker 9 (foldl (apply_op default_breaker) tripped [(''s'', Admit 3), (''s'', Note True 4 4 4)]) ''s'')
     = Some (BreakerOpen ''s'')"
  using open_breaker_fails_fast [of tripped "''s''" "[(''s'', Admit 3), (''s'', Note True 4 4 4)]" default_breaker 9]
  by (simp add: Let_def tripped_def breaker_of_def default_breaker_def)

text \<open>A bus whose state is the log of the replies; the first request fails.\<close>

definition logging_bus :: "(nat reply list, nat) bus" where
  "logging_bus = \<lparr>bu_clock = (\<lambda>w. (0, w)), bu_random = (\<lambda>w. (0, w)), bu_probe = (\<lambda>s. (Connected, s)),
     bu_fn = (\<lambda>s. let y = (if snd s = [] then ReplyUnavailable ''down'' else Replied (length (snd s)))
                  in (y, (fst s, snd s @ [y]))),
     bu_sleep = (\<lambda>d s. s)\<rparr>"

definition three_attempts :: retry_policy where
  "three_attempts = \<lparr>rp_max_attempts = 3, rp_initial_delay_s = 1 / 5, rp_max_delay_s = 2\<rparr>"

theorem retry_bounded_witness:
  "\<exists>made. snd (snd (resilient_call logging_bus default_breaker three_attempts ''s'' ''t1'' ([], []))) = made
     \<and> length made \<le> 3 \<and> last made = Replied 1 \<and> butlast made \<noteq> []"
proof -
  have c: "logs_requests logging_bus id" by (simp add: logs_requests_def logging_bus_def Let_def)
  have "fst (resilient_call logging_bus default_breaker three_attempts ''s'' ''t1'' ([], [])) = Inr 1"
    "length (snd (snd (resilient_call logging_bus default_breaker three_attempts ''s'' ''t1'' ([], [])))) = 2"
    by code_simp+
  then obtain s' where r: "resilient_call logging_bus default_breaker three_attempts ''s'' ''t1'' ([], []) = (Inr 1, s')" "length (snd s') = 2"
    by (metis prod.collapse)
  have "rp_max_attempts three_attempts = 3" by (simp add: three_attempts_def)
  with retry_bounded [OF c r(1)] r(2) show ?thesis by (auto simp: r(1)) (metis length_0_conv length_butlast diff_Suc_1 numeral_2_eq_2 zero_neq_one)
qed

end
