(* ===== verification/FulfilDb.thy ===== *)
theory FulfilDb
  imports Prelude
begin

text \<open>
  The tables of catalog fulfilment and the operations on them
  (\<open>use_cases/uc08_fulfillment/contracts.py\<close> and \<open>db.py\<close>). A table is the list of its rows; an
  \<open>UPDATE ... WHERE\<close> changes the rows that satisfy the predicate, a generated id and the time of the
  statement are arguments, and \<open>Inl\<close> is what the database or the function raises. Columns that no
  modelled code reads (audit times, SLA columns) are left out.
\<close>

section \<open>State enums and rows\<close>

datatype task_type = AUTOMATED | MANUAL

datatype task_state = PENDING | READY | IN_PROGRESS | DONE | FAILED | SKIPPED | BLOCKED

text \<open>The column also allows \<open>failed\<close>, which the enum \<open>RitmState\<close> does not have.\<close>

datatype ritm_state = R_REQUESTED | R_APPROVED | R_IN_PROGRESS | R_FULFILLED | R_CANCELLED | R_REJECTED | R_FAILED

datatype gate_state = G_NOT_REQUIRED | G_REQUESTED | G_APPROVED | G_REJECTED

datatype approval_state = A_PENDING | A_APPROVED | A_REJECTED | A_EXPIRED | A_WITHDRAWN

datatype fulfillment_outcome = O_FULFILLED | O_PARTIAL | O_FAILED | O_CANCELLED | O_IN_PROGRESS

datatype error_class = E_TRANSIENT | E_PERMANENT | E_RESOURCE_UNAVAILABLE | E_UNAUTHORIZED | E_TIMEOUT

fun error_class_value :: "error_class \<Rightarrow> string" where
  "error_class_value E_TRANSIENT = ''transient''"
| "error_class_value E_PERMANENT = ''permanent''"
| "error_class_value E_RESOURCE_UNAVAILABLE = ''resource_unavailable''"
| "error_class_value E_UNAUTHORIZED = ''unauthorized''"
| "error_class_value E_TIMEOUT = ''timeout''"

definition APPROVAL_TYPES :: "string list" where
  "APPROVAL_TYPES = [''substitution'', ''budget'', ''manager'', ''security'', ''catalog_owner'']"

record task_row =
  tk_tenant :: string
  tk_id :: string
  tk_ritm :: string
  tk_template :: string
  tk_name :: string
  tk_type :: task_type
  tk_tool_id :: "string option"
  tk_depends_on :: "string list"
  tk_assignment_group :: "string option"
  tk_state :: task_state
  tk_retry_count :: int
  tk_max_retries :: int
  tk_input :: json
  tk_output :: "json option"
  tk_error_message :: "string option"
  tk_error_code :: "string option"
  tk_sla_minutes :: "int option"
  tk_started_at :: "int option"
  tk_version :: int

record ritm_row =
  ri_tenant :: string
  ri_id :: string
  ri_request_id :: string
  ri_catalog_item_id :: string
  ri_requested_for :: string
  ri_opened_by :: string
  ri_state :: ritm_state
  ri_approval_state :: "gate_state option"
  ri_total_tasks :: int
  ri_completed_tasks :: int
  ri_failed_tasks :: int
  ri_opened_at :: int
  ri_idempotency_key :: "string option"
  ri_version :: int

record request_row =
  sr_tenant :: string
  sr_id :: string
  sr_status :: string
  sr_stage :: string
  sr_fields :: "(string \<times> json) list"

record run_row =
  rn_tenant :: string
  rn_id :: string
  rn_ritm :: string
  rn_trigger_type :: string
  rn_triggered_by :: string
  rn_thread_id :: string
  rn_outcome :: "string option"
  rn_started_at :: int

record approval_row =
  ap_tenant :: string
  ap_id :: string
  ap_ritm :: string
  ap_task :: "string option"
  ap_type :: string
  ap_reason :: string
  ap_payload :: json
  ap_state :: approval_state
  ap_requested_from :: string
  ap_decided_by :: "string option"
  ap_comment :: "string option"
  ap_version :: int

record user_row =
  us_tenant :: string
  us_id :: string
  us_role :: string
  us_department :: string
  us_manager_id :: "string option"
  us_is_active :: bool

record fulfil_db =
  db_users :: "user_row list"
  db_tasks :: "task_row list"
  db_ritms :: "ritm_row list"
  db_requests :: "request_row list"
  db_runs :: "run_row list"
  db_approvals :: "approval_row list"

text \<open>What these functions raise: a typed error of \<open>errors.py\<close>, or a constraint of the schema.\<close>

datatype fulfil_error =
    RequestNotFoundError string
  | RequesterNotFoundError string
  | RequestItemNotFoundError string
  | CatalogItemNotFoundError string
  | DuplicateRequestError string
  | InvalidTemplateError string
  | FulfillmentPersistenceError string
  | AdapterInvocationError string
  | DbConstraint string
  | PyRaised string

text \<open>\<open>UPDATE\<close> on the rows that satisfy \<open>p\<close>.\<close>

definition update_where :: "('r \<Rightarrow> bool) \<Rightarrow> ('r \<Rightarrow> 'r) \<Rightarrow> 'r list \<Rightarrow> 'r list" where
  "update_where p f rows = map (\<lambda>r. if p r then f r else r) rows"

definition coalesce :: "'a option \<Rightarrow> 'a option \<Rightarrow> 'a option" where
  "coalesce new old = (case new of None \<Rightarrow> old | Some _ \<Rightarrow> new)"

section \<open>Requests and request items\<close>

definition assert_request_exists :: "fulfil_db \<Rightarrow> string \<Rightarrow> string \<Rightarrow> fulfil_error + unit" where
  "assert_request_exists db tenant rid =
     (if \<exists>r \<in> set (db_requests db). sr_tenant r = tenant \<and> sr_id r = rid then Inr ()
      else Inl (RequestNotFoundError rid))"

text \<open>An unknown requester violates the foreign key to the users of the tenant.\<close>

definition is_user :: "string \<Rightarrow> string \<Rightarrow> user_row \<Rightarrow> bool" where
  "is_user tenant uid u \<longleftrightarrow> us_tenant u = tenant \<and> us_id u = uid"

definition insert_request ::
  "fulfil_db \<Rightarrow> string \<Rightarrow> string \<Rightarrow> string \<Rightarrow> string \<Rightarrow> (string \<times> json) list
   \<Rightarrow> fulfil_error + fulfil_db \<times> string" where
  "insert_request db new_id tenant requested_for requested_by form =
     (if \<exists>r \<in> set (db_requests db). sr_tenant r = tenant \<and> sr_id r = new_id
      then Inl (FulfillmentPersistenceError new_id)
      else if \<not> list_ex (is_user tenant requested_for) (db_users db) \<or> \<not> list_ex (is_user tenant requested_by) (db_users db)
      then Inl (RequesterNotFoundError requested_for)
      else Inr (db\<lparr>db_requests := db_requests db @
             [\<lparr>sr_tenant = tenant, sr_id = new_id, sr_status = ''requested'', sr_stage = ''request'', sr_fields = form\<rparr>]\<rparr>,
           new_id))"

text \<open>The shallow \<open>||\<close> merge: the later value of a key wins.\<close>

definition jsonb_merge :: "(string \<times> json) list \<Rightarrow> (string \<times> json) list \<Rightarrow> (string \<times> json) list" where
  "jsonb_merge old new = foldl (\<lambda>acc kv. AList.update (fst kv) (snd kv) acc) old new"

definition update_request_fields ::
  "fulfil_db \<Rightarrow> string \<Rightarrow> string \<Rightarrow> (string \<times> json) list \<Rightarrow> fulfil_error + fulfil_db \<times> request_row" where
  "update_request_fields db tenant rid changes =
     (let p = (\<lambda>r. sr_tenant r = tenant \<and> sr_id r = rid);
          rows = update_where p (\<lambda>r. r\<lparr>sr_fields := jsonb_merge (sr_fields r) changes\<rparr>) (db_requests db)
      in case find p rows of
           None \<Rightarrow> Inl (RequestNotFoundError rid)
         | Some r \<Rightarrow> Inr (db\<lparr>db_requests := rows\<rparr>, r))"

definition set_request_lifecycle :: "fulfil_db \<Rightarrow> string \<Rightarrow> string \<Rightarrow> string \<Rightarrow> string \<Rightarrow> fulfil_db" where
  "set_request_lifecycle db tenant rid status stage =
     db\<lparr>db_requests := update_where (\<lambda>r. sr_tenant r = tenant \<and> sr_id r = rid)
          (\<lambda>r. r\<lparr>sr_status := status, sr_stage := stage\<rparr>) (db_requests db)\<rparr>"

definition ms_per_day :: int where "ms_per_day = 86400000"

definition ritm_open :: "ritm_row \<Rightarrow> bool" where
  "ritm_open r \<longleftrightarrow> ri_state r \<in> {R_REQUESTED, R_APPROVED, R_IN_PROGRESS}"

definition find_open_duplicate ::
  "fulfil_db \<Rightarrow> int \<Rightarrow> string \<Rightarrow> string \<Rightarrow> string \<Rightarrow> int \<Rightarrow> string option" where
  "find_open_duplicate db now tenant requested_for item days =
     (case sort_key (\<lambda>r. - ri_opened_at r) (filter (\<lambda>r. ri_tenant r = tenant \<and> ri_requested_for r = requested_for
          \<and> ri_catalog_item_id r = item \<and> ritm_open r \<and> ri_opened_at r \<ge> now - days * ms_per_day) (db_ritms db)) of
        [] \<Rightarrow> None
      | r # _ \<Rightarrow> Some (ri_id r))"

text \<open>
  The lookup of the idempotency key precedes the insert; a key that is empty or absent is not looked up.
\<close>

definition insert_request_item ::
  "fulfil_db \<Rightarrow> int \<Rightarrow> string \<Rightarrow> string \<Rightarrow> string \<Rightarrow> string \<Rightarrow> string \<Rightarrow> string \<Rightarrow> int \<Rightarrow> string option
   \<Rightarrow> fulfil_error + fulfil_db \<times> string" where
  "insert_request_item db now new_id tenant request_id item requested_for opened_by n_tasks key =
     (let same_key = (\<lambda>r. ri_tenant r = tenant \<and> key \<noteq> None \<and> ri_idempotency_key r = key) in
      case (if key = None \<or> key = Some [] then None else find same_key (db_ritms db)) of
        Some r \<Rightarrow> Inr (db, ri_id r)
      | None \<Rightarrow>
          if (\<exists>r \<in> set (db_ritms db). (ri_tenant r = tenant \<and> ri_id r = new_id) \<or> same_key r)
          then Inl (FulfillmentPersistenceError new_id)
          else Inr (db\<lparr>db_ritms := db_ritms db @
                 [\<lparr>ri_tenant = tenant, ri_id = new_id, ri_request_id = request_id, ri_catalog_item_id = item,
                   ri_requested_for = requested_for, ri_opened_by = opened_by, ri_state = R_REQUESTED,
                   ri_approval_state = None, ri_total_tasks = n_tasks, ri_completed_tasks = 0, ri_failed_tasks = 0,
                   ri_opened_at = now, ri_idempotency_key = key, ri_version = 1\<rparr>]\<rparr>, new_id))"

definition is_ritm :: "string \<Rightarrow> string \<Rightarrow> ritm_row \<Rightarrow> bool" where
  "is_ritm tenant ritm r \<longleftrightarrow> ri_tenant r = tenant \<and> ri_id r = ritm"

definition get_ritm :: "fulfil_db \<Rightarrow> string \<Rightarrow> string \<Rightarrow> ritm_row option" where
  "get_ritm db tenant ritm = find (is_ritm tenant ritm) (db_ritms db)"

definition transition_ritm_state ::
  "fulfil_db \<Rightarrow> string \<Rightarrow> string \<Rightarrow> ritm_state \<Rightarrow> ritm_state \<Rightarrow> int \<Rightarrow> int option \<Rightarrow> int option
   \<Rightarrow> int option \<times> fulfil_db" where
  "transition_ritm_state db tenant ritm from_state to_state version completed failed =
     (let p = (\<lambda>r. is_ritm tenant ritm r \<and> ri_state r = from_state \<and> ri_version r = version)
      in (if \<exists>r \<in> set (db_ritms db). p r then Some (version + 1) else None,
          db\<lparr>db_ritms := update_where p (\<lambda>r. r\<lparr>ri_state := to_state,
               ri_completed_tasks := (case completed of None \<Rightarrow> ri_completed_tasks r | Some c \<Rightarrow> c),
               ri_failed_tasks := (case failed of None \<Rightarrow> ri_failed_tasks r | Some c \<Rightarrow> c),
               ri_version := version + 1\<rparr>) (db_ritms db)\<rparr>))"

definition set_ritm_approval_state :: "fulfil_db \<Rightarrow> string \<Rightarrow> string \<Rightarrow> gate_state \<Rightarrow> fulfil_db" where
  "set_ritm_approval_state db tenant ritm g =
     db\<lparr>db_ritms := update_where (is_ritm tenant ritm) (\<lambda>r. r\<lparr>ri_approval_state := Some g\<rparr>) (db_ritms db)\<rparr>"

section \<open>Tasks\<close>

definition of_ritm :: "string \<Rightarrow> string \<Rightarrow> task_row \<Rightarrow> bool" where
  "of_ritm tenant ritm t \<longleftrightarrow> tk_tenant t = tenant \<and> tk_ritm t = ritm"

text \<open>\<open>order\<close> is the order in which the database returns the rows (\<open>updated_at DESC\<close>).\<close>

definition list_tasks_for_ritm ::
  "(task_row list \<Rightarrow> task_row list) \<Rightarrow> fulfil_db \<Rightarrow> string \<Rightarrow> string \<Rightarrow> task_row list" where
  "list_tasks_for_ritm order db tenant ritm = order (filter (of_ritm tenant ritm) (db_tasks db))"

text \<open>The optional columns of a transition.\<close>

record task_patch =
  tp_output :: "json option"
  tp_error_message :: "string option"
  tp_error_code :: "string option"
  tp_retry_count :: "int option"

definition no_patch :: task_patch where
  "no_patch = \<lparr>tp_output = None, tp_error_message = None, tp_error_code = None, tp_retry_count = None\<rparr>"

definition patch_task :: "int \<Rightarrow> task_state \<Rightarrow> task_patch \<Rightarrow> task_row \<Rightarrow> task_row" where
  "patch_task now to_state q t =
     t\<lparr>tk_state := to_state, tk_output := coalesce (tp_output q) (tk_output t),
       tk_error_message := coalesce (tp_error_message q) (tk_error_message t),
       tk_error_code := coalesce (tp_error_code q) (tk_error_code t),
       tk_retry_count := (case tp_retry_count q of None \<Rightarrow> tk_retry_count t | Some n \<Rightarrow> n),
       tk_started_at := (if to_state = IN_PROGRESS \<and> tk_started_at t = None then Some now else tk_started_at t),
       tk_version := tk_version t + 1\<rparr>"

definition transition_task_state ::
  "fulfil_db \<Rightarrow> int \<Rightarrow> string \<Rightarrow> string \<Rightarrow> task_state \<Rightarrow> task_state \<Rightarrow> int \<Rightarrow> task_patch \<Rightarrow> int option \<times> fulfil_db" where
  "transition_task_state db now tenant tid from_state to_state version q =
     (let p = (\<lambda>t. tk_tenant t = tenant \<and> tk_id t = tid \<and> tk_state t = from_state \<and> tk_version t = version)
      in (if \<exists>t \<in> set (db_tasks db). p t then Some (version + 1) else None,
          db\<lparr>db_tasks := update_where p (patch_task now to_state q) (db_tasks db)\<rparr>))"

section \<open>Approvals and runs\<close>

text \<open>Arguments of the insert come from a JSON payload: a text column refuses anything but a string.\<close>

fun text_arg :: "json \<Rightarrow> string option" where
  "text_arg (JStr s) = Some s"
| "text_arg _ = None"

definition insert_approval ::
  "fulfil_db \<Rightarrow> string \<Rightarrow> string \<Rightarrow> string \<Rightarrow> string option \<Rightarrow> json \<Rightarrow> json \<Rightarrow> json \<Rightarrow> json
   \<Rightarrow> fulfil_error + fulfil_db \<times> string" where
  "insert_approval db new_id tenant ritm task approval_type reason requested_from payload =
     (case (text_arg approval_type, text_arg reason, text_arg requested_from) of
        (Some ty, Some re, Some rf) \<Rightarrow>
          if ty \<notin> set APPROVAL_TYPES then Inl (DbConstraint ''approval_type'')
          else if \<not> list_ex (is_ritm tenant ritm) (db_ritms db) then Inl (DbConstraint ''ritm_id'')
          else if (case task of None \<Rightarrow> False | Some i \<Rightarrow> \<not> list_ex (\<lambda>t. tk_tenant t = tenant \<and> tk_id t = i) (db_tasks db))
          then Inl (DbConstraint ''task_id'')
          else if \<exists>a \<in> set (db_approvals db). ap_tenant a = tenant \<and> ap_id a = new_id then Inl (DbConstraint ''approval_id'')
          else Inr (db\<lparr>db_approvals := db_approvals db @
                 [\<lparr>ap_tenant = tenant, ap_id = new_id, ap_ritm = ritm, ap_task = task, ap_type = ty, ap_reason = re,
                   ap_payload = payload, ap_state = A_PENDING, ap_requested_from = rf, ap_decided_by = None,
                   ap_comment = None, ap_version = 1\<rparr>]\<rparr>, new_id)
      | _ \<Rightarrow> Inl (DbConstraint ''approval''))"

definition is_approval :: "string \<Rightarrow> string \<Rightarrow> approval_row \<Rightarrow> bool" where
  "is_approval tenant aid a \<longleftrightarrow> ap_tenant a = tenant \<and> ap_id a = aid"

definition get_approval :: "fulfil_db \<Rightarrow> string \<Rightarrow> string \<Rightarrow> approval_row option" where
  "get_approval db tenant aid = find (is_approval tenant aid) (db_approvals db)"

definition update_approval_decision ::
  "fulfil_db \<Rightarrow> string \<Rightarrow> string \<Rightarrow> approval_state \<Rightarrow> string \<Rightarrow> string option \<Rightarrow> string option \<times> fulfil_db" where
  "update_approval_decision db tenant aid decision decided_by comment =
     (let p = (\<lambda>a. is_approval tenant aid a \<and> ap_state a = A_PENDING)
      in (map_option ap_ritm (find p (db_approvals db)),
          db\<lparr>db_approvals := update_where p (\<lambda>a. a\<lparr>ap_state := decision, ap_decided_by := Some decided_by,
               ap_comment := comment, ap_version := ap_version a + 1\<rparr>) (db_approvals db)\<rparr>))"

definition withdraw_other_pending_approvals :: "fulfil_db \<Rightarrow> string \<Rightarrow> string \<Rightarrow> string \<Rightarrow> fulfil_db" where
  "withdraw_other_pending_approvals db tenant ritm keep =
     db\<lparr>db_approvals := update_where (\<lambda>a. ap_tenant a = tenant \<and> ap_ritm a = ritm \<and> ap_state a = A_PENDING \<and> ap_id a \<noteq> keep)
          (\<lambda>a. a\<lparr>ap_state := A_WITHDRAWN, ap_version := ap_version a + 1\<rparr>) (db_approvals db)\<rparr>"

definition apply_approval_outcome :: "fulfil_db \<Rightarrow> string \<Rightarrow> string \<Rightarrow> bool \<Rightarrow> string option \<times> fulfil_db" where
  "apply_approval_outcome db tenant ritm approved =
     (let p = (\<lambda>r. is_ritm tenant ritm r \<and> ri_state r = R_REQUESTED)
      in (map_option ri_request_id (find p (db_ritms db)),
          db\<lparr>db_ritms := update_where p (\<lambda>r. r\<lparr>ri_state := (if approved then R_APPROVED else R_REJECTED),
               ri_approval_state := Some (if approved then G_APPROVED else G_REJECTED),
               ri_version := ri_version r + 1\<rparr>) (db_ritms db)\<rparr>))"

definition insert_fulfillment_run ::
  "fulfil_db \<Rightarrow> int \<Rightarrow> string \<Rightarrow> string \<Rightarrow> string \<Rightarrow> string \<Rightarrow> string \<Rightarrow> string \<Rightarrow> fulfil_db \<times> string" where
  "insert_fulfillment_run db now new_id tenant ritm trigger triggered_by thread =
     (db\<lparr>db_runs := db_runs db @ [\<lparr>rn_tenant = tenant, rn_id = new_id, rn_ritm = ritm, rn_trigger_type = trigger,
          rn_triggered_by = triggered_by, rn_thread_id = thread, rn_outcome = None, rn_started_at = now\<rparr>]\<rparr>, new_id)"

definition latest_run :: "fulfil_db \<Rightarrow> string \<Rightarrow> string \<Rightarrow> string option" where
  "latest_run db tenant ritm =
     (case sort_key (\<lambda>r. - rn_started_at r) (filter (\<lambda>r. rn_tenant r = tenant \<and> rn_ritm r = ritm) (db_runs db)) of
        [] \<Rightarrow> None | r # _ \<Rightarrow> Some (rn_id r))"

definition RUN_OUTCOMES :: "string list" where
  "RUN_OUTCOMES = [''fulfilled'', ''partial'', ''failed'', ''cancelled'']"

definition finalise_run :: "fulfil_db \<Rightarrow> string \<Rightarrow> string \<Rightarrow> string \<Rightarrow> fulfil_error + fulfil_db" where
  "finalise_run db tenant run_id outcome =
     (if outcome \<notin> set RUN_OUTCOMES \<and> (\<exists>r \<in> set (db_runs db). rn_tenant r = tenant \<and> rn_id r = run_id)
      then Inl (DbConstraint ''outcome'')
      else Inr (db\<lparr>db_runs := update_where (\<lambda>r. rn_tenant r = tenant \<and> rn_id r = run_id)
                  (\<lambda>r. r\<lparr>rn_outcome := Some outcome\<rparr>) (db_runs db)\<rparr>))"

section \<open>The status of a request item\<close>

record fulfillment_status =
  fs_request_id :: string
  fs_state :: ritm_state
  fs_approval_state :: "gate_state option"
  fs_tasks_total :: int
  fs_pending_approvals :: "string list"

text \<open>\<open>RitmState(value)\<close>: a \<open>ValueError\<close> on a value the enum lacks.\<close>

definition parse_ritm_state :: "ritm_state \<Rightarrow> fulfil_error + ritm_state" where
  "parse_ritm_state s = (if s = R_FAILED then Inl (PyRaised ''ValueError'') else Inr s)"

definition pending_approvals :: "fulfil_db \<Rightarrow> string \<Rightarrow> string \<Rightarrow> string list" where
  "pending_approvals db tenant ritm =
     map ap_id (filter (\<lambda>a. ap_tenant a = tenant \<and> ap_ritm a = ritm \<and> ap_state a = A_PENDING) (db_approvals db))"

definition get_status :: "fulfil_db \<Rightarrow> string \<Rightarrow> string \<Rightarrow> fulfil_error + fulfillment_status" where
  "get_status db tenant ritm =
     (case get_ritm db tenant ritm of
        None \<Rightarrow> Inl (RequestItemNotFoundError ritm)
      | Some r \<Rightarrow> sbind (parse_ritm_state (ri_state r)) (\<lambda>s.
          Inr \<lparr>fs_request_id = ri_request_id r, fs_state = s, fs_approval_state = ri_approval_state r,
               fs_tasks_total = ri_total_tasks r, fs_pending_approvals = pending_approvals db tenant ritm\<rparr>))"

end
