(* ===== verification/Fulfillment.thy ===== *)
theory Fulfillment
  imports FulfilDb Complex_Main
begin

text \<open>
  The fulfilment runtime (\<open>use_cases/uc08_fulfillment/executor.py\<close>): readiness and cascade of tasks,
  one task's execution, the wave loop of \<open>execute_plan\<close>, its outcome, and compensation. The integration
  adapter, the clock, generated ids and the order in which the database lists rows are parameters.
  A call runs under the advisory lock of its request item, and the tasks of a wave work on rows of
  their own, so a wave is a fold over its tasks in the order the database listed them.
  \<open>None\<close> means that a loop does not end.
\<close>

section \<open>Plan inspection\<close>

definition settled :: "task_state \<Rightarrow> bool" where
  "settled s \<longleftrightarrow> s = DONE \<or> s = SKIPPED"

definition waiting :: "task_state \<Rightarrow> bool" where
  "waiting s \<longleftrightarrow> s = PENDING \<or> s = READY"

text \<open>\<open>by_tmpl\<close>: the last row of a template wins.\<close>

definition by_template :: "task_row list \<Rightarrow> string \<rightharpoonup> task_row" where
  "by_template ts = map_of (rev (map (\<lambda>t. (tk_template t, t)) ts))"

definition deps_ok :: "task_row list \<Rightarrow> task_row \<Rightarrow> bool" where
  "deps_ok ts t \<longleftrightarrow> list_all (\<lambda>d. case by_template ts d of None \<Rightarrow> False | Some r \<Rightarrow> settled (tk_state r)) (tk_depends_on t)"

definition ready_task_ids :: "task_row list \<Rightarrow> string list" where
  "ready_task_ids ts = map tk_id (filter (\<lambda>t. waiting (tk_state t) \<and> deps_ok ts t) ts)"

text \<open>One pass of the \<open>while changed\<close> loop: the set grows during the pass.\<close>

definition poison_step :: "string set \<times> bool \<Rightarrow> task_row \<Rightarrow> string set \<times> bool" where
  "poison_step pc t =
     (if tk_template t \<in> fst pc then pc
      else if list_ex (\<lambda>d. d \<in> fst pc) (tk_depends_on t) then (insert (tk_template t) (fst pc), True)
      else pc)"

definition poison_pass :: "task_row list \<Rightarrow> string set \<Rightarrow> string set \<times> bool" where
  "poison_pass ts ps = foldl poison_step (ps, False) ts"

partial_function (option) poisoned_templates :: "task_row list \<Rightarrow> string set \<Rightarrow> string set option" where
  "poisoned_templates ts ps =
     (case poison_pass ts ps of (ps', changed) \<Rightarrow> if changed then poisoned_templates ts ps' else Some ps')"

definition failed_templates :: "task_row list \<Rightarrow> string set" where
  "failed_templates ts = set (map tk_template (filter (\<lambda>t. tk_state t = FAILED) ts))"

definition transitively_blocked :: "task_row list \<Rightarrow> task_row list option" where
  "transitively_blocked ts =
     (if failed_templates ts = {} then Some []
      else map_option (\<lambda>ps. filter (\<lambda>t. waiting (tk_state t) \<and> tk_template t \<in> ps) ts)
             (poisoned_templates ts (failed_templates ts)))"

definition is_terminal :: "task_row list \<Rightarrow> bool \<times> string" where
  "is_terminal ts =
     (let states = map tk_state ts in
      if list_ex (\<lambda>s. s \<in> {PENDING, READY, IN_PROGRESS}) states then
        (if list_all (\<lambda>s. s \<in> {BLOCKED, DONE, SKIPPED}) states then (True, ''blocked'') else (False, []))
      else if list_all settled states then (True, ''fulfilled'')
      else if list_ex (\<lambda>s. s = DONE) states \<and> list_ex (\<lambda>s. s = FAILED) states then (True, ''partial'')
      else (True, ''failed''))"

definition count_state :: "task_state \<Rightarrow> task_row list \<Rightarrow> int" where
  "count_state s ts = int (length (filter (\<lambda>t. tk_state t = s) ts))"

definition render_display :: "string \<Rightarrow> string \<Rightarrow> task_row list \<Rightarrow> string" where
  "render_display ritm outcome ts =
     (let done = int_str (count_state DONE ts); failed = int_str (count_state FAILED ts); all = int_str (int (length ts))
      in if outcome = ''fulfilled'' then ''Fulfillment '' @ ritm @ '' completed: '' @ done @ ''/'' @ all @ '' tasks done.''
         else if outcome = ''partial'' then ''Fulfillment '' @ ritm @ '' ended with partial failure: '' @ done @ ''/'' @ all
           @ '' done, '' @ failed @ '' failed.''
         else if outcome = ''blocked'' then ''Fulfillment '' @ ritm @ '' is blocked awaiting approval.''
         else ''Fulfillment '' @ ritm @ '' failed: '' @ failed @ '' failed task(s).'')"

section \<open>The adapter\<close>

record adapter_response =
  ar_success :: bool
  ar_result :: "json option"
  ar_error_class :: "error_class option"
  ar_error_message :: "string option"

datatype adapter_reply = Responded adapter_response | TimedOut | RaisedInvocation string | RaisedOther string

type_synonym 'w adapter_method =
  "string \<Rightarrow> string \<Rightarrow> (string \<times> json) list \<Rightarrow> rat option \<Rightarrow> 'w \<Rightarrow> adapter_reply \<times> 'w"

record 'w fulfil_env =
  fe_method :: "string \<Rightarrow> 'w adapter_method option"
  fe_now :: "'w \<Rightarrow> int"
  fe_new_id :: "'w \<Rightarrow> string \<times> 'w"
  fe_order :: "task_row list \<Rightarrow> task_row list"
  fe_call_timeout :: rat
  fe_recovery_minutes :: int
  fe_try_lock :: "'w \<Rightarrow> bool \<times> 'w"

type_synonym 'w fulfil_sys = "fulfil_db \<times> 'w"

definition call_timeout :: "rat \<Rightarrow> int option \<Rightarrow> rat" where
  "call_timeout limit sla =
     (case sla of Some m \<Rightarrow> if m > 0 then min (of_int (m * 60)) (limit * 10) else limit | None \<Rightarrow> limit)"

definition invoke_adapter ::
  "'w fulfil_env \<Rightarrow> string \<Rightarrow> string \<Rightarrow> string \<Rightarrow> (string \<times> json) list \<Rightarrow> int option \<Rightarrow> 'w
   \<Rightarrow> (fulfil_error + adapter_response) \<times> 'w" where
  "invoke_adapter env tool tenant key payload sla w =
     (case fe_method env tool of
        None \<Rightarrow> (Inl (AdapterInvocationError (''adapter has no method '' @ quoted tool)), w)
      | Some m \<Rightarrow>
          (case m tenant key payload (Some (call_timeout (fe_call_timeout env) sla)) w of
             (Responded r, w') \<Rightarrow> (Inr r, w')
           | (TimedOut, w') \<Rightarrow>
               (Inr \<lparr>ar_success = False, ar_result = None, ar_error_class = Some E_TIMEOUT,
                     ar_error_message = Some (''adapter '' @ tool @ '' exceeded the call timeout'')\<rparr>, w')
           | (RaisedInvocation x, w') \<Rightarrow> (Inl (AdapterInvocationError x), w')
           | (RaisedOther x, w') \<Rightarrow> (Inl (AdapterInvocationError (''adapter '' @ tool @ '' raised '' @ x)), w')))"

section \<open>One task\<close>

definition payload_of :: "json \<Rightarrow> fulfil_error + (string \<times> json) list" where
  "payload_of j = (case j of JObj kvs \<Rightarrow> Inr kvs | _ \<Rightarrow> if truthy j then Inl (PyRaised ''ValueError'') else Inr [])"

text \<open>The second transition of a task; its result is not looked at.\<close>

definition leave_task ::
  "'w fulfil_env \<Rightarrow> string \<Rightarrow> string \<Rightarrow> task_state \<Rightarrow> int \<Rightarrow> task_patch \<Rightarrow> 'w fulfil_sys \<Rightarrow> 'w fulfil_sys" where
  "leave_task env tenant tid to_state version q s =
     (snd (transition_task_state (fst s) (fe_now env (snd s)) tenant tid IN_PROGRESS to_state version q), snd s)"

definition out_patch :: "json option \<Rightarrow> task_patch" where
  "out_patch o' = no_patch\<lparr>tp_output := o'\<rparr>"

definition error_patch :: "string option \<Rightarrow> string \<Rightarrow> int \<Rightarrow> task_patch" where
  "error_patch m c n = \<lparr>tp_output = None, tp_error_message = m, tp_error_code = Some c, tp_retry_count = Some n\<rparr>"

definition kwarg :: "(string \<times> json) list \<Rightarrow> string \<Rightarrow> json \<Rightarrow> json" where
  "kwarg payload k d = (case map_of payload k of None \<Rightarrow> d | Some v \<Rightarrow> v)"

definition approval_task ::
  "'w fulfil_env \<Rightarrow> string \<Rightarrow> string \<Rightarrow> task_row \<Rightarrow> (string \<times> json) list \<Rightarrow> int \<Rightarrow> 'w fulfil_sys
   \<Rightarrow> (fulfil_error + task_state) \<times> 'w fulfil_sys" where
  "approval_task env tenant ritm t payload v s =
     (case fe_new_id env (snd s) of (aid, w) \<Rightarrow>
      (case insert_approval (fst s) aid tenant ritm (Some (tk_id t))
             (kwarg payload ''approval_type'' (JStr ''fulfillment_step''))
             (kwarg payload ''reason'' (JStr (''Approval required for '' @ tk_name t)))
             (kwarg payload ''requested_from'' (JStr (or_else (tk_assignment_group t) ''manager'')))
             (JObj payload) of
        Inl e \<Rightarrow> (Inl e, fst s, w)
      | Inr (db, aid') \<Rightarrow>
          (Inr BLOCKED, leave_task env tenant (tk_id t) BLOCKED v (out_patch (Some (JObj [(''approval_id'', JStr aid')]))) (db, w))))"

definition effective_max_retries :: "task_row \<Rightarrow> int" where
  "effective_max_retries t = (if tk_max_retries t = 0 then 3 else tk_max_retries t)"

definition idem_key :: "string \<Rightarrow> task_row \<Rightarrow> string" where
  "idem_key ritm t = ritm @ '':'' @ tk_id t @ '':'' @ int_str (tk_retry_count t)"

text \<open>Where a response sends the task, and with which columns.\<close>

definition after_response :: "task_row \<Rightarrow> adapter_response \<Rightarrow> task_state \<times> task_patch" where
  "after_response t r =
     (if ar_success r then (DONE, out_patch (ar_result r))
      else let c = (case ar_error_class r of None \<Rightarrow> E_PERMANENT | Some c \<Rightarrow> c);
               n = tk_retry_count t + 1;
               q = error_patch (ar_error_message r) (error_class_value c) n
           in if c \<in> {E_TRANSIENT, E_TIMEOUT} \<and> n < effective_max_retries t then (READY, q) else (FAILED, q))"

definition adapter_task ::
  "'w fulfil_env \<Rightarrow> string \<Rightarrow> string \<Rightarrow> task_row \<Rightarrow> string \<Rightarrow> (string \<times> json) list \<Rightarrow> int \<Rightarrow> 'w fulfil_sys
   \<Rightarrow> (fulfil_error + task_state) \<times> 'w fulfil_sys" where
  "adapter_task env tenant ritm t tool payload v s =
     (case invoke_adapter env tool tenant (idem_key ritm t) payload (tk_sla_minutes t) (snd s) of
        (Inl e, w) \<Rightarrow> (Inl e, fst s, w)
      | (Inr r, w) \<Rightarrow>
          (case after_response t r of
             (st, q) \<Rightarrow> (Inr st, leave_task env tenant (tk_id t) st v q (fst s, w))))"

definition claimed_task ::
  "'w fulfil_env \<Rightarrow> string \<Rightarrow> string \<Rightarrow> task_row \<Rightarrow> (string \<times> json) list \<Rightarrow> int \<Rightarrow> 'w fulfil_sys
   \<Rightarrow> (fulfil_error + task_state) \<times> 'w fulfil_sys" where
  "claimed_task env tenant ritm t payload v s =
     (let tool = or_else (tk_tool_id t) [] in
      if tool = ''request_human_approval'' then approval_task env tenant ritm t payload v s
      else if tool = [] then
        (if tk_type t = MANUAL
         then (Inr DONE, leave_task env tenant (tk_id t) DONE v (out_patch (Some (JObj [(''resolved'', JStr ''manual_no_tool'')]))) s)
         else (Inr FAILED, leave_task env tenant (tk_id t) FAILED v
                (error_patch (Some (''task '' @ quoted (tk_name t) @ '' is type=automated but has no tool_id''))
                   ''catalog_misconfigured'' (tk_retry_count t)) s))
      else if tk_type t = MANUAL
        then (Inr DONE, leave_task env tenant (tk_id t) DONE v (out_patch (Some (JObj [(''resolved'', JStr ''manual_auto'')]))) s)
      else adapter_task env tenant ritm t tool payload v s)"

definition execute_one_task ::
  "'w fulfil_env \<Rightarrow> string \<Rightarrow> string \<Rightarrow> task_row \<Rightarrow> 'w fulfil_sys \<Rightarrow> (fulfil_error + task_state) \<times> 'w fulfil_sys" where
  "execute_one_task env tenant ritm t s =
     (case payload_of (tk_input t) of
        Inl e \<Rightarrow> (Inl e, s)
      | Inr payload \<Rightarrow>
          (case transition_task_state (fst s) (fe_now env (snd s)) tenant (tk_id t) (tk_state t) IN_PROGRESS (tk_version t) no_patch of
             (None, db) \<Rightarrow> (Inr (tk_state t), db, snd s)
           | (Some v, db) \<Rightarrow> claimed_task env tenant ritm t payload v (db, snd s)))"

section \<open>Waves\<close>

text \<open>What a task raises is logged and dropped.\<close>

definition run_ready_wave :: "'w fulfil_env \<Rightarrow> string \<Rightarrow> string \<Rightarrow> task_row list \<Rightarrow> 'w fulfil_sys \<Rightarrow> 'w fulfil_sys" where
  "run_ready_wave env tenant ritm ts s = foldl (\<lambda>s t. snd (execute_one_task env tenant ritm t s)) s ts"

definition skip_task :: "'w fulfil_env \<Rightarrow> string \<Rightarrow> 'w fulfil_sys \<Rightarrow> task_row \<Rightarrow> 'w fulfil_sys" where
  "skip_task env tenant s t =
     (snd (transition_task_state (fst s) (fe_now env (snd s)) tenant (tk_id t) (tk_state t) SKIPPED (tk_version t)
        \<lparr>tp_output = None, tp_error_message = Some ''upstream_task_failed'', tp_error_code = Some ''CASCADE_SKIPPED'',
          tp_retry_count = None\<rparr>), snd s)"

definition list_tasks :: "'w fulfil_env \<Rightarrow> string \<Rightarrow> string \<Rightarrow> 'w fulfil_sys \<Rightarrow> task_row list" where
  "list_tasks env tenant ritm s = list_tasks_for_ritm (fe_order env) (fst s) tenant ritm"

definition apply_cascade_skips ::
  "'w fulfil_env \<Rightarrow> string \<Rightarrow> string \<Rightarrow> task_row list \<Rightarrow> 'w fulfil_sys \<Rightarrow> (task_row list \<times> 'w fulfil_sys) option" where
  "apply_cascade_skips env tenant ritm ts s =
     (case transitively_blocked ts of
        None \<Rightarrow> None
      | Some [] \<Rightarrow> Some (ts, s)
      | Some bs \<Rightarrow> let s' = foldl (skip_task env tenant) s bs in Some (list_tasks env tenant ritm s', s'))"

record outcome =
  oc_request_id :: string
  oc_ritm_id :: string
  oc_catalog_item_id :: string
  oc_run_id :: string
  oc_outcome :: fulfillment_outcome
  oc_tasks_total :: int
  oc_completed :: int
  oc_failed :: int
  oc_skipped :: int
  oc_in_progress :: int
  oc_display_text :: string

text \<open>The constructor with its validator.\<close>

definition make_outcome ::
  "ritm_row \<Rightarrow> string option \<Rightarrow> fulfillment_outcome \<Rightarrow> task_row list \<Rightarrow> string \<Rightarrow> fulfil_error + outcome" where
  "make_outcome r run oc ts display =
     (if count_state DONE ts + count_state FAILED ts + count_state SKIPPED ts + count_state IN_PROGRESS ts > ri_total_tasks r
      then Inl (PyRaised ''ValidationError'')
      else Inr \<lparr>oc_request_id = ri_request_id r, oc_ritm_id = ri_id r, oc_catalog_item_id = ri_catalog_item_id r,
             oc_run_id = (case run of None \<Rightarrow> ''RUN_UNKNOWN'' | Some x \<Rightarrow> x), oc_outcome = oc,
             oc_tasks_total = ri_total_tasks r, oc_completed = count_state DONE ts, oc_failed = count_state FAILED ts,
             oc_skipped = count_state SKIPPED ts, oc_in_progress = count_state IN_PROGRESS ts,
             oc_display_text = display\<rparr>)"

definition ritm_state_of :: "string \<Rightarrow> ritm_state" where
  "ritm_state_of o' = (if o' = ''fulfilled'' then R_FULFILLED else if o' = ''blocked'' then R_IN_PROGRESS else R_FAILED)"

definition outcome_of :: "string \<Rightarrow> fulfillment_outcome" where
  "outcome_of o' = (if o' = ''fulfilled'' then O_FULFILLED else if o' = ''partial'' then O_PARTIAL
     else if o' = ''blocked'' then O_IN_PROGRESS else O_FAILED)"

definition finalise ::
  "'w fulfil_env \<Rightarrow> string \<Rightarrow> string \<Rightarrow> string \<Rightarrow> task_row list \<Rightarrow> 'w fulfil_sys \<Rightarrow> (fulfil_error + outcome) \<times> 'w fulfil_sys" where
  "finalise env tenant ritm o' ts0 s =
     (case get_ritm (fst s) tenant ritm of
        None \<Rightarrow> (Inl (RequestItemNotFoundError ritm), s)
      | Some r \<Rightarrow>
          let ts = (if ts0 = [] then list_tasks env tenant ritm s else ts0);
              db1 = (if ri_state r \<noteq> ritm_state_of o'
                     then snd (transition_ritm_state (fst s) tenant ritm (ri_state r) (ritm_state_of o') (ri_version r)
                            (Some (count_state DONE ts)) (Some (count_state FAILED ts)))
                     else fst s);
              run = latest_run db1 tenant ritm
          in (case (case run of None \<Rightarrow> Inr db1 | Some x \<Rightarrow> finalise_run db1 tenant x o') of
               Inl e \<Rightarrow> (Inl e, db1, snd s)
             | Inr db2 \<Rightarrow> (make_outcome r run (outcome_of o') ts (render_display ritm o' ts), db2, snd s)))"

definition partial_status ::
  "string \<Rightarrow> string \<Rightarrow> task_row list \<Rightarrow> fulfil_db \<Rightarrow> fulfil_error + outcome" where
  "partial_status tenant ritm ts db =
     (case get_ritm db tenant ritm of
        None \<Rightarrow> Inl (PyRaised ''TypeError'')
      | Some r \<Rightarrow> make_outcome r (latest_run db tenant ritm) O_IN_PROGRESS ts
          (ritm @ '' awaiting '' @ int_str (int (length (pending_approvals db tenant ritm))) @ '' approval(s); ''
           @ int_str (count_state DONE ts) @ ''/'' @ int_str (ri_total_tasks r) @ '' tasks done.''))"

definition recover_stuck :: "int \<Rightarrow> int \<Rightarrow> string \<Rightarrow> string \<Rightarrow> fulfil_db \<Rightarrow> fulfil_db" where
  "recover_stuck now minutes tenant ritm db =
     db\<lparr>db_tasks := update_where
          (\<lambda>t. of_ritm tenant ritm t \<and> tk_state t = IN_PROGRESS
             \<and> (case tk_started_at t of None \<Rightarrow> False | Some a \<Rightarrow> a < now - minutes * 60000))
          (\<lambda>t. t\<lparr>tk_state := READY, tk_retry_count := tk_retry_count t + 1,
                 tk_error_message := Some ''recovered_from_orphan'', tk_version := tk_version t + 1\<rparr>) (db_tasks db)\<rparr>"

definition init_ritm_and_recover ::
  "'w fulfil_env \<Rightarrow> string \<Rightarrow> string \<Rightarrow> 'w fulfil_sys \<Rightarrow> fulfil_error + 'w fulfil_sys" where
  "init_ritm_and_recover env tenant ritm s =
     (case get_ritm (fst s) tenant ritm of
        None \<Rightarrow> Inl (RequestItemNotFoundError ritm)
      | Some r \<Rightarrow>
          let db = (if ri_state r = R_REQUESTED
                    then snd (transition_ritm_state (fst s) tenant ritm R_REQUESTED R_IN_PROGRESS (ri_version r) None None)
                    else fst s)
          in Inr (recover_stuck (fe_now env (snd s)) (fe_recovery_minutes env) tenant ritm db, snd s))"

text \<open>The body of one wave: either the call ends, or the next wave starts.\<close>

primrec waves ::
  "nat \<Rightarrow> 'w fulfil_env \<Rightarrow> string \<Rightarrow> string \<Rightarrow> 'w fulfil_sys \<Rightarrow> ((fulfil_error + outcome) \<times> 'w fulfil_sys) option" where
  "waves 0 env tenant ritm s = Some (finalise env tenant ritm ''failed'' [] s)"
| "waves (Suc n) env tenant ritm s =
     (case apply_cascade_skips env tenant ritm (list_tasks env tenant ritm s) s of
        None \<Rightarrow> None
      | Some (ts, s1) \<Rightarrow>
          (case is_terminal ts of
             (True, o') \<Rightarrow> Some (finalise env tenant ritm o' ts s1)
           | (False, _) \<Rightarrow>
               let ready = ready_task_ids ts in
               if ready = [] then Some (partial_status tenant ritm ts (fst s1), s1)
               else waves n env tenant ritm
                      (run_ready_wave env tenant ritm (filter (\<lambda>t. tk_id t \<in> set ready) ts) s1)))"

definition MAX_WAVES :: nat where "MAX_WAVES = 64"

definition execute_plan_locked ::
  "'w fulfil_env \<Rightarrow> string \<Rightarrow> string \<Rightarrow> 'w fulfil_sys \<Rightarrow> ((fulfil_error + outcome) \<times> 'w fulfil_sys) option" where
  "execute_plan_locked env tenant ritm s =
     (case init_ritm_and_recover env tenant ritm s of
        Inl e \<Rightarrow> Some (Inl e, s)
      | Inr s1 \<Rightarrow> waves MAX_WAVES env tenant ritm s1)"

definition execute_plan ::
  "'w fulfil_env \<Rightarrow> string \<Rightarrow> string \<Rightarrow> 'w fulfil_sys \<Rightarrow> ((fulfil_error + outcome) \<times> 'w fulfil_sys) option" where
  "execute_plan env tenant ritm s =
     (case fe_try_lock env (snd s) of
        (False, w) \<Rightarrow> Some (partial_status tenant ritm (list_tasks env tenant ritm (fst s, w)) (fst s), fst s, w)
      | (True, w) \<Rightarrow> execute_plan_locked env tenant ritm (fst s, w))"

section \<open>Compensation\<close>

definition COMPENSATION_REGISTRY :: "(string \<times> string \<times> string \<times> string) list" where
  "COMPENSATION_REGISTRY =
     [(''create_directory_account'', ''disable_directory_account'', ''account_id'', ''account_id''),
      (''provision_email_mailbox'', ''deprovision_email_mailbox'', ''mailbox_id'', ''mailbox_id''),
      (''grant_vpn_access'', ''revoke_vpn_access'', ''config_id'', ''config_id''),
      (''assign_software_license'', ''release_software_license'', ''license_id'', ''license_id''),
      (''order_hardware_asset'', ''cancel_hardware_order'', ''po_id'', ''po_id'')]"

datatype compensation =
    SkippedNoOp
  | CompensationCalled string bool
  | CompensationError string string

text \<open>\<open>(output or {}).get(k)\<close> after unwrapping \<open>result\<close>: anything but an object has no \<open>get\<close>.\<close>

definition resource_handle :: "json \<Rightarrow> string \<Rightarrow> fulfil_error + json" where
  "resource_handle out k =
     (let o1 = (if truthy out then out else JObj []);
          o2 = (case jfield o1 ''result'' of Some x \<Rightarrow> x | None \<Rightarrow> o1)
      in if \<not> truthy o2 then Inr JNull
         else if is_dict o2 then Inr (jget o2 k)
         else Inl (PyRaised ''AttributeError''))"

definition compensate_one_task ::
  "'w fulfil_env \<Rightarrow> string \<Rightarrow> string \<Rightarrow> task_row \<Rightarrow> 'w \<Rightarrow> (fulfil_error + compensation) \<times> 'w" where
  "compensate_one_task env tenant ritm t w =
     (case map_of COMPENSATION_REGISTRY (or_else (tk_tool_id t) []) of
        None \<Rightarrow> (Inr SkippedNoOp, w)
      | Some (undo, kw, src) \<Rightarrow>
          (case fe_method env undo of
             None \<Rightarrow> (Inr (CompensationError undo (''adapter missing method '' @ quoted undo)), w)
           | Some m \<Rightarrow>
               (case resource_handle (case tk_output t of None \<Rightarrow> JNull | Some j \<Rightarrow> j) src of
                  Inl e \<Rightarrow> (Inl e, w)
                | Inr h \<Rightarrow>
                    if \<not> truthy h then (Inr (CompensationError undo (''missing '' @ quoted src @ '' in output_payload'')), w)
                    else (case m tenant (''compensate:'' @ ritm @ '':'' @ tk_id t) [(kw, h)] None w of
                            (Responded r, w') \<Rightarrow> (Inr (CompensationCalled undo (ar_success r)), w')
                          | (TimedOut, w') \<Rightarrow> (Inr (CompensationError undo ''TimeoutError''), w')
                          | (RaisedInvocation x, w') \<Rightarrow> (Inr (CompensationError undo x), w')
                          | (RaisedOther x, w') \<Rightarrow> (Inr (CompensationError undo x), w')))))"

fun compensate_all ::
  "'w fulfil_env \<Rightarrow> string \<Rightarrow> string \<Rightarrow> task_row list \<Rightarrow> 'w \<Rightarrow> (fulfil_error + (string \<times> compensation) list) \<times> 'w" where
  "compensate_all env tenant ritm [] w = (Inr [], w)"
| "compensate_all env tenant ritm (t # ts) w =
     (case compensate_one_task env tenant ritm t w of
        (Inl e, w1) \<Rightarrow> (Inl e, w1)
      | (Inr c, w1) \<Rightarrow>
          (case compensate_all env tenant ritm ts w1 of
             (Inl e, w2) \<Rightarrow> (Inl e, w2)
           | (Inr cs, w2) \<Rightarrow> (Inr ((tk_id t, c) # cs), w2)))"

text \<open>\<open>sorted(..., reverse=True)\<close> is stable: equal templates keep their order.\<close>

definition completed_in_reverse :: "task_row list \<Rightarrow> task_row list" where
  "completed_in_reverse ts = rev (sort_key tk_template (rev (filter (\<lambda>t. tk_state t = DONE) ts)))"

definition compensate_ritm ::
  "'w fulfil_env \<Rightarrow> string \<Rightarrow> string \<Rightarrow> 'w fulfil_sys \<Rightarrow> (fulfil_error + (string \<times> compensation) list) \<times> 'w fulfil_sys" where
  "compensate_ritm env tenant ritm s =
     (case compensate_all env tenant ritm (completed_in_reverse (list_tasks env tenant ritm s)) (snd s) of
        (Inl e, w) \<Rightarrow> (Inl e, fst s, w)
      | (Inr cs, w) \<Rightarrow>
          (Inr cs,
           (case get_ritm (fst s) tenant ritm of
              None \<Rightarrow> fst s
            | Some r \<Rightarrow>
                if ri_state r \<noteq> R_CANCELLED
                then snd (transition_ritm_state (fst s) tenant ritm (ri_state r) R_CANCELLED (ri_version r) None None)
                else fst s), w))"

section \<open>The cascade reaches exactly the dependents of failures\<close>

definition dep_edges :: "task_row list \<Rightarrow> (string \<times> string) set" where
  "dep_edges ts = {(d, tk_template t) |t d. t \<in> set ts \<and> d \<in> set (tk_depends_on t)}"

definition tainted :: "task_row list \<Rightarrow> string set" where
  "tainted ts = (dep_edges ts)\<^sup>* `` failed_templates ts"

lemma poison_fold:
  assumes "foldl poison_step (ps, c) ts = (ps', c')"
  shows "ps \<subseteq> ps' \<and> ps' \<subseteq> ps \<union> tk_template ` set ts \<and> ps' \<subseteq> (dep_edges ts)\<^sup>* `` ps
    \<and> (c' \<longleftrightarrow> c \<or> ps' \<noteq> ps)
    \<and> (ps' = ps \<longrightarrow> (\<forall>t \<in> set ts. (\<exists>d \<in> set (tk_depends_on t). d \<in> ps) \<longrightarrow> tk_template t \<in> ps))"
  using assms
proof (induction ts arbitrary: ps c)
  case (Cons t ts)
  obtain ps1 c1 where st: "poison_step (ps, c) t = (ps1, c1)" by (cases "poison_step (ps, c) t")
  then have step: "(ps1 = ps \<and> c1 = c \<and> ((\<exists>d \<in> set (tk_depends_on t). d \<in> ps) \<longrightarrow> tk_template t \<in> ps))
      \<or> (ps1 = insert (tk_template t) ps \<and> c1 \<and> tk_template t \<notin> ps \<and> (\<exists>d \<in> set (tk_depends_on t). d \<in> ps))"
    by (auto simp: poison_step_def list_ex_iff split: if_splits)
  have edges: "dep_edges ts \<subseteq> dep_edges (t # ts)" by (auto simp: dep_edges_def)
  have in1: "ps1 \<subseteq> (dep_edges (t # ts))\<^sup>* `` ps"
    using step by (auto simp: dep_edges_def Image_iff intro: r_into_rtrancl)
  note IH = Cons.IH [of ps1 c1] Cons.prems st
  have r: "ps1 \<subseteq> ps'" "ps' \<subseteq> ps1 \<union> tk_template ` set ts" "ps' \<subseteq> (dep_edges ts)\<^sup>* `` ps1" "c' \<longleftrightarrow> c1 \<or> ps' \<noteq> ps1"
    "ps' = ps1 \<longrightarrow> (\<forall>t \<in> set ts. (\<exists>d \<in> set (tk_depends_on t). d \<in> ps1) \<longrightarrow> tk_template t \<in> ps1)"
    using IH by simp_all
  have "ps' \<subseteq> (dep_edges (t # ts))\<^sup>* `` ps"
  proof
    fix x assume "x \<in> ps'"
    then obtain y where "y \<in> ps1" "(y, x) \<in> (dep_edges ts)\<^sup>*" using r(3) by blast
    with in1 rtrancl_mono [OF edges] show "x \<in> (dep_edges (t # ts))\<^sup>* `` ps" by (meson Image_iff rtrancl_trans subsetD)
  qed
  then show ?case using step r by auto
qed auto

lemma poisoned_templates_exact:
  "\<exists>ps. poisoned_templates ts seed = Some ps \<and> ps = (dep_edges ts)\<^sup>* `` seed"
proof (induction "card (tk_template ` set ts - seed)" arbitrary: seed rule: less_induct)
  case less
  obtain ps c where pass: "poison_pass ts seed = (ps, c)" by (cases "poison_pass ts seed")
  note p = poison_fold [OF pass [unfolded poison_pass_def]]
  show ?case
  proof (cases c)
    case False
    then have eq: "ps = seed" using p by simp
    have "y \<in> seed" if "(x, y) \<in> (dep_edges ts)\<^sup>*" "x \<in> seed" for x y
      using that
    proof (induction rule: rtrancl_induct)
      case (step y z)
      then show ?case using p eq by (auto simp: dep_edges_def)
    qed
    then have "(dep_edges ts)\<^sup>* `` seed = seed" by auto
    with eq False show ?thesis by (simp add: poisoned_templates.simps [of ts seed] pass)
  next
    case True
    then have ne: "ps \<noteq> seed" using p by simp
    then obtain x where x: "x \<in> ps" "x \<notin> seed" "x \<in> tk_template ` set ts" using p by blast
    have "tk_template ` set ts - ps \<subset> tk_template ` set ts - seed" using p x by blast
    then have "card (tk_template ` set ts - ps) < card (tk_template ` set ts - seed)" by (simp add: psubset_card_mono)
    from less [OF this] obtain qs where q: "poisoned_templates ts ps = Some qs" "qs = (dep_edges ts)\<^sup>* `` ps" by blast
    have "(dep_edges ts)\<^sup>* `` ps = (dep_edges ts)\<^sup>* `` seed"
      using p by (auto simp: Image_iff subset_iff) (meson rtrancl_trans)+
    with q True show ?thesis by (simp add: poisoned_templates.simps [of ts seed] pass)
  qed
qed

lemma transitively_blocked_exact:
  "transitively_blocked ts = Some (filter (\<lambda>t. waiting (tk_state t) \<and> tk_template t \<in> tainted ts) ts)"
  using poisoned_templates_exact [of ts "failed_templates ts"]
  by (auto simp: transitively_blocked_def tainted_def)

end
