(* ===== verification/FulfilCorrectness.thy ===== *)
theory FulfilCorrectness
  imports Fulfillment
begin

text \<open>
  Correctness of the fulfilment runtime: the invariant of a request item's task rows, that every
  operation of \<open>execute_plan\<close> keeps it, that the wave loop always returns, and what an outcome
  then says about the tasks.
\<close>

section \<open>The invariant\<close>

definition rows :: "string \<Rightarrow> string \<Rightarrow> fulfil_db \<Rightarrow> task_row list" where
  "rows tenant ritm db = filter (of_ritm tenant ritm) (db_tasks db)"

definition task_key :: "task_row \<Rightarrow> string \<times> string" where
  "task_key t = (tk_tenant t, tk_id t)"

definition started :: "task_state \<Rightarrow> bool" where
  "started s \<longleftrightarrow> s \<notin> {PENDING, READY, SKIPPED}"

definition deps_done :: "task_row list \<Rightarrow> task_row \<Rightarrow> bool" where
  "deps_done ts t \<longleftrightarrow> (\<forall>d \<in> set (tk_depends_on t). \<exists>r \<in> set ts. tk_template r = d \<and> tk_state r = DONE)"

text \<open>
  The keys are the primary key of the table, the templates of one request item are distinct (both are
  constraints of the schema); only tasks whose dependencies are done have started, and only tasks
  below a failure are skipped.
\<close>

definition plan_ok :: "string \<Rightarrow> string \<Rightarrow> fulfil_db \<Rightarrow> bool" where
  "plan_ok tenant ritm db \<longleftrightarrow> distinct (map task_key (db_tasks db)) \<and> distinct (map tk_template (rows tenant ritm db))
     \<and> (\<forall>t \<in> set (rows tenant ritm db). started (tk_state t) \<longrightarrow> deps_done (rows tenant ritm db) t)
     \<and> (\<forall>t \<in> set (rows tenant ritm db). tk_state t = SKIPPED \<longrightarrow> tk_template t \<in> tainted (rows tenant ritm db))"

lemma plan_okD:
  assumes "plan_ok tenant ritm db"
  shows "distinct (map task_key (db_tasks db))" and "distinct (map tk_template (rows tenant ritm db))"
    and "t \<in> set (rows tenant ritm db) \<Longrightarrow> started (tk_state t) \<Longrightarrow> deps_done (rows tenant ritm db) t"
    and "t \<in> set (rows tenant ritm db) \<Longrightarrow> tk_state t = SKIPPED \<Longrightarrow> tk_template t \<in> tainted (rows tenant ritm db)"
  using assms by (auto simp: plan_ok_def)

text \<open>What an update may not touch.\<close>

definition same_task :: "task_row \<Rightarrow> task_row \<Rightarrow> bool" where
  "same_task t u \<longleftrightarrow> tk_tenant u = tk_tenant t \<and> tk_id u = tk_id t \<and> tk_ritm u = tk_ritm t
     \<and> tk_template u = tk_template t \<and> tk_depends_on u = tk_depends_on t"

definition move_ok :: "task_row list \<Rightarrow> task_row \<Rightarrow> task_state \<Rightarrow> bool" where
  "move_ok ts t s \<longleftrightarrow> tk_state t \<notin> {DONE, FAILED, SKIPPED} \<and> (started s \<longrightarrow> deps_done ts t)
     \<and> (s = SKIPPED \<longrightarrow> tk_template t \<in> tainted ts)"

lemma set_update_where: "set (update_where p f xs) = f ` {x \<in> set xs. p x} \<union> {x \<in> set xs. \<not> p x}"
  by (auto simp: update_where_def)

lemma map_update_where: "(\<And>x. x \<in> set xs \<Longrightarrow> p x \<Longrightarrow> g (f x) = g x) \<Longrightarrow> map g (update_where p f xs) = map g xs"
  by (auto simp: update_where_def)

lemma filter_update_where:
  "(\<And>x. x \<in> set xs \<Longrightarrow> p x \<Longrightarrow> q (f x) = q x) \<Longrightarrow> filter q (update_where p f xs) = update_where p f (filter q xs)"
  by (induction xs) (auto simp: update_where_def)

lemma rows_update:
  assumes "\<And>t. t \<in> set (db_tasks db) \<Longrightarrow> p t \<Longrightarrow> same_task t (f t)"
  shows "rows tenant ritm (db\<lparr>db_tasks := update_where p f (db_tasks db)\<rparr>) = update_where p f (rows tenant ritm db)"
  using assms by (auto simp: rows_def of_ritm_def same_task_def intro!: filter_update_where)

text \<open>An update by allowed moves keeps the edges, what is done and what has failed.\<close>

lemma update_keeps:
  assumes "\<And>t. t \<in> set ts \<Longrightarrow> p t \<Longrightarrow> same_task t (f t) \<and> move_ok ts t (tk_state (f t))"
  shows "dep_edges (update_where p f ts) = dep_edges ts"
    and "deps_done ts u \<Longrightarrow> deps_done (update_where p f ts) u"
    and "tainted ts \<subseteq> tainted (update_where p f ts)"
proof -
  show e: "dep_edges (update_where p f ts) = dep_edges ts"
  proof -
    have "dep_edges (update_where p f ts) = (\<Union>t \<in> set (update_where p f ts). (\<lambda>d. (d, tk_template t)) ` set (tk_depends_on t))"
      by (auto simp: dep_edges_def)
    also have "\<dots> = (\<Union>t \<in> set ts. (\<lambda>d. (d, tk_template t)) ` set (tk_depends_on t))"
      using assms by (auto simp: update_where_def same_task_def)
    finally show ?thesis by (auto simp: dep_edges_def)
  qed
  show "deps_done (update_where p f ts) u" if dn: "deps_done ts u"
    unfolding deps_done_def
  proof
    fix d assume "d \<in> set (tk_depends_on u)"
    then obtain r where "r \<in> set ts" "tk_template r = d" "tk_state r = DONE" using dn by (auto simp: deps_done_def)
    with assms [of r] show "\<exists>r \<in> set (update_where p f ts). tk_template r = d \<and> tk_state r = DONE"
      by (auto simp: set_update_where move_ok_def)
  qed
  have "failed_templates ts \<subseteq> failed_templates (update_where p f ts)"
    using assms by (force simp: failed_templates_def set_update_where move_ok_def)
  then show "tainted ts \<subseteq> tainted (update_where p f ts)" by (auto simp: tainted_def e)
qed

lemma plan_ok_update [invs]:
  assumes ok: "plan_ok tenant ritm db"
    and same: "\<And>t. t \<in> set (db_tasks db) \<Longrightarrow> p t \<Longrightarrow> same_task t (f t)"
    and move: "\<And>t. t \<in> set (rows tenant ritm db) \<Longrightarrow> p t \<Longrightarrow> move_ok (rows tenant ritm db) t (tk_state (f t))"
  shows "plan_ok tenant ritm (db\<lparr>db_tasks := update_where p f (db_tasks db)\<rparr>)"
proof -
  let ?ts = "rows tenant ritm db" and ?us = "update_where p f (rows tenant ritm db)"
  have sub: "set ?ts \<subseteq> set (db_tasks db)" by (auto simp: rows_def)
  have pf: "same_task t (f t) \<and> move_ok ?ts t (tk_state (f t))" if "t \<in> set ?ts" "p t" for t
    using that same move sub by blast
  have dd: "deps_done ?us u" if "deps_done ?ts u" for u by (rule update_keeps(2) [OF _ that]) (rule pf)
  have tm: "tainted ?ts \<subseteq> tainted ?us" by (rule update_keeps(3)) (rule pf)
  note ru = rows_update [of db p f tenant ritm, OF same]
  have deps: "deps_done ?us (f t) \<longleftrightarrow> deps_done ?us t" "tk_template (f t) = tk_template t" if "t \<in> set ?ts" "p t" for t
    using pf [OF that] by (auto simp: deps_done_def same_task_def)
  have "started (tk_state u) \<longrightarrow> deps_done ?us u" "tk_state u = SKIPPED \<longrightarrow> tk_template u \<in> tainted ?us"
    if "u \<in> set ?us" for u
  proof -
    from that consider t where "t \<in> set ?ts" "p t" "u = f t" | "u \<in> set ?ts" "\<not> p u" by (auto simp: set_update_where)
    note cs = this
    show "started (tk_state u) \<longrightarrow> deps_done ?us u"
      using cs pf deps dd plan_okD(3) [OF ok] by cases (auto simp: move_ok_def)
    show "tk_state u = SKIPPED \<longrightarrow> tk_template u \<in> tainted ?us"
      using cs pf deps tm plan_okD(4) [OF ok] by cases (auto simp: move_ok_def)
  qed
  moreover have "map task_key (update_where p f (db_tasks db)) = map task_key (db_tasks db)"
    using same by (intro map_update_where) (auto simp: same_task_def task_key_def)
  moreover have "map tk_template ?us = map tk_template ?ts" using pf by (intro map_update_where) (auto simp: same_task_def)
  ultimately show ?thesis using plan_okD(1,2) [OF ok] by (simp add: plan_ok_def ru)
qed

section \<open>How the task table may evolve\<close>

text \<open>\<open>t\<close> is a row as some task read it earlier; the row may have changed since, but not its identity.\<close>

definition known :: "string \<Rightarrow> string \<Rightarrow> fulfil_db \<Rightarrow> task_row \<Rightarrow> bool" where
  "known tenant ritm db t \<longleftrightarrow> (\<exists>r \<in> set (rows tenant ritm db). same_task t r)"

definition startable :: "string \<Rightarrow> string \<Rightarrow> fulfil_db \<Rightarrow> task_row \<Rightarrow> bool" where
  "startable tenant ritm db t \<longleftrightarrow> known tenant ritm db t \<and> deps_done (rows tenant ritm db) t"

definition evolves :: "string \<Rightarrow> string \<Rightarrow> fulfil_db \<Rightarrow> fulfil_db \<Rightarrow> bool" where
  "evolves tenant ritm db db' \<longleftrightarrow> plan_ok tenant ritm db'
     \<and> (\<forall>t. startable tenant ritm db t \<longrightarrow> startable tenant ritm db' t)"

lemma evolves_trans: "evolves tenant ritm a b \<Longrightarrow> evolves tenant ritm b c \<Longrightarrow> evolves tenant ritm a c"
  by (auto simp: evolves_def)

lemma plan_ok_tasks: "db_tasks db' = db_tasks db \<Longrightarrow> plan_ok tenant ritm db' = plan_ok tenant ritm db"
  by (simp add: plan_ok_def rows_def)

lemma evolves_tasks:
  assumes "plan_ok tenant ritm db" "db_tasks db' = db_tasks db"
  shows "evolves tenant ritm db db'"
proof -
  have "rows tenant ritm db' = rows tenant ritm db" using assms(2) by (simp add: rows_def)
  with assms(1) plan_ok_tasks [OF assms(2)] show ?thesis by (simp add: evolves_def startable_def known_def)
qed

lemma same_task_trans: "same_task t r \<Longrightarrow> same_task r u \<Longrightarrow> same_task t u"
  by (simp add: same_task_def)

lemma evolves_update:
  assumes ok: "plan_ok tenant ritm db"
    and same: "\<And>t. t \<in> set (db_tasks db) \<Longrightarrow> p t \<Longrightarrow> same_task t (f t)"
    and move: "\<And>t. t \<in> set (rows tenant ritm db) \<Longrightarrow> p t \<Longrightarrow> move_ok (rows tenant ritm db) t (tk_state (f t))"
  shows "evolves tenant ritm db (db\<lparr>db_tasks := update_where p f (db_tasks db)\<rparr>)"
proof -
  let ?ts = "rows tenant ritm db"
  have pf: "same_task t (f t) \<and> move_ok ?ts t (tk_state (f t))" if "t \<in> set ?ts" "p t" for t
    using that same move by (auto simp: rows_def)
  have "\<exists>r \<in> set (update_where p f ?ts). same_task t r" if "r \<in> set ?ts" "same_task t r" for r t
    using that pf [of r] same_task_trans [of t r "f r"] by (cases "p r") (auto simp: set_update_where)
  moreover have "deps_done (update_where p f ?ts) u" if "deps_done ?ts u" for u
    by (rule update_keeps(2) [OF _ that]) (rule pf)
  ultimately show ?thesis
    using plan_ok_update [OF ok same move]
    by (auto simp: evolves_def startable_def known_def rows_update [of db p f tenant ritm, OF same])
qed

lemma patch_same [simp]: "same_task t (patch_task now st q t)" "tk_state (patch_task now st q t) = st"
  by (simp_all add: same_task_def patch_task_def)

lemma evolves_transition:
  assumes "plan_ok tenant ritm db"
    and "\<And>t. t \<in> set (rows tenant ritm db) \<Longrightarrow> tk_id t = tid \<Longrightarrow> tk_state t = from_state \<Longrightarrow> move_ok (rows tenant ritm db) t to_state"
  shows "evolves tenant ritm db (snd (transition_task_state db now tenant tid from_state to_state version q))"
  unfolding transition_task_state_def Let_def snd_conv using assms by (intro evolves_update) auto

lemma key_unique: "distinct (map f xs) \<Longrightarrow> x \<in> set xs \<Longrightarrow> y \<in> set xs \<Longrightarrow> f x = f y \<Longrightarrow> x = y"
  by (auto simp: distinct_map inj_on_def)

lemma row_unique:
  assumes "distinct (map task_key (db_tasks db))" "r \<in> set (rows tenant ritm db)" "u \<in> set (rows tenant ritm db)" "tk_id r = tk_id u"
  shows "r = u"
proof -
  have "task_key r = task_key u" using assms(2-4) by (auto simp: rows_def of_ritm_def task_key_def)
  with assms show ?thesis by (auto simp: rows_def intro: key_unique [OF assms(1)])
qed

text \<open>Claiming a waiting task and leaving a claimed one.\<close>

lemma evolves_claim:
  assumes ok: "plan_ok tenant ritm db" and st: "startable tenant ritm db t" and w: "waiting (tk_state t)"
  shows "evolves tenant ritm db (snd (transition_task_state db now tenant (tk_id t) (tk_state t) IN_PROGRESS version q))"
proof (rule evolves_transition [OF ok])
  fix r assume r: "r \<in> set (rows tenant ritm db)" "tk_id r = tk_id t" "tk_state r = tk_state t"
  obtain u where u: "u \<in> set (rows tenant ritm db)" "same_task t u" using st by (auto simp: startable_def known_def)
  with r row_unique [OF plan_okD(1) [OF ok] r(1) u(1)] have "tk_depends_on r = tk_depends_on t" by (auto simp: same_task_def)
  with st w r show "move_ok (rows tenant ritm db) r IN_PROGRESS"
    by (auto simp: move_ok_def startable_def deps_done_def waiting_def)
qed

lemma evolves_leave:
  assumes "plan_ok tenant ritm db" "to_state \<noteq> SKIPPED"
  shows "evolves tenant ritm db (snd (transition_task_state db now tenant tid IN_PROGRESS to_state version q))"
  using assms plan_okD(3) [OF assms(1)] by (intro evolves_transition) (auto simp: move_ok_def started_def)

lemma evolves_leave_task:
  assumes "plan_ok tenant ritm (fst s)" "to_state \<noteq> SKIPPED"
  shows "evolves tenant ritm (fst s) (fst (leave_task env tenant tid to_state version q s))"
  using evolves_leave [OF assms] by (simp add: leave_task_def)

section \<open>One task, one wave\<close>

lemma after_response_state: "fst (after_response t r) \<noteq> SKIPPED"
  by (auto simp: after_response_def Let_def)

lemma insert_approval_tasks: "insert_approval db i tenant ritm tk a b c d = Inr (db', x) \<Longrightarrow> db_tasks db' = db_tasks db"
  by (auto simp: insert_approval_def split: option.splits if_splits)

lemma evolves_claimed:
  assumes ok: "plan_ok tenant ritm (fst s)"
  shows "evolves tenant ritm (fst s) (fst (snd (claimed_task env tenant ritm t payload v s)))"
proof -
  have leave: "evolves tenant ritm (fst s) (fst (leave_task env tenant tid st v' q (db, w)))"
    if "db_tasks db = db_tasks (fst s)" "st \<noteq> SKIPPED" for db w tid st v' q
  proof -
    have "plan_ok tenant ritm (fst (db, w))" using ok plan_ok_tasks [OF that(1)] by simp
    from evolves_trans [OF evolves_tasks [OF ok that(1)]] evolves_leave_task [OF this that(2)]
    show ?thesis by (simp only: fst_conv)
  qed
  have appr: "evolves tenant ritm (fst s) (fst (snd (approval_task env tenant ritm t payload v s)))"
  proof -
    have "fst (snd (approval_task env tenant ritm t payload v s)) = fst s
      \<or> (\<exists>db w q. db_tasks db = db_tasks (fst s)
           \<and> fst (snd (approval_task env tenant ritm t payload v s)) = fst (leave_task env tenant (tk_id t) BLOCKED v q (db, w)))"
      unfolding approval_task_def by (split prod.split, intro allI impI, split sum.split) (auto dest: insert_approval_tasks)
    then show ?thesis using leave [of _ BLOCKED] evolves_tasks [OF ok refl] by auto
  qed
  have adap: "evolves tenant ritm (fst s) (fst (snd (adapter_task env tenant ritm t tool payload v s)))" for tool
  proof -
    obtain x w where i: "invoke_adapter env tool tenant (idem_key ritm t) payload (tk_sla_minutes t) (snd s) = (x, w)"
      by (cases "invoke_adapter env tool tenant (idem_key ritm t) payload (tk_sla_minutes t) (snd s)")
    show ?thesis
    proof (cases x)
      case (Inl e)
      with i evolves_tasks [OF ok refl] show ?thesis by (simp add: adapter_task_def)
    next
      case (Inr r)
      obtain st q where a: "after_response t r = (st, q)" by (cases "after_response t r")
      with after_response_state [of t r] have "st \<noteq> SKIPPED" by simp
      with i Inr a leave [of "fst s" st] show ?thesis by (simp add: adapter_task_def)
    qed
  qed
  show ?thesis using leave [of "fst s" _ _ _ _ "snd s"] appr adap by (auto simp: claimed_task_def Let_def)
qed

lemma evolves_execute:
  assumes "plan_ok tenant ritm (fst s)" "startable tenant ritm (fst s) t" "waiting (tk_state t)"
  shows "evolves tenant ritm (fst s) (fst (snd (execute_one_task env tenant ritm t s)))"
proof -
  obtain v db where tr: "transition_task_state (fst s) (fe_now env (snd s)) tenant (tk_id t) (tk_state t) IN_PROGRESS (tk_version t) no_patch = (v, db)"
    by (cases "transition_task_state (fst s) (fe_now env (snd s)) tenant (tk_id t) (tk_state t) IN_PROGRESS (tk_version t) no_patch")
  have e: "evolves tenant ritm (fst s) db" using evolves_claim [OF assms, of "fe_now env (snd s)" "tk_version t" no_patch] tr by simp
  have "evolves tenant ritm db (fst (snd (claimed_task env tenant ritm t payload v' (db, snd s))))" for payload v'
    using evolves_claimed [of tenant ritm "(db, snd s)" env t payload v'] e by (simp add: evolves_def)
  from evolves_trans [OF e this] e show ?thesis
    using evolves_tasks [OF assms(1) refl] by (auto simp: execute_one_task_def tr split: sum.split option.split)
qed

lemma evolves_wave:
  assumes "plan_ok tenant ritm (fst s)" "\<forall>t \<in> set ts. startable tenant ritm (fst s) t \<and> waiting (tk_state t)"
  shows "evolves tenant ritm (fst s) (fst (run_ready_wave env tenant ritm ts s))"
  using assms
proof (induction ts arbitrary: s)
  case (Cons t ts)
  let ?s = "snd (execute_one_task env tenant ritm t s)"
  have e: "evolves tenant ritm (fst s) (fst ?s)" using Cons.prems by (intro evolves_execute) auto
  then have "evolves tenant ritm (fst ?s) (fst (run_ready_wave env tenant ritm ts ?s))"
    using Cons.prems by (intro Cons.IH) (auto simp: evolves_def)
  from evolves_trans [OF e this] show ?case by (simp add: run_ready_wave_def)
qed (simp add: run_ready_wave_def evolves_tasks)

section \<open>The cascade\<close>

definition skip_patch :: task_patch where
  "skip_patch = \<lparr>tp_output = None, tp_error_message = Some ''upstream_task_failed'',
     tp_error_code = Some ''CASCADE_SKIPPED'', tp_retry_count = None\<rparr>"

lemma transition_exact:
  assumes "distinct (map task_key (db_tasks db))" "t \<in> set (db_tasks db)" "tk_tenant t = tenant"
  shows "snd (transition_task_state db now tenant (tk_id t) (tk_state t) to_state (tk_version t) q)
    = db\<lparr>db_tasks := update_where (\<lambda>r. r = t) (patch_task now to_state q) (db_tasks db)\<rparr>"
proof -
  have "(tk_tenant r = tenant \<and> tk_id r = tk_id t \<and> tk_state r = tk_state t \<and> tk_version r = tk_version t) \<longleftrightarrow> r = t"
    if "r \<in> set (db_tasks db)" for r
    using that assms key_unique [OF assms(1) that assms(2)] by (auto simp: task_key_def)
  then show ?thesis by (auto simp: transition_task_state_def Let_def update_where_def)
qed

lemma skip_fold:
  assumes "distinct (map task_key (db_tasks db))" "set bs \<subseteq> set (db_tasks db)" "\<forall>t \<in> set bs. tk_tenant t = tenant" "distinct bs"
  shows "foldl (skip_task env tenant) (db, w) bs
    = (db\<lparr>db_tasks := update_where (\<lambda>r. r \<in> set bs) (patch_task (fe_now env w) SKIPPED skip_patch) (db_tasks db)\<rparr>, w)"
  using assms
proof (induction bs arbitrary: db)
  case (Cons t bs)
  let ?f = "patch_task (fe_now env w) SKIPPED skip_patch"
  let ?db = "db\<lparr>db_tasks := update_where (\<lambda>r. r = t) ?f (db_tasks db)\<rparr>"
  have step: "skip_task env tenant (db, w) t = (?db, w)"
    using transition_exact [of db t tenant "fe_now env w" SKIPPED skip_patch] Cons.prems
    by (simp add: skip_task_def skip_patch_def)
  have key: "task_key (?f r) = task_key r" for r by (simp add: task_key_def patch_task_def)
  then have keys: "map task_key (db_tasks ?db) = map task_key (db_tasks db)"
    by (simp add: map_update_where)
  have out: "?f t \<notin> set bs"
  proof
    assume "?f t \<in> set bs"
    then have "?f t \<in> set (db_tasks db)" "t \<in> set (db_tasks db)" "task_key (?f t) = task_key t" using Cons.prems key by auto
    then have "?f t = t" using Cons.prems(1) by (meson distinct_map inj_onD)
    with \<open>?f t \<in> set bs\<close> Cons.prems(4) show False by simp
  qed
  have "foldl (skip_task env tenant) (?db, w) bs
    = (?db\<lparr>db_tasks := update_where (\<lambda>r. r \<in> set bs) ?f (db_tasks ?db)\<rparr>, w)"
    using Cons.prems keys by (intro Cons.IH) (auto simp: set_update_where)
  also have "update_where (\<lambda>r. r \<in> set bs) ?f (db_tasks ?db) = update_where (\<lambda>r. r \<in> set (t # bs)) ?f (db_tasks db)"
    using out by (auto simp: update_where_def)
  finally show ?case by (simp add: step)
qed (simp add: update_where_def)

text \<open>After the cascade no task that may still start lies below a failure.\<close>

definition cascaded :: "string \<Rightarrow> string \<Rightarrow> fulfil_db \<Rightarrow> bool" where
  "cascaded tenant ritm db \<longleftrightarrow>
     (\<forall>t \<in> set (rows tenant ritm db). waiting (tk_state t) \<longrightarrow> tk_template t \<notin> tainted (rows tenant ritm db))"

definition lists_rows :: "'w fulfil_env \<Rightarrow> bool" where
  "lists_rows env \<longleftrightarrow> (\<forall>ts. distinct ts \<longrightarrow> distinct (fe_order env ts) \<and> set (fe_order env ts) = set ts)"

lemma distinct_rows: "plan_ok tenant ritm db \<Longrightarrow> distinct (rows tenant ritm db)"
  using plan_okD(2) [of tenant ritm db] by (simp add: distinct_map)

lemma list_tasks_rows:
  assumes "lists_rows env" "plan_ok tenant ritm (fst s)"
  shows "distinct (list_tasks env tenant ritm s)" "set (list_tasks env tenant ritm s) = set (rows tenant ritm (fst s))"
  using assms distinct_rows [OF assms(2)] by (auto simp: lists_rows_def list_tasks_def list_tasks_for_ritm_def rows_def)

lemma tainted_set: "set ts = set us \<Longrightarrow> tainted ts = tainted us"
  by (simp add: tainted_def dep_edges_def failed_templates_def)

lemma cascade_ok:
  assumes env: "lists_rows env" and ok: "plan_ok tenant ritm (fst s)"
  shows "\<exists>ts s'. apply_cascade_skips env tenant ritm (list_tasks env tenant ritm s) s = Some (ts, s') \<and> snd s' = snd s
    \<and> evolves tenant ritm (fst s) (fst s') \<and> cascaded tenant ritm (fst s') \<and> ts = list_tasks env tenant ritm s'"
proof -
  let ?R = "rows tenant ritm (fst s)" and ?L = "list_tasks env tenant ritm s"
  note L = list_tasks_rows [OF env ok]
  define bs where "bs = filter (\<lambda>t. waiting (tk_state t) \<and> tk_template t \<in> tainted ?R) ?L"
  have tb: "transitively_blocked ?L = Some bs"
    by (simp add: transitively_blocked_exact bs_def tainted_set [OF L(2)])
  have bs: "set bs = {t \<in> set ?R. waiting (tk_state t) \<and> tk_template t \<in> tainted ?R}" "distinct bs"
    using L by (auto simp: bs_def)
  show ?thesis
  proof (cases "bs = []")
    case True
    then have "cascaded tenant ritm (fst s)" using bs(1) by (auto simp: cascaded_def)
    with True tb evolves_tasks [OF ok refl] show ?thesis by (simp add: apply_cascade_skips_def)
  next
    case False
    let ?f = "patch_task (fe_now env (snd s)) SKIPPED skip_patch" and ?p = "\<lambda>r. r \<in> set bs"
    let ?db = "(fst s)\<lparr>db_tasks := update_where ?p ?f (db_tasks (fst s))\<rparr>"
    have fold: "foldl (skip_task env tenant) s bs = (?db, snd s)"
    proof -
      have "set bs \<subseteq> set (db_tasks (fst s))" "\<forall>t \<in> set bs. tk_tenant t = tenant"
        using bs(1) by (auto simp: rows_def of_ritm_def)
      from skip_fold [OF plan_okD(1) [OF ok] this bs(2), of env "snd s"] show ?thesis by simp
    qed
    have move: "move_ok ?R t SKIPPED" if "t \<in> set bs" for t
      using that bs(1) by (auto simp: move_ok_def waiting_def started_def)
    have ev: "evolves tenant ritm (fst s) ?db" using move by (intro evolves_update [OF ok]) auto
    have rw: "rows tenant ritm ?db = update_where ?p ?f ?R" by (rule rows_update) simp
    have "dep_edges (update_where ?p ?f ?R) = dep_edges ?R" by (rule update_keeps(1)) (simp add: move)
    moreover have "failed_templates (update_where ?p ?f ?R) = failed_templates ?R"
      using bs(1) by (auto simp: failed_templates_def set_update_where waiting_def image_iff)
    ultimately have "tainted (update_where ?p ?f ?R) = tainted ?R" by (simp add: tainted_def)
    note taint = this
    have "cascaded tenant ritm ?db"
      unfolding cascaded_def rw taint
    proof (intro ballI impI)
      fix u assume "u \<in> set (update_where ?p ?f ?R)" "waiting (tk_state u)"
      then have "u \<in> set ?R" "u \<notin> set bs" by (auto simp: set_update_where waiting_def)
      with bs(1) \<open>waiting (tk_state u)\<close> show "tk_template u \<notin> tainted ?R" by blast
    qed
    with ev False tb fold show ?thesis by (auto simp: apply_cascade_skips_def Let_def split: list.split)
  qed
qed

section \<open>Waves\<close>

lemma by_template_row: "by_template ts d = Some r \<Longrightarrow> r \<in> set ts \<and> tk_template r = d"
  by (auto simp: by_template_def dest!: map_of_SomeD)

text \<open>A task found ready after the cascade has all its dependencies done.\<close>

lemma ready_startable:
  assumes ok: "plan_ok tenant ritm db" and ca: "cascaded tenant ritm db" and ts: "set ts = set (rows tenant ritm db)"
    and t: "t \<in> set ts" "tk_id t \<in> set (ready_task_ids ts)"
  shows "startable tenant ritm db t \<and> waiting (tk_state t)"
proof -
  obtain u where u: "u \<in> set ts" "tk_id u = tk_id t" "waiting (tk_state u)" "deps_ok ts u"
    using t(2) by (auto simp: ready_task_ids_def)
  then have "u = t" using row_unique [OF plan_okD(1) [OF ok]] t(1) ts by blast
  with u have w: "waiting (tk_state t)" and d: "deps_ok ts t" by auto
  have "deps_done (rows tenant ritm db) t"
    unfolding deps_done_def
  proof
    fix x assume x: "x \<in> set (tk_depends_on t)"
    then obtain r where r: "r \<in> set ts" "tk_template r = x" "settled (tk_state r)"
      using d by (auto simp: deps_ok_def list_all_iff split: option.splits dest: by_template_row)
    have "tk_state r \<noteq> SKIPPED"
    proof
      assume "tk_state r = SKIPPED"
      then have "x \<in> tainted (rows tenant ritm db)" using plan_okD(4) [OF ok] r ts by blast
      moreover have "(x, tk_template t) \<in> dep_edges (rows tenant ritm db)" using x t(1) ts by (auto simp: dep_edges_def)
      ultimately have "tk_template t \<in> tainted (rows tenant ritm db)"
        by (auto simp: tainted_def Image_iff intro: rtrancl_into_rtrancl)
      with ca w t(1) ts show False by (auto simp: cascaded_def)
    qed
    with r ts show "\<exists>r \<in> set (rows tenant ritm db). tk_template r = x \<and> tk_state r = DONE" by (auto simp: settled_def)
  qed
  moreover have "known tenant ritm db t" using t(1) ts by (auto simp: known_def same_task_def)
  ultimately show ?thesis using w by (simp add: startable_def)
qed

lemma finalise_tasks: "db_tasks (fst (snd (finalise env tenant ritm o' ts s))) = db_tasks (fst s)"
  by (auto simp: finalise_def finalise_run_def transition_ritm_state_def Let_def split: option.split)

lemma finalise_outcome: "finalise env tenant ritm o' ts s = (Inr oc, s') \<Longrightarrow> oc_outcome oc = outcome_of o'"
  by (auto simp: finalise_def make_outcome_def Let_def split: option.splits sum.splits if_splits)

lemma partial_outcome: "partial_status tenant ritm ts db = Inr oc \<Longrightarrow> oc_outcome oc = O_IN_PROGRESS"
  by (auto simp: partial_status_def make_outcome_def split: option.splits if_splits)

lemma terminal_fulfilled:
  assumes ok: "plan_ok tenant ritm db" and ts: "set ts = set (rows tenant ritm db)" and f: "is_terminal ts = (True, o')" "outcome_of o' = O_FULFILLED"
  shows "\<forall>t \<in> set (rows tenant ritm db). tk_state t = DONE"
proof -
  have "o' = ''fulfilled''" using f(2) by (simp add: outcome_of_def split: if_splits)
  then have s: "\<forall>t \<in> set (rows tenant ritm db). settled (tk_state t)"
    using f(1) ts by (auto simp: is_terminal_def Let_def list_all_iff split: if_splits)
  then have "failed_templates (rows tenant ritm db) = {}" by (auto simp: failed_templates_def settled_def)
  then have "tainted (rows tenant ritm db) = {}" by (simp add: tainted_def)
  with s plan_okD(4) [OF ok] show ?thesis by (auto simp: settled_def)
qed

text \<open>What every call leaves behind.\<close>

definition run_ok :: "string \<Rightarrow> string \<Rightarrow> (fulfil_error + outcome) \<times> 'w fulfil_sys \<Rightarrow> bool" where
  "run_ok tenant ritm r \<longleftrightarrow> plan_ok tenant ritm (fst (snd r))
     \<and> (\<forall>oc. fst r = Inr oc \<and> oc_outcome oc = O_FULFILLED \<longrightarrow> (\<forall>t \<in> set (rows tenant ritm (fst (snd r))). tk_state t = DONE))"

lemma run_ok_finalise:
  assumes "plan_ok tenant ritm (fst s)"
    and "outcome_of o' = O_FULFILLED \<Longrightarrow> \<forall>t \<in> set (rows tenant ritm (fst s)). tk_state t = DONE"
  shows "run_ok tenant ritm (finalise env tenant ritm o' ts s)"
proof -
  obtain res s' where f: "finalise env tenant ritm o' ts s = (res, s')" by (cases "finalise env tenant ritm o' ts s")
  have same: "db_tasks (fst s') = db_tasks (fst s)" using finalise_tasks [of env tenant ritm o' ts s] f by simp
  then have "rows tenant ritm (fst s') = rows tenant ritm (fst s)" by (simp add: rows_def)
  with assms plan_ok_tasks [OF same] finalise_outcome [of env tenant ritm o' ts s _ s'] f show ?thesis by (auto simp: run_ok_def)
qed

lemma waves_run_ok:
  assumes env: "lists_rows env" and ok: "plan_ok tenant ritm (fst s)"
  shows "\<exists>r. waves n env tenant ritm s = Some r \<and> run_ok tenant ritm r"
  using ok
proof (induction n arbitrary: s)
  case 0
  then show ?case using run_ok_finalise [OF 0, of "''failed''"] by (simp add: outcome_of_def)
next
  case (Suc n)
  obtain ts s1 where c: "apply_cascade_skips env tenant ritm (list_tasks env tenant ritm s) s = Some (ts, s1)"
    and ev: "evolves tenant ritm (fst s) (fst s1)" and ca: "cascaded tenant ritm (fst s1)" and ts: "ts = list_tasks env tenant ritm s1"
    using cascade_ok [OF env Suc.prems] by blast
  have ok1: "plan_ok tenant ritm (fst s1)" using ev by (simp add: evolves_def)
  have set_ts: "set ts = set (rows tenant ritm (fst s1))" using list_tasks_rows(2) [OF env ok1] ts by simp
  obtain b o' where tm: "is_terminal ts = (b, o')" by (cases "is_terminal ts")
  let ?run = "filter (\<lambda>t. tk_id t \<in> set (ready_task_ids ts)) ts"
  show ?case
  proof (cases b)
    case True
    then show ?thesis
      using run_ok_finalise [OF ok1, of o' env ts] terminal_fulfilled [OF ok1 set_ts] tm c by simp
  next
    case False
    have "evolves tenant ritm (fst s1) (fst (run_ready_wave env tenant ritm ?run s1))"
      using ready_startable [OF ok1 ca set_ts] by (intro evolves_wave [OF ok1]) auto
    then have next_wave: "\<exists>r. waves n env tenant ritm (run_ready_wave env tenant ritm ?run s1) = Some r \<and> run_ok tenant ritm r"
      by (intro Suc.IH) (simp add: evolves_def)
    have "run_ok tenant ritm (partial_status tenant ritm ts (fst s1), s1)"
      using ok1 partial_outcome by (auto simp: run_ok_def)
    with next_wave False tm c show ?thesis by (cases s1) (simp add: Let_def)
  qed
qed

lemma transition_ritm_tasks [simp]: "db_tasks (snd (transition_ritm_state db tenant ritm a b v c f)) = db_tasks db"
  by (simp add: transition_ritm_state_def Let_def)

lemma evolves_recover:
  assumes "plan_ok tenant ritm db"
  shows "evolves tenant ritm db (recover_stuck now m tenant ritm db)"
  unfolding recover_stuck_def using assms
  by (intro evolves_update) (auto simp: same_task_def move_ok_def started_def)

lemma execute_locked_run_ok:
  assumes env: "lists_rows env" and ok: "plan_ok tenant ritm (fst s)"
  shows "\<exists>r. execute_plan_locked env tenant ritm s = Some r \<and> run_ok tenant ritm r"
proof (cases "init_ritm_and_recover env tenant ritm s")
  case (Inl e)
  with ok show ?thesis by (cases s) (simp add: execute_plan_locked_def run_ok_def)
next
  case (Inr s1)
  then obtain r where r: "get_ritm (fst s) tenant ritm = Some r" by (auto simp: init_ritm_and_recover_def split: option.splits)
  define db where "db = (if ri_state r = R_REQUESTED
    then snd (transition_ritm_state (fst s) tenant ritm R_REQUESTED R_IN_PROGRESS (ri_version r) None None) else fst s)"
  have db: "db_tasks db = db_tasks (fst s)"
    "fst s1 = recover_stuck (fe_now env (snd s)) (fe_recovery_minutes env) tenant ritm db"
    using Inr r by (auto simp: db_def init_ritm_and_recover_def Let_def)
  have "plan_ok tenant ritm db" using ok plan_ok_tasks [OF db(1)] by simp
  then have "plan_ok tenant ritm (fst s1)" using evolves_recover [of tenant ritm db] db(2) by (simp add: evolves_def)
  from waves_run_ok [OF env this] Inr show ?thesis by (simp add: execute_plan_locked_def)
qed

section \<open>Properties\<close>

text \<open>
  C21: on a database in which the plan of the request item is in order, with a task query that lists every row once in some
  order, \<open>execute_plan\<close> always returns, and however the adapter behaves it keeps the plan in order: a task
  has started only if everything it depends on is done, a task is skipped only below a failed one, and
  a reported fulfilment means that every task is done.
\<close>

theorem fulfilment_in_order:
  assumes "lists_rows env" "plan_ok tenant ritm (fst s)"
  shows "\<exists>res s'. execute_plan env tenant ritm s = Some (res, s') \<and> plan_ok tenant ritm (fst s')
    \<and> (\<forall>oc. res = Inr oc \<and> oc_outcome oc = O_FULFILLED \<longrightarrow> (\<forall>t \<in> set (rows tenant ritm (fst s')). tk_state t = DONE))"
proof -
  obtain b w where l: "fe_try_lock env (snd s) = (b, w)" by (cases "fe_try_lock env (snd s)")
  show ?thesis
  proof (cases b)
    case True
    from execute_locked_run_ok [OF assms(1), of tenant ritm "(fst s, w)"] assms(2) l True
    show ?thesis by (auto simp: execute_plan_def run_ok_def)
  next
    case False
    with assms(2) l partial_outcome show ?thesis by (fastforce simp: execute_plan_def)
  qed
qed

text \<open>
C22: The cascade loop ends on every task list and marks exactly the waiting tasks that depend, through
any chain of dependencies, on a failed task.
\<close>

theorem cascade_exact:
  "transitively_blocked ts = Some (filter (\<lambda>t. waiting (tk_state t)
     \<and> (\<exists>f \<in> set ts. tk_state f = FAILED \<and> (tk_template f, tk_template t) \<in> (dep_edges ts)\<^sup>*)) ts)"
  unfolding transitively_blocked_exact
  by (auto simp: tainted_def failed_templates_def Image_iff intro!: filter_cong)

text \<open>
A request item that waits for a human decision is closed as failed: when some task is blocked and
all others are settled the call is terminal with outcome \<open>failed\<close>, and no task list at all has the outcome
\<open>blocked\<close>, which the code maps to a running request item.
\<close>

theorem awaiting_approval_closed:
  "snd (is_terminal us) \<noteq> ''blocked''
   \<and> (list_ex (\<lambda>t. tk_state t = BLOCKED) ts \<and> list_all (\<lambda>t. settled (tk_state t) \<or> tk_state t = BLOCKED) ts
      \<longrightarrow> is_terminal ts = (True, ''failed''))"
proof (rule conjI)
  show "snd (is_terminal us) \<noteq> ''blocked''"
    by (auto simp: is_terminal_def Let_def list_ex_iff list_all_iff)
  show "list_ex (\<lambda>t. tk_state t = BLOCKED) ts \<and> list_all (\<lambda>t. settled (tk_state t) \<or> tk_state t = BLOCKED) ts
      \<longrightarrow> is_terminal ts = (True, ''failed'')"
    by (fastforce simp: is_terminal_def Let_def list_ex_iff list_all_iff settled_def)
qed

section \<open>Compensation\<close>

lemma compensate_all_ids: "compensate_all env tenant ritm ts w = (Inr cs, w') \<Longrightarrow> map fst cs = map tk_id ts"
  by (induction ts arbitrary: w cs) (auto split: prod.splits sum.splits)

lemma find_update_where:
  assumes "\<And>x. x \<in> set xs \<Longrightarrow> p x \<Longrightarrow> q (f x) = q x"
  shows "find q (update_where p f xs) = map_option (\<lambda>x. if p x then f x else x) (find q xs)"
  using assms by (induction xs) (auto simp: update_where_def)

lemma transition_ritm_hit:
  assumes "get_ritm db tenant ritm = Some r"
  shows "\<exists>r'. get_ritm (snd (transition_ritm_state db tenant ritm (ri_state r) st (ri_version r) c f)) tenant ritm = Some r'
    \<and> ri_state r' = st"
  using assms find_Some_iff [of "is_ritm tenant ritm" "db_ritms db" r]
  by (auto simp: transition_ritm_state_def get_ritm_def Let_def find_update_where is_ritm_def)

text \<open>
Compensation looks at every completed task of the request item exactly once and at no other, in
descending order of template ids, and leaves the request item cancelled and the task rows as they were.
\<close>

theorem compensation_covers:
  assumes "lists_rows env" "plan_ok tenant ritm (fst s)" "compensate_ritm env tenant ritm s = (Inr cs, s')"
  shows "distinct (map fst cs) \<and> set (map fst cs) = tk_id ` {t \<in> set (rows tenant ritm (fst s)). tk_state t = DONE}
    \<and> sorted_wrt (\<ge>) (map tk_template (completed_in_reverse (list_tasks env tenant ritm s)))
    \<and> db_tasks (fst s') = db_tasks (fst s)
    \<and> (get_ritm (fst s) tenant ritm \<noteq> None
         \<longrightarrow> (\<exists>r. get_ritm (fst s') tenant ritm = Some r \<and> ri_state r = R_CANCELLED))"
proof -
  let ?L = "list_tasks env tenant ritm s" and ?done = "completed_in_reverse (list_tasks env tenant ritm s)"
  note L = list_tasks_rows [OF assms(1,2)]
  have set_done: "set ?done = {t \<in> set (rows tenant ritm (fst s)). tk_state t = DONE}" and "distinct ?done"
    using L by (auto simp: completed_in_reverse_def)
  moreover have "inj_on tk_id (set ?done)"
    using row_unique [OF plan_okD(1) [OF assms(2)]] set_done by (auto intro!: inj_onI)
  moreover obtain w where c: "compensate_all env tenant ritm ?done (snd s) = (Inr cs, w)"
    using assms(3) by (auto simp: compensate_ritm_def split: prod.splits sum.splits)
  moreover have "sorted_wrt (\<ge>) (map tk_template ?done)"
    unfolding completed_in_reverse_def rev_map [symmetric] sorted_wrt_rev by (simp add: sorted_sort_key)
  moreover have "db_tasks (fst s') = db_tasks (fst s)"
    using assms(3) c by (auto simp: compensate_ritm_def split: option.splits if_splits)
  moreover have "\<exists>r. get_ritm (fst s') tenant ritm = Some r \<and> ri_state r = R_CANCELLED" if "get_ritm (fst s) tenant ritm = Some r" for r
    using assms(3) c that transition_ritm_hit [OF that] by (auto simp: compensate_ritm_def split: if_splits)
  ultimately show ?thesis using compensate_all_ids [OF c] by (auto simp: distinct_map)
qed

section \<open>Witnesses\<close>

definition sample_task :: "string \<Rightarrow> string list \<Rightarrow> task_state \<Rightarrow> task_row" where
  "sample_task i deps st = \<lparr>tk_tenant = ''t1'', tk_id = ''SC'' @ i, tk_ritm = ''R1'', tk_template = i, tk_name = i,
     tk_type = AUTOMATED, tk_tool_id = Some ''grant_vpn_access'', tk_depends_on = deps, tk_assignment_group = None,
     tk_state = st, tk_retry_count = 0, tk_max_retries = 3, tk_input = JObj [], tk_output = None,
     tk_error_message = None, tk_error_code = None, tk_sla_minutes = None, tk_started_at = None, tk_version = 1\<rparr>"

definition sample_ritm :: ritm_row where
  "sample_ritm = \<lparr>ri_tenant = ''t1'', ri_id = ''R1'', ri_request_id = ''REQ1'', ri_catalog_item_id = ''C1'',
     ri_requested_for = ''u1'', ri_opened_by = ''u1'', ri_state = R_REQUESTED, ri_approval_state = None,
     ri_total_tasks = 2, ri_completed_tasks = 0, ri_failed_tasks = 0, ri_opened_at = 0,
     ri_idempotency_key = None, ri_version = 1\<rparr>"

definition sample_db :: fulfil_db where
  "sample_db = \<lparr>db_users = [], db_tasks = [sample_task ''T2'' [''T1''] PENDING, sample_task ''T1'' [] PENDING],
     db_ritms = [sample_ritm], db_requests = [], db_runs = [], db_approvals = []\<rparr>"

text \<open>An adapter whose calls succeed on the second attempt; the state is the number of calls.\<close>

definition sample_env :: "nat fulfil_env" where
  "sample_env = \<lparr>fe_method = (\<lambda>tool. Some (\<lambda>tenant key payload limit n.
       (Responded \<lparr>ar_success = (n \<noteq> 0), ar_result = None, ar_error_class = Some E_TRANSIENT, ar_error_message = None\<rparr>, Suc n))),
     fe_now = (\<lambda>n. 0), fe_new_id = (\<lambda>n. (''A'', n)), fe_order = rev, fe_call_timeout = 60,
     fe_recovery_minutes = 10, fe_try_lock = (\<lambda>n. (True, n))\<rparr>"

lemma sample_plan_ok: "plan_ok ''t1'' ''R1'' sample_db"
proof -
  have r: "rows ''t1'' ''R1'' sample_db = [sample_task ''T2'' [''T1''] PENDING, sample_task ''T1'' [] PENDING]" by code_simp
  have "distinct (map task_key (db_tasks sample_db))" "distinct (map tk_template (rows ''t1'' ''R1'' sample_db))" by code_simp+
  then show ?thesis by (auto simp: plan_ok_def r started_def sample_task_def)
qed

lemma map_sum_Inr: "map_sum f g x = Inr y \<Longrightarrow> \<exists>z. x = Inr z \<and> y = g z"
  by (cases x) auto

theorem fulfilment_in_order_witness:
  "\<exists>res s'. execute_plan sample_env ''t1'' ''R1'' (sample_db, 0) = Some (res, s') \<and> plan_ok ''t1'' ''R1'' (fst s')
     \<and> (\<exists>oc. res = Inr oc \<and> oc_outcome oc = O_FULFILLED) \<and> (\<forall>t \<in> set (rows ''t1'' ''R1'' (fst s')). tk_state t = DONE)"
proof -
  have env: "lists_rows sample_env" by (simp add: lists_rows_def sample_env_def)
  have ok: "plan_ok ''t1'' ''R1'' (fst (sample_db, 0 :: nat))" using sample_plan_ok by simp
  have "map_option (map_sum (\<lambda>_. ()) oc_outcome \<circ> fst) (execute_plan sample_env ''t1'' ''R1'' (sample_db, 0)) = Some (Inr O_FULFILLED)"
    by code_simp
  then obtain oc s' where r: "execute_plan sample_env ''t1'' ''R1'' (sample_db, 0) = Some (Inr oc, s')" "oc_outcome oc = O_FULFILLED"
    by (auto dest!: map_sum_Inr)
  with fulfilment_in_order [OF env ok] show ?thesis by auto
qed

theorem awaiting_approval_closed_witness:
  "is_terminal [sample_task ''T1'' [] DONE, sample_task ''T2'' [''T1''] BLOCKED] = (True, ''failed'')"
  using awaiting_approval_closed [of "[]" "[sample_task ''T1'' [] DONE, sample_task ''T2'' [''T1''] BLOCKED]"]
  by (simp add: sample_task_def settled_def)

definition completed_db :: fulfil_db where
  "completed_db = sample_db\<lparr>db_tasks := [sample_task ''T2'' [] DONE, sample_task ''T10'' [''T2''] DONE]\<rparr>"

lemma completed_plan_ok: "plan_ok ''t1'' ''R1'' completed_db"
proof -
  have r: "rows ''t1'' ''R1'' completed_db = [sample_task ''T2'' [] DONE, sample_task ''T10'' [''T2''] DONE]" by code_simp
  have "distinct (map task_key (db_tasks completed_db))" "distinct (map tk_template (rows ''t1'' ''R1'' completed_db))" by code_simp+
  then show ?thesis by (auto simp: plan_ok_def r deps_done_def sample_task_def)
qed

text \<open>Here the task \<open>T10\<close> depends on \<open>T2\<close> and is compensated after it: ids are compared as strings.\<close>

theorem compensation_covers_witness:
  "\<exists>cs s'. compensate_ritm sample_env ''t1'' ''R1'' (completed_db, 0) = (Inr cs, s') \<and> map fst cs = [''SCT2'', ''SCT10'']
     \<and> distinct (map fst cs) \<and> (\<exists>r. get_ritm (fst s') ''t1'' ''R1'' = Some r \<and> ri_state r = R_CANCELLED)"
proof -
  have env: "lists_rows sample_env" by (simp add: lists_rows_def sample_env_def)
  have ok: "plan_ok ''t1'' ''R1'' (fst (completed_db, 0 :: nat))" using completed_plan_ok by simp
  have "map_sum (\<lambda>_. ()) (map fst) (fst (compensate_ritm sample_env ''t1'' ''R1'' (completed_db, 0))) = Inr [''SCT2'', ''SCT10'']"
    by code_simp
  note res = map_sum_Inr [OF this]
  obtain cs s' where r: "compensate_ritm sample_env ''t1'' ''R1'' (completed_db, 0) = (Inr cs, s')" "map fst cs = [''SCT2'', ''SCT10'']"
    using res by (cases "compensate_ritm sample_env ''t1'' ''R1'' (completed_db, 0)") auto
  have ex: "get_ritm (fst (completed_db, 0 :: nat)) ''t1'' ''R1'' \<noteq> None" by code_simp
  note cov = compensation_covers [OF env ok r(1)]
  have "distinct (map fst cs)" by (rule cov [THEN conjunct1])
  moreover have "\<exists>r. get_ritm (fst s') ''t1'' ''R1'' = Some r \<and> ri_state r = R_CANCELLED"
    by (rule mp [OF cov [THEN conjunct2, THEN conjunct2, THEN conjunct2, THEN conjunct2] ex])
  ultimately show ?thesis using r by (intro exI [of _ cs] exI [of _ s'] conjI)
qed

end
