(* ===== verification/FulfilPlan.thy ===== *)
theory FulfilPlan
  imports FulfilCorrectness
begin

text \<open>
  From a catalog item to task rows (\<open>uc08_fulfillment/contracts.py\<close>, \<open>core.py\<close> and the catalog reads and
  inserts of \<open>db.py\<close>): parsing and validation of a template, substitution of variables, the plan, and
  \<open>fulfill_request\<close>. The rich replacement fields of \<open>str.format\<close> (attributes, indices, conversions,
  format specifications) are a parameter; plain names are modelled.
\<close>

section \<open>Substitution\<close>

definition is_letter :: "char \<Rightarrow> bool" where
  "is_letter c \<longleftrightarrow> (CHR ''a'' \<le> c \<and> c \<le> CHR ''z'') \<or> (CHR ''A'' \<le> c \<and> c \<le> CHR ''Z'')"

definition is_word_char :: "char \<Rightarrow> bool" where
  "is_word_char c \<longleftrightarrow> is_letter c \<or> (CHR ''0'' \<le> c \<and> c \<le> CHR ''9'') \<or> c = CHR ''_''"

text \<open>\<open>_SAFE_VAR_KEY.match\<close>: the final dollar also matches before one newline at the end.\<close>

definition safe_var_key :: "string \<Rightarrow> bool" where
  "safe_var_key k = (case k of [] \<Rightarrow> False | c # cs \<Rightarrow> is_letter c \<and>
     list_all is_word_char (if cs \<noteq> [] \<and> last cs = CHR 0x0A then butlast cs else cs))"

definition sanitise_variables :: "(string \<times> json) list \<Rightarrow> (string \<times> json) list" where
  "sanitise_variables vs = filter (\<lambda>(k, v). safe_var_key k) vs"

text \<open>What formatting raises: one of \<open>KeyError\<close>, \<open>IndexError\<close>, \<open>ValueError\<close>, or something else.\<close>

datatype format_exc = Caught | Uncaught string

text \<open>The text of a replacement field up to its closing brace, counting nested braces.\<close>

fun take_field :: "nat \<Rightarrow> string \<Rightarrow> (string \<times> string) option" where
  "take_field n [] = None"
| "take_field n (c # cs) =
     (if c = CHR ''}'' then (if n = 0 then Some ([], cs) else map_option (apfst ((#) c)) (take_field (n - 1) cs))
      else if c = CHR ''{'' then map_option (apfst ((#) c)) (take_field (Suc n) cs)
      else map_option (apfst ((#) c)) (take_field n cs))"

lemma take_field_shorter: "take_field n cs = Some (f, rest) \<Longrightarrow> length rest < length cs"
  by (induction n cs arbitrary: f rule: take_field.induct) (auto split: if_splits intro: less_SucI)

type_synonym rich_field = "string \<Rightarrow> (string \<times> json) list \<Rightarrow> format_exc + string"

definition format_field :: "rich_field \<Rightarrow> (json \<Rightarrow> string) \<Rightarrow> (string \<times> json) list \<Rightarrow> string \<Rightarrow> format_exc + string" where
  "format_field rich other vs f =
     (if list_all (\<lambda>c. CHR ''0'' \<le> c \<and> c \<le> CHR ''9'') f then Inl Caught
      else if list_all is_word_char f
        then (case map_of vs f of None \<Rightarrow> Inl Caught | Some v \<Rightarrow> Inr (json_str other v))
      else rich f vs)"

function py_format :: "(string \<Rightarrow> format_exc + string) \<Rightarrow> string \<Rightarrow> format_exc + string" where
  "py_format field [] = Inr []"
| "py_format field (c # cs) =
     (if c = CHR ''{'' then
        (case cs of
           [] \<Rightarrow> Inl Caught
         | d # ds \<Rightarrow>
             if d = CHR ''{'' then map_sum id ((#) c) (py_format field ds)
             else (case take_field 0 cs of
                     None \<Rightarrow> Inl Caught
                   | Some (f, rest) \<Rightarrow> sbind (field f) (\<lambda>t. map_sum id ((@) t) (py_format field rest))))
      else if c = CHR ''}'' then
        (case cs of
           [] \<Rightarrow> Inl Caught
         | d # ds \<Rightarrow> if d = CHR ''}'' then map_sum id ((#) c) (py_format field ds) else Inl Caught)
      else map_sum id ((#) c) (py_format field cs))"
  by pat_completeness auto

termination
  by (relation "measure (\<lambda>(field, s). length s)") (auto simp del: take_field.simps dest!: take_field_shorter)

definition MAX_TEMPLATE_DEPTH :: nat where "MAX_TEMPLATE_DEPTH = 16"

definition too_deep :: fulfil_error where
  "too_deep = InvalidTemplateError ''catalog template nested beyond max depth 16''"

text \<open>\<open>_walk\<close>; the counter is the depth still allowed.\<close>

fun walk_template :: "(string \<Rightarrow> format_exc + string) \<Rightarrow> nat \<Rightarrow> json \<Rightarrow> fulfil_error + json" where
  "walk_template field 0 v = Inl too_deep"
| "walk_template field (Suc n) (JStr s) =
     (case py_format field s of
        Inr t \<Rightarrow> Inr (JStr t)
      | Inl Caught \<Rightarrow> Inr (JStr s)
      | Inl (Uncaught x) \<Rightarrow> Inl (PyRaised x))"
| "walk_template field (Suc n) (JObj kvs) =
     map_sum id JObj (mapM_sum (\<lambda>(k, v). map_sum id (Pair k) (walk_template field n v)) kvs)"
| "walk_template field (Suc n) (JList vs) = map_sum id JList (mapM_sum (walk_template field n) vs)"
| "walk_template field (Suc n) v = Inr v"

definition substitute_input_template ::
  "rich_field \<Rightarrow> (json \<Rightarrow> string) \<Rightarrow> (string \<times> json) list \<Rightarrow> (string \<times> json) list \<Rightarrow> fulfil_error + (string \<times> json) list" where
  "substitute_input_template rich other tmpl vs =
     mapM_sum (\<lambda>(k, v). map_sum id (Pair k)
       (walk_template (format_field rich other (sanitise_variables vs)) MAX_TEMPLATE_DEPTH v)) tmpl"

section \<open>Templates and plans\<close>

record template_task =
  tt_task_id :: string
  tt_name :: string
  tt_type :: task_type
  tt_owner_group :: "string option"
  tt_depends_on :: "string list"
  tt_tool_id :: "string option"
  tt_input_template :: "(string \<times> json) list option"
  tt_sla_minutes :: "int option"

record catalog_template =
  ct_catalog_item_id :: string
  ct_name :: string
  ct_description :: "string option"
  ct_category :: string
  ct_owner_group :: string
  ct_estimated_total_minutes :: int
  ct_tasks :: "template_task list"

text \<open>The validator that templates and plans share: the first offending dependency.\<close>

fun dep_problem :: "string set \<Rightarrow> string \<Rightarrow> string list \<Rightarrow> string option" where
  "dep_problem ids t [] = None"
| "dep_problem ids t (d # ds) =
     (if d \<notin> ids then Some (''task '' @ quoted t @ '' depends_on unknown task '' @ quoted d)
      else if d = t then Some (''task '' @ quoted t @ '' depends on itself'')
      else dep_problem ids t ds)"

fun dag_problem :: "string set \<Rightarrow> (string \<times> string list) list \<Rightarrow> string option" where
  "dag_problem ids [] = None"
| "dag_problem ids ((t, ds) # rest) = (case dep_problem ids t ds of Some x \<Rightarrow> Some x | None \<Rightarrow> dag_problem ids rest)"

definition validate_dag :: "(string \<times> string list) list \<Rightarrow> string option" where
  "validate_dag nodes = dag_problem (set (map fst nodes)) nodes"

text \<open>A row of \<open>itsm.catalog_item\<close>; the JSONB columns are decoded.\<close>

record catalog_row =
  cr_tenant :: string
  cr_id :: string
  cr_name :: string
  cr_description :: "string option"
  cr_category :: "string option"
  cr_owner_group :: "string option"
  cr_estimated_total_minutes :: "int option"
  cr_tasks :: json
  cr_request_fields :: json

definition is_catalog :: "string \<Rightarrow> string \<Rightarrow> catalog_row \<Rightarrow> bool" where
  "is_catalog tenant item r \<longleftrightarrow> cr_tenant r = tenant \<and> cr_id r = item"

definition invalid :: "fulfil_error + 'a" where
  "invalid = Inl (PyRaised ''ValidationError'')"

definition len_in :: "nat \<Rightarrow> nat \<Rightarrow> string \<Rightarrow> bool" where
  "len_in lo hi s \<longleftrightarrow> lo \<le> length s \<and> length s \<le> hi"

text \<open>The elements Python iterates over: of a list, the keys of a dict, the characters of a string.\<close>

fun py_iter :: "json \<Rightarrow> fulfil_error + json list" where
  "py_iter (JList vs) = Inr vs"
| "py_iter (JObj kvs) = Inr (map (JStr \<circ> fst) kvs)"
| "py_iter (JStr s) = Inr (map (\<lambda>c. JStr [c]) s)"
| "py_iter _ = Inl (PyRaised ''TypeError'')"

fun opt_text :: "nat \<Rightarrow> json \<Rightarrow> fulfil_error + string option" where
  "opt_text n JNull = Inr None"
| "opt_text n (JStr s) = (if length s \<le> n then Inr (Some s) else invalid)"
| "opt_text n _ = invalid"

definition text_list :: "json list \<Rightarrow> fulfil_error + string list" where
  "text_list vs = mapM_sum (\<lambda>v. case v of JStr s \<Rightarrow> Inr s | _ \<Rightarrow> invalid) vs"

fun parse_type :: "json \<Rightarrow> fulfil_error + task_type" where
  "parse_type (JStr s) = (if s = ''automated'' then Inr AUTOMATED else if s = ''manual'' then Inr MANUAL else invalid)"
| "parse_type _ = invalid"

fun opt_dict :: "json \<Rightarrow> fulfil_error + (string \<times> json) list option" where
  "opt_dict JNull = Inr None"
| "opt_dict (JObj kvs) = Inr (Some kvs)"
| "opt_dict _ = invalid"

definition sla_range :: "int \<Rightarrow> fulfil_error + int option" where
  "sla_range i = (if 1 \<le> i \<and> i \<le> 525600 then Inr (Some i) else invalid)"

fun opt_sla :: "json \<Rightarrow> fulfil_error + int option" where
  "opt_sla JNull = Inr None"
| "opt_sla (JInt i) = sla_range i"
| "opt_sla (JBool b) = sla_range (if b then 1 else 0)"
| "opt_sla (JStr s) = (case int_of_text s of None \<Rightarrow> invalid | Some i \<Rightarrow> sla_range i)"
| "opt_sla _ = invalid"

text \<open>\<open>a or b\<close> on values.\<close>

definition py_or :: "json \<Rightarrow> json \<Rightarrow> json" where
  "py_or a b = (if truthy a then a else b)"

definition parse_template_task :: "(json \<Rightarrow> string) \<Rightarrow> json \<Rightarrow> fulfil_error + template_task" where
  "parse_template_task other t =
     (if \<not> is_dict t then Inl (PyRaised ''AttributeError'')
      else let tid = json_str other (py_or (jget t ''task_id'') (py_or (jget t ''id'') (JStr [])));
               nm = json_str other (py_or (jget t ''name'') (JStr []))
      in sbind (py_iter (py_or (jget t ''depends_on'') (JList []))) (\<lambda>deps.
         if \<not> len_in 1 32 tid \<or> \<not> len_in 1 240 nm then invalid
         else sbind (parse_type (py_or (jget t ''type'') (JStr ''automated''))) (\<lambda>ty.
              sbind (opt_text 64 (jget t ''owner_group'')) (\<lambda>og.
              sbind (text_list deps) (\<lambda>ds.
              sbind (opt_text 64 (jget t ''tool_id'')) (\<lambda>tool.
              sbind (opt_dict (jget t ''input_template'')) (\<lambda>inp.
              sbind (opt_sla (jget t ''sla_minutes'')) (\<lambda>sla.
                Inr \<lparr>tt_task_id = tid, tt_name = nm, tt_type = ty, tt_owner_group = og, tt_depends_on = ds,
                     tt_tool_id = tool, tt_input_template = inp, tt_sla_minutes = sla\<rparr>))))))))"

definition template_of_row :: "catalog_row \<Rightarrow> template_task list \<Rightarrow> fulfil_error + catalog_template" where
  "template_of_row r ts =
     (case (cr_category r, cr_owner_group r, cr_estimated_total_minutes r) of
        (Some cat, Some og, Some est) \<Rightarrow>
          if \<not> len_in 1 64 (cr_id r) \<or> \<not> len_in 1 64 (cr_tenant r) \<or> \<not> len_in 1 240 (cr_name r)
             \<or> (case cr_description r of None \<Rightarrow> False | Some d \<Rightarrow> 2000 < length d)
             \<or> \<not> len_in 1 32 cat \<or> \<not> len_in 1 64 og \<or> est < 1 \<or> 525600 < est \<or> ts = [] \<or> 200 < length ts
          then invalid
          else (case validate_dag (map (\<lambda>t. (tt_task_id t, tt_depends_on t)) ts) of
                  Some _ \<Rightarrow> invalid
                | None \<Rightarrow> Inr \<lparr>ct_catalog_item_id = cr_id r, ct_name = cr_name r, ct_description = cr_description r,
                    ct_category = cat, ct_owner_group = og, ct_estimated_total_minutes = est, ct_tasks = ts\<rparr>)
      | _ \<Rightarrow> invalid)"

definition load_catalog_template ::
  "(json \<Rightarrow> string) \<Rightarrow> catalog_row list \<Rightarrow> string \<Rightarrow> string \<Rightarrow> fulfil_error + catalog_template" where
  "load_catalog_template other cat tenant item =
     (case find (is_catalog tenant item) cat of
        None \<Rightarrow> Inl (CatalogItemNotFoundError item)
      | Some r \<Rightarrow> sbind (py_iter (cr_tasks r)) (\<lambda>js.
          sbind (mapM_sum (parse_template_task other) js) (template_of_row r)))"

record plan_item =
  pi_template_task_id :: string
  pi_task_name :: string
  pi_task_type :: task_type
  pi_tool_id :: "string option"
  pi_depends_on :: "string list"
  pi_assignment_group :: "string option"
  pi_sla_minutes :: int
  pi_input_payload :: "(string \<times> json) list"

definition default_sla :: "catalog_template \<Rightarrow> int" where
  "default_sla ct = max 1 (ct_estimated_total_minutes ct div max 1 (int (length (ct_tasks ct))))"

definition plan_item_of ::
  "rich_field \<Rightarrow> (json \<Rightarrow> string) \<Rightarrow> int \<Rightarrow> (string \<times> json) list \<Rightarrow> template_task \<Rightarrow> fulfil_error + plan_item" where
  "plan_item_of rich other sla vs t =
     sbind (case tt_input_template t of None \<Rightarrow> Inr vs | Some tmpl \<Rightarrow> substitute_input_template rich other tmpl vs) (\<lambda>inp.
       Inr \<lparr>pi_template_task_id = tt_task_id t, pi_task_name = tt_name t, pi_task_type = tt_type t, pi_tool_id = tt_tool_id t,
            pi_depends_on = tt_depends_on t, pi_assignment_group = tt_owner_group t,
            pi_sla_minutes = (case tt_sla_minutes t of None \<Rightarrow> sla | Some m \<Rightarrow> if m = 0 then sla else m),
            pi_input_payload = inp\<rparr>)"

definition materialise_plan ::
  "rich_field \<Rightarrow> (json \<Rightarrow> string) \<Rightarrow> catalog_template \<Rightarrow> (string \<times> json) list \<Rightarrow> fulfil_error + plan_item list" where
  "materialise_plan rich other ct vs =
     sbind (mapM_sum (plan_item_of rich other (default_sla ct) vs) (ct_tasks ct)) (\<lambda>items.
       if items = [] then invalid
       else case validate_dag (map (\<lambda>t. (pi_template_task_id t, pi_depends_on t)) items) of
         Some _ \<Rightarrow> invalid | None \<Rightarrow> Inr items)"

section \<open>Persisting a plan\<close>

definition task_of_item :: "string \<Rightarrow> string \<Rightarrow> string \<Rightarrow> plan_item \<Rightarrow> task_row" where
  "task_of_item tenant ritm new_id t =
     \<lparr>tk_tenant = tenant, tk_id = new_id, tk_ritm = ritm, tk_template = pi_template_task_id t, tk_name = pi_task_name t,
      tk_type = pi_task_type t, tk_tool_id = pi_tool_id t, tk_depends_on = pi_depends_on t,
      tk_assignment_group = pi_assignment_group t, tk_state = PENDING, tk_retry_count = 0, tk_max_retries = 3,
      tk_input = JObj (pi_input_payload t), tk_output = None, tk_error_message = None, tk_error_code = None,
      tk_sla_minutes = Some (pi_sla_minutes t), tk_started_at = None, tk_version = 1\<rparr>"

text \<open>A row that violates the primary key or the unique idempotency key is skipped.\<close>

definition task_idem :: "task_row \<Rightarrow> string" where
  "task_idem t = tk_ritm t @ '':'' @ tk_template t"

definition insert_task :: "fulfil_db \<times> int \<Rightarrow> task_row \<Rightarrow> fulfil_db \<times> int" where
  "insert_task dn t =
     (if \<exists>r \<in> set (db_tasks (fst dn)). tk_tenant r = tk_tenant t \<and> (tk_id r = tk_id t \<or> task_idem r = task_idem t)
      then dn
      else ((fst dn)\<lparr>db_tasks := db_tasks (fst dn) @ [t]\<rparr>, snd dn + 1))"

definition insert_tasks :: "fulfil_db \<Rightarrow> (nat \<Rightarrow> string) \<Rightarrow> string \<Rightarrow> string \<Rightarrow> plan_item list \<Rightarrow> fulfil_db \<times> int" where
  "insert_tasks db ids tenant ritm items =
     foldl insert_task (db, 0) (map (\<lambda>(i, t). task_of_item tenant ritm (ids i) t) (enumerate 0 items))"

section \<open>The entry point\<close>

record fulfillment_request =
  fr_tenant_id :: string
  fr_request_id :: string
  fr_catalog_item_id :: string
  fr_variables :: "(string \<times> json) list"
  fr_requested_for :: string
  fr_opened_by :: string
  fr_idempotency_key :: "string option"
  fr_trigger_type :: string

text \<open>The ids the statements generate: of the request item, of each task, of the run.\<close>

record new_ids =
  ni_ritm :: string
  ni_tasks :: "nat \<Rightarrow> string"
  ni_run :: string

definition DUPLICATE_LOOKBACK_DAYS :: int where "DUPLICATE_LOOKBACK_DAYS = 30"

definition created_outcome :: "fulfillment_request \<Rightarrow> catalog_template \<Rightarrow> string \<Rightarrow> string \<Rightarrow> int \<Rightarrow> outcome" where
  "created_outcome req ct ritm run n =
     \<lparr>oc_request_id = fr_request_id req, oc_ritm_id = ritm, oc_catalog_item_id = fr_catalog_item_id req, oc_run_id = run,
      oc_outcome = O_IN_PROGRESS, oc_tasks_total = n, oc_completed = 0, oc_failed = 0, oc_skipped = 0, oc_in_progress = 0,
      oc_display_text = ''Fulfillment plan created for '' @ ct_name ct @ '' - '' @ int_str n @ '' tasks queued. Status: '' @ ritm @ ''.''\<rparr>"

text \<open>Steps 5 and 6 of the entry point: task rows and the run.\<close>

definition persist_plan ::
  "new_ids \<Rightarrow> int \<Rightarrow> string option \<Rightarrow> fulfillment_request \<Rightarrow> catalog_template \<Rightarrow> plan_item list \<Rightarrow> fulfil_db \<times> string
   \<Rightarrow> fulfil_db \<times> outcome" where
  "persist_plan ni now actor req ct items dr =
     (let dn = insert_tasks (fst dr) (ni_tasks ni) (fr_tenant_id req) (snd dr) items;
          run = insert_fulfillment_run (fst dn) now (ni_run ni) (fr_tenant_id req) (snd dr) (fr_trigger_type req)
                  (or_else actor (fr_opened_by req)) (''thread-'' @ snd dr)
      in (fst run, created_outcome req ct (snd dr) (snd run) (snd dn)))"

definition fulfill_request ::
  "rich_field \<Rightarrow> (json \<Rightarrow> string) \<Rightarrow> catalog_row list \<Rightarrow> new_ids \<Rightarrow> int \<Rightarrow> string option \<Rightarrow> fulfillment_request \<Rightarrow> fulfil_db
   \<Rightarrow> fulfil_error + fulfil_db \<times> outcome" where
  "fulfill_request rich other cat ni now actor req db =
     sbind (assert_request_exists db (fr_tenant_id req) (fr_request_id req)) (\<lambda>_.
       case find_open_duplicate db now (fr_tenant_id req) (fr_requested_for req) (fr_catalog_item_id req) DUPLICATE_LOOKBACK_DAYS of
         Some r \<Rightarrow> Inl (DuplicateRequestError r)
       | None \<Rightarrow>
           sbind (load_catalog_template other cat (fr_tenant_id req) (fr_catalog_item_id req)) (\<lambda>ct.
           sbind (materialise_plan rich other ct (fr_variables req)) (\<lambda>items.
           sbind (insert_request_item db now (ni_ritm ni) (fr_tenant_id req) (fr_request_id req) (fr_catalog_item_id req)
                    (fr_requested_for req) (fr_opened_by req) (int (length items)) (fr_idempotency_key req)) (\<lambda>dr.
             Inr (persist_plan ni now actor req ct items dr)))))"

section \<open>New plans are in order\<close>

lemma tainted_mono: "set ts \<subseteq> set us \<Longrightarrow> tainted ts \<subseteq> tainted us"
proof -
  assume sub: "set ts \<subseteq> set us"
  then have "dep_edges ts \<subseteq> dep_edges us" "failed_templates ts \<subseteq> failed_templates us"
    by (auto simp: dep_edges_def failed_templates_def)
  then show ?thesis unfolding tainted_def by (meson Image_mono rtrancl_mono)
qed

lemma plan_ok_insert [invs]:
  assumes ok: "plan_ok tenant ritm (fst dn)" and new: "tk_state t = PENDING"
  shows "plan_ok tenant ritm (fst (insert_task dn t))"
proof (cases "\<exists>r \<in> set (db_tasks (fst dn)). tk_tenant r = tk_tenant t \<and> (tk_id r = tk_id t \<or> task_idem r = task_idem t)")
  case True
  with ok show ?thesis by (simp add: insert_task_def)
next
  case False
  let ?R = "rows tenant ritm (fst dn)" and ?R' = "rows tenant ritm (fst (insert_task dn t))"
  have db: "db_tasks (fst (insert_task dn t)) = db_tasks (fst dn) @ [t]" using False by (auto simp: insert_task_def)
  have R: "?R' = ?R @ (if of_ritm tenant ritm t then [t] else [])" by (simp add: rows_def db)
  have keys: "task_key t \<notin> task_key ` set (db_tasks (fst dn))" using False by (auto simp: task_key_def)
  have tmpl: "tk_template t \<notin> tk_template ` set ?R" if "of_ritm tenant ritm t"
    using False that by (fastforce simp: rows_def of_ritm_def task_idem_def)
  have dd: "deps_done ?R u \<Longrightarrow> deps_done ?R' u" for u by (auto simp: deps_done_def R)
  have tm: "tainted ?R \<subseteq> tainted ?R'" by (rule tainted_mono) (auto simp: R)
  show ?thesis
    unfolding plan_ok_def
  proof (intro conjI ballI impI)
    show "distinct (map task_key (db_tasks (fst (insert_task dn t))))" using plan_okD(1) [OF ok] keys by (simp add: db)
    show "distinct (map tk_template ?R')" using plan_okD(2) [OF ok] tmpl by (simp add: R)
  next
    fix u assume "u \<in> set ?R'" "started (tk_state u)"
    then have "u \<in> set ?R" using new by (auto simp: R started_def split: if_splits)
    with plan_okD(3) [OF ok] \<open>started (tk_state u)\<close> dd show "deps_done ?R' u" by blast
  next
    fix u assume "u \<in> set ?R'" "tk_state u = SKIPPED"
    then have "u \<in> set ?R" using new by (auto simp: R split: if_splits)
    with plan_okD(4) [OF ok] \<open>tk_state u = SKIPPED\<close> tm show "tk_template u \<in> tainted ?R'" by blast
  qed
qed

lemma plan_ok_insert_tasks:
  assumes "plan_ok tenant ritm db"
  shows "plan_ok tenant ritm (fst (insert_tasks db ids tenant' ritm' items))"
proof -
  have "plan_ok tenant ritm (fst (foldl insert_task dn ts))"
    if "plan_ok tenant ritm (fst dn)" "\<forall>t \<in> set ts. tk_state t = PENDING" for dn ts
    using that
  proof (induction ts arbitrary: dn)
    case (Cons t ts)
    from Cons.IH [of "insert_task dn t"] Cons.prems plan_ok_insert [of tenant ritm dn t] show ?case by simp
  qed simp
  note all = this
  let ?new = "map (\<lambda>(i, t). task_of_item tenant' ritm' (ids i) t) (enumerate 0 items)"
  have "\<forall>t \<in> set ?new. tk_state t = PENDING" by (auto simp: task_of_item_def)
  with all [of "(db, 0)" ?new] assms show ?thesis by (simp add: insert_tasks_def)
qed

lemma insert_request_item_tasks: "insert_request_item db now i a b c d e n k = Inr (db', r) \<Longrightarrow> db_tasks db' = db_tasks db"
  by (auto simp: insert_request_item_def Let_def split: option.splits if_splits)

text \<open>The steps of a successful request, named.\<close>

lemma persist_plan_db:
  "db_tasks (fst (persist_plan ni now actor req ct items dr)) = db_tasks (fst (insert_tasks (fst dr) (ni_tasks ni) (fr_tenant_id req) (snd dr) items))"
  "db_ritms (fst (persist_plan ni now actor req ct items dr)) = db_ritms (fst (insert_tasks (fst dr) (ni_tasks ni) (fr_tenant_id req) (snd dr) items))"
  "oc_ritm_id (snd (persist_plan ni now actor req ct items dr)) = snd dr"
  by (simp_all add: persist_plan_def insert_fulfillment_run_def created_outcome_def Let_def)

lemma fulfill_request_cases:
  assumes "fulfill_request rich other cat ni now actor req db = Inr (db', oc)"
  obtains ct items db1 ritm where
    "find_open_duplicate db now (fr_tenant_id req) (fr_requested_for req) (fr_catalog_item_id req) DUPLICATE_LOOKBACK_DAYS = None"
    "insert_request_item db now (ni_ritm ni) (fr_tenant_id req) (fr_request_id req) (fr_catalog_item_id req)
       (fr_requested_for req) (fr_opened_by req) (int (length items)) (fr_idempotency_key req) = Inr (db1, ritm)"
    "persist_plan ni now actor req ct items (db1, ritm) = (db', oc)"
proof -
  let ?dup = "find_open_duplicate db now (fr_tenant_id req) (fr_requested_for req) (fr_catalog_item_id req) DUPLICATE_LOOKBACK_DAYS"
  have none: "?dup = None" using assms unfolding fulfill_request_def by (auto split: option.splits)
  show thesis using assms unfolding fulfill_request_def none option.case by (auto intro: that [OF none])
qed

text \<open>
  C23: a request that is created keeps every request item's plan in order, whatever the catalog, the variables
  and the generated ids are.
\<close>

theorem request_keeps_plans:
  assumes "\<forall>tenant ritm. plan_ok tenant ritm db" "fulfill_request rich other cat ni now actor req db = Inr (db', oc)"
  shows "\<forall>tenant ritm. plan_ok tenant ritm db'"
proof (intro allI)
  fix tenant ritm
  from assms(2) obtain items db1 r where d: "db_tasks db1 = db_tasks db"
    "db_tasks db' = db_tasks (fst (insert_tasks db1 (ni_tasks ni) (fr_tenant_id req) r items))"
    by (elim fulfill_request_cases) (metis insert_request_item_tasks persist_plan_db(1) fst_conv snd_conv)
  have "plan_ok tenant ritm db1" using assms(1) plan_ok_tasks [OF d(1)] by simp
  from plan_ok_insert_tasks [OF this] plan_ok_tasks [OF d(2)] show "plan_ok tenant ritm db'" by simp
qed

section \<open>The duplicate gate and the idempotency key\<close>

lemma insert_tasks_other [simp]:
  "db_ritms (fst (insert_tasks db ids tenant ritm items)) = db_ritms db"
  "db_requests (fst (insert_tasks db ids tenant ritm items)) = db_requests db"
proof -
  have "db_ritms (fst (foldl insert_task dn ts)) = db_ritms (fst dn) \<and> db_requests (fst (foldl insert_task dn ts)) = db_requests (fst dn)"
    for dn ts by (induction ts arbitrary: dn) (auto simp: insert_task_def)
  then show "db_ritms (fst (insert_tasks db ids tenant ritm items)) = db_ritms db"
    "db_requests (fst (insert_tasks db ids tenant ritm items)) = db_requests db" by (auto simp: insert_tasks_def)
qed

lemma persist_plan_requests [simp]: "db_requests (fst (persist_plan ni now actor req ct items dr)) = db_requests (fst dr)"
  by (simp add: persist_plan_def insert_fulfillment_run_def Let_def)

text \<open>The rows that block a new request, and what one insert adds to them.\<close>

definition blocks :: "int \<Rightarrow> string \<Rightarrow> string \<Rightarrow> string \<Rightarrow> ritm_row \<Rightarrow> bool" where
  "blocks now tenant requested_for item r \<longleftrightarrow> ri_tenant r = tenant \<and> ri_requested_for r = requested_for
     \<and> ri_catalog_item_id r = item \<and> ritm_open r \<and> ri_opened_at r \<ge> now - DUPLICATE_LOOKBACK_DAYS * ms_per_day"

lemma find_open_duplicate_blocks:
  "find_open_duplicate db now tenant u item DUPLICATE_LOOKBACK_DAYS =
     (case sort_key (\<lambda>r. - ri_opened_at r) (filter (blocks now tenant u item) (db_ritms db)) of [] \<Rightarrow> None | r # _ \<Rightarrow> Some (ri_id r))"
  by (simp add: find_open_duplicate_def blocks_def [abs_def])

lemma sort_key_Nil_iff: "sort_key f xs = [] \<longleftrightarrow> xs = []"
  by (metis length_0_conv length_sort)

lemma find_open_duplicate_None:
  "find_open_duplicate db now tenant u item DUPLICATE_LOOKBACK_DAYS = None \<longleftrightarrow> filter (blocks now tenant u item) (db_ritms db) = []"
  by (simp add: find_open_duplicate_blocks sort_key_Nil_iff split: list.split del: filter_empty_conv)
     (metis list.distinct(1) sort_key_Nil_iff)

lemma find_open_duplicate_single:
  "filter (blocks now tenant u item) (db_ritms db) = [r]
   \<Longrightarrow> find_open_duplicate db now tenant u item DUPLICATE_LOOKBACK_DAYS = Some (ri_id r)"
  by (simp add: find_open_duplicate_blocks)

lemma insert_request_item_fresh:
  assumes "insert_request_item db now i tenant rid item u op n key = Inr (db', ritm)"
    and "\<forall>r \<in> set (db_ritms db). ri_tenant r = tenant \<longrightarrow> ri_idempotency_key r \<noteq> key \<or> key = None"
  obtains r where "db_ritms db' = db_ritms db @ [r]" "db_requests db' = db_requests db" "ri_id r = ritm"
    "\<And>t. blocks t tenant u item r \<longleftrightarrow> t - DUPLICATE_LOOKBACK_DAYS * ms_per_day \<le> now"
proof -
  have "find (\<lambda>r. ri_tenant r = tenant \<and> key \<noteq> None \<and> ri_idempotency_key r = key) (db_ritms db) = None"
    using assms(2) by (auto simp: find_None_iff)
  with assms(1) show thesis
    by (auto simp: insert_request_item_def Let_def blocks_def ritm_open_def split: if_splits intro: that)
qed

text \<open>
A client that repeats a request, with the same idempotency key and within the thirty days of the duplicate
gate, is refused with \<open>DuplicateRequestError\<close> naming the request item of its own first call, because the gate
precedes the lookup of the key: the key never returns the existing request item while that item is open and recent.
\<close>

theorem idempotent_retry_refused:
  assumes first: "fulfill_request rich other cat ni now actor req db = Inr (db', oc)"
    and fresh: "\<forall>r \<in> set (db_ritms db). ri_tenant r = fr_tenant_id req \<longrightarrow>
                  ri_idempotency_key r \<noteq> fr_idempotency_key req \<or> fr_idempotency_key req = None"
    and soon: "now \<le> now'" "now' \<le> now + DUPLICATE_LOOKBACK_DAYS * ms_per_day"
  shows "fulfill_request rich other cat ni' now' actor req db' = Inl (DuplicateRequestError (oc_ritm_id oc))"
proof -
  let ?b = "\<lambda>t. blocks t (fr_tenant_id req) (fr_requested_for req) (fr_catalog_item_id req)"
  obtain r where r: "db_ritms db' = db_ritms db @ [r]" "db_requests db' = db_requests db" "ri_id r = oc_ritm_id oc"
      "\<And>t. ?b t r \<longleftrightarrow> t - DUPLICATE_LOOKBACK_DAYS * ms_per_day \<le> now"
    and none: "filter (?b now) (db_ritms db) = []"
    using first
  proof (rule fulfill_request_cases)
    fix ct items db1 ritm
    assume gate: "find_open_duplicate db now (fr_tenant_id req) (fr_requested_for req) (fr_catalog_item_id req) DUPLICATE_LOOKBACK_DAYS = None"
      and ins: "insert_request_item db now (ni_ritm ni) (fr_tenant_id req) (fr_request_id req) (fr_catalog_item_id req)
        (fr_requested_for req) (fr_opened_by req) (int (length items)) (fr_idempotency_key req) = Inr (db1, ritm)"
      and rest: "persist_plan ni now actor req ct items (db1, ritm) = (db', oc)"
    have eqs: "db_ritms db' = db_ritms db1" "db_requests db' = db_requests db1" "oc_ritm_id oc = ritm"
      using persist_plan_db [of ni now actor req ct items "(db1, ritm)"] persist_plan_requests [of ni now actor req ct items "(db1, ritm)"]
      by (simp_all add: rest)
    obtain r where "db_ritms db1 = db_ritms db @ [r]" "db_requests db1 = db_requests db" "ri_id r = ritm"
      "\<And>t. ?b t r \<longleftrightarrow> t - DUPLICATE_LOOKBACK_DAYS * ms_per_day \<le> now"
      using insert_request_item_fresh [OF ins fresh] by metis
    then show thesis by (intro that [of r]) (simp_all add: eqs gate [unfolded find_open_duplicate_None])
  qed
  have "filter (?b now') (db_ritms db) = []" using none soon(1) by (auto simp: filter_empty_conv blocks_def)
  then have "filter (?b now') (db_ritms db') = [r]" using soon(2) by (simp add: r(1,4))
  from find_open_duplicate_single [OF this]
  have gate: "find_open_duplicate db' now' (fr_tenant_id req) (fr_requested_for req) (fr_catalog_item_id req) DUPLICATE_LOOKBACK_DAYS
    = Some (oc_ritm_id oc)" by (simp add: r(3))
  from first have "assert_request_exists db' (fr_tenant_id req) (fr_request_id req) = Inr ()"
    by (auto simp: fulfill_request_def assert_request_exists_def r(2))
  with gate show ?thesis by (simp add: fulfill_request_def)
qed

text \<open>The shared validator rejects unknown and self dependencies and accepts every longer cycle.\<close>

lemma validate_dag_None:
  "validate_dag nodes = None \<longleftrightarrow> (\<forall>(t, ds) \<in> set nodes. \<forall>d \<in> set ds. d \<in> fst ` set nodes \<and> d \<noteq> t)"
proof -
  have dep: "dep_problem ids t ds = None \<longleftrightarrow> (\<forall>d \<in> set ds. d \<in> ids \<and> d \<noteq> t)" for ids t ds
    by (induction ds) auto
  have "dag_problem ids ns = None \<longleftrightarrow> (\<forall>(t, ds) \<in> set ns. \<forall>d \<in> set ds. d \<in> ids \<and> d \<noteq> t)" for ids ns
    by (induction ids ns rule: dag_problem.induct) (auto simp: dep [symmetric] split: option.split)
  then show ?thesis by (simp add: validate_dag_def)
qed

lemma two_cycle_accepted: "a \<noteq> b \<Longrightarrow> validate_dag [(a, [b]), (b, [a])] = None"
  by (auto simp: validate_dag_None)

section \<open>A concrete request\<close>

definition sample_row :: catalog_row where
  "sample_row = \<lparr>cr_tenant = ''t1'', cr_id = ''C9'', cr_name = ''Laptop'', cr_description = None, cr_category = Some ''hardware'',
     cr_owner_group = Some ''GRP-IT'', cr_estimated_total_minutes = Some 90,
     cr_tasks = JList [JObj [(''id'', JStr ''T1''), (''name'', JStr ''Order''), (''input_template'', JObj [(''m'', JStr ''for {user}'')])],
                 JObj [(''id'', JStr ''T2''), (''name'', JStr ''Ship''), (''depends_on'', JList [JStr ''T1''])]],
     cr_request_fields = JList [JObj [(''field_name'', JStr ''user''), (''required'', JBool True)]]\<rparr>"

definition sample_request :: fulfillment_request where
  "sample_request = \<lparr>fr_tenant_id = ''t1'', fr_request_id = ''REQ9'', fr_catalog_item_id = ''C9'', fr_variables = [(''user'', JStr ''bo'')],
     fr_requested_for = ''u1'', fr_opened_by = ''u1'', fr_idempotency_key = Some ''k'', fr_trigger_type = ''chat''\<rparr>"

definition empty_db :: fulfil_db where
  "empty_db = \<lparr>db_users = [], db_tasks = [], db_ritms = [],
     db_requests = [\<lparr>sr_tenant = ''t1'', sr_id = ''REQ9'', sr_status = ''requested'', sr_stage = ''request'', sr_fields = []\<rparr>],
     db_runs = [], db_approvals = []\<rparr>"

definition sample_ids :: new_ids where
  "sample_ids = \<lparr>ni_ritm = ''R9'', ni_tasks = (\<lambda>n. ''S'' @ nat_str n), ni_run = ''RUN9''\<rparr>"

abbreviation (input) "sample_fulfill ni now \<equiv>
  fulfill_request (\<lambda>f vs. Inl Caught) (\<lambda>j. []) [sample_row] ni now None sample_request"

lemma sample_fulfilled:
  "map_sum id (\<lambda>(db, oc). (map tk_template (db_tasks db), map tk_input (db_tasks db), oc_ritm_id oc, oc_tasks_total oc))
     (sample_fulfill sample_ids 5 empty_db)
   = Inr ([''T1'', ''T2''], [JObj [(''m'', JStr ''for bo'')], JObj [(''user'', JStr ''bo'')]], ''R9'', 2)"
  by code_simp

lemma sample_result: obtains db oc where "sample_fulfill sample_ids 5 empty_db = Inr (db, oc)" "oc_ritm_id oc = ''R9''"
  using sample_fulfilled by (cases "sample_fulfill sample_ids 5 empty_db") (auto simp: split_beta)

theorem request_keeps_plans_witness:
  "\<exists>db oc. sample_fulfill sample_ids 5 empty_db = Inr (db, oc) \<and> (\<forall>tenant ritm. plan_ok tenant ritm db)"
proof -
  have "\<forall>tenant ritm. plan_ok tenant ritm empty_db" by (simp add: plan_ok_def rows_def empty_db_def)
  then show ?thesis using request_keeps_plans by (metis sample_result)
qed

theorem idempotent_retry_refused_witness:
  "\<exists>db oc. sample_fulfill sample_ids 5 empty_db = Inr (db, oc)
     \<and> sample_fulfill sample_ids 6 db = Inl (DuplicateRequestError ''R9'')"
proof -
  obtain db oc where r: "sample_fulfill sample_ids 5 empty_db = Inr (db, oc)" "oc_ritm_id oc = ''R9''" by (rule sample_result)
  from idempotent_retry_refused [OF r(1), of 6 sample_ids] r show ?thesis
    by (simp add: empty_db_def DUPLICATE_LOOKBACK_DAYS_def ms_per_day_def)
qed

end
