(* ===== verification/Approval.thy ===== *)
theory Approval
  imports FulfilPlan "HOL-Library.Product_Lexorder"
begin

text \<open>
  Who must approve a service request (\<open>uc08_fulfillment/approval.py\<close>): the feature flag, the approval
  matrix, the resolvers of groups and managers, and the decision on one approval row. Rows of
  \<open>itsm.group_role_map\<close> and \<open>itsm.approval_policy\<close> are arguments; \<open>collate\<close> is the order in which the
  database returns user ids. Prose texts of outcomes are left out.
\<close>

section \<open>The flag\<close>

definition TRUTHY :: "string list" where
  "TRUTHY = [''1'', ''true'', ''yes'', ''on'', ''t'', ''y'']"

definition FALSY :: "string list" where
  "FALSY = [''0'', ''false'', ''no'', ''off'', ''f'', ''n'']"

definition parse_flag :: "(string \<Rightarrow> string option) \<Rightarrow> string \<Rightarrow> bool \<Rightarrow> bool" where
  "parse_flag getenv nm dflt =
     (case getenv nm of
        None \<Rightarrow> dflt
      | Some raw \<Rightarrow> let norm = lower (strip raw) in
          if norm \<in> set TRUTHY then True else if norm \<in> set FALSY then False else dflt)"

definition approval_enabled :: "(string \<Rightarrow> string option) \<Rightarrow> bool" where
  "approval_enabled getenv = parse_flag getenv ''UC08_APPROVAL_ENABLED'' False"

section \<open>Resolvers\<close>

datatype staff_attribute = BY_ROLE | BY_DEPARTMENT

record group_row =
  gr_owner_group :: string
  gr_attribute :: staff_attribute
  gr_value :: string

fun staffs :: "group_row \<Rightarrow> user_row \<Rightarrow> bool" where
  "staffs g u = (case gr_attribute g of BY_ROLE \<Rightarrow> us_role u = gr_value g | BY_DEPARTMENT \<Rightarrow> us_department u = gr_value g)"

record roster =
  ro_groups :: "group_row list"
  ro_users :: "user_row list"
  ro_collate :: "string list \<Rightarrow> string list"

definition resolve_group_members :: "roster \<Rightarrow> string \<Rightarrow> string \<Rightarrow> string list" where
  "resolve_group_members ro tenant owner_group =
     ro_collate ro (concat (map (\<lambda>g. map us_id (filter (\<lambda>u. staffs g u \<and> us_tenant u = tenant \<and> us_is_active u) (ro_users ro)))
       (filter (\<lambda>g. gr_owner_group g = owner_group) (ro_groups ro))))"

text \<open>The query's parameter is text: any other value is refused by the driver.\<close>

fun group_members :: "roster \<Rightarrow> string \<Rightarrow> json \<Rightarrow> fulfil_error + string list" where
  "group_members ro tenant (JStr g) = Inr (resolve_group_members ro tenant g)"
| "group_members ro tenant _ = Inl (PyRaised ''DataError'')"

definition manager_ids :: "roster \<Rightarrow> string \<Rightarrow> user_row \<Rightarrow> string list" where
  "manager_ids ro tenant u = map us_id (filter (\<lambda>m. us_tenant m = tenant \<and> us_manager_id u = Some (us_id m) \<and> us_is_active m) (ro_users ro))"

definition resolve_manager :: "roster \<Rightarrow> string \<Rightarrow> string \<Rightarrow> string option" where
  "resolve_manager ro tenant requester =
     (case concat (map (manager_ids ro tenant) (filter (is_user tenant requester) (ro_users ro))) of
        [] \<Rightarrow> None | m # _ \<Rightarrow> Some m)"

section \<open>The matrix\<close>

text \<open>A row of \<open>itsm.approval_policy\<close>.\<close>

record policy_row =
  po_tenant :: string
  po_id :: string
  po_priority :: int
  po_match :: json
  po_required :: bool
  po_stages :: json
  po_enabled :: bool

definition load_policies :: "policy_row list \<Rightarrow> string \<Rightarrow> policy_row list" where
  "load_policies ps tenant =
     sort_key (\<lambda>p. (po_priority p, po_id p)) (filter (\<lambda>p. po_tenant p = tenant \<and> po_enabled p) ps)"

text \<open>\<open>d.get(k)\<close> on a value that may not be a dict.\<close>

definition dget :: "json \<Rightarrow> string \<Rightarrow> fulfil_error + json" where
  "dget j k = (if is_dict j then Inr (jget j k) else Inl (PyRaised ''AttributeError''))"

definition dget_or :: "json \<Rightarrow> string \<Rightarrow> json \<Rightarrow> fulfil_error + json" where
  "dget_or j k d = (if is_dict j then Inr (case jfield j k of None \<Rightarrow> d | Some v \<Rightarrow> v) else Inl (PyRaised ''AttributeError''))"

text \<open>
  Does a \<open>match\<close> hold of the attributes? The attributes are text or \<open>None\<close>, on which Python's \<open>==\<close> is equality.
\<close>

fun match_holds :: "(string \<times> json) list \<Rightarrow> json \<Rightarrow> fulfil_error + bool" where
  "match_holds attrs (JObj kvs) = Inr (list_all (\<lambda>(k, v). jget (JObj attrs) k = v) kvs)"
| "match_holds attrs j = (if truthy j then Inl (PyRaised ''AttributeError'') else Inr True)"

fun match_policy :: "(string \<times> json) list \<Rightarrow> policy_row list \<Rightarrow> fulfil_error + policy_row option" where
  "match_policy attrs [] = Inr None"
| "match_policy attrs (p # ps) =
     sbind (match_holds attrs (po_match p)) (\<lambda>b. if b then Inr (Some p) else match_policy attrs ps)"

text \<open>The first stage of the list that names a service-desk group.\<close>

fun desk_stage_of :: "json list \<Rightarrow> fulfil_error + json option" where
  "desk_stage_of [] = Inr None"
| "desk_stage_of (st # rest) =
     sbind (dget st ''approver'') (\<lambda>a.
     sbind (dget (py_or a (JObj [])) ''type'') (\<lambda>t.
       if t = JStr ''service_desk'' \<and> truthy (jget a ''group'') then Inr (Some st) else desk_stage_of rest))"

fun service_desk_stage :: "policy_row list \<Rightarrow> fulfil_error + json option" where
  "service_desk_stage [] = Inr None"
| "service_desk_stage (p # ps) =
     (if truthy (po_match p) then service_desk_stage ps
      else sbind (py_iter (py_or (po_stages p) (JList []))) (\<lambda>sts.
           sbind (desk_stage_of sts) (\<lambda>r. case r of Some st \<Rightarrow> Inr (Some st) | None \<Rightarrow> service_desk_stage ps)))"

section \<open>The approvers of a request\<close>

record approval_decision =
  ad_required :: bool
  ad_policy_id :: string
  ad_approver_type :: string
  ad_approval_type :: string
  ad_approvers :: "string list"
  ad_rule :: string
  ad_reason :: string
  ad_fell_back :: bool

definition resolved :: "approval_decision \<Rightarrow> bool" where
  "resolved d \<longleftrightarrow> \<not> ad_required d \<or> ad_approvers d \<noteq> []"

definition members_if :: "roster \<Rightarrow> string \<Rightarrow> json \<Rightarrow> fulfil_error + string list" where
  "members_if ro tenant g = (if truthy g then group_members ro tenant g else Inr [])"

definition resolve_stage ::
  "(json \<Rightarrow> string) \<Rightarrow> roster \<Rightarrow> json \<Rightarrow> (string \<times> json) list \<Rightarrow> string \<Rightarrow> string \<Rightarrow> fulfil_error + string list" where
  "resolve_stage other ro approver item requester tenant =
     sbind (dget approver ''type'') (\<lambda>t.
       if t = JStr ''owning_group'' then members_if ro tenant (jget (JObj item) ''owner_group'')
       else if t = JStr ''manager_of_requester'' then
         Inr (case resolve_manager ro tenant requester of Some m \<Rightarrow> if m = [] then [] else [m] | None \<Rightarrow> [])
       else if t = JStr ''group'' then members_if ro tenant (py_or (jget approver ''id'') (jget approver ''group''))
       else if t = JStr ''user'' then
         Inr (if truthy (jget approver ''id'') then [json_str other (jget approver ''id'')] else [])
       else if t = JStr ''service_desk'' then members_if ro tenant (jget approver ''group'')
       else Inr [])"

text \<open>\<open>stages[0] if stages else (_service_desk_stage(policies) or {})\<close>.\<close>

fun first_of :: "json \<Rightarrow> fulfil_error + json" where
  "first_of (JList (v # _)) = Inr v"
| "first_of (JStr (c # _)) = Inr (JStr [c])"
| "first_of (JObj _) = Inl (PyRaised ''KeyError'')"
| "first_of _ = Inl (PyRaised ''TypeError'')"

definition stage_of :: "policy_row list \<Rightarrow> json \<Rightarrow> fulfil_error + json" where
  "stage_of ps stages =
     (if truthy stages then first_of stages
      else sbind (service_desk_stage ps) (\<lambda>r. Inr (case r of None \<Rightarrow> JObj [] | Some st \<Rightarrow> py_or st (JObj []))))"

text \<open>The stage's approvers without the requester, when the stage blocks self-approval.\<close>

definition without_self :: "bool \<Rightarrow> string \<Rightarrow> string list \<Rightarrow> string list" where
  "without_self block requester as = filter (\<lambda>a. \<not> (block \<and> a = requester)) as"

record stage_view =
  sv_approver :: json
  sv_approver_type :: string
  sv_approval_type :: string
  sv_rule :: string
  sv_block_self :: bool

definition view_stage :: "(json \<Rightarrow> string) \<Rightarrow> json \<Rightarrow> fulfil_error + stage_view" where
  "view_stage other stage =
     sbind (dget stage ''approver'') (\<lambda>a. let approver = py_or a (JObj []) in
     sbind (dget_or approver ''type'' (JStr [])) (\<lambda>ty.
     sbind (dget_or stage ''approval_type'' (JStr [])) (\<lambda>aty.
     sbind (dget_or stage ''rule'' (JStr ''any_one'')) (\<lambda>rule.
     sbind (dget_or stage ''block_self_approval'' (JBool True)) (\<lambda>blk.
       Inr \<lparr>sv_approver = approver, sv_approver_type = json_str other ty, sv_approval_type = json_str other aty,
            sv_rule = json_str other rule, sv_block_self = truthy blk\<rparr>)))))"

text \<open>The fail-safe: the service-desk stage of the matrix, its type and its members.\<close>

definition fall_back ::
  "(json \<Rightarrow> string) \<Rightarrow> roster \<Rightarrow> policy_row list \<Rightarrow> string \<Rightarrow> string \<Rightarrow> stage_view \<Rightarrow> fulfil_error + (string \<times> string \<times> string list) option" where
  "fall_back other ro ps requester tenant sv =
     sbind (service_desk_stage ps) (\<lambda>r. case r of
       None \<Rightarrow> Inr None
     | Some st \<Rightarrow> if \<not> truthy st then Inr None else
         sbind (dget_or st ''approval_type'' (JStr (sv_approval_type sv))) (\<lambda>aty.
         sbind (dget st ''approver'') (\<lambda>a.
         sbind (dget (py_or a (JObj [])) ''group'') (\<lambda>g.
         sbind (group_members ro tenant g) (\<lambda>sd.
           Inr (Some (''service_desk'', json_str other aty, without_self (sv_block_self sv) requester sd)))))))"

text \<open>The approvers of a stage, with the fail-safe: whether it was used, the types, the ids.\<close>

definition choose_approvers ::
  "(json \<Rightarrow> string) \<Rightarrow> roster \<Rightarrow> policy_row list \<Rightarrow> (string \<times> json) list \<Rightarrow> string \<Rightarrow> string \<Rightarrow> stage_view
   \<Rightarrow> fulfil_error + bool \<times> string \<times> string \<times> string list" where
  "choose_approvers other ro ps item requester tenant sv =
     sbind (resolve_stage other ro (sv_approver sv) item requester tenant) (\<lambda>as0.
       let as = without_self (sv_block_self sv) requester as0;
           own = (False, sv_approver_type sv, sv_approval_type sv, as)
       in if as = [] \<and> sv_approver_type sv \<noteq> ''service_desk''
          then sbind (fall_back other ro ps requester tenant sv) (\<lambda>fb. Inr (case fb of None \<Rightarrow> own | Some x \<Rightarrow> (True, x)))
          else Inr own)"

definition resolve_approvers ::
  "(json \<Rightarrow> string) \<Rightarrow> roster \<Rightarrow> policy_row list \<Rightarrow> (string \<times> json) list \<Rightarrow> string \<Rightarrow> string \<Rightarrow> fulfil_error + approval_decision" where
  "resolve_approvers other ro table item requester tenant =
     (let ps = load_policies table tenant in
      sbind (match_policy item ps) (\<lambda>m.
        let pid = (case m of None \<Rightarrow> ''<no-match>'' | Some p \<Rightarrow> po_id p);
            reason = (case m of None \<Rightarrow> ''no matching policy (catch-all missing)'' | Some p \<Rightarrow> po_id p)
        in if \<not> (case m of None \<Rightarrow> True | Some p \<Rightarrow> po_required p)
           then Inr \<lparr>ad_required = False, ad_policy_id = pid, ad_approver_type = ''none'', ad_approval_type = [],
                    ad_approvers = [], ad_rule = [], ad_reason = reason, ad_fell_back = False\<rparr>
           else
             sbind (stage_of ps (case m of None \<Rightarrow> JList [] | Some p \<Rightarrow> po_stages p)) (\<lambda>stage.
             sbind (view_stage other stage) (\<lambda>sv.
             sbind (choose_approvers other ro ps item requester tenant sv) (\<lambda>(fb, ty, aty, as).
               Inr \<lparr>ad_required = True, ad_policy_id = pid, ad_approver_type = ty, ad_approval_type = aty,
                    ad_approvers = as, ad_rule = sv_rule sv, ad_reason = reason, ad_fell_back = fb\<rparr>)))))"

section \<open>Deciding one approval\<close>

datatype decision_state = D_APPROVED | D_REJECTED | D_ERROR | D_ALREADY | D_STATE approval_state

record decision_outcome =
  do_ok :: bool
  do_ritm_id :: "string option"
  do_state :: decision_state
  do_should_dispatch :: bool

definition refuse :: "string option \<Rightarrow> decision_outcome" where
  "refuse ritm = \<lparr>do_ok = False, do_ritm_id = ritm, do_state = D_ERROR, do_should_dispatch = False\<rparr>"

definition no_op :: "string \<Rightarrow> decision_state \<Rightarrow> decision_outcome" where
  "no_op ritm st = \<lparr>do_ok = True, do_ritm_id = Some ritm, do_state = st, do_should_dispatch = False\<rparr>"

text \<open>The checks before the transaction, on the row as it was read.\<close>

definition decide_read :: "fulfil_db \<Rightarrow> string \<Rightarrow> string \<Rightarrow> string \<Rightarrow> string \<Rightarrow> decision_outcome + approval_row" where
  "decide_read db tenant aid decision decided_by =
     (if decision \<notin> {''approved'', ''rejected''} then Inl (refuse None)
      else case get_approval db tenant aid of
        None \<Rightarrow> Inl (refuse None)
      | Some a \<Rightarrow>
          if ap_state a \<noteq> A_PENDING then Inl (no_op (ap_ritm a) (D_STATE (ap_state a)))
          else if decided_by \<noteq> ap_requested_from a then Inl (refuse (Some (ap_ritm a)))
          else Inr a)"

text \<open>The transaction, atomic on the tables as they are when it runs.\<close>

definition decide_commit ::
  "fulfil_db \<Rightarrow> string \<Rightarrow> string \<Rightarrow> string \<Rightarrow> string \<Rightarrow> string option \<Rightarrow> approval_row \<Rightarrow> decision_outcome \<times> fulfil_db" where
  "decide_commit db tenant aid decision decided_by comment a =
     (let approved = (decision = ''approved'');
          (r, db1) = update_approval_decision db tenant aid (if approved then A_APPROVED else A_REJECTED) decided_by comment
      in case r of
           None \<Rightarrow> (no_op (ap_ritm a) D_ALREADY, db1)
         | Some ritm \<Rightarrow>
             let db2 = (if approved then withdraw_other_pending_approvals db1 tenant ritm aid else db1);
                 (req, db3) = apply_approval_outcome db2 tenant ritm approved;
                 db4 = (case req of
                          None \<Rightarrow> db3
                        | Some rid \<Rightarrow> set_request_lifecycle db3 tenant rid (if approved then ''approved'' else ''rejected'')
                                       (if approved then ''fulfillment'' else ''closed''))
             in (\<lparr>do_ok = True, do_ritm_id = Some ritm, do_state = (if approved then D_APPROVED else D_REJECTED),
                  do_should_dispatch = (approved \<and> req \<noteq> None)\<rparr>, db4))"

text \<open>\<open>seen\<close> is the database at the read, \<open>db\<close> the database at the transaction.\<close>

definition decide_approval ::
  "fulfil_db \<Rightarrow> fulfil_db \<Rightarrow> string \<Rightarrow> string \<Rightarrow> string \<Rightarrow> string \<Rightarrow> string option \<Rightarrow> decision_outcome \<times> fulfil_db" where
  "decide_approval seen db tenant aid decision decided_by comment =
     (case decide_read seen tenant aid decision decided_by of
        Inl r \<Rightarrow> (r, db)
      | Inr a \<Rightarrow> decide_commit db tenant aid decision decided_by comment a)"

section \<open>What the matrix promises\<close>

lemma without_self_iff: "a \<in> set (without_self b r as) \<longleftrightarrow> a \<in> set as \<and> \<not> (b \<and> a = r)"
  by (auto simp: without_self_def)

text \<open>The fail-safe of the matrix as a list: the first service-desk stage of a catch-all row.\<close>

lemma match_policy_Some:
  "match_policy attrs ps = Inr (Some p) \<Longrightarrow> p \<in> set ps \<and> match_holds attrs (po_match p) = Inr True"
  by (induction ps) (auto split: if_splits)

lemma match_policy_None: "match_policy attrs ps = Inr None \<Longrightarrow> p \<in> set ps \<Longrightarrow> match_holds attrs (po_match p) = Inr False"
  by (induction ps) (auto split: if_splits)

lemma match_policy_first:
  assumes "match_policy attrs ps = Inr (Some p)"
  obtains xs ys where "ps = xs @ p # ys" "\<forall>q \<in> set xs. match_holds attrs (po_match q) = Inr False"
  using assms
proof (induction ps arbitrary: thesis)
  case (Cons q qs)
  show ?case
  proof (cases "match_holds attrs (po_match q) = Inr True")
    case True
    with Cons.prems(2) show ?thesis by (auto intro!: Cons.prems(1) [of "[]"])
  next
    case False
    then have f: "match_holds attrs (po_match q) = Inr False" and "match_policy attrs qs = Inr (Some p)"
      using Cons.prems(2) by (auto split: if_splits)
    from Cons.IH [OF _ this(2)] obtain xs ys where "qs = xs @ p # ys" "\<forall>q \<in> set xs. match_holds attrs (po_match q) = Inr False"
      by metis
    with f show ?thesis by (auto intro!: Cons.prems(1) [of "q # xs"])
  qed
qed simp

text \<open>What holds of the approvers whichever stage they come from.\<close>

lemma fall_back_Some:
  "fall_back other ro ps requester tenant sv = Inr (Some (ty, aty, as)) \<Longrightarrow> \<exists>sd. as = without_self (sv_block_self sv) requester sd"
  unfolding fall_back_def sbind_Inr_iff by (elim exE conjE) (auto split: option.splits if_splits)

lemma choose_approvers_self:
  "choose_approvers other ro ps item requester tenant sv = Inr (fb, ty, aty, as) \<Longrightarrow> requester \<in> set as \<Longrightarrow> \<not> sv_block_self sv"
  by (auto simp: choose_approvers_def Let_def without_self_iff dest!: fall_back_Some split: if_splits option.splits)

lemma resolve_approvers_cases:
  assumes "resolve_approvers other ro table item requester tenant = Inr d"
  obtains (self_service) p where "match_policy item (load_policies table tenant) = Inr (Some p)" "\<not> po_required p" "\<not> ad_required d"
  | (required) m stage sv fb ty aty where "match_policy item (load_policies table tenant) = Inr m" "\<forall>p. m = Some p \<longrightarrow> po_required p"
      "ad_required d" "stage_of (load_policies table tenant) (case m of None \<Rightarrow> JList [] | Some p \<Rightarrow> po_stages p) = Inr stage"
      "view_stage other stage = Inr sv"
      "choose_approvers other ro (load_policies table tenant) item requester tenant sv = Inr (fb, ty, aty, ad_approvers d)"
proof -
  from assms obtain m where m: "match_policy item (load_policies table tenant) = Inr m"
    by (auto simp: resolve_approvers_def Let_def)
  show thesis
  proof (cases "case m of None \<Rightarrow> True | Some p \<Rightarrow> po_required p")
    case False
    then obtain p where "m = Some p" "\<not> po_required p" by (auto split: option.splits)
    with assms m show thesis by (intro self_service) (auto simp: resolve_approvers_def Let_def)
  next
    case True
    then have req: "\<forall>p. m = Some p \<longrightarrow> po_required p" by auto
    from assms m True show thesis
      by (simp add: resolve_approvers_def Let_def split_beta) (elim exE conjE, rule required [OF m req], auto)
  qed
qed

text \<open>
C24: A request whose first matching rule requires approval never resolves to "no approval"; when the stage that
applies does not switch the guard off, the requester is in no case among the approvers, the service-desk
fail-safe included; and only a rule of the tenant's matrix with \<open>required = false\<close> that matches waives approval.
\<close>

theorem approvers_exclude_requester:
  assumes "resolve_approvers other ro table item requester tenant = Inr d"
  shows "if ad_required d
         then \<exists>m stage sv. match_policy item (load_policies table tenant) = Inr m
                \<and> stage_of (load_policies table tenant) (case m of None \<Rightarrow> JList [] | Some p \<Rightarrow> po_stages p) = Inr stage
                \<and> view_stage other stage = Inr sv
                \<and> (requester \<in> set (ad_approvers d) \<longrightarrow> \<not> sv_block_self sv)
         else \<exists>p \<in> set table. po_tenant p = tenant \<and> po_enabled p \<and> \<not> po_required p
                \<and> match_policy item (load_policies table tenant) = Inr (Some p)"
  using assms
proof (cases rule: resolve_approvers_cases)
  case (self_service p)
  from match_policy_Some [OF self_service(1)] self_service show ?thesis by (auto simp: load_policies_def)
next
  case (required m stage sv fb ty aty)
  with choose_approvers_self [OF required(6)] show ?thesis by auto
qed

section \<open>A concrete matrix\<close>

definition sample_user :: "string \<Rightarrow> string \<Rightarrow> string option \<Rightarrow> user_row" where
  "sample_user i dep m = \<lparr>us_tenant = ''t1'', us_id = i, us_role = ''agent'', us_department = dep, us_manager_id = m, us_is_active = True\<rparr>"

definition sample_roster :: roster where
  "sample_roster = \<lparr>ro_groups = [\<lparr>gr_owner_group = ''GRP-IT'', gr_attribute = BY_DEPARTMENT, gr_value = ''it''\<rparr>],
     ro_users = [sample_user ''u1'' ''it'' (Some ''u1''), sample_user ''u2'' ''it'' None], ro_collate = id\<rparr>"

definition sample_stage :: "string \<Rightarrow> string \<Rightarrow> json" where
  "sample_stage ty aty = JObj [(''approver'', JObj [(''type'', JStr ty), (''group'', JStr ''GRP-IT'')]), (''approval_type'', JStr aty)]"

definition sample_policy :: "string \<Rightarrow> int \<Rightarrow> json \<Rightarrow> bool \<Rightarrow> json list \<Rightarrow> policy_row" where
  "sample_policy i n m req sts = \<lparr>po_tenant = ''t1'', po_id = i, po_priority = n, po_match = m, po_required = req, po_stages = JList sts, po_enabled = True\<rparr>"

definition sample_matrix :: "policy_row list" where
  "sample_matrix = [sample_policy ''catch_all'' 999 (JObj []) True [sample_stage ''service_desk'' ''catalog_owner''],
     sample_policy ''hw'' 20 (JObj [(''category'', JStr ''hardware'')]) True [sample_stage ''manager_of_requester'' ''manager''],
     sample_policy ''self'' 10 (JObj [(''category'', JStr ''password'')]) False []]"

text \<open>The requester is their own manager: the rule resolves to them alone, and the service desk steps in.\<close>

lemma sample_fallback:
  "resolve_approvers (\<lambda>j. []) sample_roster sample_matrix [(''category'', JStr ''hardware'')] ''u1'' ''t1''
   = Inr \<lparr>ad_required = True, ad_policy_id = ''hw'', ad_approver_type = ''service_desk'', ad_approval_type = ''catalog_owner'',
          ad_approvers = [''u2''], ad_rule = ''any_one'', ad_reason = ''hw'', ad_fell_back = True\<rparr>"
  by code_simp

theorem approvers_exclude_requester_witness:
  "\<exists>d. resolve_approvers (\<lambda>j. []) sample_roster sample_matrix [(''category'', JStr ''hardware'')] ''u1'' ''t1'' = Inr d
     \<and> ad_required d \<and> (\<exists>m stage. match_policy [(''category'', JStr ''hardware'')] (load_policies sample_matrix ''t1'') = Inr m
          \<and> stage_of (load_policies sample_matrix ''t1'') (case m of None \<Rightarrow> JList [] | Some p \<Rightarrow> po_stages p) = Inr stage)"
proof -
  from approvers_exclude_requester [OF sample_fallback]
  have "\<exists>m stage. match_policy [(''category'', JStr ''hardware'')] (load_policies sample_matrix ''t1'') = Inr m
          \<and> stage_of (load_policies sample_matrix ''t1'') (case m of None \<Rightarrow> JList [] | Some p \<Rightarrow> po_stages p) = Inr stage"
    unfolding approval_decision.simps if_True by blast
  with sample_fallback show ?thesis by auto
qed

end
