(* ===== verification/ServiceRequest.thy ===== *)
theory ServiceRequest
  imports Approval
begin

text \<open>
  The service-request tools (\<open>uc08_fulfillment/tools.py\<close>) and the approval endpoint
  (\<open>api/uc08_approval_routes.py\<close>): opening a request, the approval gate, the dispatch of its fulfilment, the
  release after an approval. Of a reply the model keeps what callers read (flags, codes, ids, status); prose texts are
  left out. The messages the broker has accepted are a log beside the database; what the
  broker accepts, the environment variables, the catalog, matrix and group tables and the generated ids are arguments.
\<close>

section \<open>Replies and environment\<close>

record reply =
  rp_ok :: bool
  rp_error_code :: "string option"
  rp_request_id :: "string option"
  rp_ritm_id :: "string option"
  rp_status :: "string option"
  rp_dispatched :: "bool option"
  rp_missing :: "string list"

definition failed_reply :: "string \<Rightarrow> reply" where
  "failed_reply code = \<lparr>rp_ok = False, rp_error_code = Some code, rp_request_id = None, rp_ritm_id = None,
     rp_status = None, rp_dispatched = None, rp_missing = []\<rparr>"

definition ok_reply :: "string \<Rightarrow> string option \<Rightarrow> string option \<Rightarrow> bool option \<Rightarrow> reply" where
  "ok_reply request ritm status dispatched = \<lparr>rp_ok = True, rp_error_code = None, rp_request_id = Some request,
     rp_ritm_id = ritm, rp_status = status, rp_dispatched = dispatched, rp_missing = []\<rparr>"

record desk_env =
  de_getenv :: "string \<Rightarrow> string option"
  de_rich :: rich_field
  de_other :: "json \<Rightarrow> string"
  de_catalog :: "catalog_row list"
  de_groups :: "group_row list"
  de_policies :: "policy_row list"
  de_collate :: "string list \<Rightarrow> string list"
  de_nats :: "(string \<Rightarrow> string \<Rightarrow> bool) option"

record generated =
  gn_now :: int
  gn_request :: string
  gn_ids :: new_ids
  gn_approval :: "nat \<Rightarrow> string"

type_synonym desk = "fulfil_db \<times> (string \<times> string) list"

text \<open>An early end: what is raised, or the reply.\<close>

type_synonym 'a until = "(fulfil_error + reply) + 'a"

definition raising :: "fulfil_error + 'a \<Rightarrow> 'a until" where
  "raising r = map_sum Inl id r"

lemma raising_Inr [simp]: "raising r = Inr x \<longleftrightarrow> r = Inr x"
  by (cases r) (auto simp: raising_def)

section \<open>Arguments\<close>

text \<open>\<open>str(x or "").strip()\<close>.\<close>

definition text_of :: "(json \<Rightarrow> string) \<Rightarrow> json \<Rightarrow> string" where
  "text_of other j = strip (json_str other (py_or j (JStr [])))"

definition principal_from_context :: "(json \<Rightarrow> string) \<Rightarrow> json \<Rightarrow> fulfil_error + string \<times> string \<times> string" where
  "principal_from_context other ctx =
     (let tenant = text_of other (jget ctx ''tenant_id''); user = text_of other (jget ctx ''user_id'') in
      if tenant = [] \<or> user = [] then Inl (PyRaised ''ValueError'')
      else Inr (tenant, user, text_of other (jget ctx ''role'')))"

text \<open>\<open>dict(x)\<close>; the parameter's declared type is an object.\<close>

fun as_dict :: "json \<Rightarrow> fulfil_error + (string \<times> json) list" where
  "as_dict (JObj kvs) = Inr kvs"
| "as_dict _ = Inl (PyRaised ''TypeError'')"

text \<open>\<open>int(x)\<close>.\<close>

fun as_int :: "json \<Rightarrow> fulfil_error + int" where
  "as_int (JInt i) = Inr i"
| "as_int (JBool b) = Inr (if b then 1 else 0)"
| "as_int (JStr s) = (case int_of_text s of None \<Rightarrow> Inl (PyRaised ''ValueError'') | Some i \<Rightarrow> Inr i)"
| "as_int _ = Inl (PyRaised ''TypeError'')"

record intake =
  in_tenant :: string
  in_user :: string
  in_catalog :: string
  in_fields :: "(string \<times> json) list"
  in_requested_for :: string
  in_quantity :: int
  in_key :: json

definition parse_intake :: "(json \<Rightarrow> string) \<Rightarrow> json \<Rightarrow> json \<Rightarrow> intake until" where
  "parse_intake other args ctx =
     sbind (raising (principal_from_context other ctx)) (\<lambda>(tenant, user, _).
     sbind (raising (as_dict (py_or (jget args ''fields'') (py_or (jget args ''variables'') (JObj []))))) (\<lambda>fs.
     sbind (raising (as_int (py_or (jget args ''quantity'') (JInt 1)))) (\<lambda>n.
       let catalog = text_of other (py_or (jget args ''catalog_id'') (jget args ''catalog_item_id'')) in
       if catalog = [] then Inl (Inr (failed_reply ''UC08_BAD_REQUEST''))
       else Inr \<lparr>in_tenant = tenant, in_user = user, in_catalog = catalog, in_fields = fs,
                 in_requested_for = strip (json_str other (py_or (jget args ''requested_for'') (JStr user))),
                 in_quantity = n, in_key = jget args ''idempotency_key''\<rparr>)))"

definition load_request_fields :: "catalog_row list \<Rightarrow> string \<Rightarrow> string \<Rightarrow> fulfil_error + json list" where
  "load_request_fields cat tenant item =
     (case find (is_catalog tenant item) cat of
        None \<Rightarrow> Inl (CatalogItemNotFoundError item)
      | Some r \<Rightarrow> py_iter (py_or (cr_request_fields r) (JList [])))"

text \<open>Is this form value blank? \<open>not str(fields.get(name, "")).strip()\<close>.\<close>

definition blank :: "(json \<Rightarrow> string) \<Rightarrow> (string \<times> json) list \<Rightarrow> string \<Rightarrow> bool" where
  "blank other fs nm \<longleftrightarrow> (case map_of fs nm of None \<Rightarrow> True | Some v \<Rightarrow> strip (json_str other v) = [])"

text \<open>A name that is not text is no key of the form (and an unhashable one raises).\<close>

fun field_missing :: "(json \<Rightarrow> string) \<Rightarrow> (string \<times> json) list \<Rightarrow> json \<Rightarrow> fulfil_error + bool" where
  "field_missing other fs (JStr nm) = Inr (blank other fs nm)"
| "field_missing other fs (JList _) = Inl (PyRaised ''TypeError'')"
| "field_missing other fs (JObj _) = Inl (PyRaised ''TypeError'')"
| "field_missing other fs _ = Inr True"

fun missing_fields :: "(json \<Rightarrow> string) \<Rightarrow> (string \<times> json) list \<Rightarrow> json list \<Rightarrow> fulfil_error + json list" where
  "missing_fields other fs [] = Inr []"
| "missing_fields other fs (f # rest) =
     sbind (dget f ''required'') (\<lambda>req.
       if \<not> truthy req then missing_fields other fs rest
       else case jfield f ''field_name'' of
         None \<Rightarrow> Inl (PyRaised ''KeyError'')
       | Some nm \<Rightarrow> sbind (field_missing other fs nm) (\<lambda>m.
           sbind (missing_fields other fs rest) (\<lambda>ms. Inr (if m then nm # ms else ms))))"

section \<open>Opening the request\<close>

text \<open>The reply lists the missing names; joining them raises on a name that is not text.\<close>

definition check_form :: "desk_env \<Rightarrow> intake \<Rightarrow> unit until" where
  "check_form env it =
     (case load_request_fields (de_catalog env) (in_tenant it) (in_catalog it) of
        Inl (CatalogItemNotFoundError _) \<Rightarrow> Inl (Inr (failed_reply ''UC08_CATALOG_ITEM_NOT_FOUND''))
      | Inl e \<Rightarrow> Inl (Inl e)
      | Inr schema \<Rightarrow>
          sbind (raising (missing_fields (de_other env) (in_fields it) schema)) (\<lambda>ms.
          if ms = [] then Inr ()
          else sbind (raising (mapM_sum (\<lambda>m. case m of JStr s \<Rightarrow> Inr s | _ \<Rightarrow> Inl (PyRaised ''TypeError'')) ms)) (\<lambda>names.
            Inl (Inr ((failed_reply ''UC08_MISSING_FIELDS'')\<lparr>rp_missing := names\<rparr>)))))"

definition open_request :: "desk_env \<Rightarrow> generated \<Rightarrow> intake \<Rightarrow> fulfil_db \<Rightarrow> fulfil_db until" where
  "open_request env gen it db =
     sbind (check_form env it) (\<lambda>_.
       case insert_request db (gn_request gen) (in_tenant it) (in_requested_for it) (in_user it) (in_fields it) of
         Inl (RequesterNotFoundError _) \<Rightarrow> Inl (Inr (failed_reply ''UC08_REQUESTER_NOT_FOUND''))
       | Inl e \<Rightarrow> Inl (Inl e)
       | Inr (db', _) \<Rightarrow> Inr db')"

text \<open>The fulfilment request; \<open>None\<close> when it does not validate.\<close>

fun opt_key :: "json \<Rightarrow> string option option" where
  "opt_key JNull = Some None"
| "opt_key (JStr s) = (if length s \<le> 128 then Some (Some s) else None)"
| "opt_key _ = None"

definition build_request :: "intake \<Rightarrow> string \<Rightarrow> fulfillment_request option" where
  "build_request it request =
     (case opt_key (in_key it) of
        None \<Rightarrow> None
      | Some key \<Rightarrow>
          if len_in 1 64 (in_tenant it) \<and> len_in 1 64 request \<and> len_in 1 64 (in_catalog it)
             \<and> len_in 1 128 (in_requested_for it) \<and> len_in 1 128 (in_user it) \<and> 1 \<le> in_quantity it \<and> in_quantity it \<le> 100
          then Some \<lparr>fr_tenant_id = in_tenant it, fr_request_id = request, fr_catalog_item_id = in_catalog it,
                 fr_variables = in_fields it, fr_requested_for = in_requested_for it, fr_opened_by = in_user it,
                 fr_idempotency_key = key, fr_trigger_type = ''chat''\<rparr>
          else None)"

section \<open>The approval gate\<close>

definition park_approver ::
  "string \<Rightarrow> string \<Rightarrow> approval_decision \<Rightarrow> fulfil_db \<Rightarrow> string \<times> string \<Rightarrow> fulfil_error + fulfil_db" where
  "park_approver tenant ritm d db ia =
     map_sum id fst (insert_approval db (fst ia) tenant ritm None (JStr (ad_approval_type d)) (JStr (ad_reason d)) (JStr (snd ia))
       (JObj [(''policy_id'', JStr (ad_policy_id d)), (''approver_type'', JStr (ad_approver_type d)), (''fell_back'', JBool (ad_fell_back d))]))"

definition catalog_attrs :: "catalog_row list \<Rightarrow> string \<Rightarrow> string \<Rightarrow> (string \<times> json) list" where
  "catalog_attrs cat tenant item =
     (let row = find (is_catalog tenant item) cat;
          col = (\<lambda>f. case row of None \<Rightarrow> JNull | Some r \<Rightarrow> (case f r of None \<Rightarrow> JNull | Some s \<Rightarrow> JStr s))
      in [(''catalog_item_id'', JStr item), (''category'', col cr_category), (''owner_group'', col cr_owner_group)])"

definition gate_decision :: "desk_env \<Rightarrow> fulfil_db \<Rightarrow> string \<Rightarrow> string \<Rightarrow> string \<Rightarrow> fulfil_error + approval_decision" where
  "gate_decision env db tenant requester item =
     resolve_approvers (de_other env) \<lparr>ro_groups = de_groups env, ro_users = db_users db, ro_collate = de_collate env\<rparr>
       (de_policies env) (catalog_attrs (de_catalog env) tenant item) requester tenant"

definition mark_pending :: "string \<Rightarrow> string \<Rightarrow> string \<Rightarrow> fulfil_db \<Rightarrow> fulfil_db" where
  "mark_pending tenant ritm request db =
     set_request_lifecycle (set_ritm_approval_state db tenant ritm G_REQUESTED) tenant request ''pending_approval'' ''approval''"

definition apply_approval_gate ::
  "desk_env \<Rightarrow> generated \<Rightarrow> string \<Rightarrow> string \<Rightarrow> string \<Rightarrow> string \<Rightarrow> string \<Rightarrow> fulfil_db \<Rightarrow> fulfil_error + reply option \<times> fulfil_db" where
  "apply_approval_gate env gen tenant requester item ritm request db =
     sbind (gate_decision env db tenant requester item) (\<lambda>d.
       if \<not> ad_required d then Inr (None, db)
       else if \<not> resolved d
       then Inr (Some (ok_reply request (Some ritm) (Some ''approval_unresolved'') (Some False)), mark_pending tenant ritm request db)
       else sbind (sfold (park_approver tenant ritm d) db (map (\<lambda>(i, a). (gn_approval gen i, a)) (enumerate 0 (ad_approvers d)))) (\<lambda>db'.
         Inr (Some (ok_reply request (Some ritm) (Some ''pending_approval'') (Some False)), mark_pending tenant ritm request db')))"

section \<open>Dispatch\<close>

definition dispatch_execute :: "(string \<Rightarrow> string \<Rightarrow> bool) option \<Rightarrow> string \<Rightarrow> string \<Rightarrow> desk \<Rightarrow> bool \<times> desk" where
  "dispatch_execute nats tenant ritm s =
     (case nats of
        None \<Rightarrow> (False, s)
      | Some accepts \<Rightarrow> if ritm \<noteq> [] \<and> accepts tenant ritm then (True, fst s, snd s @ [(tenant, ritm)]) else (False, s))"

definition release_fulfilment :: "desk_env \<Rightarrow> string \<Rightarrow> string \<Rightarrow> desk \<Rightarrow> bool \<times> desk" where
  "release_fulfilment env tenant ritm s = dispatch_execute (de_nats env) tenant ritm s"

definition dispatch_now :: "desk_env \<Rightarrow> intake \<Rightarrow> string \<Rightarrow> string \<Rightarrow> desk \<Rightarrow> (fulfil_error + reply) \<times> desk" where
  "dispatch_now env it request ritm s =
     (let (sent, s') = dispatch_execute (de_nats env) (in_tenant it) ritm s
      in (Inr (ok_reply request (Some ritm) None (Some sent)), s'))"

definition gate_and_dispatch ::
  "desk_env \<Rightarrow> generated \<Rightarrow> intake \<Rightarrow> string \<Rightarrow> desk \<Rightarrow> (fulfil_error + reply) \<times> desk" where
  "gate_and_dispatch env gen it ritm s =
     (let request = gn_request gen in
      if approval_enabled (de_getenv env) \<and> ritm \<noteq> [] then
        (case apply_approval_gate env gen (in_tenant it) (in_requested_for it) (in_catalog it) ritm request (fst s) of
           Inl e \<Rightarrow> (Inr (ok_reply request (Some ritm) (Some ''approval_error'') (Some False)), s)
         | Inr (Some r, db) \<Rightarrow> (Inr r, db, snd s)
         | Inr (None, db) \<Rightarrow> dispatch_now env it request ritm (db, snd s))
      else dispatch_now env it request ritm s)"

fun fulfil_failed :: "string \<Rightarrow> fulfil_error \<Rightarrow> fulfil_error + reply" where
  "fulfil_failed request (DuplicateRequestError r) = Inr ((failed_reply ''UC08_DUPLICATE_REQUEST'')\<lparr>rp_request_id := Some request\<rparr>)"
| "fulfil_failed request (CatalogItemNotFoundError i) = Inr (failed_reply ''UC08_CATALOG_ITEM_NOT_FOUND'')"
| "fulfil_failed request e = Inl e"

definition create_service_request ::
  "desk_env \<Rightarrow> generated \<Rightarrow> json \<Rightarrow> json \<Rightarrow> desk \<Rightarrow> (fulfil_error + reply) \<times> desk" where
  "create_service_request env gen args ctx s =
     (case parse_intake (de_other env) args ctx of
        Inl r \<Rightarrow> (r, s)
      | Inr it \<Rightarrow>
          (case open_request env gen it (fst s) of
             Inl r \<Rightarrow> (r, s)
           | Inr db1 \<Rightarrow>
               (case build_request it (gn_request gen) of
                  None \<Rightarrow> (Inr (failed_reply ''UC08_BAD_REQUEST''), db1, snd s)
                | Some req \<Rightarrow>
                    (case fulfill_request (de_rich env) (de_other env) (de_catalog env) (gn_ids gen) (gn_now gen) (Some (in_user it)) req db1 of
                       Inl e \<Rightarrow> (fulfil_failed (gn_request gen) e, db1, snd s)
                     | Inr (db2, oc) \<Rightarrow> gate_and_dispatch env gen it (oc_ritm_id oc) (db2, snd s)))))"

section \<open>The other tools\<close>

definition update_service_request :: "desk_env \<Rightarrow> json \<Rightarrow> json \<Rightarrow> fulfil_db \<Rightarrow> (fulfil_error + reply) \<times> fulfil_db" where
  "update_service_request env args ctx db =
     (case sbind (principal_from_context (de_other env) ctx) (\<lambda>(tenant, _).
             map_sum id (Pair tenant) (as_dict (py_or (jget args ''fields'') (JObj [])))) of
        Inl e \<Rightarrow> (Inl e, db)
      | Inr (tenant, fs) \<Rightarrow>
          let rid = text_of (de_other env) (jget args ''request_id'') in
          if rid = [] \<or> fs = [] then (Inr (failed_reply ''UC08_BAD_REQUEST''), db)
          else (case update_request_fields db tenant rid fs of
                  Inl (RequestNotFoundError _) \<Rightarrow> (Inr (failed_reply ''UC08_REQUEST_NOT_FOUND''), db)
                | Inl e \<Rightarrow> (Inl e, db)
                | Inr (db', r) \<Rightarrow> (Inr (ok_reply rid None (Some (sr_status r)) None), db')))"

text \<open>
  The portal entry: an existing request, any trigger, no gate and no dispatch. Bad arguments are a reply, success is
  the outcome itself.
\<close>

definition TRIGGER_TYPES :: "string list" where
  "TRIGGER_TYPES = [''portal'', ''chat'', ''auto_retry'', ''cancel'', ''rollback'']"

definition tool_request :: "(json \<Rightarrow> string) \<Rightarrow> string \<Rightarrow> string \<Rightarrow> json \<Rightarrow> json \<Rightarrow> fulfillment_request option" where
  "tool_request other tenant user args ctx =
     (case (as_dict (py_or (jget args ''variables'') (JObj [])), as_int (py_or (jget args ''quantity'') (JInt 1)),
            text_arg (py_or (jget ctx ''trigger_type'') (JStr ''chat''))) of
        (Inr vs, Inr n, Some t) \<Rightarrow>
          if t \<notin> set TRIGGER_TYPES then None
          else map_option (fr_trigger_type_update (\<lambda>_. t)) (build_request
            \<lparr>in_tenant = tenant, in_user = user, in_catalog = text_of other (jget args ''catalog_item_id''), in_fields = vs,
             in_requested_for = strip (json_str other (py_or (jget args ''requested_for'') (JStr user))),
             in_quantity = n, in_key = jget args ''idempotency_key''\<rparr> (text_of other (jget args ''request_id'')))
      | _ \<Rightarrow> None)"

definition fulfill_request_tool ::
  "desk_env \<Rightarrow> generated \<Rightarrow> json \<Rightarrow> json \<Rightarrow> fulfil_db \<Rightarrow> (fulfil_error + reply + outcome) \<times> fulfil_db" where
  "fulfill_request_tool env gen args ctx db =
     (case principal_from_context (de_other env) ctx of
        Inl e \<Rightarrow> (Inl e, db)
      | Inr (tenant, user, _) \<Rightarrow>
          (case tool_request (de_other env) tenant user args ctx of
             None \<Rightarrow> (Inr (Inl (failed_reply ''UC08_BAD_REQUEST'')), db)
           | Some req \<Rightarrow>
               (case fulfill_request (de_rich env) (de_other env) (de_catalog env) (gn_ids gen) (gn_now gen) (Some user) req db of
                  Inl (RequestNotFoundError _) \<Rightarrow> (Inr (Inl (failed_reply ''UC08_REQUEST_NOT_FOUND'')), db)
                | Inl (DuplicateRequestError _) \<Rightarrow> (Inr (Inl (failed_reply ''UC08_DUPLICATE_REQUEST'')), db)
                | Inl (CatalogItemNotFoundError _) \<Rightarrow> (Inr (Inl (failed_reply ''UC08_CATALOG_ITEM_NOT_FOUND'')), db)
                | Inl e \<Rightarrow> (Inl e, db)
                | Inr (db', oc) \<Rightarrow> (Inr (Inr oc), db'))))"

definition check_request_duplicate :: "(json \<Rightarrow> string) \<Rightarrow> int \<Rightarrow> json \<Rightarrow> json \<Rightarrow> fulfil_db \<Rightarrow> fulfil_error + reply + string option" where
  "check_request_duplicate other now args ctx db =
     sbind (principal_from_context other ctx) (\<lambda>(tenant, _).
     sbind (as_int (py_or (jget args ''lookback_days'') (JInt 30))) (\<lambda>days.
       let u = text_of other (jget args ''requested_for_user_id''); item = text_of other (jget args ''catalog_item_id'') in
       if u = [] \<or> item = [] then Inr (Inl (failed_reply ''UC08_BAD_REQUEST''))
       else Inr (Inr (find_open_duplicate db now tenant u item days))))"

text \<open>The form of a catalog item: its fields and the names of the required ones.\<close>

fun required_names :: "json list \<Rightarrow> fulfil_error + json list" where
  "required_names [] = Inr []"
| "required_names (f # rest) =
     sbind (dget f ''required'') (\<lambda>req. sbind (required_names rest) (\<lambda>ns.
       Inr (if truthy req \<and> truthy (jget f ''field_name'') then jget f ''field_name'' # ns else ns)))"

definition get_service_request_fields :: "desk_env \<Rightarrow> json \<Rightarrow> json \<Rightarrow> fulfil_error + reply + json list \<times> json list" where
  "get_service_request_fields env args ctx =
     sbind (principal_from_context (de_other env) ctx) (\<lambda>(tenant, _).
       let item = text_of (de_other env) (py_or (jget args ''catalog_id'') (jget args ''catalog_item_id'')) in
       if item = [] then Inr (Inl (failed_reply ''UC08_BAD_REQUEST''))
       else (case load_request_fields (de_catalog env) tenant item of
               Inl (CatalogItemNotFoundError _) \<Rightarrow> Inr (Inl (failed_reply ''UC08_CATALOG_ITEM_NOT_FOUND''))
             | Inl e \<Rightarrow> Inl e
             | Inr fs \<Rightarrow> sbind (required_names fs) (\<lambda>ns. Inr (Inr (fs, ns)))))"

text \<open>The endpoint: \<open>Inl\<close> is the HTTP 400 of a refused decision.\<close>

definition decide :: "desk_env \<Rightarrow> fulfil_db \<Rightarrow> string \<Rightarrow> string \<Rightarrow> string \<Rightarrow> string \<Rightarrow> string option \<Rightarrow> desk
    \<Rightarrow> (nat + decision_outcome \<times> bool) \<times> desk" where
  "decide env seen tenant aid decision decided_by comment s =
     (let (r, db) = decide_approval seen (fst s) tenant aid decision decided_by comment in
      if \<not> do_ok r then (Inl 400, db, snd s)
      else (case do_ritm_id r of
              Some ritm \<Rightarrow> if do_should_dispatch r \<and> ritm \<noteq> []
                then (let (sent, s') = release_fulfilment env tenant ritm (db, snd s) in (Inr (r, sent), s'))
                else (Inr (r, False), db, snd s)
            | None \<Rightarrow> (Inr (r, False), db, snd s)))"

end
