(* ===== verification/GateCorrectness.thy ===== *)
theory GateCorrectness
  imports ServiceRequest
begin

text \<open>
  The approval gate as a system: requests are opened and approvals decided in any order, by any number of clients,
  each decision having read the database at any earlier moment. A fulfilment is released at most once, and one that
  was parked is released only by the person the approval was assigned to.
\<close>

lemma image_update_where: "set (update_where p f rs) = (\<lambda>r. if p r then f r else r) ` set rs"
  by (auto simp: update_where_def)

section \<open>The invariant\<close>

definition ritm_key :: "ritm_row \<Rightarrow> string \<times> string" where
  "ritm_key r = (ri_tenant r, ri_id r)"

definition ritm_core :: "ritm_row \<Rightarrow> (string \<times> string) \<times> ritm_state" where
  "ritm_core r = (ritm_key r, ri_state r)"

definition approval_key :: "approval_row \<Rightarrow> string \<times> string" where
  "approval_key a = (ap_tenant a, ap_id a)"

text \<open>The request item an approval row belongs to.\<close>

definition target :: "approval_row \<Rightarrow> string \<times> string" where
  "target a = (ap_tenant a, ap_ritm a)"

definition parked :: "fulfil_db \<Rightarrow> string \<times> string \<Rightarrow> bool" where
  "parked db k \<longleftrightarrow> (\<exists>a \<in> set (db_approvals db). target a = k)"

text \<open>Approved, on the word of an assigned approver.\<close>

definition authorised :: "fulfil_db \<Rightarrow> string \<times> string \<Rightarrow> bool" where
  "authorised db k \<longleftrightarrow> (k, R_APPROVED) \<in> ritm_core ` set (db_ritms db)
     \<and> (\<exists>a \<in> set (db_approvals db). target a = k \<and> ap_state a = A_APPROVED \<and> ap_decided_by a = Some (ap_requested_from a))"

definition gate_ok :: "desk \<Rightarrow> bool" where
  "gate_ok s \<longleftrightarrow> distinct (map ritm_key (db_ritms (fst s))) \<and> distinct (map approval_key (db_approvals (fst s)))
     \<and> target ` set (db_approvals (fst s)) \<subseteq> ritm_key ` set (db_ritms (fst s))
     \<and> distinct (snd s) \<and> set (snd s) \<subseteq> ritm_key ` set (db_ritms (fst s))
     \<and> (\<forall>k \<in> set (snd s). parked (fst s) k \<longrightarrow> authorised (fst s) k)"

text \<open>What later states remember of an approval row: its key, its target and its assignee.\<close>

definition remembers :: "fulfil_db \<Rightarrow> fulfil_db \<Rightarrow> bool" where
  "remembers db seen \<longleftrightarrow> (\<forall>a \<in> set (db_approvals seen). \<exists>b \<in> set (db_approvals db).
     approval_key b = approval_key a \<and> target b = target a \<and> ap_requested_from b = ap_requested_from a)"

lemma remembers_refl [simp]: "remembers db db"
  by (auto simp: remembers_def)

lemma remembers_same: "db_approvals db' = db_approvals db \<Longrightarrow> remembers db' db"
  by (auto simp: remembers_def)

lemma remembers_trans: "remembers db2 db1 \<Longrightarrow> remembers db1 db0 \<Longrightarrow> remembers db2 db0"
  unfolding remembers_def by metis

lemma gate_ok_same:
  assumes "gate_ok s" "map ritm_core (db_ritms (fst s')) = map ritm_core (db_ritms (fst s))"
    "db_approvals (fst s') = db_approvals (fst s)" "snd s' = snd s"
  shows "gate_ok s'"
proof -
  have keys: "map ritm_key (db_ritms (fst s')) = map ritm_key (db_ritms (fst s))"
    using arg_cong [OF assms(2), of "map fst"] by (simp add: ritm_core_def comp_def)
  have "ritm_core ` set (db_ritms (fst s')) = ritm_core ` set (db_ritms (fst s))"
    using arg_cong [OF assms(2), of set] by simp
  then have "authorised (fst s') k \<longleftrightarrow> authorised (fst s) k" "parked (fst s') k \<longleftrightarrow> parked (fst s) k" for k
    by (simp_all add: authorised_def parked_def assms(3))
  moreover have "ritm_key ` set (db_ritms (fst s')) = ritm_key ` set (db_ritms (fst s))"
    using arg_cong [OF keys, of set] by simp
  ultimately show ?thesis using assms(1) by (simp add: gate_ok_def keys assms(3,4))
qed


section \<open>Opening requests\<close>

lemma insert_request_frame:
  "insert_request db i t rf rb form = Inr (db', x) \<Longrightarrow> db_ritms db' = db_ritms db \<and> db_approvals db' = db_approvals db"
  by (auto simp: insert_request_def split: if_splits)

lemma open_request_frame:
  "open_request env gen it db = Inr db' \<Longrightarrow> db_ritms db' = db_ritms db \<and> db_approvals db' = db_approvals db"
  by (auto simp: open_request_def dest: insert_request_frame split: sum.splits fulfil_error.splits prod.splits)

lemma insert_tasks_approvals [simp]: "db_approvals (fst (insert_tasks db ids tenant ritm items)) = db_approvals db"
proof -
  have "db_approvals (fst (foldl insert_task dn ts)) = db_approvals (fst dn)" for dn ts
    by (induction ts arbitrary: dn) (auto simp: insert_task_def)
  then show ?thesis by (simp add: insert_tasks_def)
qed

lemma persist_plan_frame:
  "db_ritms (fst (persist_plan ni now actor req ct items dr)) = db_ritms (fst dr)"
  "db_approvals (fst (persist_plan ni now actor req ct items dr)) = db_approvals (fst dr)"
  "oc_ritm_id (snd (persist_plan ni now actor req ct items dr)) = snd dr"
  by (simp_all add: persist_plan_def insert_fulfillment_run_def created_outcome_def Let_def)

text \<open>Without an idempotency key, a request adds exactly one request item, under a new key.\<close>

lemma fulfill_request_new:
  assumes "fulfill_request rich other cat ni now actor req db = Inr (db', oc)" "fr_idempotency_key req = None"
  obtains r where "db_ritms db' = db_ritms db @ [r]" "db_approvals db' = db_approvals db"
    "ritm_key r = (fr_tenant_id req, oc_ritm_id oc)" "ritm_key r \<notin> ritm_key ` set (db_ritms db)"
proof -
  from assms(1) obtain ct items db1 ritm where
    ins: "insert_request_item db now (ni_ritm ni) (fr_tenant_id req) (fr_request_id req) (fr_catalog_item_id req)
        (fr_requested_for req) (fr_opened_by req) (int (length items)) (fr_idempotency_key req) = Inr (db1, ritm)"
    and rest: "persist_plan ni now actor req ct items (db1, ritm) = (db', oc)"
    by (rule fulfill_request_cases)
  from persist_plan_frame [of ni now actor req ct items "(db1, ritm)"]
  have eqs: "db_ritms db' = db_ritms db1" "db_approvals db' = db_approvals db1" "oc_ritm_id oc = ritm" by (simp_all add: rest)
  from ins assms(2) show thesis
    by (intro that [of "last (db_ritms db1)"])
       (auto simp: eqs insert_request_item_def Let_def ritm_key_def split: if_splits)
qed

text \<open>Parking writes pending rows for one request item and changes nothing else.\<close>

lemma park_approver_frame:
  assumes "park_approver tenant ritm d db ia = Inr db'"
  obtains a where "db_approvals db' = db_approvals db @ [a]" "db_ritms db' = db_ritms db" "target a = (tenant, ritm)"
    "approval_key a \<notin> approval_key ` set (db_approvals db)"
  using assms
  by (fastforce simp: park_approver_def insert_approval_def target_def approval_key_def map_sum_def split: sum.splits if_splits)

text \<open>Tables that grew by approval rows of one request item, under new keys.\<close>

definition parks :: "string \<times> string \<Rightarrow> fulfil_db \<Rightarrow> fulfil_db \<Rightarrow> bool" where
  "parks k db db' \<longleftrightarrow> map ritm_core (db_ritms db') = map ritm_core (db_ritms db)
     \<and> (\<exists>as. db_approvals db' = db_approvals db @ as \<and> target ` set as \<subseteq> {k})
     \<and> (distinct (map approval_key (db_approvals db)) \<longrightarrow> distinct (map approval_key (db_approvals db')))"

lemma parks_refl [simp]: "parks k db db"
  by (auto simp: parks_def)

lemma parks_trans: "parks k db1 db2 \<Longrightarrow> parks k db2 db3 \<Longrightarrow> parks k db1 db3"
proof -
  assume 1: "parks k db1 db2" and 2: "parks k db2 db3"
  from 1 obtain as where as: "db_approvals db2 = db_approvals db1 @ as" "target ` set as \<subseteq> {k}" by (auto simp: parks_def)
  from 2 obtain bs where bs: "db_approvals db3 = db_approvals db2 @ bs" "target ` set bs \<subseteq> {k}" by (auto simp: parks_def)
  have "db_approvals db3 = db_approvals db1 @ (as @ bs)" "target ` set (as @ bs) \<subseteq> {k}" using as bs by auto
  moreover have "map ritm_core (db_ritms db3) = map ritm_core (db_ritms db1)" using 1 2 by (simp add: parks_def)
  moreover have "distinct (map approval_key (db_approvals db1)) \<Longrightarrow> distinct (map approval_key (db_approvals db3))"
    using 1 2 by (simp add: parks_def)
  ultimately show ?thesis unfolding parks_def by blast
qed

lemma park_approver_parks: "park_approver tenant ritm d db ia = Inr db' \<Longrightarrow> parks (tenant, ritm) db db'"
  by (erule park_approver_frame) (auto simp: parks_def)

lemma park_all: "sfold (park_approver tenant ritm d) db ias = Inr db' \<Longrightarrow> parks (tenant, ritm) db db'"
  by (rule sfold_invariant [where I = "parks (tenant, ritm) db"]) (auto intro: parks_trans park_approver_parks)

lemma mark_pending_parks: "parks k db (mark_pending tenant ritm request db)"
  by (auto simp: parks_def mark_pending_def set_ritm_approval_state_def set_request_lifecycle_def
      map_update_where ritm_core_def ritm_key_def)

lemma apply_approval_gate_parks:
  assumes "apply_approval_gate env gen tenant requester item ritm request db = Inr (r, db')"
  shows "parks (tenant, ritm) db db' \<and> (r = None \<longrightarrow> db' = db)"
  using assms park_all mark_pending_parks parks_trans
  by (fastforce simp: apply_approval_gate_def split: if_splits)

lemma remembers_parks: "parks k db db' \<Longrightarrow> remembers db' db"
  by (auto simp: parks_def remembers_def)

text \<open>A step that adds one request item, parks it or not, and dispatches it only when it is not parked.\<close>

lemma gate_ok_create:
  assumes ok: "gate_ok (db, ev)" and new: "ritm_key r \<notin> ritm_key ` set (db_ritms db)"
    and db1: "db_ritms db1 = db_ritms db @ [r]" "db_approvals db1 = db_approvals db"
    and parks: "parks (ritm_key r) db1 db2" and ev: "ev' = ev \<or> ev' = ev @ [ritm_key r] \<and> db2 = db1"
  shows "gate_ok (db2, ev')"
proof -
  from parks obtain as where as: "map ritm_core (db_ritms db2) = map ritm_core (db_ritms db @ [r])"
    "db_approvals db2 = db_approvals db @ as" "target ` set as \<subseteq> {ritm_key r}"
    "distinct (map approval_key (db_approvals db2))"
    using ok by (auto simp: parks_def db1 gate_ok_def)
  have keys: "map ritm_key (db_ritms db2) = map ritm_key (db_ritms db) @ [ritm_key r]"
    using arg_cong [OF as(1), of "map fst"] by (simp add: ritm_core_def comp_def)
  have core: "ritm_core ` set (db_ritms db2) = insert (ritm_core r) (ritm_core ` set (db_ritms db))"
    using arg_cong [OF as(1), of set] by simp
  have kset: "ritm_key ` set (db_ritms db2) = insert (ritm_key r) (ritm_key ` set (db_ritms db))"
    using arg_cong [OF keys, of set] by simp
  have old: "parked db2 k \<longrightarrow> authorised db2 k" if "k \<in> set ev" for k
  proof
    assume "parked db2 k"
    moreover have "k \<noteq> ritm_key r" using ok that new by (auto simp: gate_ok_def)
    ultimately have "parked db k" using as(2,3) by (auto simp: parked_def)
    with ok that have "authorised db k" by (auto simp: gate_ok_def)
    then show "authorised db2 k" by (auto simp: authorised_def core as(2))
  qed
  have fresh: "\<not> parked db1 (ritm_key r)"
  proof
    assume "parked db1 (ritm_key r)"
    then have "ritm_key r \<in> target ` set (db_approvals db)" by (force simp: parked_def db1(2))
    with ok new show False by (auto simp: gate_ok_def)
  qed
  have "ritm_key r \<notin> set ev" using ok new by (auto simp: gate_ok_def)
  with ok new as kset keys ev old fresh show ?thesis by (auto simp: gate_ok_def)
qed

lemma dispatch_execute_cases:
  assumes "dispatch_execute nats tenant ritm s = (b, s')"
  shows "s' = s \<or> s' = (fst s, snd s @ [(tenant, ritm)])"
  using assms by (auto simp: dispatch_execute_def split: option.splits if_splits)

lemma gate_and_dispatch_cases:
  assumes "gate_and_dispatch env gen it ritm s = (r, s')"
  shows "parks (in_tenant it, ritm) (fst s) (fst s')
    \<and> (snd s' = snd s \<or> snd s' = snd s @ [(in_tenant it, ritm)] \<and> fst s' = fst s)"
proof -
  have d: "fst s2 = fst s1 \<and> (snd s2 = snd s1 \<or> snd s2 = snd s1 @ [(in_tenant it, ritm)])"
    if "dispatch_now env it request ritm s1 = (r, s2)" for request s1 s2
    using that dispatch_execute_cases [of "de_nats env" "in_tenant it" ritm s1] by (auto simp: dispatch_now_def split: prod.splits)
  show ?thesis
  proof (cases "approval_enabled (de_getenv env) \<and> ritm \<noteq> []")
    case False
    with assms d [of _ s s'] show ?thesis by (auto simp: gate_and_dispatch_def Let_def)
  next
    case True
    show ?thesis
    proof (cases "apply_approval_gate env gen (in_tenant it) (in_requested_for it) (in_catalog it) ritm (gn_request gen) (fst s)")
      case (Inl e)
      with assms True show ?thesis by (auto simp: gate_and_dispatch_def Let_def)
    next
      case (Inr x)
      obtain ro db where x: "x = (ro, db)" by (cases x)
      from apply_approval_gate_parks [OF Inr [unfolded x]] assms True Inr x d [of _ "(db, snd s)" s']
      show ?thesis by (cases ro) (auto simp: gate_and_dispatch_def Let_def)
    qed
  qed
qed

lemma build_request_Some:
  "build_request it request = Some req \<Longrightarrow> fr_tenant_id req = in_tenant it \<and> opt_key (in_key it) = Some (fr_idempotency_key req)"
  by (auto simp: build_request_def split: option.splits if_splits)

lemma parse_intake_key: "parse_intake other args ctx = Inr it \<Longrightarrow> in_key it = jget args ''idempotency_key''"
  by (auto simp: parse_intake_def Let_def split: if_splits)

lemma create_keeps:
  assumes run: "create_service_request env gen args ctx s = (r, s')" and key: "jget args ''idempotency_key'' = JNull"
    and ok: "gate_ok s"
  shows "gate_ok s' \<and> remembers (fst s') (fst s)"
proof (cases "parse_intake (de_other env) args ctx")
  case (Inl e)
  with run ok show ?thesis by (auto simp: create_service_request_def)
next
  case it: (Inr it)
  show ?thesis
  proof (cases "open_request env gen it (fst s)")
    case (Inl e)
    with run it ok show ?thesis by (auto simp: create_service_request_def)
  next
    case db1: (Inr db1)
    note frame = open_request_frame [OF db1]
    have ok1: "gate_ok (db1, snd s)" by (rule gate_ok_same [OF ok]) (simp_all add: frame)
    have rem1: "remembers db1 (fst s)" by (rule remembers_same) (simp add: frame)
    show ?thesis
    proof (cases "build_request it (gn_request gen)")
      case None
      with run it db1 ok1 rem1 show ?thesis by (auto simp: create_service_request_def)
    next
      case req: (Some req)
      show ?thesis
      proof (cases "fulfill_request (de_rich env) (de_other env) (de_catalog env) (gn_ids gen) (gn_now gen) (Some (in_user it)) req db1")
        case (Inl e)
        with run it db1 req ok1 rem1 show ?thesis by (auto simp: create_service_request_def)
      next
        case (Inr x)
        obtain db2 oc where x: "x = (db2, oc)" by (cases x)
        from build_request_Some [OF req] parse_intake_key [OF it] key
        have k: "fr_idempotency_key req = None" "fr_tenant_id req = in_tenant it" by auto
        from fulfill_request_new [OF Inr [unfolded x] k(1)] obtain row where
          row: "db_ritms db2 = db_ritms db1 @ [row]" "db_approvals db2 = db_approvals db1"
            "ritm_key row = (in_tenant it, oc_ritm_id oc)" "ritm_key row \<notin> ritm_key ` set (db_ritms db1)"
          by (metis k(2))
        from run it db1 req Inr x have "gate_and_dispatch env gen it (oc_ritm_id oc) (db2, snd s) = (r, s')"
          by (auto simp: create_service_request_def)
        note g = gate_and_dispatch_cases [OF this, folded row(3)]
        have "gate_ok (fst s', snd s')" by (rule gate_ok_create [OF ok1 row(4,1,2)]) (use g in auto)
        moreover have "remembers (fst s') db2" using remembers_parks [of "ritm_key row"] g by auto
        moreover have "remembers db2 db1" by (rule remembers_same) (simp add: row(2))
        ultimately show ?thesis using rem1 by (auto intro: remembers_trans)
      qed
    qed
  qed
qed

section \<open>Decisions\<close>

text \<open>One decision, seen on the tables: the rows it changes.\<close>

definition decided :: "string \<Rightarrow> string \<Rightarrow> approval_row \<Rightarrow> bool" where
  "decided tenant aid a \<longleftrightarrow> is_approval tenant aid a \<and> ap_state a = A_PENDING"

lemma apply_approval_outcome_approvals: "apply_approval_outcome db tenant ritm b = (q, db') \<Longrightarrow> db_approvals db' = db_approvals db"
  by (auto simp: apply_approval_outcome_def Let_def)

lemma set_request_lifecycle_frame [simp]:
  "db_approvals (set_request_lifecycle db t i x y) = db_approvals db" "db_ritms (set_request_lifecycle db t i x y) = db_ritms db"
  by (simp_all add: set_request_lifecycle_def)

definition decide_row :: "string \<Rightarrow> string \<Rightarrow> bool \<Rightarrow> string \<Rightarrow> string option \<Rightarrow> approval_row \<Rightarrow> approval_row" where
  "decide_row tenant aid approved who comment a =
     (if decided tenant aid a then a\<lparr>ap_state := if approved then A_APPROVED else A_REJECTED,
        ap_decided_by := Some who, ap_comment := comment, ap_version := ap_version a + 1\<rparr> else a)"

definition withdraw_row :: "string \<Rightarrow> string \<Rightarrow> string \<Rightarrow> approval_row \<Rightarrow> approval_row" where
  "withdraw_row tenant ritm aid a =
     (if ap_tenant a = tenant \<and> ap_ritm a = ritm \<and> ap_state a = A_PENDING \<and> ap_id a \<noteq> aid
      then a\<lparr>ap_state := A_WITHDRAWN, ap_version := ap_version a + 1\<rparr> else a)"

lemma update_approval_decision_rows:
  "update_approval_decision db tenant aid (if approved then A_APPROVED else A_REJECTED) who comment = (q, db1)
   \<Longrightarrow> db_approvals db1 = map (decide_row tenant aid approved who comment) (db_approvals db) \<and> db_ritms db1 = db_ritms db
     \<and> q = map_option ap_ritm (find (decided tenant aid) (db_approvals db))"
  by (auto simp: update_approval_decision_def update_where_def decide_row_def decided_def [abs_def] Let_def)

lemma withdraw_rows:
  "db_approvals (withdraw_other_pending_approvals db tenant ritm aid) = map (withdraw_row tenant ritm aid) (db_approvals db)"
  "db_ritms (withdraw_other_pending_approvals db tenant ritm aid) = db_ritms db"
  by (simp_all add: withdraw_other_pending_approvals_def update_where_def withdraw_row_def)

lemmas row_defs = approval_key_def target_def decided_def is_approval_def decide_row_def withdraw_row_def

lemma decide_commit_approvals:
  assumes "decide_commit db tenant aid decision who comment a0 = (r, db')"
  obtains f where "db_approvals db' = map f (db_approvals db)"
    "\<And>a. approval_key (f a) = approval_key a \<and> target (f a) = target a \<and> ap_requested_from (f a) = ap_requested_from a"
    "\<And>a. ap_state a \<noteq> A_PENDING \<Longrightarrow> f a = a"
    "\<And>a. decided tenant aid a \<Longrightarrow> ap_state (f a) = (if decision = ''approved'' then A_APPROVED else A_REJECTED) \<and> ap_decided_by (f a) = Some who"
proof -
  define ok where "ok = (decision = ''approved'')"
  let ?d = "decide_row tenant aid ok who comment"
  obtain q db1 where u: "update_approval_decision db tenant aid (if ok then A_APPROVED else A_REJECTED) who comment = (q, db1)"
    by fastforce
  note u' = update_approval_decision_rows [OF u]
  have "\<exists>f \<in> insert ?d (range (\<lambda>ritm. withdraw_row tenant ritm aid \<circ> ?d)). db_approvals db' = map f (db_approvals db)"
  proof (cases q)
    case None
    with assms u u' show ?thesis by (auto simp: decide_commit_def ok_def)
  next
    case (Some ritm)
    with assms u u' show ?thesis
      by (cases ok) (auto simp: decide_commit_def ok_def [symmetric] withdraw_rows split: prod.splits option.splits
          dest!: apply_approval_outcome_approvals)
  qed
  then obtain f where f: "f \<in> insert ?d (range (\<lambda>ritm. withdraw_row tenant ritm aid \<circ> ?d))" "db_approvals db' = map f (db_approvals db)" by blast
  from f(2) show thesis by (rule that) (use f(1) in \<open>auto simp: row_defs ok_def\<close>)
qed

lemma apply_approval_outcome_ritms:
  assumes "apply_approval_outcome db tenant ritm approved = (q, db')"
  shows "map ritm_key (db_ritms db') = map ritm_key (db_ritms db)"
    "(k, R_APPROVED) \<in> ritm_core ` set (db_ritms db) \<Longrightarrow> (k, R_APPROVED) \<in> ritm_core ` set (db_ritms db')"
    "q \<noteq> None \<Longrightarrow> ((tenant, ritm), R_REQUESTED) \<in> ritm_core ` set (db_ritms db)
       \<and> (approved \<longrightarrow> ((tenant, ritm), R_APPROVED) \<in> ritm_core ` set (db_ritms db'))"
proof -
  let ?p = "\<lambda>r. is_ritm tenant ritm r \<and> ri_state r = R_REQUESTED"
  let ?f = "\<lambda>r. r\<lparr>ri_state := if approved then R_APPROVED else R_REJECTED,
      ri_approval_state := Some (if approved then G_APPROVED else G_REJECTED), ri_version := ri_version r + 1\<rparr>"
  from assms have q: "q = map_option ri_request_id (find ?p (db_ritms db))" and rows: "db_ritms db' = update_where ?p ?f (db_ritms db)"
    by (auto simp: apply_approval_outcome_def Let_def)
  show "map ritm_key (db_ritms db') = map ritm_key (db_ritms db)" by (simp add: rows map_update_where ritm_key_def)
  show "(k, R_APPROVED) \<in> ritm_core ` set (db_ritms db')" if "(k, R_APPROVED) \<in> ritm_core ` set (db_ritms db)"
  proof -
    from that obtain r where "r \<in> set (db_ritms db)" "ritm_core r = (k, R_APPROVED)" by auto
    then show ?thesis unfolding rows image_update_where image_image by (intro image_eqI [of _ _ r]) (auto simp: ritm_core_def)
  qed
  assume "q \<noteq> None"
  then obtain r where r: "r \<in> set (db_ritms db)" "?p r" by (auto simp: q dest: find_SomeD)
  then have c: "ritm_core r = ((tenant, ritm), R_REQUESTED)" by (auto simp: ritm_core_def ritm_key_def is_ritm_def)
  have "ritm_core (?f r) = ((tenant, ritm), R_APPROVED)" if approved
    using r that by (auto simp: ritm_core_def ritm_key_def is_ritm_def)
  then show "((tenant, ritm), R_REQUESTED) \<in> ritm_core ` set (db_ritms db)
       \<and> (approved \<longrightarrow> ((tenant, ritm), R_APPROVED) \<in> ritm_core ` set (db_ritms db'))"
    unfolding rows image_update_where image_image using r c by (auto intro!: image_eqI [of _ _ r])
qed

lemma decide_commit_ritms:
  assumes "decide_commit db tenant aid decision who comment a0 = (r, db')"
  shows "map ritm_key (db_ritms db') = map ritm_key (db_ritms db)"
    "(k, R_APPROVED) \<in> ritm_core ` set (db_ritms db) \<Longrightarrow> (k, R_APPROVED) \<in> ritm_core ` set (db_ritms db')"
    "do_should_dispatch r \<Longrightarrow> \<exists>a \<in> set (db_approvals db). decided tenant aid a \<and> do_ritm_id r = Some (ap_ritm a) \<and> decision = ''approved''
       \<and> (target a, R_REQUESTED) \<in> ritm_core ` set (db_ritms db) \<and> (target a, R_APPROVED) \<in> ritm_core ` set (db_ritms db')"
proof -
  define ok where "ok = (decision = ''approved'')"
  obtain q db1 where u: "update_approval_decision db tenant aid (if ok then A_APPROVED else A_REJECTED) who comment = (q, db1)" by fastforce
  note u' = update_approval_decision_rows [OF u]
  have "db_ritms db' = db_ritms db \<and> \<not> do_should_dispatch r
     \<or> (\<exists>a db2 db3 q2. a \<in> set (db_approvals db) \<and> decided tenant aid a \<and> do_ritm_id r = Some (ap_ritm a)
          \<and> db_ritms db2 = db_ritms db \<and> apply_approval_outcome db2 tenant (ap_ritm a) ok = (q2, db3)
          \<and> db_ritms db' = db_ritms db3 \<and> (do_should_dispatch r \<longleftrightarrow> ok \<and> q2 \<noteq> None))"
  proof (cases q)
    case None
    with assms u u' show ?thesis by (auto simp: decide_commit_def ok_def no_op_def)
  next
    case (Some ritm)
    with u' obtain a where a: "a \<in> set (db_approvals db)" "decided tenant aid a" "ritm = ap_ritm a"
      by (cases "find (decided tenant aid) (db_approvals db)") (auto dest: find_SomeD)
    let ?db2 = "if ok then withdraw_other_pending_approvals db1 tenant ritm aid else db1"
    obtain q2 db3 where o: "apply_approval_outcome ?db2 tenant ritm ok = (q2, db3)" by fastforce
    have "db_ritms ?db2 = db_ritms db" using u' by (simp add: withdraw_rows)
    moreover from assms u Some o
    have "db_ritms db' = db_ritms db3 \<and> do_ritm_id r = Some ritm \<and> (do_should_dispatch r \<longleftrightarrow> ok \<and> q2 \<noteq> None)"
      unfolding decide_commit_def ok_def [symmetric] by (auto simp: Let_def split: option.splits)
    ultimately show ?thesis using a o by blast
  qed
  note cases = this
  show "map ritm_key (db_ritms db') = map ritm_key (db_ritms db)"
    using cases apply_approval_outcome_ritms(1) by metis
  show "(k, R_APPROVED) \<in> ritm_core ` set (db_ritms db) \<Longrightarrow> (k, R_APPROVED) \<in> ritm_core ` set (db_ritms db')"
    using cases apply_approval_outcome_ritms(2) by metis
  assume "do_should_dispatch r"
  with cases obtain a db2 db3 q2 where a: "a \<in> set (db_approvals db)" "decided tenant aid a" "do_ritm_id r = Some (ap_ritm a)"
    "db_ritms db2 = db_ritms db" "apply_approval_outcome db2 tenant (ap_ritm a) ok = (q2, db3)" "db_ritms db' = db_ritms db3" "ok" "q2 \<noteq> None"
    by blast
  have "target a = (tenant, ap_ritm a)" using a(2) by (auto simp: row_defs)
  with a apply_approval_outcome_ritms(3) [OF a(5,8)] show "\<exists>a \<in> set (db_approvals db). decided tenant aid a \<and> do_ritm_id r = Some (ap_ritm a)
      \<and> decision = ''approved'' \<and> (target a, R_REQUESTED) \<in> ritm_core ` set (db_ritms db) \<and> (target a, R_APPROVED) \<in> ritm_core ` set (db_ritms db')"
    by (auto simp: ok_def)
qed

section \<open>The system\<close>

text \<open>
  A state is the desk and the databases it has had. A request is opened without an idempotency key (the tool's declared
  parameters have none); a decision runs on what it read at any moment so far.
\<close>

inductive gate_step :: "desk \<times> fulfil_db list \<Rightarrow> desk \<times> fulfil_db list \<Rightarrow> bool" where
  opened: "create_service_request env gen args ctx s = (r, s') \<Longrightarrow> jget args ''idempotency_key'' = JNull
    \<Longrightarrow> gate_step (s, past) (s', fst s # past)"
| ruled: "decide env seen tenant aid decision who comment s = (r, s') \<Longrightarrow> seen \<in> set (fst s # past)
    \<Longrightarrow> gate_step (s, past) (s', fst s # past)"

definition gate_inv :: "desk \<times> fulfil_db list \<Rightarrow> bool" where
  "gate_inv p \<longleftrightarrow> gate_ok (fst p) \<and> (\<forall>seen \<in> set (snd p). remembers (fst (fst p)) seen)"

lemma distinct_map_unique: "distinct (map f xs) \<Longrightarrow> x \<in> set xs \<Longrightarrow> y \<in> set xs \<Longrightarrow> f x = f y \<Longrightarrow> x = y"
  by (auto simp: distinct_map inj_on_def)

text \<open>The row a decision acts on is the one it read: same assignee, so the deciding person is the assignee.\<close>

lemma decided_by_assignee:
  assumes "decide_read seen tenant aid decision who = Inr a0" "remembers db seen"
    "distinct (map approval_key (db_approvals db))" "a \<in> set (db_approvals db)" "decided tenant aid a"
  shows "who = ap_requested_from a"
proof -
  from assms(1) have a0: "a0 \<in> set (db_approvals seen)" "approval_key a0 = (tenant, aid)" "who = ap_requested_from a0"
    by (auto simp: decide_read_def get_approval_def row_defs split: if_splits option.splits dest!: find_SomeD)
  with assms(2) obtain b where b: "b \<in> set (db_approvals db)" "approval_key b = (tenant, aid)" "ap_requested_from b = who"
    by (auto simp: remembers_def)
  with assms(3,4,5) have "a = b" by (auto intro: distinct_map_unique simp: row_defs)
  with b show ?thesis by simp
qed

lemma authorised_mono:
  assumes "decide_commit db tenant aid decision who comment a0 = (r, db')" "authorised db k"
  shows "authorised db' k"
proof -
  from assms(1) obtain f where f: "db_approvals db' = map f (db_approvals db)"
    "\<And>a. ap_state a \<noteq> A_PENDING \<Longrightarrow> f a = a" by (rule decide_commit_approvals) blast
  from assms(2) obtain a where a: "a \<in> set (db_approvals db)" "target a = k" "ap_state a = A_APPROVED" "ap_decided_by a = Some (ap_requested_from a)"
    by (auto simp: authorised_def)
  then have "a \<in> set (db_approvals db')" using f by (metis approval_state.distinct(1) image_eqI list.set_map)
  with a decide_commit_ritms(2) [OF assms(1)] assms(2) show ?thesis by (auto simp: authorised_def)
qed

lemma commit_tables:
  assumes "decide_commit db tenant aid decision who comment a0 = (r, db')"
  shows "map approval_key (db_approvals db') = map approval_key (db_approvals db)"
    "map target (db_approvals db') = map target (db_approvals db)" "remembers db' db" "parked db' k \<longleftrightarrow> parked db k"
proof -
  from assms obtain f where f: "db_approvals db' = map f (db_approvals db)"
    "\<And>a. approval_key (f a) = approval_key a \<and> target (f a) = target a \<and> ap_requested_from (f a) = ap_requested_from a"
    by (rule decide_commit_approvals) blast
  show "map approval_key (db_approvals db') = map approval_key (db_approvals db)"
    "map target (db_approvals db') = map target (db_approvals db)" by (simp_all add: f)
  show "remembers db' db" by (auto simp: remembers_def f)
  show "parked db' k \<longleftrightarrow> parked db k" by (auto simp: parked_def f)
qed

lemma commit_keeps:
  assumes ok: "gate_ok (db, ev)" and run: "decide_commit db tenant aid decision who comment a0 = (r, db')"
  shows "gate_ok (db', ev)"
proof -
  note keys = decide_commit_ritms(1) [OF run] and tables = commit_tables [OF run]
  have "ritm_key ` set (db_ritms db') = ritm_key ` set (db_ritms db)" "target ` set (db_approvals db') = target ` set (db_approvals db)"
    using arg_cong [OF keys, of set] arg_cong [OF tables(2), of set] by simp_all
  with ok authorised_mono [OF run] show ?thesis by (auto simp: gate_ok_def keys tables(1,4))
qed

text \<open>A release: the request item was not dispatched before, and it is authorised after.\<close>

lemma commit_release:
  assumes ok: "gate_ok (db, ev)" and run: "decide_commit db tenant aid decision who comment a0 = (r, db')"
    and read: "decide_read seen tenant aid decision who = Inr a0" "remembers db seen" and go: "do_should_dispatch r"
  obtains ritm where "do_ritm_id r = Some ritm" "gate_ok (db', ev @ [(tenant, ritm)])"
proof -
  from decide_commit_ritms(3) [OF run go] obtain a where a: "a \<in> set (db_approvals db)" "decided tenant aid a" "do_ritm_id r = Some (ap_ritm a)"
    "decision = ''approved''" "(target a, R_REQUESTED) \<in> ritm_core ` set (db_ritms db)" "(target a, R_APPROVED) \<in> ritm_core ` set (db_ritms db')" by blast
  have t: "target a = (tenant, ap_ritm a)" using a(2) by (auto simp: row_defs)
  have who: "who = ap_requested_from a" using decided_by_assignee [OF read _ a(1,2)] ok by (simp add: gate_ok_def)
  have new: "target a \<notin> set ev"
  proof
    assume "target a \<in> set ev"
    moreover have "parked db (target a)" using a(1) by (auto simp: parked_def)
    ultimately have "(target a, R_APPROVED) \<in> ritm_core ` set (db_ritms db)" using ok by (auto simp: gate_ok_def authorised_def)
    with a(5) obtain x y where "x \<in> set (db_ritms db)" "y \<in> set (db_ritms db)" "ritm_core x = (target a, R_APPROVED)"
      "ritm_core y = (target a, R_REQUESTED)" by (auto simp: eq_commute)
    with ok have "x = y" by (auto simp: gate_ok_def ritm_core_def intro: distinct_map_unique)
    with \<open>ritm_core x = _\<close> \<open>ritm_core y = _\<close> show False by simp
  qed
  from run obtain f where f: "db_approvals db' = map f (db_approvals db)"
    "\<And>a. approval_key (f a) = approval_key a \<and> target (f a) = target a \<and> ap_requested_from (f a) = ap_requested_from a"
    "\<And>a. decided tenant aid a \<Longrightarrow> ap_state (f a) = (if decision = ''approved'' then A_APPROVED else A_REJECTED) \<and> ap_decided_by (f a) = Some who"
    by (rule decide_commit_approvals) blast
  have "authorised db' (target a)"
    using a f who by (auto simp: authorised_def intro!: bexI [of _ a])
  moreover have "target a \<in> ritm_key ` set (db_ritms db')" using a(6) by (auto simp: ritm_core_def)
  ultimately have "gate_ok (db', ev @ [target a])" using commit_keeps [OF ok run] new by (auto simp: gate_ok_def)
  with a(3) t show thesis by (intro that) auto
qed

lemma decide_keeps:
  assumes run: "decide env seen tenant aid decision who comment s = (r, s')" and ok: "gate_ok s" and seen: "remembers (fst s) seen"
  shows "gate_ok s' \<and> remembers (fst s') (fst s)"
proof (cases "decide_read seen tenant aid decision who")
  case (Inl x)
  then have "decide_approval seen (fst s) tenant aid decision who comment = (x, fst s)" by (simp add: decide_approval_def)
  moreover have "\<not> do_should_dispatch x" using Inl by (auto simp: decide_read_def refuse_def no_op_def split: if_splits option.splits)
  ultimately have "s' = s" using run by (auto simp: decide_def split: if_splits option.splits)
  with ok show ?thesis by simp
next
  case (Inr a0)
  obtain x db where c: "decide_commit (fst s) tenant aid decision who comment a0 = (x, db)" by fastforce
  then have d: "decide_approval seen (fst s) tenant aid decision who comment = (x, db)" using Inr by (simp add: decide_approval_def)
  have ok': "gate_ok (fst s, snd s)" using ok by simp
  show ?thesis
  proof (cases "do_should_dispatch x")
    case False
    with run d have "s' = (db, snd s)" by (auto simp: decide_def split: if_splits option.splits)
    with commit_keeps [OF ok' c] commit_tables(3) [OF c] show ?thesis by simp
  next
    case True
    from commit_release [OF ok' c Inr seen True] obtain ritm where ritm: "do_ritm_id x = Some ritm" "gate_ok (db, snd s @ [(tenant, ritm)])"
      by blast
    from run d have "s' = (db, snd s) \<or> s' = snd (release_fulfilment env tenant ritm (db, snd s))"
      by (auto simp: decide_def ritm(1) split: if_splits prod.splits)
    then have "s' = (db, snd s) \<or> s' = (db, snd s @ [(tenant, ritm)])"
      by (auto simp: release_fulfilment_def dispatch_execute_def split: option.splits)
    with commit_keeps [OF ok' c] ritm(2) commit_tables(3) [OF c] show ?thesis by auto
  qed
qed

lemma gate_step_inv [invs]:
  assumes "gate_step p q" "gate_inv p"
  shows "gate_inv q"
  using assms(1)
proof (cases rule: gate_step.cases)
  case (opened env gen args ctx s r s' past)
  with assms(2) create_keeps [OF opened(3,4)] show ?thesis by (auto simp: gate_inv_def intro: remembers_trans)
next
  case (ruled env seen tenant aid decision who comment s r s' past)
  with assms(2) decide_keeps [OF ruled(3)] show ?thesis by (auto simp: gate_inv_def intro: remembers_trans)
qed

lemma gate_reach: "gate_step\<^sup>*\<^sup>* p q \<Longrightarrow> gate_inv p \<Longrightarrow> gate_inv q"
  by (induction rule: rtranclp_induct) (auto intro: gate_step_inv)

text \<open>
  C25: start from any database with distinct request items and approvals, each approval belonging to a request item, and no
  dispatched work. Whatever requests are opened without an idempotency key (the parameters the tool declares have none) and
  whatever approvals are decided, in any order and on reads as old as one likes: every request item is dispatched at most once,
  and a dispatched item that has approval rows is in state \<open>approved\<close> with an approval that was approved by the very person it
  was assigned to. In particular a rejected or undecided request is never released, and concurrent approvals of sibling rows
  release it only once. A request that carries a key can break this (\<open>idempotency_key_bypasses_gate\<close>).
\<close>

theorem released_once_by_assignee:
  assumes "gate_step\<^sup>*\<^sup>* ((db0, []), []) ((db, ev), past)"
    and "distinct (map ritm_key (db_ritms db0))" "distinct (map approval_key (db_approvals db0))"
      "target ` set (db_approvals db0) \<subseteq> ritm_key ` set (db_ritms db0)"
  shows "distinct ev \<and> (\<forall>k \<in> set ev. parked db k \<longrightarrow> authorised db k)
    \<and> (\<forall>r \<in> set (db_ritms db). ritm_key r \<in> set ev \<and> parked db (ritm_key r) \<longrightarrow> ri_state r = R_APPROVED)"
proof (intro conjI)
  have "gate_inv ((db0, []), [])" using assms(2-4) by (simp add: gate_inv_def gate_ok_def)
  from gate_reach [OF assms(1) this] have ok: "gate_ok (db, ev)" by (simp add: gate_inv_def)
  from ok show "distinct ev" "\<forall>k \<in> set ev. parked db k \<longrightarrow> authorised db k" by (simp_all add: gate_ok_def)
  show "\<forall>r \<in> set (db_ritms db). ritm_key r \<in> set ev \<and> parked db (ritm_key r) \<longrightarrow> ri_state r = R_APPROVED"
  proof (intro ballI impI, elim conjE)
    fix r assume r: "r \<in> set (db_ritms db)" "ritm_key r \<in> set ev" "parked db (ritm_key r)"
    with ok obtain x where "x \<in> set (db_ritms db)" "ritm_key x = ritm_key r" "ri_state x = R_APPROVED"
      by (auto simp: gate_ok_def authorised_def ritm_core_def)
    with r ok show "ri_state r = R_APPROVED" by (metis fst_conv gate_ok_def distinct_map_unique)
  qed
qed

section \<open>What the gate lets through\<close>

text \<open>
  C26: with the flag on, opening a request dispatches something only when the first matching rule of the tenant's matrix, for the
  catalog item that was asked for, waives approval: a matrix without a match, an unresolvable approver, and every error
  of the gate (a malformed matrix, a constraint of the approval table) hold the request.
\<close>

theorem gate_withholds:
  assumes run: "create_service_request env gen args ctx (db, ev) = (r, (db', ev'))"
    and on: "approval_enabled (de_getenv env)" and sent: "ev' \<noteq> ev"
  shows "\<exists>it p ritm. parse_intake (de_other env) args ctx = Inr it \<and> ev' = ev @ [(in_tenant it, ritm)]
    \<and> match_policy (catalog_attrs (de_catalog env) (in_tenant it) (in_catalog it)) (load_policies (de_policies env) (in_tenant it)) = Inr (Some p)
    \<and> \<not> po_required p"
proof -
  from run sent obtain it where it: "parse_intake (de_other env) args ctx = Inr it"
    by (cases "parse_intake (de_other env) args ctx") (auto simp: create_service_request_def)
  with run sent obtain db2 and oc :: outcome where g: "gate_and_dispatch env gen it (oc_ritm_id oc) (db2, ev) = (r, (db', ev'))"
    by (auto simp: create_service_request_def split: sum.splits option.splits prod.splits)
  let ?ritm = "oc_ritm_id oc"
  from gate_and_dispatch_cases [OF g] sent have ev: "ev' = ev @ [(in_tenant it, ?ritm)]" by auto
  have "?ritm \<noteq> []" using g on sent
    by (auto simp: gate_and_dispatch_def dispatch_now_def dispatch_execute_def Let_def split: if_splits option.splits sum.splits prod.splits)
  with g on sent obtain dbg where
    "apply_approval_gate env gen (in_tenant it) (in_requested_for it) (in_catalog it) ?ritm (gn_request gen) db2 = Inr (None, dbg)"
    by (auto simp: gate_and_dispatch_def Let_def split: sum.splits option.splits prod.splits)
  then obtain d where d: "gate_decision env db2 (in_tenant it) (in_requested_for it) (in_catalog it) = Inr d" "\<not> ad_required d"
    by (auto simp: apply_approval_gate_def split: if_splits)
  from d(1) [unfolded gate_decision_def] show ?thesis
  proof (cases rule: resolve_approvers_cases)
    case (self_service p)
    with it ev show ?thesis by blast
  next
    case required
    with d(2) show ?thesis by simp
  qed
qed

lemma decide_row_key [simp]: "approval_key (decide_row t i b w c a) = approval_key a"
  by (simp add: row_defs)

lemma find_unique:
  assumes "distinct (map approval_key rs)" "x \<in> set rs" "P x" "\<And>y. P y \<Longrightarrow> approval_key y = approval_key x"
  shows "find P rs = Some x"
proof (cases "find P rs")
  case None
  with assms(2,3) show ?thesis by (auto simp: find_None_iff)
next
  case (Some y)
  from find_SomeD [OF this] assms have "y = x" by (auto intro: distinct_map_unique)
  with Some show ?thesis by simp
qed

lemma find_own_row:
  "distinct (map approval_key rs) \<Longrightarrow> x \<in> set rs \<Longrightarrow> find (is_approval (ap_tenant x) (ap_id x)) rs = Some x"
  by (rule find_unique) (auto simp: row_defs)

lemma find_own_pending:
  "distinct (map approval_key rs) \<Longrightarrow> x \<in> set rs \<Longrightarrow> ap_state x = A_PENDING \<Longrightarrow> find (decided (ap_tenant x) (ap_id x)) rs = Some x"
  by (rule find_unique) (auto simp: row_defs)

text \<open>
A rejection stops the request item but leaves the other approvers' rows pending; a later approval by one of them is
accepted and reported as an approval (\<open>ok\<close>, state \<open>approved\<close>, "fulfilment will start"), although nothing is released
and the request item stays rejected.
\<close>

theorem approval_after_rejection:
  assumes keys: "distinct (map approval_key (db_approvals db))"
    and a: "a \<in> set (db_approvals db)" "b \<in> set (db_approvals db)" "approval_key a \<noteq> approval_key b"
      "ap_state a = A_PENDING" "ap_state b = A_PENDING" "target a = target b"
    and db1: "db1 = snd (decide_approval db db (ap_tenant a) (ap_id a) ''rejected'' (ap_requested_from a) c1)"
    and res: "decide_approval db1 db1 (ap_tenant b) (ap_id b) ''approved'' (ap_requested_from b) c2 = (r, db2)"
  shows "do_ok r \<and> do_state r = D_APPROVED \<and> do_ritm_id r = Some (ap_ritm b) \<and> \<not> do_should_dispatch r \<and> db_ritms db2 = db_ritms db1"
proof -
  obtain q1 dba where u1: "update_approval_decision db (ap_tenant a) (ap_id a) (if False then A_APPROVED else A_REJECTED) (ap_requested_from a) c1 = (q1, dba)"
    by fastforce
  note u1' = update_approval_decision_rows [OF u1] find_own_pending [OF keys a(1,4)]
  obtain q2 dbb where o1: "apply_approval_outcome dba (ap_tenant a) (ap_ritm a) False = (q2, dbb)" by fastforce
  have read1: "decide_read db (ap_tenant a) (ap_id a) ''rejected'' (ap_requested_from a) = Inr a"
    using a by (simp add: decide_read_def get_approval_def find_own_row [OF keys a(1)])
  have db1': "db_approvals db1 = db_approvals dba" "db_ritms db1 = db_ritms dbb"
    using apply_approval_outcome_approvals [OF o1] o1 u1 u1'
    by (auto simp: db1 decide_approval_def read1 decide_commit_def Let_def split: option.splits)
  have b1: "b \<in> set (db_approvals db1)" using a u1' by (force simp: db1' row_defs image_iff)
  have keys1: "distinct (map approval_key (db_approvals db1))"
    using keys u1' by (simp add: db1' comp_def)
  have gone: "find (\<lambda>x. is_ritm (ap_tenant b) (ap_ritm b) x \<and> ri_state x = R_REQUESTED) (db_ritms db1) = None"
    using o1 a(6) by (auto simp: db1' apply_approval_outcome_def find_None_iff image_update_where target_def is_ritm_def Let_def)
  have read2: "decide_read db1 (ap_tenant b) (ap_id b) ''approved'' (ap_requested_from b) = Inr b"
    using a by (simp add: decide_read_def get_approval_def find_own_row [OF keys1 b1])
  obtain q3 dbc where u2: "update_approval_decision db1 (ap_tenant b) (ap_id b) (if True then A_APPROVED else A_REJECTED) (ap_requested_from b) c2 = (q3, dbc)"
    by fastforce
  note u2' = update_approval_decision_rows [OF u2] find_own_pending [OF keys1 b1 a(5)]
  have none: "update_where (\<lambda>x. is_ritm (ap_tenant b) (ap_ritm b) x \<and> ri_state x = R_REQUESTED) f (db_ritms db1) = db_ritms db1" for f
    using gone by (auto simp: update_where_def find_None_iff intro!: map_idI)
  from res u2 u2' show ?thesis
    by (auto simp: decide_approval_def read2 decide_commit_def apply_approval_outcome_def withdraw_rows Let_def gone none)
qed

section \<open>Concrete runs\<close>

definition gate_env :: desk_env where
  "gate_env = \<lparr>de_getenv = (\<lambda>v. if v = ''UC08_APPROVAL_ENABLED'' then Some '' On '' else None), de_rich = (\<lambda>f vs. Inl Caught),
     de_other = (\<lambda>j. []), de_catalog = [sample_row, sample_row\<lparr>cr_id := ''PW'', cr_category := Some ''password'', cr_request_fields := JList []\<rparr>],
     de_groups = [], de_policies = sample_matrix, de_collate = id, de_nats = Some (\<lambda>t r. True)\<rparr>"

definition gate_db :: fulfil_db where
  "gate_db = \<lparr>db_users = [sample_user ''u1'' ''hr'' (Some ''u2''), sample_user ''u2'' ''hr'' None],
     db_tasks = [], db_ritms = [], db_requests = [], db_runs = [], db_approvals = []\<rparr>"

definition gate_gen :: "string \<Rightarrow> generated" where
  "gate_gen n = \<lparr>gn_now = 0, gn_request = ''Q'' @ n, gn_ids = \<lparr>ni_ritm = ''R'' @ n, ni_tasks = (\<lambda>i. ''S'' @ n @ nat_str i), ni_run = ''X'' @ n\<rparr>,
     gn_approval = (\<lambda>i. ''A'' @ n @ nat_str i)\<rparr>"

definition gate_args :: "string \<Rightarrow> json \<Rightarrow> json" where
  "gate_args item key = JObj [(''catalog_id'', JStr item), (''fields'', JObj [(''user'', JStr ''bo'')]), (''idempotency_key'', key)]"

definition gate_ctx :: json where
  "gate_ctx = JObj [(''tenant_id'', JStr ''t1''), (''user_id'', JStr ''u1'')]"

definition parked_desk :: "json \<Rightarrow> desk" where
  "parked_desk key = snd (create_service_request gate_env (gate_gen ''1'') (gate_args ''C9'' key) gate_ctx (gate_db, []))"

definition released_desk :: desk where
  "released_desk = snd (decide gate_env (fst (parked_desk JNull)) ''t1'' ''A10'' ''approved'' ''u2'' None (parked_desk JNull))"

lemma parked_run:
  "map (\<lambda>a. (ap_id a, ap_requested_from a, ap_state a)) (db_approvals (fst (parked_desk JNull))) = [(''A10'', ''u2'', A_PENDING)]
   \<and> snd (parked_desk JNull) = []"
  by code_simp

lemma released_run: "snd released_desk = [(''t1'', ''R1'')] \<and> parked (fst released_desk) (''t1'', ''R1'') \<and> map ri_state (db_ritms (fst released_desk)) = [R_APPROVED]"
  by code_simp

theorem released_once_by_assignee_witness:
  "snd released_desk = [(''t1'', ''R1'')] \<and> parked (fst released_desk) (''t1'', ''R1'') \<and> authorised (fst released_desk) (''t1'', ''R1'')"
proof -
  have "gate_step ((gate_db, []), []) (parked_desk JNull, [gate_db])"
    using opened [of gate_env "gate_gen ''1''" "gate_args ''C9'' JNull" gate_ctx "(gate_db, [])", OF prod.collapse [symmetric]]
    by (simp add: parked_desk_def gate_args_def)
  moreover have "gate_step (parked_desk JNull, [gate_db]) (released_desk, [fst (parked_desk JNull), gate_db])"
    using ruled [of gate_env "fst (parked_desk JNull)" "''t1''" "''A10''" "''approved''" "''u2''" None "parked_desk JNull", OF prod.collapse [symmetric]]
    by (simp add: released_desk_def)
  ultimately have "gate_step\<^sup>*\<^sup>* ((gate_db, []), []) ((fst released_desk, snd released_desk), [fst (parked_desk JNull), gate_db])"
    by (metis converse_rtranclp_into_rtranclp prod.collapse rtranclp.rtrancl_refl)
  from released_once_by_assignee [OF this] have "\<forall>k \<in> set (snd released_desk). parked (fst released_desk) k \<longrightarrow> authorised (fst released_desk) k"
    by (simp add: gate_db_def)
  with released_run show ?thesis by simp
qed

text \<open>A self-service request is dispatched at once.\<close>

lemma self_service_run:
  "snd (snd (create_service_request gate_env (gate_gen ''1'') (gate_args ''PW'' JNull) gate_ctx (gate_db, []))) = [(''t1'', ''R1'')]"
  by code_simp

theorem gate_withholds_witness:
  "\<exists>it p. parse_intake (de_other gate_env) (gate_args ''PW'' JNull) gate_ctx = Inr it \<and> \<not> po_required p
     \<and> match_policy (catalog_attrs (de_catalog gate_env) (in_tenant it) (in_catalog it)) (load_policies (de_policies gate_env) (in_tenant it)) = Inr (Some p)"
proof -
  obtain r db' ev' where run: "create_service_request gate_env (gate_gen ''1'') (gate_args ''PW'' JNull) gate_ctx (gate_db, []) = (r, (db', ev'))"
    by (metis prod.collapse)
  have "approval_enabled (de_getenv gate_env)" by code_simp
  moreover have "ev' \<noteq> []" using self_service_run run by simp
  ultimately show ?thesis using gate_withholds [OF run] by blast
qed

definition twin :: "string \<Rightarrow> string \<Rightarrow> approval_row" where
  "twin i who = \<lparr>ap_tenant = ''t1'', ap_id = i, ap_ritm = ''R1'', ap_task = None, ap_type = ''manager'', ap_reason = [], ap_payload = JNull,
     ap_state = A_PENDING, ap_requested_from = who, ap_decided_by = None, ap_comment = None, ap_version = 1\<rparr>"

definition twin_db :: fulfil_db where
  "twin_db = gate_db\<lparr>db_ritms := [sample_ritm], db_approvals := [twin ''A1'' ''u1'', twin ''A2'' ''u2'']\<rparr>"

definition rejected_db :: fulfil_db where
  "rejected_db = snd (decide_approval twin_db twin_db ''t1'' ''A1'' ''rejected'' ''u1'' None)"

theorem approval_after_rejection_witness:
  "do_ok (fst (decide_approval rejected_db rejected_db ''t1'' ''A2'' ''approved'' ''u2'' None))
   \<and> \<not> do_should_dispatch (fst (decide_approval rejected_db rejected_db ''t1'' ''A2'' ''approved'' ''u2'' None))
   \<and> map ri_state (db_ritms rejected_db) = [R_REJECTED]"
proof -
  have "map ri_state (db_ritms rejected_db) = [R_REJECTED]" by code_simp
  moreover have "do_ok (fst (decide_approval rejected_db rejected_db ''t1'' ''A2'' ''approved'' ''u2'' None))
      \<and> \<not> do_should_dispatch (fst (decide_approval rejected_db rejected_db ''t1'' ''A2'' ''approved'' ''u2'' None))"
    using approval_after_rejection [of twin_db "twin ''A1'' ''u1''" "twin ''A2'' ''u2''" rejected_db None None
        "fst (decide_approval rejected_db rejected_db ''t1'' ''A2'' ''approved'' ''u2'' None)"
        "snd (decide_approval rejected_db rejected_db ''t1'' ''A2'' ''approved'' ''u2'' None)"]
    by (simp add: twin_db_def twin_def approval_key_def target_def rejected_db_def)
  ultimately show ?thesis by blast
qed

text \<open>
The idempotency key defeats the gate. A hardware request that is parked for its approver is dispatched, still
undecided, by a second request for a self-service item that carries the same key: the key resolves to the parked
request item, while the matrix is asked about the self-service item.
\<close>

theorem idempotency_key_bypasses_gate:
  "let k = JStr ''k''; s = parked_desk k;
       s' = snd (create_service_request gate_env (gate_gen ''2'') (gate_args ''PW'' k) gate_ctx s)
   in snd s = [] \<and> map ap_state (db_approvals (fst s)) = [A_PENDING]
      \<and> snd s' = [(''t1'', ''R1'')] \<and> db_approvals (fst s') = db_approvals (fst s) \<and> map ri_state (db_ritms (fst s')) = [R_REQUESTED]"
  by code_simp

end
