(* ===== verification/FastPath.thy ===== *)
theory FastPath
  imports RoutePlan EntityId Samples
begin

text \<open>
  The fast path (\<open>router/fast_path.py\<close>): a structured call for one use case becomes a one-step plan. Inputs are
  coerced to their declared types, one field may be derived from another, and everything else is refused with
  a typed error. Conversion to floating point and the printing of lists and dicts are parameters; the normalizer is
  the one \<open>EntityId\<close> models, or the error its construction raises.
\<close>

section \<open>Values and errors\<close>

datatype fp_value = FStr string | FInt int | FBool bool | FFloat string

fun fp_str :: "fp_value \<Rightarrow> string" where
  "fp_str (FStr s) = s"
| "fp_str (FInt i) = int_str i"
| "fp_str (FBool b) = (if b then ''True'' else ''False'')"
| "fp_str (FFloat s) = s"

datatype fp_error =
    UcRequired
  | UnknownUc string
  | NotActive string record_status
  | NoFastPath string
  | UnknownFields string "string list"
  | MissingFields string "string list"
  | UnsupportedType string string
  | BadValue string string
  | NoDerivation string string
  | FpRegistry reg_error
  | FpNormalizer string

record fast_path_request =
  fq_uc_id :: string
  fq_inputs :: "(string \<times> json) list"

text \<open>What the code calls besides the registry.\<close>

record fp_env =
  fe_float :: "json \<Rightarrow> string option"
  fe_other :: "json \<Rightarrow> string"
  fe_normalizer :: "string + normalizer"

section \<open>Coercion and derivation\<close>

fun cast_int :: "json \<Rightarrow> int option" where
  "cast_int (JInt i) = Some i"
| "cast_int (JBool b) = Some (if b then 1 else 0)"
| "cast_int (JStr s) = int_of_text s"
| "cast_int _ = None"

fun coerce_bool :: "string \<Rightarrow> json \<Rightarrow> fp_error + fp_value" where
  "coerce_bool nm (JBool b) = Inr (FBool b)"
| "coerce_bool nm (JStr s) =
     (let v = lower (strip s) in
      if v \<in> {''true'', ''1'', ''yes''} then Inr (FBool True)
      else if v \<in> {''false'', ''0'', ''no''} then Inr (FBool False)
      else Inl (BadValue nm ''bool''))"
| "coerce_bool nm _ = Inl (BadValue nm ''bool'')"

definition coerce :: "fp_env \<Rightarrow> fast_path_input_field \<Rightarrow> json \<Rightarrow> fp_error + fp_value" where
  "coerce env f v =
     (if fpf_type f = ''str'' then Inr (FStr (json_str (fe_other env) v))
      else if fpf_type f = ''int'' then
        (case cast_int v of None \<Rightarrow> Inl (BadValue (fpf_name f) ''int'') | Some i \<Rightarrow> Inr (FInt i))
      else if fpf_type f = ''float'' then
        (case fe_float env v of None \<Rightarrow> Inl (BadValue (fpf_name f) ''float'') | Some s \<Rightarrow> Inr (FFloat s))
      else if fpf_type f = ''bool'' then coerce_bool (fpf_name f) v
      else Inl (UnsupportedType (fpf_name f) (fpf_type f)))"

definition derive_service_id :: "fp_env \<Rightarrow> json \<Rightarrow> fp_error + string option" where
  "derive_service_id env v =
     (if \<not> truthy v then Inr None
      else case fe_normalizer env of
        Inl e \<Rightarrow> Inl (FpNormalizer e)
      | Inr nz \<Rightarrow> Inr (map_option ne_service_id (nr_entity (normalize_token nz (json_str (fe_other env) v)))))"

definition derive_field :: "fp_env \<Rightarrow> string \<Rightarrow> string \<Rightarrow> json \<Rightarrow> fp_error + string option" where
  "derive_field env target source v =
     (if target = ''service_id'' \<and> source = ''ticket_id'' then derive_service_id env v else Inl (NoDerivation target source))"

datatype fp_outcome = FpSet fp_value | FpMissing | FpSkip

text \<open>\<open>None\<close> and blank text both mean that the field was not supplied.\<close>

fun supplied :: "json \<Rightarrow> bool" where
  "supplied JNull = False"
| "supplied (JStr s) = (strip s \<noteq> [])"
| "supplied _ = True"

definition resolve_field_value :: "fp_env \<Rightarrow> fast_path_request \<Rightarrow> fast_path_input_field \<Rightarrow> fp_error + fp_outcome" where
  "resolve_field_value env req f =
     (let input = jget (JObj (fq_inputs req));
          absent = Inr (if fpf_required f then FpMissing else FpSkip)
      in if supplied (input (fpf_name f)) then map_sum id FpSet (coerce env f (input (fpf_name f)))
         else (case fpf_auto_derive_from f of
                 None \<Rightarrow> absent
               | Some src \<Rightarrow>
                   if src = [] then absent
                   else sbind (derive_field env (fpf_name f) src (input src)) (\<lambda>d.
                     case d of None \<Rightarrow> absent | Some s \<Rightarrow> map_sum id FpSet (coerce env f (JStr s)))))"

section \<open>Dispatch\<close>

definition is_eligible :: "registry \<Rightarrow> string \<Rightarrow> reg_error + bool" where
  "is_eligible reg uc =
     sbind (agents_get_optional reg uc) (\<lambda>a.
       Inr (case a of None \<Rightarrow> False
            | Some r \<Rightarrow> rec_status r = ACTIVE \<and> (case ag_fast_path r of None \<Rightarrow> False | Some fp \<Rightarrow> fp_enabled fp)))"

definition describe :: "registry \<Rightarrow> string \<Rightarrow> reg_error + fast_path_spec option" where
  "describe reg uc =
     sbind (agents_get_optional reg uc) (\<lambda>a.
       Inr (case a of None \<Rightarrow> None
            | Some r \<Rightarrow> (case ag_fast_path r of None \<Rightarrow> None | Some fp \<Rightarrow> if fp_enabled fp then Some fp else None)))"

text \<open>The loop over the declared fields: parameters and missing names, in order.\<close>

fun coerce_fields ::
  "fp_env \<Rightarrow> fast_path_request \<Rightarrow> fast_path_input_field list \<Rightarrow> (string \<times> fp_value) list \<times> string list
   \<Rightarrow> fp_error + (string \<times> fp_value) list \<times> string list" where
  "coerce_fields env req [] acc = Inr acc"
| "coerce_fields env req (f # fs) (params, missing) =
     sbind (resolve_field_value env req f) (\<lambda>r.
       coerce_fields env req fs
         (case r of FpSet v \<Rightarrow> (AList.update (fpf_name f) v params, missing)
                  | FpMissing \<Rightarrow> (params, missing @ [fpf_name f])
                  | FpSkip \<Rightarrow> (params, missing)))"

definition coerce_inputs :: "fp_env \<Rightarrow> fast_path_spec \<Rightarrow> fast_path_request \<Rightarrow> string \<Rightarrow> fp_error + (string \<times> fp_value) list" where
  "coerce_inputs env spec req uc =
     sbind (coerce_fields env req (fp_input_fields spec) ([], [])) (\<lambda>(params, missing).
       if missing \<noteq> [] then Inl (MissingFields uc (sort missing)) else Inr params)"

definition fp_step :: "string \<Rightarrow> (string \<times> fp_value) list \<Rightarrow> plan_step" where
  "fp_step uc params = \<lparr>ps_step_id = ''step_1'', ps_agent_id = uc, ps_parameters = map (\<lambda>(k, v). (k, fp_str v)) params,
     ps_depends_on = [], ps_parameter_bindings = [], ps_dependency_types = []\<rparr>"

definition fp_dispatch ::
  "fp_env \<Rightarrow> registry \<Rightarrow> fast_path_request \<Rightarrow> fp_error + route_plan \<times> (string \<times> fp_value) list" where
  "fp_dispatch env reg req =
     (let uc = strip (fq_uc_id req) in
      if uc = [] then Inl UcRequired
      else case agents_get_optional reg uc of
        Inl e \<Rightarrow> Inl (FpRegistry e)
      | Inr None \<Rightarrow> Inl (UnknownUc uc)
      | Inr (Some a) \<Rightarrow>
          if rec_status a \<noteq> ACTIVE then Inl (NotActive uc (rec_status a))
          else (case ag_fast_path a of
                  None \<Rightarrow> Inl (NoFastPath uc)
                | Some spec \<Rightarrow>
                    if \<not> fp_enabled spec then Inl (NoFastPath uc)
                    else let unknown = filter (\<lambda>k. k \<notin> set (map fpf_name (fp_input_fields spec))) (map fst (fq_inputs req)) in
                      if unknown \<noteq> [] then Inl (UnknownFields uc (sort unknown))
                      else sbind (coerce_inputs env spec req uc) (\<lambda>params.
                        Inr (\<lparr>rp_steps = [fp_step uc params]\<rparr>, params))))"

section \<open>A strict gate\<close>

text \<open>A value of the declared type.\<close>

fun has_type :: "fp_value \<Rightarrow> string \<Rightarrow> bool" where
  "has_type (FStr _) t \<longleftrightarrow> t = ''str''"
| "has_type (FInt _) t \<longleftrightarrow> t = ''int''"
| "has_type (FBool _) t \<longleftrightarrow> t = ''bool''"
| "has_type (FFloat _) t \<longleftrightarrow> t = ''float''"

lemma coerce_bool_Inr: "coerce_bool nm v = Inr x \<Longrightarrow> \<exists>b. x = FBool b"
  by (cases v) (auto simp: Let_def split: if_splits)

lemma coerce_typed: "coerce env f v = Inr x \<Longrightarrow> has_type x (fpf_type f)"
  by (auto simp: coerce_def split: if_splits option.splits dest!: coerce_bool_Inr)

lemma map_sum_set: "map_sum id FpSet c = Inr r \<longleftrightarrow> (\<exists>x. c = Inr x \<and> r = FpSet x)"
  by (cases c) auto

lemma resolve_cases:
  assumes "resolve_field_value env req f = Inr r"
  shows "(\<exists>v x. r = FpSet x \<and> coerce env f v = Inr x) \<or> r = (if fpf_required f then FpMissing else FpSkip)"
proof (cases "supplied (jget (JObj (fq_inputs req)) (fpf_name f))")
  case True
  with assms show ?thesis by (auto simp: resolve_field_value_def Let_def map_sum_set)
next
  case False
  show ?thesis
  proof (cases "fpf_auto_derive_from f = None \<or> fpf_auto_derive_from f = Some []")
    case True
    with assms False show ?thesis by (auto simp: resolve_field_value_def Let_def simp del: jget.simps)
  next
    case derived: False
    then obtain src where src: "fpf_auto_derive_from f = Some src" "src \<noteq> []" by auto
    from assms False src obtain d where "derive_field env (fpf_name f) src (jget (JObj (fq_inputs req)) src) = Inr d"
      "(case d of None \<Rightarrow> Inr (if fpf_required f then FpMissing else FpSkip) | Some s \<Rightarrow> map_sum id FpSet (coerce env f (JStr s))) = Inr r"
      by (auto simp: resolve_field_value_def Let_def simp del: jget.simps)
    then show ?thesis by (cases d) (auto simp: map_sum_set)
  qed
qed

lemma resolve_typed: "resolve_field_value env req f = Inr (FpSet x) \<Longrightarrow> has_type x (fpf_type f)"
  by (drule resolve_cases) (auto split: if_splits intro: coerce_typed)

lemma resolve_required: "resolve_field_value env req f = Inr FpSkip \<Longrightarrow> \<not> fpf_required f"
  by (drule resolve_cases) (auto split: if_splits)

text \<open>The loop: every parameter is typed by a field of its name, and every required field is set or missing.\<close>

lemma coerce_fields_Inr:
  assumes "coerce_fields env req fs (params0, missing0) = Inr (params, missing)"
  shows "set params \<subseteq> set params0 \<union> {(fpf_name f, v) | f v. f \<in> set fs \<and> has_type v (fpf_type f)}
    \<and> (\<forall>f \<in> set fs. fpf_required f \<longrightarrow> fpf_name f \<in> fst ` set params \<union> set missing)
    \<and> fst ` set params0 \<subseteq> fst ` set params \<and> set missing0 \<subseteq> set missing"
  using assms
proof (induction fs arbitrary: params0 missing0)
  case (Cons f fs)
  from Cons.prems obtain r where r: "resolve_field_value env req f = Inr r"
    "coerce_fields env req fs (case r of FpSet v \<Rightarrow> (AList.update (fpf_name f) v params0, missing0)
        | FpMissing \<Rightarrow> (params0, missing0 @ [fpf_name f]) | FpSkip \<Rightarrow> (params0, missing0)) = Inr (params, missing)" by auto
  show ?case
  proof (cases r)
    case (FpSet v)
    with r have rest: "coerce_fields env req fs (AList.update (fpf_name f) v params0, missing0) = Inr (params, missing)" by simp
    have "has_type v (fpf_type f)" using r(1) FpSet resolve_typed by simp
    with Cons.IH [OF rest] set_update_subset [of "fpf_name f" v params0] show ?thesis by (auto, blast+)
  next
    case FpMissing
    with r have rest: "coerce_fields env req fs (params0, missing0 @ [fpf_name f]) = Inr (params, missing)" by simp
    from Cons.IH [OF rest] show ?thesis by (auto, blast+)
  next
    case FpSkip
    with r have rest: "coerce_fields env req fs (params0, missing0) = Inr (params, missing)" by simp
    have "\<not> fpf_required f" using resolve_required r(1) FpSkip by simp
    with Cons.IH [OF rest] show ?thesis by (auto, blast+)
  qed
qed simp

text \<open>
C27: A fast-path call that is accepted names an active agent with an enabled fast path, supplied only declared fields,
has every required field set (given or derived), each parameter in its declared type, and yields a well-formed plan of
that one agent with exactly these parameters.
\<close>

theorem fast_path_strict:
  assumes "fp_dispatch env reg req = Inr (plan, params)"
  shows "\<exists>a spec. agents_get_optional reg (strip (fq_uc_id req)) = Inr (Some a) \<and> rec_status a = ACTIVE
    \<and> ag_fast_path a = Some spec \<and> fp_enabled spec
    \<and> fst ` set (fq_inputs req) \<subseteq> fpf_name ` set (fp_input_fields spec)
    \<and> (\<forall>f \<in> set (fp_input_fields spec). fpf_required f \<longrightarrow> fpf_name f \<in> fst ` set params)
    \<and> (\<forall>(k, v) \<in> set params. \<exists>f \<in> set (fp_input_fields spec). fpf_name f = k \<and> has_type v (fpf_type f))
    \<and> rp_steps plan = [fp_step (strip (fq_uc_id req)) params] \<and> plan_wf (rp_steps plan)"
proof -
  from assms obtain a where a: "agents_get_optional reg (strip (fq_uc_id req)) = Inr (Some a)" "rec_status a = ACTIVE"
    by (auto simp: fp_dispatch_def Let_def split: if_splits sum.splits option.splits)
  with assms obtain spec where spec: "ag_fast_path a = Some spec" "fp_enabled spec"
    by (auto simp: fp_dispatch_def Let_def split: if_splits option.splits)
  with assms a have names: "fst ` set (fq_inputs req) \<subseteq> fpf_name ` set (fp_input_fields spec)"
    and c: "coerce_inputs env spec req (strip (fq_uc_id req)) = Inr params"
    and plan: "rp_steps plan = [fp_step (strip (fq_uc_id req)) params]"
    by (auto simp: fp_dispatch_def Let_def filter_empty_conv split: if_splits)
  from c have "coerce_fields env req (fp_input_fields spec) ([], []) = Inr (params, [])"
    by (auto simp: coerce_inputs_def split: if_splits)
  from coerce_fields_Inr [OF this] have "\<forall>f \<in> set (fp_input_fields spec). fpf_required f \<longrightarrow> fpf_name f \<in> fst ` set params"
    "\<forall>(k, v) \<in> set params. \<exists>f \<in> set (fp_input_fields spec). fpf_name f = k \<and> has_type v (fpf_type f)" by auto
  moreover have "plan_wf [fp_step u ps]" for u ps using deps_before_snoc [of ps_depends_on ps_step_id "[]" "fp_step u ps"] by (simp add: plan_wf_def fp_step_def)
  ultimately show ?thesis using a spec names plan by auto
qed

text \<open>
  Discovery is wider than dispatch: a deprecated agent with an enabled fast path is described although it is not
  eligible and every call to it is refused.
\<close>

lemma describe_ignores_status:
  assumes "agents_get_optional reg uc = Inr (Some a)" "rec_status a = DEPRECATED" "ag_fast_path a = Some spec" "fp_enabled spec"
  shows "describe reg uc = Inr (Some spec) \<and> is_eligible reg uc = Inr False"
  using assms by (simp add: describe_def is_eligible_def)

section \<open>A concrete call\<close>

definition fast_spec :: fast_path_spec where
  "fast_spec = \<lparr>fp_enabled = True, fp_primary_tool_id = ''t'',
     fp_input_fields = [\<lparr>fpf_name = ''ticket_id'', fpf_type = ''str'', fpf_required = True, fpf_auto_derive_from = None\<rparr>,
       \<lparr>fpf_name = ''service_id'', fpf_type = ''str'', fpf_required = True, fpf_auto_derive_from = Some ''ticket_id''\<rparr>,
       \<lparr>fpf_name = ''limit'', fpf_type = ''int'', fpf_required = False, fpf_auto_derive_from = None\<rparr>],
     fp_response_schema_ref = None\<rparr>"

definition fast_registry :: registry where
  "fast_registry = sample_registry\<lparr>agents := [(([], ''a''), Envelope \<lparr>env_id = ''a'',
     env_versions = [(1, (sample_agent ''a'' [])\<lparr>rec_status := ACTIVE, ag_fast_path := Some fast_spec,
       ag_tool_refs := [\<lparr>tr_tool_id = ''t'', tr_version = 1\<rparr>]\<rparr>)],
     env_active_version = Some 1\<rparr>)]\<rparr>"

definition fast_env :: fp_env where
  "fast_env = \<lparr>fe_float = (\<lambda>v. None), fe_other = (\<lambda>v. []), fe_normalizer = normalizer_init [(''INC'', ''incident'')]\<rparr>"

definition fast_request :: fast_path_request where
  "fast_request = \<lparr>fq_uc_id = '' a '', fq_inputs = [(''ticket_id'', JStr ''inc12''), (''limit'', JStr ''+7'')]\<rparr>"

lemma fast_dispatched:
  "map_sum id snd (fp_dispatch fast_env fast_registry fast_request)
   = Inr [(''ticket_id'', FStr ''inc12''), (''service_id'', FStr ''incident''), (''limit'', FInt 7)]"
  by code_simp

theorem fast_path_strict_witness:
  "\<exists>plan params. fp_dispatch fast_env fast_registry fast_request = Inr (plan, params)
     \<and> rp_steps plan = [fp_step ''a'' params] \<and> (''limit'', FInt 7) \<in> set params"
proof -
  obtain plan params where r: "fp_dispatch fast_env fast_registry fast_request = Inr (plan, params)"
    and p: "params = [(''ticket_id'', FStr ''inc12''), (''service_id'', FStr ''incident''), (''limit'', FInt 7)]"
    using fast_dispatched by (cases "fp_dispatch fast_env fast_registry fast_request") auto
  have "strip (fq_uc_id fast_request) = ''a''" by code_simp
  with fast_path_strict [OF r] have "rp_steps plan = [fp_step ''a'' params]" by auto
  moreover have "(''limit'', FInt 7) \<in> set params" by (simp add: p)
  ultimately show ?thesis using r by blast
qed

end
