(* ===== verification/Regex.thy ===== *)
theory Regex
  imports Prelude
begin

text \<open>
  Regular expressions of Python's \<open>re\<close> module as the code uses them (redaction, routing): the meaning of a pattern is the list
  of ways to match at a position, in the order in which a backtracking matcher tries them. Characters are ASCII: \<open>\w\<close> and
  \<open>\d\<close> are the ASCII classes. The second half shows what a substitution of bracketed placeholders leaves behind.
\<close>

section \<open>Backtracking matching\<close>

text \<open>\<open>RRep lo hi r\<close> is a greedy bounded repetition, \<open>RMany lo r\<close> a greedy unbounded one of a part that is never empty.\<close>

datatype re =
    RCls "char \<Rightarrow> bool"
  | RBound
  | RSeq re re
  | RAlt re re
  | RRep nat nat re
  | RMany nat re

type_synonym rpos = "char option \<times> string"

definition word_char :: "char \<Rightarrow> bool" where
  "word_char c \<longleftrightarrow> is_dec c \<or> (CHR ''a'' \<le> c \<and> c \<le> CHR ''z'') \<or> (CHR ''A'' \<le> c \<and> c \<le> CHR ''Z'') \<or> c = CHR ''_''"

definition at_bound :: "rpos \<Rightarrow> bool" where
  "at_bound p = ((case fst p of None \<Rightarrow> False | Some c \<Rightarrow> word_char c) \<noteq> (case snd p of [] \<Rightarrow> False | c # _ \<Rightarrow> word_char c))"

fun repeat_match :: "(rpos \<Rightarrow> rpos list) \<Rightarrow> nat \<Rightarrow> nat \<Rightarrow> rpos \<Rightarrow> rpos list" where
  "repeat_match m lo 0 p = (if lo = 0 then [p] else [])"
| "repeat_match m lo (Suc n) p = concat (map (repeat_match m (lo - 1) n) (m p)) @ (if lo = 0 then [p] else [])"

primrec rmatch :: "re \<Rightarrow> rpos \<Rightarrow> rpos list" where
  "rmatch (RCls q) p = (case snd p of [] \<Rightarrow> [] | c # cs \<Rightarrow> if q c then [(Some c, cs)] else [])"
| "rmatch RBound p = (if at_bound p then [p] else [])"
| "rmatch (RSeq a b) p = concat (map (rmatch b) (rmatch a p))"
| "rmatch (RAlt a b) p = rmatch a p @ rmatch b p"
| "rmatch (RRep lo hi r) p = repeat_match (rmatch r) lo hi p"
| "rmatch (RMany lo r) p = repeat_match (rmatch r) lo (length (snd p)) p"

text \<open>The first match at this position: the matched text and the position behind it.\<close>

definition match_here :: "re \<Rightarrow> rpos \<Rightarrow> (string \<times> rpos) option" where
  "match_here r p = (case rmatch r p of [] \<Rightarrow> None | q # _ \<Rightarrow> Some (take (length (snd p) - length (snd q)) (snd p), q))"

fun re_search_from :: "re \<Rightarrow> char option \<Rightarrow> string \<Rightarrow> bool" where
  "re_search_from r prev [] = (match_here r (prev, []) \<noteq> None)"
| "re_search_from r prev (c # cs) = (match_here r (prev, c # cs) \<noteq> None \<or> re_search_from r (Some c) cs)"

definition re_search :: "re \<Rightarrow> string \<Rightarrow> bool" where
  "re_search r s = re_search_from r None s"

text \<open>\<open>pattern.sub\<close> with a function, for patterns that never match the empty text.\<close>

function re_sub_from :: "(string \<Rightarrow> string) \<Rightarrow> re \<Rightarrow> char option \<Rightarrow> string \<Rightarrow> string" where
  "re_sub_from f r prev [] = []"
| "re_sub_from f r prev (c # cs) =
     (case match_here r (prev, c # cs) of
        Some (m, (prev', rest)) \<Rightarrow>
          if length rest < length (c # cs) then f m @ re_sub_from f r prev' rest else c # re_sub_from f r (Some c) cs
      | None \<Rightarrow> c # re_sub_from f r (Some c) cs)"
  by pat_completeness auto

termination
  by (relation "measure (\<lambda>(f, r, prev, s). length s)") auto

definition re_sub :: "(string \<Rightarrow> string) \<Rightarrow> re \<Rightarrow> string \<Rightarrow> string" where
  "re_sub f r s = re_sub_from f r None s"

abbreviation rdigit :: re where "rdigit \<equiv> RCls is_dec"

definition rchar :: "char \<Rightarrow> re" where
  "rchar c = RCls (\<lambda>d. d = c)"

fun rseq :: "re list \<Rightarrow> re" where
  "rseq [] = RRep 0 0 RBound"
| "rseq [r] = r"
| "rseq (r # rs) = RSeq r (rseq rs)"

text \<open>Literals (exact, or with \<open>re.IGNORECASE\<close>), alternatives of literals, optional parts and white space.\<close>

definition rword :: "string \<Rightarrow> re" where
  "rword w = rseq (map rchar w)"

definition rword_ci :: "string \<Rightarrow> re" where
  "rword_ci w = rseq (map (\<lambda>c. RCls (\<lambda>d. lower_char d = lower_char c)) w)"

fun ralts :: "re list \<Rightarrow> re" where
  "ralts [] = RCls (\<lambda>_. False)"
| "ralts [r] = r"
| "ralts (r # rs) = RAlt r (ralts rs)"

definition ropt :: "re \<Rightarrow> re" where
  "ropt r = RRep 0 1 r"

abbreviation rspaces :: "nat \<Rightarrow> re" where
  "rspaces lo \<equiv> RMany lo (RCls is_space)"

text \<open>\<open>pattern.findall\<close>: the texts of the successive matches, for patterns that never match the empty text.\<close>

function re_findall_from :: "re \<Rightarrow> char option \<Rightarrow> string \<Rightarrow> string list" where
  "re_findall_from r prev [] = []"
| "re_findall_from r prev (c # cs) =
     (case match_here r (prev, c # cs) of
        Some (m, (prev', rest)) \<Rightarrow>
          if length rest < length (c # cs) then m # re_findall_from r prev' rest else re_findall_from r (Some c) cs
      | None \<Rightarrow> re_findall_from r (Some c) cs)"
  by pat_completeness auto

termination
  by (relation "measure (\<lambda>(r, prev, s). length s)") auto

definition re_findall :: "re \<Rightarrow> string \<Rightarrow> string list" where
  "re_findall r s = re_findall_from r None s"

text \<open>\<open>re.match(r"^...$", s)\<close>: a match from the start that reaches the end, or the newline before it.\<close>

definition re_fullmatch :: "re \<Rightarrow> string \<Rightarrow> bool" where
  "re_fullmatch r s = list_ex (\<lambda>(c, rest). rest = [] \<or> rest = [CHR 0x0A]) (rmatch r (None, s))"

text \<open>Some match of the pattern satisfies \<open>q\<close>: the matches \<open>sub\<close> visits.\<close>

function sub_visits :: "(string \<Rightarrow> bool) \<Rightarrow> re \<Rightarrow> char option \<Rightarrow> string \<Rightarrow> bool" where
  "sub_visits q r prev [] = False"
| "sub_visits q r prev (c # cs) =
     (case match_here r (prev, c # cs) of
        Some (m, (prev', rest)) \<Rightarrow>
          if length rest < length (c # cs) then q m \<or> sub_visits q r prev' rest else sub_visits q r (Some c) cs
      | None \<Rightarrow> sub_visits q r (Some c) cs)"
  by pat_completeness auto

termination
  by (relation "measure (\<lambda>(q, r, prev, s). length s)") auto

section \<open>What a match consumes\<close>

text \<open>
  The context of a position is the character before it. A boundary depends on the context and on the rest of the text only
  through whether their neighbouring characters are word characters.
\<close>

definition behind :: "char option \<Rightarrow> string \<Rightarrow> char option" where
  "behind a u = (if u = [] then a else Some (last u))"

definition prev_word :: "char option \<Rightarrow> bool" where
  "prev_word a = (case a of None \<Rightarrow> False | Some c \<Rightarrow> word_char c)"

definition next_word :: "string \<Rightarrow> bool" where
  "next_word s = (case s of [] \<Rightarrow> False | c # _ \<Rightarrow> word_char c)"

lemma behind_simps [simp]: "behind a [] = a" "behind a (c # cs) = behind (Some c) cs" "behind (behind a u) v = behind a (u @ v)"
  by (auto simp: behind_def)

lemma prev_word_Some [simp]: "prev_word (Some c) = word_char c"
  by (simp add: prev_word_def)

lemma next_word_Cons [simp]: "next_word (c # cs) = word_char c"
  by (simp add: next_word_def)

lemma at_bound_eq: "at_bound (a, s) \<longleftrightarrow> prev_word a \<noteq> next_word s"
  by (simp add: at_bound_def prev_word_def next_word_def)

lemma next_word_append: "next_word y = next_word x \<Longrightarrow> next_word (v @ y) = next_word (v @ x)"
  by (cases v) simp_all

lemma prev_word_behind: "prev_word b = prev_word a \<Longrightarrow> prev_word (behind b u) = prev_word (behind a u)"
  by (simp add: behind_def)

text \<open>One matcher step takes \<open>w\<close> off the text, whatever stands around it with the same boundaries.\<close>

definition takes :: "(rpos \<Rightarrow> rpos list) \<Rightarrow> string \<Rightarrow> char option \<Rightarrow> string \<Rightarrow> bool" where
  "takes m w a x \<longleftrightarrow> (\<forall>b y. prev_word b = prev_word a \<longrightarrow> next_word y = next_word x \<longrightarrow> (behind b w, y) \<in> set (m (b, w @ y)))"

definition local_step :: "(rpos \<Rightarrow> rpos list) \<Rightarrow> bool" where
  "local_step m \<longleftrightarrow> (\<forall>a s c x. (c, x) \<in> set (m (a, s)) \<longrightarrow> (\<exists>w. s = w @ x \<and> c = behind a w \<and> takes m w a x))"

lemma local_stepD:
  "local_step m \<Longrightarrow> (c, x) \<in> set (m (a, s)) \<Longrightarrow> \<exists>w. s = w @ x \<and> c = behind a w \<and> takes m w a x"
  by (simp add: local_step_def)

lemma takesD: "takes m w a x \<Longrightarrow> prev_word b = prev_word a \<Longrightarrow> next_word y = next_word x \<Longrightarrow> (behind b w, y) \<in> set (m (b, w @ y))"
  by (simp add: takes_def)

lemma takes_seq:
  assumes "takes m w a (v @ x)" and "takes m' v (behind a w) x"
  shows "takes (\<lambda>p. concat (map m' (m p))) (w @ v) a x"
  unfolding takes_def
proof (intro allI impI)
  fix b y
  assume b: "prev_word b = prev_word a" and y: "next_word y = next_word x"
  have "(behind b w, v @ y) \<in> set (m (b, w @ v @ y))"
    using takesD [OF assms(1) b next_word_append [OF y]] .
  moreover have "(behind (behind b w) v, y) \<in> set (m' (behind b w, v @ y))"
    using takesD [OF assms(2) prev_word_behind [OF b] y] .
  ultimately show "(behind b (w @ v), y) \<in> set (concat (map m' (m (b, (w @ v) @ y))))"
    by force
qed

lemma local_seq:
  assumes "local_step m" and "local_step m'"
  shows "local_step (\<lambda>p. concat (map m' (m p)))"
  unfolding local_step_def
proof (intro allI impI)
  fix a s c x
  assume "(c, x) \<in> set (concat (map m' (m (a, s))))"
  then obtain c1 x1 where 1: "(c1, x1) \<in> set (m (a, s))" and 2: "(c, x) \<in> set (m' (c1, x1))"
    by auto
  obtain w where w: "s = w @ x1" "c1 = behind a w" "takes m w a x1"
    using local_stepD [OF assms(1) 1] by blast
  obtain v where v: "x1 = v @ x" "c = behind c1 v" "takes m' v c1 x"
    using local_stepD [OF assms(2) 2] by blast
  show "\<exists>w. s = w @ x \<and> c = behind a w \<and> takes (\<lambda>p. concat (map m' (m p))) w a x"
    using w v takes_seq [of m w a v x m'] by (intro exI [of _ "w @ v"]) simp
qed

lemma local_or_stop: "local_step m \<Longrightarrow> local_step (\<lambda>p. m p @ (if b then [p] else []))"
  unfolding local_step_def takes_def by (fastforce split: if_splits)

lemma local_repeat: "local_step m \<Longrightarrow> local_step (repeat_match m lo n)"
proof (induction n arbitrary: lo)
  case 0
  have "repeat_match m lo 0 = (\<lambda>p. [] @ (if lo = 0 then [p] else []))"
    by (rule ext) simp
  then show ?case
    using local_or_stop [of "\<lambda>_. []"] by (simp add: local_step_def)
next
  case (Suc n)
  have "repeat_match m lo (Suc n) = (\<lambda>p. concat (map (repeat_match m (lo - 1) n) (m p)) @ (if lo = 0 then [p] else []))"
    by (rule ext) simp
  then show ?case
    using local_or_stop [OF local_seq [OF Suc.prems Suc.IH [OF Suc.prems]]] by simp
qed

text \<open>An unbounded repetition is one whose bound is never reached: its body consumes a character each time.\<close>

definition class_step :: "(char \<Rightarrow> bool) \<Rightarrow> rpos \<Rightarrow> rpos list" where
  "class_step q p = (case snd p of [] \<Rightarrow> [] | c # cs \<Rightarrow> if q c then [(Some c, cs)] else [])"

lemma class_step_simps [simp]:
  "class_step q (a, []) = []"
  "class_step q (a, d # ds) = (if q d then [(Some d, ds)] else [])"
  by (simp_all add: class_step_def)

lemma rmatch_class: "rmatch (RCls q) = class_step q"
  by (rule ext) (simp add: class_step_def)

lemma class_repeat:
  assumes "(c, x) \<in> set (repeat_match (class_step q) lo n (a, s))"
  shows "\<exists>w. s = w @ x \<and> c = behind a w \<and> lo \<le> length w \<and> (\<forall>d \<in> set w. q d)"
  using assms
proof (induction n arbitrary: lo a s)
  case 0
  then show ?case
    by (auto split: if_splits)
next
  case (Suc n)
  show ?case
  proof (cases "lo = 0 \<and> (c, x) = (a, s)")
    case True
    then show ?thesis
      by (intro exI [of _ "[]"]) simp
  next
    case False
    then obtain d ds where d: "s = d # ds" "q d" "(c, x) \<in> set (repeat_match (class_step q) (lo - 1) n (Some d, ds))"
      using Suc.prems by (cases s) (auto split: if_splits)
    obtain w where "ds = w @ x" "c = behind (Some d) w" "lo - 1 \<le> length w" "\<forall>d \<in> set w. q d"
      using Suc.IH [OF d(3)] by blast
    then show ?thesis
      using d by (intro exI [of _ "d # w"]) auto
  qed
qed

lemma class_repeat_complete:
  "\<forall>d \<in> set w. q d \<Longrightarrow> lo \<le> length w \<Longrightarrow> length w \<le> n \<Longrightarrow>
     (behind b w, y) \<in> set (repeat_match (class_step q) lo n (b, w @ y))"
proof (induction w arbitrary: lo n b)
  case Nil
  then show ?case
    by (cases n) auto
next
  case (Cons d w)
  then obtain k where "n = Suc k"
    by (cases n) auto
  then show ?case
    using Cons.prems Cons.IH [of "lo - 1" k "Some d"] by auto
qed

primrec wf_re :: "re \<Rightarrow> bool" where
  "wf_re (RCls q) = True"
| "wf_re RBound = True"
| "wf_re (RSeq a b) = (wf_re a \<and> wf_re b)"
| "wf_re (RAlt a b) = (wf_re a \<and> wf_re b)"
| "wf_re (RRep lo hi r) = wf_re r"
| "wf_re (RMany lo r) = (case r of RCls q \<Rightarrow> True | _ \<Rightarrow> False)"

lemma local_alt:
  assumes "local_step m" and "local_step m'"
  shows "local_step (\<lambda>p. m p @ m' p)"
  unfolding local_step_def
proof (intro allI impI)
  fix a s c x
  assume "(c, x) \<in> set (m (a, s) @ m' (a, s))"
  then consider "(c, x) \<in> set (m (a, s))" | "(c, x) \<in> set (m' (a, s))"
    by auto
  then show "\<exists>w. s = w @ x \<and> c = behind a w \<and> takes (\<lambda>p. m p @ m' p) w a x"
    using local_stepD [OF assms(1)] local_stepD [OF assms(2)] by cases (force simp: takes_def)+
qed

lemma rmatch_local: "wf_re r \<Longrightarrow> local_step (rmatch r)"
proof (induction r)
  case (RCls q)
  show ?case
    unfolding local_step_def takes_def
  proof (intro allI impI)
    fix a s c x
    assume "(c, x) \<in> set (rmatch (RCls q) (a, s))"
    then have "s = [the c] @ x \<and> c = behind a [the c] \<and> q (the c)"
      by (auto split: list.splits if_splits)
    then show "\<exists>w. s = w @ x \<and> c = behind a w \<and> (\<forall>b y. prev_word b = prev_word a \<longrightarrow> next_word y = next_word x \<longrightarrow>
        (behind b w, y) \<in> set (rmatch (RCls q) (b, w @ y)))"
      by (intro exI [of _ "[the c]"]) simp
  qed
next
  case RBound
  show ?case
    by (auto simp: local_step_def takes_def at_bound_eq split: if_splits)
next
  case (RSeq r1 r2)
  have "rmatch (RSeq r1 r2) = (\<lambda>p. concat (map (rmatch r2) (rmatch r1 p)))"
    by (rule ext) simp
  then show ?case
    using RSeq local_seq [of "rmatch r1" "rmatch r2"] by simp
next
  case (RAlt r1 r2)
  have "rmatch (RAlt r1 r2) = (\<lambda>p. rmatch r1 p @ rmatch r2 p)"
    by (rule ext) simp
  then show ?case
    using RAlt local_alt [of "rmatch r1" "rmatch r2"] by simp
next
  case (RRep lo hi r)
  have "rmatch (RRep lo hi r) = repeat_match (rmatch r) lo hi"
    by (rule ext) simp
  then show ?case
    using RRep local_repeat [of "rmatch r"] by simp
next
  case (RMany lo r)
  then obtain q where q: "r = RCls q"
    by (auto split: re.splits)
  show ?case
    unfolding q local_step_def takes_def
  proof (intro allI impI)
    fix a s c x
    assume "(c, x) \<in> set (rmatch (RMany lo (RCls q)) (a, s))"
    then obtain w where "s = w @ x" "c = behind a w" "lo \<le> length w" "\<forall>d \<in> set w. q d"
      using class_repeat [of c x q lo "length s" a s] unfolding rmatch.simps(6) rmatch_class by auto
    then show "\<exists>w. s = w @ x \<and> c = behind a w \<and> (\<forall>b y. prev_word b = prev_word a \<longrightarrow> next_word y = next_word x \<longrightarrow>
        (behind b w, y) \<in> set (rmatch (RMany lo (RCls q)) (b, w @ y)))"
      using class_repeat_complete [of w q lo] unfolding rmatch.simps(6) rmatch_class by (intro exI [of _ w]) simp
  qed
qed

text \<open>The characters a pattern can consume, and a sufficient condition that each match holds a digit or an at sign.\<close>

definition marker :: "char \<Rightarrow> bool" where
  "marker c \<longleftrightarrow> is_dec c \<or> c = CHR ''@''"

primrec re_chars :: "re \<Rightarrow> char \<Rightarrow> bool" where
  "re_chars (RCls q) c = q c"
| "re_chars RBound c = False"
| "re_chars (RSeq a b) c = (re_chars a c \<or> re_chars b c)"
| "re_chars (RAlt a b) c = (re_chars a c \<or> re_chars b c)"
| "re_chars (RRep lo hi r) c = re_chars r c"
| "re_chars (RMany lo r) c = re_chars r c"

primrec has_marker :: "re \<Rightarrow> bool" where
  "has_marker (RCls q) = (\<forall>c. q c \<longrightarrow> marker c)"
| "has_marker RBound = False"
| "has_marker (RSeq a b) = (has_marker a \<or> has_marker b)"
| "has_marker (RAlt a b) = (has_marker a \<and> has_marker b)"
| "has_marker (RRep lo hi r) = (0 < lo \<and> has_marker r)"
| "has_marker (RMany lo r) = (0 < lo \<and> has_marker r)"

definition consumes :: "(char \<Rightarrow> bool) \<Rightarrow> bool \<Rightarrow> (rpos \<Rightarrow> rpos list) \<Rightarrow> bool" where
  "consumes C k m \<longleftrightarrow> (\<forall>a s c x. (c, x) \<in> set (m (a, s)) \<longrightarrow>
     (\<exists>w. s = w @ x \<and> (\<forall>d \<in> set w. C d) \<and> (k \<longrightarrow> (\<exists>d \<in> set w. marker d))))"

lemma consumesD:
  "consumes C k m \<Longrightarrow> (c, x) \<in> set (m (a, s)) \<Longrightarrow>
     \<exists>w. s = w @ x \<and> (\<forall>d \<in> set w. C d) \<and> (k \<longrightarrow> (\<exists>d \<in> set w. marker d))"
  by (simp add: consumes_def)

lemma consumes_seq:
  assumes "consumes C k m" and "consumes D l m'"
  shows "consumes (\<lambda>c. C c \<or> D c) (k \<or> l) (\<lambda>p. concat (map m' (m p)))"
  unfolding consumes_def
proof (intro allI impI)
  fix a s c x
  assume "(c, x) \<in> set (concat (map m' (m (a, s))))"
  then obtain c1 x1 where 1: "(c1, x1) \<in> set (m (a, s))" and 2: "(c, x) \<in> set (m' (c1, x1))"
    by auto
  obtain w where w: "s = w @ x1" "\<forall>d \<in> set w. C d" "k \<longrightarrow> (\<exists>d \<in> set w. marker d)"
    using consumesD [OF assms(1) 1] by blast
  obtain v where v: "x1 = v @ x" "\<forall>d \<in> set v. D d" "l \<longrightarrow> (\<exists>d \<in> set v. marker d)"
    using consumesD [OF assms(2) 2] by blast
  show "\<exists>w. s = w @ x \<and> (\<forall>d \<in> set w. C d \<or> D d) \<and> (k \<or> l \<longrightarrow> (\<exists>d \<in> set w. marker d))"
    using w v by (intro exI [of _ "w @ v"]) auto
qed

lemma consumes_or_stop: "consumes C k m \<Longrightarrow> consumes C (k \<and> \<not> b) (\<lambda>p. m p @ (if b then [p] else []))"
  unfolding consumes_def by (cases b) (auto, blast)

lemma consumes_repeat:
  assumes "consumes C k m"
  shows "consumes C (0 < lo \<and> k) (repeat_match m lo n)"
proof (induction n arbitrary: lo)
  case 0
  show ?case
    by (auto simp: consumes_def split: if_splits)
next
  case (Suc n)
  have "repeat_match m lo (Suc n) = (\<lambda>p. concat (map (repeat_match m (lo - 1) n) (m p)) @ (if lo = 0 then [p] else []))"
    by (rule ext) simp
  moreover have "(k \<or> 0 < lo - 1 \<and> k) = k"
    by blast
  ultimately show ?case
    using consumes_or_stop [OF consumes_seq [OF assms Suc.IH [of "lo - 1"]], of "lo = 0"] by (simp add: conj_commute)
qed

lemma rmatch_consumes: "consumes (re_chars r) (has_marker r) (rmatch r)"
proof (induction r)
  case (RCls q)
  show ?case
    unfolding consumes_def
  proof (intro allI impI)
    fix a s c x
    assume "(c, x) \<in> set (rmatch (RCls q) (a, s))"
    then have "s = [the c] @ x \<and> q (the c)"
      by (auto split: list.splits if_splits)
    then show "\<exists>w. s = w @ x \<and> (\<forall>d \<in> set w. re_chars (RCls q) d) \<and> (has_marker (RCls q) \<longrightarrow> (\<exists>d \<in> set w. marker d))"
      by (intro exI [of _ "[the c]"]) simp
  qed
next
  case RBound
  show ?case
    by (auto simp: consumes_def split: if_splits)
next
  case (RSeq r1 r2)
  have "rmatch (RSeq r1 r2) = (\<lambda>p. concat (map (rmatch r2) (rmatch r1 p)))"
    by (rule ext) simp
  then show ?case
    using consumes_seq [OF RSeq.IH] unfolding consumes_def by simp
next
  case (RAlt r1 r2)
  show ?case
    unfolding consumes_def
  proof (intro allI impI)
    fix a s c x
    assume "(c, x) \<in> set (rmatch (RAlt r1 r2) (a, s))"
    then consider "(c, x) \<in> set (rmatch r1 (a, s))" | "(c, x) \<in> set (rmatch r2 (a, s))"
      by auto
    then show "\<exists>w. s = w @ x \<and> (\<forall>d \<in> set w. re_chars (RAlt r1 r2) d) \<and> (has_marker (RAlt r1 r2) \<longrightarrow> (\<exists>d \<in> set w. marker d))"
    proof cases
      case 1
      obtain w where "s = w @ x" "\<forall>d \<in> set w. re_chars r1 d" "has_marker r1 \<longrightarrow> (\<exists>d \<in> set w. marker d)"
        using consumesD [OF RAlt.IH(1) 1] by blast
      then show ?thesis
        by (intro exI [of _ w]) simp
    next
      case 2
      obtain w where "s = w @ x" "\<forall>d \<in> set w. re_chars r2 d" "has_marker r2 \<longrightarrow> (\<exists>d \<in> set w. marker d)"
        using consumesD [OF RAlt.IH(2) 2] by blast
      then show ?thesis
        by (intro exI [of _ w]) simp
    qed
  qed
next
  case (RRep lo hi r)
  then show ?case
    using consumes_repeat [of "re_chars r" "has_marker r" "rmatch r" lo hi] by (simp add: consumes_def)
next
  case (RMany lo r)
  then show ?case
    using consumes_repeat [of "re_chars r" "has_marker r" "rmatch r" lo] unfolding consumes_def by simp
qed

section \<open>No match survives its substitution\<close>

text \<open>Patterns anchored by a boundary at both ends whose matches avoid brackets and hold a digit or an at sign.\<close>

primrec starts_bound :: "re \<Rightarrow> bool" where
  "starts_bound (RCls q) = False"
| "starts_bound RBound = True"
| "starts_bound (RSeq a b) = starts_bound a"
| "starts_bound (RAlt a b) = (starts_bound a \<and> starts_bound b)"
| "starts_bound (RRep lo hi r) = False"
| "starts_bound (RMany lo r) = False"

primrec ends_bound :: "re \<Rightarrow> bool" where
  "ends_bound (RCls q) = False"
| "ends_bound RBound = True"
| "ends_bound (RSeq a b) = ends_bound b"
| "ends_bound (RAlt a b) = (ends_bound a \<and> ends_bound b)"
| "ends_bound (RRep lo hi r) = False"
| "ends_bound (RMany lo r) = False"

definition anchored :: "re \<Rightarrow> bool" where
  "anchored r \<longleftrightarrow> wf_re r \<and> starts_bound r \<and> ends_bound r \<and> has_marker r \<and> \<not> re_chars r CHR ''['' \<and> \<not> re_chars r CHR '']''"

lemma starts_bound_match: "starts_bound r \<Longrightarrow> z \<in> set (rmatch r (a, s)) \<Longrightarrow> prev_word a \<noteq> next_word s"
  by (induction r arbitrary: z) (auto simp: at_bound_eq split: if_splits)

lemma ends_bound_match: "ends_bound r \<Longrightarrow> (c, x) \<in> set (rmatch r p) \<Longrightarrow> prev_word c \<noteq> next_word x"
  by (induction r arbitrary: p) (auto simp: at_bound_eq split: if_splits)

lemma anchored_match:
  assumes "anchored r" and "(c, x) \<in> set (rmatch r (a, s))"
  obtains w where "s = w @ x" "c = behind a w" "takes (rmatch r) w a x" "\<exists>d \<in> set w. marker d" "CHR ''['' \<notin> set w"
    "CHR '']'' \<notin> set w" "prev_word a \<noteq> next_word s" "prev_word c \<noteq> next_word x"
proof -
  obtain w where w: "s = w @ x" "c = behind a w" "takes (rmatch r) w a x"
    using local_stepD [OF rmatch_local assms(2)] assms(1) by (auto simp: anchored_def)
  obtain w' where w': "s = w' @ x" "\<forall>d \<in> set w'. re_chars r d" "\<exists>d \<in> set w'. marker d"
    using consumesD [OF rmatch_consumes assms(2)] assms(1) by (auto simp: anchored_def)
  have "prev_word a \<noteq> next_word s" and "prev_word c \<noteq> next_word x"
    using starts_bound_match [OF _ assms(2)] ends_bound_match [OF _ assms(2)] assms(1) by (auto simp: anchored_def)
  moreover have "w' = w"
    using w(1) w'(1) by simp
  ultimately show thesis
    using that w w' assms(1) by (auto simp: anchored_def)
qed

lemma anchored_match_here:
  assumes "anchored r" and "match_here r (a, s) = Some (m, c, x)"
  shows "s = m @ x" and "c = behind a m" and "m \<noteq> []" and "prev_word a \<noteq> next_word s" and "prev_word c \<noteq> next_word x"
proof -
  have "(c, x) \<in> set (rmatch r (a, s))" and m: "m = take (length s - length x) s"
    using assms(2) by (auto simp: match_here_def split: list.splits)
  then obtain w where "s = w @ x" "c = behind a w" "\<exists>d \<in> set w. marker d" "prev_word a \<noteq> next_word s" "prev_word c \<noteq> next_word x"
    using anchored_match [OF assms(1)] by metis
  then show "s = m @ x" and "c = behind a m" and "m \<noteq> []" and "prev_word a \<noteq> next_word s" and "prev_word c \<noteq> next_word x"
    using m by auto
qed

text \<open>A text without a match at any position.\<close>

definition matchless :: "re \<Rightarrow> char option \<Rightarrow> string \<Rightarrow> bool" where
  "matchless q a s \<longleftrightarrow> (\<forall>u v. s = u @ v \<longrightarrow> rmatch q (behind a u, v) = [])"

lemma all_splits_Cons:
  "(\<forall>u v. c # m = u @ v \<longrightarrow> P u v) \<longleftrightarrow> P [] (c # m) \<and> (\<forall>u v. m = u @ v \<longrightarrow> P (c # u) v)"
  by (auto simp: Cons_eq_append_conv)

lemma matchless_Nil: "matchless q a [] \<longleftrightarrow> rmatch q (a, []) = []"
  by (simp add: matchless_def)

lemma matchless_Cons: "matchless q a (c # cs) \<longleftrightarrow> rmatch q (a, c # cs) = [] \<and> matchless q (Some c) cs"
  unfolding matchless_def by (subst all_splits_Cons) simp

lemma matchless_append:
  "matchless q a (m @ t) \<longleftrightarrow> (\<forall>u v. m = u @ v \<longrightarrow> v \<noteq> [] \<longrightarrow> rmatch q (behind a u, v @ t) = []) \<and> matchless q (behind a m) t"
proof (induction m arbitrary: a)
  case Nil
  show ?case
    by simp
next
  case (Cons c m)
  have "(\<forall>u v. c # m = u @ v \<longrightarrow> v \<noteq> [] \<longrightarrow> rmatch q (behind a u, v @ t) = []) \<longleftrightarrow>
      rmatch q (a, c # m @ t) = [] \<and> (\<forall>u v. m = u @ v \<longrightarrow> v \<noteq> [] \<longrightarrow> rmatch q (behind (Some c) u, v @ t) = [])"
    by (subst all_splits_Cons) simp
  then show ?case
    using Cons.IH [of "Some c"] by (simp add: matchless_Cons)
qed

lemma re_search_no_match: "re_search_from q a s \<longleftrightarrow> \<not> matchless q a s"
  by (induction s arbitrary: a) (auto simp: matchless_Nil matchless_Cons match_here_def split: list.splits)

text \<open>Substitution rules for an anchored pattern, and the induction they give.\<close>

lemma sub_match:
  assumes "anchored r" and "match_here r (a, s) = Some (m, b, x)"
  shows "re_sub_from f r a s = f m @ re_sub_from f r (behind a m) x" and "s = m @ x" and "m \<noteq> []"
proof -
  note here = anchored_match_here [OF assms]
  have "s \<noteq> []"
    using here(1,3) by simp
  then obtain c cs where s: "s = c # cs"
    by (cases s) simp_all
  have "length x < length s"
    using here(1,3) by simp
  then show "re_sub_from f r a s = f m @ re_sub_from f r (behind a m) x"
    using assms(2) here(2) unfolding s by simp
  show "s = m @ x" and "m \<noteq> []"
    using here by blast+
qed

lemma sub_skip: "match_here r (a, c # cs) = None \<Longrightarrow> re_sub_from f r a (c # cs) = c # re_sub_from f r (Some c) cs"
  by simp

lemma sub_induct [consumes 1, case_names Nil match skip]:
  assumes "anchored r"
    and "\<And>a. P a []"
    and "\<And>a m x b. m \<noteq> [] \<Longrightarrow> match_here r (a, m @ x) = Some (m, b, x) \<Longrightarrow> P (behind a m) x \<Longrightarrow> P a (m @ x)"
    and "\<And>a c cs. match_here r (a, c # cs) = None \<Longrightarrow> P (Some c) cs \<Longrightarrow> P a (c # cs)"
  shows "P a s"
proof (induction s arbitrary: a rule: length_induct)
  case (1 s)
  show ?case
  proof (cases "match_here r (a, s)")
    case None
    then show ?thesis
      using 1 assms(2,4) by (cases s) auto
  next
    case (Some z)
    then obtain m b x where z: "match_here r (a, s) = Some (m, b, x)"
      by (cases z) auto
    then show ?thesis
      using 1 assms(3) [of m a x b] sub_match(2,3) [OF assms(1) z] by auto
  qed
qed

text \<open>Replaced text opens with a bracket; all other text stays as it was.\<close>

definition substitutes :: "(string \<Rightarrow> string) \<Rightarrow> bool" where
  "substitutes f \<longleftrightarrow> (\<forall>m. f m = m \<or> (\<exists>i. f m = CHR ''['' # i @ '']'' \<and> (\<forall>d \<in> set i. \<not> marker d)))"

lemma substitutesE:
  assumes "substitutes f"
  obtains (kept) "f m = m" | (replaced) i where "f m = CHR ''['' # i @ '']''" "\<forall>d \<in> set i. \<not> marker d"
  using assms unfolding substitutes_def by metis

lemma bracket_no_word [simp]: "\<not> word_char CHR ''[''" "\<not> word_char CHR '']''"
  by (simp_all add: word_char_def is_dec_def less_eq_char_def)

definition same_end :: "char option \<Rightarrow> string \<Rightarrow> string \<Rightarrow> bool" where
  "same_end c y x \<longleftrightarrow> next_word y = next_word x \<or> (\<not> next_word y \<and> prev_word c \<noteq> next_word x)"

lemma append_splits:
  assumes "m @ t = w @ y"
  obtains v where "v \<noteq> []" "m = w @ v" "y = v @ t" | v where "w = m @ v" "t = v @ y"
  using assms by (metis append_eq_append_conv2 append_Nil append_Nil2)

lemma sub_prefix:
  assumes "anchored r" and "substitutes f"
  shows "re_sub_from f r a s = w @ y \<Longrightarrow> CHR ''['' \<notin> set w \<Longrightarrow> \<exists>x. s = w @ x \<and> same_end (behind a w) y x"
  using assms(1)
proof (induction a s arbitrary: w rule: sub_induct)
  case (Nil a)
  then show ?case
    by (simp add: same_end_def)
next
  case (match a m x b)
  have sub: "re_sub_from f r a (m @ x) = f m @ re_sub_from f r (behind a m) x"
    using sub_match(1) [OF assms(1) match(2)] .
  from assms(2) show ?case
  proof (cases rule: substitutesE [of f m])
    case kept
    then have "m @ re_sub_from f r (behind a m) x = w @ y"
      using match.prems(1) sub by simp
    then show ?thesis
    proof (cases rule: append_splits)
      case 1
      then show ?thesis
        by (auto simp: same_end_def neq_Nil_conv)
    next
      case (2 v)
      then show ?thesis
        using match.IH [of v] match.prems(2) by auto
    qed
  next
    case (replaced i)
    then have "w = [] \<and> \<not> next_word y"
      using match.prems sub by (cases w) auto
    then show ?thesis
      using anchored_match_here(4) [OF assms(1) match(2)] by (simp add: same_end_def)
  qed
next
  case (skip a c cs)
  show ?case
  proof (cases w)
    case Nil
    then show ?thesis
      using skip.prems sub_skip [OF skip.hyps] by (auto simp: same_end_def)
  next
    case (Cons d v)
    then show ?thesis
      using skip.prems sub_skip [OF skip.hyps, of f] skip.IH [of v] by auto
  qed
qed

text \<open>One position: a match in the rewritten text is a match of the original text.\<close>

definition same_start :: "char option \<Rightarrow> char option \<Rightarrow> string \<Rightarrow> bool" where
  "same_start b a s \<longleftrightarrow> prev_word b = prev_word a \<or> (\<not> prev_word b \<and> prev_word a \<noteq> next_word s)"

lemma sub_prefix_kept:
  assumes "anchored r" and "substitutes f" and "v @ re_sub_from f r (behind a v) s = w @ y" and "CHR ''['' \<notin> set w"
  shows "\<exists>x. v @ s = w @ x \<and> same_end (behind a w) y x"
  using assms(3)
proof (cases rule: append_splits)
  case (1 u)
  then show ?thesis
    by (auto simp: same_end_def neq_Nil_conv)
next
  case (2 u)
  then show ?thesis
    using sub_prefix [OF assms(1,2) 2(2)] assms(4) by auto
qed

lemma sub_position:
  assumes "anchored q" and "anchored r" and "substitutes f" and "same_start b a (v @ s)" and "rmatch q (a, v @ s) = []"
  shows "rmatch q (b, v @ re_sub_from f r (behind a v) s) = []"
proof (rule ccontr)
  assume "rmatch q (b, v @ re_sub_from f r (behind a v) s) \<noteq> []"
  then obtain c y where "(c, y) \<in> set (rmatch q (b, v @ re_sub_from f r (behind a v) s))"
    by (metis last_in_set surj_pair)
  then obtain w where w: "v @ re_sub_from f r (behind a v) s = w @ y" "c = behind b w" "takes (rmatch q) w b y" "w \<noteq> []"
      "CHR ''['' \<notin> set w" "prev_word b \<noteq> next_word (w @ y)" "prev_word c \<noteq> next_word y"
    using anchored_match [OF assms(1)] by (metis empty_iff empty_set)
  obtain x where x: "v @ s = w @ x" "same_end (behind a w) y x"
    using sub_prefix_kept [OF assms(2,3) w(1,5)] by blast
  have "behind a w = behind b w" and "next_word (w @ y) = next_word (w @ x)"
    using w(4) by (auto simp: behind_def neq_Nil_conv)
  then have "next_word x = next_word y" and "prev_word a = prev_word b"
    using x w assms(4) by (auto simp: same_end_def same_start_def)
  then have "(behind a w, x) \<in> set (rmatch q (a, w @ x))"
    using takesD [OF w(3)] by metis
  then show False
    using assms(5) x(1) by simp
qed

lemma anchored_empty: "anchored q \<Longrightarrow> rmatch q (b, []) = []"
proof (rule ccontr)
  assume q: "anchored q" and "rmatch q (b, []) \<noteq> []"
  then obtain c y where "(c, y) \<in> set (rmatch q (b, []))"
    by (metis last_in_set surj_pair)
  then show False
    using q by (auto elim: anchored_match)
qed

lemma placeholder_position:
  assumes "anchored q" and "\<forall>d \<in> set i. \<not> marker d" and "CHR ''['' # i @ '']'' = u @ v" and "v \<noteq> []"
  shows "rmatch q (b, v @ t) = []"
proof (rule ccontr)
  assume "rmatch q (b, v @ t) \<noteq> []"
  then obtain c y where "(c, y) \<in> set (rmatch q (b, v @ t))"
    by (metis last_in_set surj_pair)
  then obtain w where w: "v @ t = w @ y" "\<exists>d \<in> set w. marker d" "CHR '']'' \<notin> set w"
    using anchored_match [OF assms(1)] by metis
  have v: "CHR '']'' \<in> set v"
    using assms(3,4) by (metis append_butlast_last_id append_is_Nil_conv in_set_conv_decomp last_appendR last_snoc append_Cons)
  have no: "\<forall>d \<in> set (CHR ''['' # i @ '']''). \<not> marker d"
    using assms(2) by (auto simp: marker_def is_dec_def less_eq_char_def)
  from w(1) show False
  proof (cases rule: append_splits)
    case (1 z)
    then show ?thesis
      using w(2) no assms(3) by auto
  next
    case (2 z)
    then show ?thesis
      using v w(3) by auto
  qed
qed

text \<open>A rewriting creates no match of a pattern, and removes all of its own when it replaces each of them.\<close>

lemma sub_no_match:
  assumes "anchored q" and "anchored r" and "substitutes f"
    and own: "matchless q a s \<or> q = r \<and> (\<forall>m. \<exists>i. f m = CHR ''['' # i @ '']'' \<and> (\<forall>d \<in> set i. \<not> marker d))"
    and "same_start b a s"
  shows "matchless q b (re_sub_from f r a s)"
  using assms(2,4,5)
proof (induction a s arbitrary: b rule: sub_induct)
  case (Nil a)
  show ?case
    using anchored_empty [OF assms(1)] by (simp add: matchless_Nil)
next
  case (match a m x b')
  have sub: "re_sub_from f r a (m @ x) = f m @ re_sub_from f r (behind a m) x"
    using sub_match(1) [OF assms(2) match(2)] .
  have rest: "matchless q (behind a m) x \<or> q = r \<and> (\<forall>m. \<exists>i. f m = CHR ''['' # i @ '']'' \<and> (\<forall>d \<in> set i. \<not> marker d))"
    using match.prems(1) by (auto simp: matchless_append)
  consider (replaced) i where "f m = CHR ''['' # i @ '']''" "\<forall>d \<in> set i. \<not> marker d" | (kept) "f m = m" "matchless q a (m @ x)"
    using match.prems(1) assms(3) unfolding substitutes_def by metis
  then show ?case
  proof cases
    case (replaced i)
    have "same_start (Some CHR '']'') (behind a m) x"
      using anchored_match_here(2,5) [OF assms(2) match(2)] by (simp add: same_start_def)
    then have "matchless q (behind b (f m)) (re_sub_from f r (behind a m) x)"
      using match.IH [OF rest] replaced by (simp add: behind_def)
    then show ?thesis
      using placeholder_position [OF assms(1) replaced(2)] unfolding sub matchless_append replaced(1) by blast
  next
    case kept
    have "rmatch q (behind b u, v @ re_sub_from f r (behind a m) x) = []" if "m = u @ v" "v \<noteq> []" for u v
    proof -
      have "rmatch q (behind a u, v @ x) = []"
        using kept(2) that unfolding matchless_append by blast
      moreover have "same_start (behind b u) (behind a u) (v @ x)"
        using match.prems(2) that by (cases "u = []") (auto simp: same_start_def behind_def)
      ultimately show ?thesis
        using sub_position [OF assms(1,2,3), of "behind b u" "behind a u" v x] that by simp
    qed
    moreover have "matchless q (behind b m) (re_sub_from f r (behind a m) x)"
      using match.IH [OF rest, of "behind b m"] match(1) by (simp add: same_start_def behind_def)
    ultimately show ?thesis
      using kept sub by (simp add: matchless_append)
  qed
next
  case (skip a c cs)
  have "rmatch q (a, c # cs) = []"
    using skip by (auto simp: matchless_Cons match_here_def split: list.splits)
  then have "rmatch q (b, c # re_sub_from f r (Some c) cs) = []"
    using sub_position [OF assms(1,2,3), of b a "[c]" cs] skip.prems by simp
  moreover have "matchless q (Some c) (re_sub_from f r (Some c) cs)"
    using skip.IH [of "Some c"] skip.prems by (auto simp: matchless_Cons same_start_def)
  ultimately show ?case
    using sub_skip [OF skip.hyps] by (simp add: matchless_Cons)
qed

lemma sub_unvisited:
  assumes "anchored r" and "\<And>m. \<not> q m \<Longrightarrow> f m = m"
  shows "\<not> sub_visits q r a s \<Longrightarrow> re_sub_from f r a s = s"
  using assms(1)
proof (induction a s rule: sub_induct)
  case (match a m x b)
  obtain c cs where s: "m @ x = c # cs"
    using match(1) by (cases m) auto
  have "length x < length (c # cs)"
    using match(1) unfolding s [symmetric] by simp
  moreover have "b = behind a m"
    using anchored_match_here(2) [OF assms(1) match(2)] .
  ultimately have "\<not> q m" and "\<not> sub_visits q r (behind a m) x"
    using match.prems match(2) unfolding s by auto
  then show ?case
    using match.IH assms(2) sub_match(1) [OF assms(1) match(2)] by simp
qed simp_all

end
