(* ===== verification/Redaction.thy ===== *)
theory Redaction
  imports Regex
begin

text \<open>Prompt redaction (\<open>llm/redaction.py\<close>): the patterns, the substitutions, and that no match of the first four survives.\<close>

section \<open>The patterns\<close>

definition EMAIL :: re where
  "EMAIL = rseq [RBound, RMany 1 (RCls (\<lambda>c. word_char c \<or> c \<in> set ''.%+-'')), rchar CHR ''@'',
     RMany 1 (RCls (\<lambda>c. word_char c \<or> c \<in> set ''.-'')), rchar CHR ''.'',
     RMany 2 (RCls (\<lambda>c. (CHR ''A'' \<le> c \<and> c \<le> CHR ''Z'') \<or> (CHR ''a'' \<le> c \<and> c \<le> CHR ''z''))), RBound]"

definition CREDIT_CARD :: re where
  "CREDIT_CARD = rseq [RBound, RRep 13 19 (RSeq rdigit (RRep 0 1 (RCls (\<lambda>c. c = CHR '' '' \<or> c = CHR ''-'')))), RBound]"

definition SSN :: re where
  "SSN = rseq [RBound, RRep 3 3 rdigit, rchar CHR ''-'', RRep 2 2 rdigit, rchar CHR ''-'', RRep 4 4 rdigit, RBound]"

definition IP_ADDRESS :: re where
  "IP_ADDRESS = rseq [RBound, RRep 3 3 (RSeq (RRep 1 3 rdigit) (rchar CHR ''.'')), RRep 1 3 rdigit, RBound]"

definition PHONE :: re where
  "PHONE = rseq [RBound, RRep 0 1 (rchar CHR ''+''), rdigit,
     RMany 7 (RCls (\<lambda>c. is_dec c \<or> is_space c \<or> c \<in> set ''().-'')), rdigit, RBound]"

definition DATE_LIKE :: re where
  "DATE_LIKE = rseq [RRep 4 4 rdigit, rchar CHR ''-'', RRep 2 2 rdigit, rchar CHR ''-'', RRep 2 2 rdigit]"

section \<open>Redaction\<close>

definition scrub :: "string \<Rightarrow> string \<Rightarrow> re \<Rightarrow> string \<times> string set \<Rightarrow> string \<times> string set" where
  "scrub label placeholder r st =
     (if re_search r (fst st) then (re_sub (\<lambda>_. placeholder) r (fst st), insert label (snd st)) else st)"

definition phone_sub :: "string \<Rightarrow> string" where
  "phone_sub m = (if re_search DATE_LIKE m then m else ''[REDACTED_PHONE]'')"

definition scrub_phone :: "string \<times> string set \<Rightarrow> string \<times> string set" where
  "scrub_phone st = (re_sub phone_sub PHONE (fst st),
     if sub_visits (\<lambda>m. \<not> re_search DATE_LIKE m) PHONE None (fst st) then insert ''phone'' (snd st) else snd st)"

definition redact_text :: "string \<Rightarrow> string \<times> string set" where
  "redact_text s = scrub_phone (scrub ''ip_address'' ''[REDACTED_IP_ADDRESS]'' IP_ADDRESS (scrub ''ssn'' ''[REDACTED_SSN]'' SSN
     (scrub ''credit_card'' ''[REDACTED_CREDIT_CARD]'' CREDIT_CARD (scrub ''email'' ''[REDACTED_EMAIL]'' EMAIL (s, {})))))"

record llm_message =
  lm_role :: string
  lm_content :: string
  lm_cache_control :: bool

definition redact_message :: "llm_message \<Rightarrow> llm_message \<times> string set" where
  "redact_message m =
     (let (clean, found) = redact_text (lm_content m)
      in (if found \<noteq> {} then \<lparr>lm_role = lm_role m, lm_content = clean, lm_cache_control = False\<rparr> else m, found))"

definition redact_messages :: "llm_message list \<Rightarrow> llm_message list \<times> string set" where
  "redact_messages ms = (map (fst \<circ> redact_message) ms, \<Union> (set (map (snd \<circ> redact_message) ms)))"

lemma sample_redaction:
  "redact_text ''mail bo@x.io or 555-123-4567, ssn 123-45-6789, at 2026-04-01 16:05:00 on 10.0.0.1''
   = (''mail [REDACTED_EMAIL] or [REDACTED_PHONE], ssn [REDACTED_SSN], at 2026-04-01 16:05:00 on [REDACTED_IP_ADDRESS]'',
      {''email'', ''ssn'', ''ip_address'', ''phone''})"
  by code_simp

section \<open>Redacted text\<close>

lemma anchored_patterns: "anchored EMAIL" "anchored CREDIT_CARD" "anchored SSN" "anchored IP_ADDRESS" "anchored PHONE"
  by code_simp+

lemma placeholders:
  "\<exists>i. ''[REDACTED_EMAIL]'' = CHR ''['' # i @ '']'' \<and> (\<forall>d \<in> set i. \<not> marker d)"
  "\<exists>i. ''[REDACTED_CREDIT_CARD]'' = CHR ''['' # i @ '']'' \<and> (\<forall>d \<in> set i. \<not> marker d)"
  "\<exists>i. ''[REDACTED_SSN]'' = CHR ''['' # i @ '']'' \<and> (\<forall>d \<in> set i. \<not> marker d)"
  "\<exists>i. ''[REDACTED_IP_ADDRESS]'' = CHR ''['' # i @ '']'' \<and> (\<forall>d \<in> set i. \<not> marker d)"
  "\<exists>i. ''[REDACTED_PHONE]'' = CHR ''['' # i @ '']'' \<and> (\<forall>d \<in> set i. \<not> marker d)"
  by (rule exI [of _ "''REDACTED_EMAIL''"], simp add: marker_def is_dec_def less_eq_char_def)
    (rule exI [of _ "''REDACTED_CREDIT_CARD''"], simp add: marker_def is_dec_def less_eq_char_def,
     rule exI [of _ "''REDACTED_SSN''"], simp add: marker_def is_dec_def less_eq_char_def,
     rule exI [of _ "''REDACTED_IP_ADDRESS''"], simp add: marker_def is_dec_def less_eq_char_def,
     rule exI [of _ "''REDACTED_PHONE''"], simp add: marker_def is_dec_def less_eq_char_def)

lemma re_search_sub_own:
  assumes "anchored r" and "\<exists>i. ph = CHR ''['' # i @ '']'' \<and> (\<forall>d \<in> set i. \<not> marker d)"
  shows "\<not> re_search r (re_sub (\<lambda>_. ph) r s)"
  using sub_no_match [OF assms(1,1), of "\<lambda>_. ph" None s None] assms(2)
  by (simp add: re_search_def re_sub_def re_search_no_match substitutes_def same_start_def)

lemma re_search_sub_other:
  assumes "anchored q" and "anchored r" and "substitutes f" and "\<not> re_search q s"
  shows "\<not> re_search q (re_sub f r s)"
  using sub_no_match [OF assms(1-3), of None s None] assms(4)
  by (simp add: re_search_def re_sub_def re_search_no_match same_start_def)

lemma scrub_own:
  "anchored r \<Longrightarrow> \<exists>i. ph = CHR ''['' # i @ '']'' \<and> (\<forall>d \<in> set i. \<not> marker d) \<Longrightarrow> \<not> re_search r (fst (scrub l ph r st))"
  by (simp add: scrub_def re_search_sub_own)

lemma scrub_other:
  "anchored q \<Longrightarrow> anchored r \<Longrightarrow> \<exists>i. ph = CHR ''['' # i @ '']'' \<and> (\<forall>d \<in> set i. \<not> marker d) \<Longrightarrow>
     \<not> re_search q (fst st) \<Longrightarrow> \<not> re_search q (fst (scrub l ph r st))"
  using re_search_sub_other [of q r "\<lambda>_. ph" "fst st"] by (simp add: scrub_def substitutes_def)

lemma scrub_phone_other: "anchored q \<Longrightarrow> \<not> re_search q (fst st) \<Longrightarrow> \<not> re_search q (fst (scrub_phone st))"
  using re_search_sub_other [of q PHONE phone_sub "fst st"] anchored_patterns(5) placeholders(5)
  by (simp add: scrub_phone_def substitutes_def phone_sub_def)

text \<open>When no class was found the text is unchanged, so the message that is passed on as it stands is the redacted one.\<close>

lemma found_nothing: "snd (redact_text t) = {} \<Longrightarrow> fst (redact_text t) = t"
proof -
  have phone: "snd (scrub_phone st) = {} \<Longrightarrow> scrub_phone st = st" for st
    using sub_unvisited [OF anchored_patterns(5), of "\<lambda>m. \<not> re_search DATE_LIKE m" phone_sub None "fst st"]
    by (cases st) (simp add: scrub_phone_def re_sub_def phone_sub_def split: if_splits)
  have scrub: "snd (scrub l ph r st) = {} \<Longrightarrow> scrub l ph r st = st" for l ph r st
    by (simp add: scrub_def split: if_splits)
  show "snd (redact_text t) = {} \<Longrightarrow> fst (redact_text t) = t"
    unfolding redact_text_def using phone scrub by (metis fst_conv)
qed

lemma redact_message_content: "lm_content (fst (redact_message m)) = fst (redact_text (lm_content m))"
  using found_nothing [of "lm_content m"] by (auto simp: redact_message_def split: prod.splits)

text \<open>
  Whatever the text, the text \<open>redact_text\<close> returns holds no e-mail address, no card number, no social security number
  and no IPv4 address, in the sense of the module's own patterns: no substitution leaves a match of its pattern, and no later
  substitution (the telephone one, which leaves dates alone, included) brings a match of an earlier pattern back.
\<close>

lemma redact_text_clean:
  "\<not> re_search EMAIL (fst (redact_text s)) \<and> \<not> re_search CREDIT_CARD (fst (redact_text s)) \<and>
   \<not> re_search SSN (fst (redact_text s)) \<and> \<not> re_search IP_ADDRESS (fst (redact_text s))"
  unfolding redact_text_def
  by (intro conjI scrub_phone_other scrub_own scrub_other anchored_patterns placeholders)

end
