(* ===== verification/Transport.thy ===== *)
theory Transport
  imports Redaction Complex_Main
begin

text \<open>
  The value objects of the model gateway (\<open>llm/models.py\<close>) and its two transports (\<open>llm/transport.py\<close>). A transport is a
  record of three operations that thread a state of their own; the deterministic \<open>EchoTransport\<close> is one such record, the
  \<open>LiteLLMTransport\<close> another, over an HTTP client that is a parameter. Floats are rational numbers.
\<close>

section \<open>Value objects\<close>

datatype response_format = FMT_TEXT | FMT_JSON

record llm_request =
  lr_messages :: "llm_message list"
  lr_model :: string
  lr_tenant_id :: string
  lr_user_id :: string
  lr_temperature :: rat
  lr_max_tokens :: int
  lr_response_format :: response_format
  lr_request_id :: string

text \<open>What the gateway and the transports raise. \<open>LLMGatewayError\<close> carries its cause.\<close>

datatype llm_exc =
    LLMUpstreamError
  | LLMTimeoutError
  | LLMRateLimitError
  | LLMGatewayError "llm_exc option"
  | QuotaExceededError string
  | ValueError string
  | AttributeError
  | TypeError
  | KeyError
  | OtherException string

definition request_post_init :: "llm_request \<Rightarrow> llm_exc + llm_request" where
  "request_post_init rq =
     (if lr_tenant_id rq = [] then Inl (ValueError ''LlmRequest.tenant_id is mandatory (cost/quota are per-tenant)'')
      else if lr_messages rq = [] then Inl (ValueError ''LlmRequest.messages must be non-empty'')
      else Inr rq)"

record transport_result =
  tr_content :: string
  tr_prompt_tokens :: int
  tr_completion_tokens :: int
  tr_finish_reason :: string
  tr_actual_model :: string
  tr_cache_read :: int
  tr_cache_creation :: int

record llm_response =
  rs_content :: string
  rs_model :: string
  rs_prompt_tokens :: int
  rs_completion_tokens :: int
  rs_cost_usd :: rat
  rs_latency_ms :: int
  rs_finish_reason :: string
  rs_redacted_pii :: "string list"
  rs_fell_back :: bool
  rs_cache_read :: int
  rs_cache_creation :: int

definition total_tokens :: "llm_response \<Rightarrow> int" where
  "total_tokens r = rs_prompt_tokens r + rs_completion_tokens r"

definition prompt_cache_hit_ratio :: "llm_response \<Rightarrow> rat" where
  "prompt_cache_hit_ratio r =
     (if rs_prompt_tokens r \<le> 0 then 0 else min 1 (of_int (rs_cache_read r) / of_int (rs_prompt_tokens r)))"

record stream_delta =
  sd_text :: string
  sd_final :: bool
  sd_prompt_tokens :: int
  sd_completion_tokens :: int
  sd_finish_reason :: string
  sd_actual_model :: string
  sd_cache_read :: int
  sd_cache_creation :: int

definition text_delta :: "string \<Rightarrow> stream_delta" where
  "text_delta t = \<lparr>sd_text = t, sd_final = False, sd_prompt_tokens = 0, sd_completion_tokens = 0, sd_finish_reason = [],
     sd_actual_model = [], sd_cache_read = 0, sd_cache_creation = 0\<rparr>"

record llm_stream_chunk =
  ch_delta :: string
  ch_done :: bool
  ch_response :: "llm_response option"

text \<open>
  The transport protocol. A stream is the deltas it yields in order and the exception that ends it, if one does.
\<close>

record 't llm_transport =
  t_complete :: "'t \<Rightarrow> llm_request \<Rightarrow> (llm_exc + transport_result) \<times> 't"
  t_stream :: "'t \<Rightarrow> llm_request \<Rightarrow> (stream_delta list \<times> llm_exc option) \<times> 't"
  t_embed :: "'t \<Rightarrow> string list \<Rightarrow> string \<Rightarrow> int option \<Rightarrow> (llm_exc + rat list list) \<times> 't"

section \<open>EchoTransport\<close>

definition estimate_tokens :: "string \<Rightarrow> int" where
  "estimate_tokens t = max 1 (int (length t div 4))"

text \<open>The constructor's settings; the state of the transport is \<open>_fail_remaining\<close>.\<close>

record echo_config =
  ec_canned :: "string option"
  ec_embed_dims :: int

definition echo_content :: "echo_config \<Rightarrow> llm_request \<Rightarrow> string" where
  "echo_content ec rq = (case ec_canned ec of
     Some c \<Rightarrow> c
   | None \<Rightarrow> ''echo: '' @ (case find (\<lambda>m. lm_role m = ''user'') (rev (lr_messages rq)) of None \<Rightarrow> [] | Some m \<Rightarrow> lm_content m))"

definition echo_prompt_tokens :: "llm_request \<Rightarrow> int" where
  "echo_prompt_tokens rq = sum_list (map (estimate_tokens \<circ> lm_content) (lr_messages rq))"

definition echo_complete :: "echo_config \<Rightarrow> int \<Rightarrow> llm_request \<Rightarrow> (llm_exc + transport_result) \<times> int" where
  "echo_complete ec n rq =
     (if 0 < n then (Inl LLMUpstreamError, n - 1)
      else let content = echo_content ec rq
           in (Inr \<lparr>tr_content = content, tr_prompt_tokens = echo_prompt_tokens rq, tr_completion_tokens = estimate_tokens content,
                tr_finish_reason = ''stop'', tr_actual_model = lr_model rq, tr_cache_read = 0, tr_cache_creation = 0\<rparr>, n))"

fun echo_pieces :: "string list \<Rightarrow> string list" where
  "echo_pieces [] = []"
| "echo_pieces [part] = (if part = [] then [] else [part])"
| "echo_pieces (part # parts) = (part @ '' '') # echo_pieces parts"

definition echo_stream :: "echo_config \<Rightarrow> int \<Rightarrow> llm_request \<Rightarrow> (stream_delta list \<times> llm_exc option) \<times> int" where
  "echo_stream ec n rq =
     (if 0 < n then (([], Some LLMUpstreamError), n - 1)
      else let content = echo_content ec rq
           in ((map text_delta (echo_pieces (split_on CHR '' '' content)) @
                [\<lparr>sd_text = [], sd_final = True, sd_prompt_tokens = echo_prompt_tokens rq,
                  sd_completion_tokens = estimate_tokens content, sd_finish_reason = ''stop'',
                  sd_actual_model = lr_model rq, sd_cache_read = 0, sd_cache_creation = 0\<rparr>], None), n))"

text \<open>The vectors repeat the bytes of a digest of the text, which is a parameter (\<open>sha256\<close>).\<close>

definition echo_embed ::
    "(string \<Rightarrow> int list) \<Rightarrow> echo_config \<Rightarrow> int \<Rightarrow> string list \<Rightarrow> string \<Rightarrow> int option \<Rightarrow> (llm_exc + rat list list) \<times> int" where
  "echo_embed sha256 ec n texts model dimensions =
     (let dims = (case dimensions of Some d \<Rightarrow> if d = 0 then ec_embed_dims ec else d | None \<Rightarrow> ec_embed_dims ec)
      in (Inr (map (\<lambda>t. map (\<lambda>i. of_int (sha256 t ! (i mod length (sha256 t))) / 255) [0..<nat dims]) texts), n))"

definition echo_transport :: "(string \<Rightarrow> int list) \<Rightarrow> echo_config \<Rightarrow> int llm_transport" where
  "echo_transport sha256 ec = \<lparr>t_complete = echo_complete ec, t_stream = echo_stream ec, t_embed = echo_embed sha256 ec\<rparr>"

lemma echo_pieces_concat: "parts \<noteq> [] \<Longrightarrow> concat (echo_pieces parts) = join '' '' parts"
  by (induction parts rule: echo_pieces.induct) simp_all

lemma join_split_on: "join [sep] (split_on sep s) = s"
proof (induction s)
  case (Cons c cs)
  then show ?case
    by (cases "split_on sep cs"; cases "tl (split_on sep cs)") auto
qed simp

lemma echo_pieces_nonempty: "p \<in> set (echo_pieces parts) \<Longrightarrow> p \<noteq> []"
  by (induction parts rule: echo_pieces.induct) (auto split: if_splits)

section \<open>LiteLLMTransport\<close>

definition is_anthropic_model :: "string \<Rightarrow> bool" where
  "is_anthropic_model model = (contains (lower model) ''claude'' \<or> contains (lower model) ''anthropic'')"

definition flat_message :: "llm_message \<Rightarrow> json" where
  "flat_message m = JObj [(''role'', JStr (lm_role m)), (''content'', JStr (lm_content m))]"

definition build_messages_payload :: "llm_message list \<Rightarrow> string \<Rightarrow> json list" where
  "build_messages_payload messages model =
     (if \<not> is_anthropic_model model \<or> \<not> list_ex lm_cache_control messages then map flat_message messages
      else map (\<lambda>m. if lm_cache_control m
                    then JObj [(''role'', JStr (lm_role m)),
                               (''content'', JList [JObj [(''type'', JStr ''text''), (''text'', JStr (lm_content m)),
                                  (''cache_control'', JObj [(''type'', JStr ''ephemeral'')])]])]
                    else flat_message m) messages)"

text \<open>\<open>x.get(k)\<close> where \<open>x\<close> may be no dictionary, \<open>x or d\<close>, \<open>int(x)\<close> and \<open>xs[0]\<close> on decoded JSON.\<close>

fun py_get :: "json \<Rightarrow> string \<Rightarrow> llm_exc + json" where
  "py_get (JObj kvs) k = Inr (jget (JObj kvs) k)"
| "py_get _ k = Inl AttributeError"

definition py_or :: "json \<Rightarrow> json \<Rightarrow> json" where
  "py_or x d = (if truthy x then x else d)"

fun py_int :: "json \<Rightarrow> llm_exc + int" where
  "py_int (JInt i) = Inr i"
| "py_int (JBool b) = Inr (if b then 1 else 0)"
| "py_int (JStr s) = (case int_of_text s of None \<Rightarrow> Inl (ValueError ''int'') | Some i \<Rightarrow> Inr i)"
| "py_int _ = Inl TypeError"

fun py_first :: "json \<Rightarrow> llm_exc + json" where
  "py_first (JList (x # xs)) = Inr x"
| "py_first (JStr (c # cs)) = Inr (JStr [c])"
| "py_first (JObj kvs) = Inl KeyError"
| "py_first _ = Inl TypeError"

definition cached_tokens :: "json \<Rightarrow> llm_exc + json" where
  "cached_tokens usage =
     sbind (py_get usage ''cache_read_input_tokens'') (\<lambda>direct.
       if truthy direct then Inr direct
       else sbind (py_get usage ''prompt_tokens_details'') (\<lambda>details.
              sbind (py_get (py_or details (JObj [])) ''cached_tokens'') (\<lambda>c. Inr (py_or c (JInt 0)))))"

definition parse_completion :: "(json \<Rightarrow> string) \<Rightarrow> json \<Rightarrow> llm_request \<Rightarrow> llm_exc + transport_result" where
  "parse_completion str payload rq =
     sbind (py_get payload ''choices'') (\<lambda>choices.
       if \<not> truthy choices then Inl LLMUpstreamError
       else sbind (py_first choices) (\<lambda>choice.
         sbind (py_get choice ''message'') (\<lambda>message.
         sbind (py_get (py_or message (JObj [])) ''content'') (\<lambda>content.
         sbind (py_get choice ''finish_reason'') (\<lambda>finish.
         sbind (py_get payload ''usage'') (\<lambda>u.
         let usage = py_or u (JObj []) in
         sbind (cached_tokens usage) (\<lambda>cr.
         sbind (py_int cr) (\<lambda>cache_read.
         sbind (py_get usage ''cache_creation_input_tokens'') (\<lambda>cc.
         sbind (py_int (py_or cc (JInt 0))) (\<lambda>cache_creation.
         sbind (py_get usage ''prompt_tokens'') (\<lambda>pt.
         sbind (py_int (py_or pt (JInt 0))) (\<lambda>prompt_tokens.
         sbind (py_get usage ''completion_tokens'') (\<lambda>ct.
         sbind (py_int (py_or ct (JInt 0))) (\<lambda>completion_tokens.
         sbind (py_get payload ''model'') (\<lambda>m.
           Inr \<lparr>tr_content = json_str str (py_or content (JStr [])), tr_prompt_tokens = prompt_tokens,
                tr_completion_tokens = completion_tokens, tr_finish_reason = json_str str (py_or finish (JStr ''stop'')),
                tr_actual_model = json_str str (py_or m (JStr (lr_model rq))), tr_cache_read = cache_read,
                tr_cache_creation = cache_creation\<rparr>)))))))))))))))"

record chat_body =
  cb_model :: string
  cb_messages :: "json list"
  cb_temperature :: rat
  cb_max_tokens :: int
  cb_json_mode :: bool

text \<open>What the HTTP client does with a body: a status and a body that may not decode, a timeout, an HTTP fault, or another fault.\<close>

datatype http_reply = HttpReply int "json option" | HttpTimeout | HttpFault | HttpOtherFault

definition post_chat :: "('h \<Rightarrow> chat_body \<Rightarrow> http_reply \<times> 'h) \<Rightarrow> 'h \<Rightarrow> chat_body \<Rightarrow> (llm_exc + json) \<times> 'h" where
  "post_chat client h body =
     (let (reply, h') = client h body
      in (case reply of
            HttpTimeout \<Rightarrow> Inl LLMTimeoutError
          | HttpFault \<Rightarrow> Inl LLMUpstreamError
          | HttpOtherFault \<Rightarrow> Inl (OtherException ''client'')
          | HttpReply status decoded \<Rightarrow>
              if 400 \<le> status then Inl LLMUpstreamError
              else (case decoded of None \<Rightarrow> Inl (ValueError ''json'') | Some j \<Rightarrow> Inr j), h'))"

definition litellm_complete ::
    "(json \<Rightarrow> string) \<Rightarrow> ('h \<Rightarrow> chat_body \<Rightarrow> http_reply \<times> 'h) \<Rightarrow> 'h \<Rightarrow> llm_request \<Rightarrow> (llm_exc + transport_result) \<times> 'h" where
  "litellm_complete str client h rq =
     (let body = \<lparr>cb_model = lr_model rq, cb_messages = build_messages_payload (lr_messages rq) (lr_model rq),
            cb_temperature = lr_temperature rq, cb_max_tokens = lr_max_tokens rq, cb_json_mode = (lr_response_format rq = FMT_JSON)\<rparr>;
          (r, h') = post_chat client h body
      in (case r of
            Inl LLMTimeoutError \<Rightarrow> Inl LLMTimeoutError
          | Inl _ \<Rightarrow> Inl LLMUpstreamError
          | Inr payload \<Rightarrow> parse_completion str payload rq, h'))"

text \<open>Whatever the client does, a failed round trip is an upstream error or a timeout; only decoding the payload may raise otherwise.\<close>

lemma litellm_complete_errors:
  "fst (litellm_complete str client h rq) = Inl e \<Longrightarrow>
     e \<in> {LLMUpstreamError, LLMTimeoutError} \<or> (\<exists>payload. parse_completion str payload rq = Inl e)"
  by (auto simp: litellm_complete_def Let_def split: prod.splits sum.splits llm_exc.splits)

text \<open>A payload whose token count is no number escapes as a bare \<open>ValueError\<close>, which no retry catches.\<close>

lemma parse_completion_bad_count:
  "parse_completion str (JObj [(''choices'', JList [JObj []]), (''usage'', JObj [(''prompt_tokens'', JStr ''many'')])]) rq
     = Inl (ValueError ''int'')"
  by (simp add: parse_completion_def cached_tokens_def py_or_def int_of_text_def digits_of_text_def is_dec_def Let_def
      less_eq_char_def strip_def is_space_def)

text \<open>The prompt-cache marker reaches Anthropic models only, and no payload drops or reorders a message.\<close>

lemma build_messages_payload_flat:
  "\<not> is_anthropic_model model \<Longrightarrow> build_messages_payload ms model = map flat_message ms"
  by (simp add: build_messages_payload_def)

lemma build_messages_payload_roles:
  "length (build_messages_payload ms model) = length ms \<and>
   (i < length ms \<longrightarrow> jget (build_messages_payload ms model ! i) ''role'' = JStr (lm_role (ms ! i)))"
  by (simp add: build_messages_payload_def flat_message_def)

end
