(* ===== verification/Gateway.thy ===== *)
theory Gateway
  imports Transport
begin

text \<open>
  The model gateway: per-tenant quota (\<open>llm/quota.py\<close>), cost accounting (\<open>llm/cost.py\<close>, floats as rationals) and
  \<open>LlmGateway\<close> itself (\<open>llm/gateway.py\<close>): quota, redaction, transport with retries and one fail-over, accounting. The
  gateway's state carries the list of what was handed to the transport, so that the egress can be stated; latencies are
  arguments, since they come from the clock.
\<close>

section \<open>Quota\<close>

record quota_guard =
  qg_default_limit :: int
  qg_limits :: "(string \<times> int) list"
  qg_used :: "(string \<times> int) list"

definition quota_init :: "int \<Rightarrow> quota_guard" where
  "quota_init default_limit = \<lparr>qg_default_limit = default_limit, qg_limits = [], qg_used = []\<rparr>"

definition set_tenant_limit :: "string \<Rightarrow> int \<Rightarrow> quota_guard \<Rightarrow> quota_guard" where
  "set_tenant_limit tenant limit q = q\<lparr>qg_limits := AList.update tenant limit (qg_limits q)\<rparr>"

definition limit_for :: "quota_guard \<Rightarrow> string \<Rightarrow> int" where
  "limit_for q tenant = (case map_of (qg_limits q) tenant of None \<Rightarrow> qg_default_limit q | Some l \<Rightarrow> l)"

definition quota_used :: "quota_guard \<Rightarrow> string \<Rightarrow> int" where
  "quota_used q tenant = (case map_of (qg_used q) tenant of None \<Rightarrow> 0 | Some n \<Rightarrow> n)"

definition check_and_charge :: "string \<Rightarrow> quota_guard \<Rightarrow> llm_exc + quota_guard" where
  "check_and_charge tenant q =
     (if 0 < limit_for q tenant \<and> limit_for q tenant \<le> quota_used q tenant then Inl (QuotaExceededError tenant)
      else Inr (q\<lparr>qg_used := AList.update tenant (quota_used q tenant + 1) (qg_used q)\<rparr>))"

definition reset_window :: "quota_guard \<Rightarrow> quota_guard" where
  "reset_window q = q\<lparr>qg_used := []\<rparr>"

section \<open>Cost\<close>

definition PRICING :: "(string \<times> rat \<times> rat) list" where
  "PRICING = [(''gpt-4o-mini'', 15 / 100, 60 / 100), (''gpt-4o'', 250 / 100, 10),
     (''text-embedding-3-large'', 13 / 100, 0), (''text-embedding-3-small'', 2 / 100, 0)]"

definition price_for :: "string \<Rightarrow> rat \<times> rat" where
  "price_for model = (case map_of PRICING model of None \<Rightarrow> (1, 3) | Some p \<Rightarrow> p)"

definition compute_cost :: "string \<Rightarrow> int \<Rightarrow> int \<Rightarrow> rat" where
  "compute_cost model prompt_tokens completion_tokens =
     (let (in_price, out_price) = price_for model
      in (of_int prompt_tokens / 1000000) * in_price + (of_int completion_tokens / 1000000) * out_price)"

record usage =
  u_calls :: int
  u_prompt_tokens :: int
  u_completion_tokens :: int
  u_cost_usd :: rat

definition usage_init :: usage where
  "usage_init = \<lparr>u_calls = 0, u_prompt_tokens = 0, u_completion_tokens = 0, u_cost_usd = 0\<rparr>"

type_synonym cost_tracker = "((string \<times> string) \<times> usage) list"

definition cost_record :: "string \<Rightarrow> string \<Rightarrow> int \<Rightarrow> int \<Rightarrow> cost_tracker \<Rightarrow> rat \<times> cost_tracker" where
  "cost_record tenant model prompt_tokens completion_tokens c =
     (let cost = compute_cost model prompt_tokens completion_tokens;
          u = (case map_of c (tenant, model) of None \<Rightarrow> usage_init | Some u \<Rightarrow> u)
      in (cost, AList.update (tenant, model)
            \<lparr>u_calls = u_calls u + 1, u_prompt_tokens = u_prompt_tokens u + prompt_tokens,
             u_completion_tokens = u_completion_tokens u + completion_tokens, u_cost_usd = u_cost_usd u + cost\<rparr> c))"

text \<open>\<open>round(x, 6)\<close>: ties to even.\<close>

definition round_half_even :: "rat \<Rightarrow> int" where
  "round_half_even x = (let f = \<lfloor>x\<rfloor>; d = x - of_int f
     in if d < 1 / 2 then f else if 1 / 2 < d then f + 1 else if even f then f else f + 1)"

definition round6 :: "rat \<Rightarrow> rat" where
  "round6 x = of_int (round_half_even (x * 1000000)) / 1000000"

definition tenant_usage :: "cost_tracker \<Rightarrow> string \<Rightarrow> (string \<times> usage) list" where
  "tenant_usage c tenant = map (\<lambda>((tid, model), u). (model, u\<lparr>u_cost_usd := round6 (u_cost_usd u)\<rparr>))
     (filter (\<lambda>((tid, model), u). tid = tenant) c)"


section \<open>The gateway\<close>

record gw_config =
  gc_redact :: bool
  gc_max_retries :: int
  gc_fallback_model :: "string option"

text \<open>What leaves through the transport; an embedding is logged with the tenant it is made for.\<close>

datatype outbound =
    OutComplete llm_request
  | OutStream llm_request
  | OutEmbed string "string list" string "int option"

record 't gateway =
  gw_quota :: "quota_guard option"
  gw_cost :: cost_tracker
  gw_net :: 't
  gw_sent :: "outbound list"

definition is_transient :: "llm_exc \<Rightarrow> bool" where
  "is_transient e \<longleftrightarrow> e = LLMTimeoutError \<or> e = LLMRateLimitError \<or> e = LLMUpstreamError"

text \<open>One call of the transport.\<close>

definition net_complete :: "'t llm_transport \<Rightarrow> llm_request \<Rightarrow> 't gateway \<Rightarrow> (llm_exc + transport_result) \<times> 't gateway" where
  "net_complete tr rq g =
     (let (r, net) = t_complete tr (gw_net g) rq
      in (r, g\<lparr>gw_net := net, gw_sent := gw_sent g @ [OutComplete rq]\<rparr>))"

text \<open>The retry loop: a result, an error that is not retried, or the last transient error after all attempts.\<close>

datatype attempt = Done transport_result | Raised llm_exc | Exhausted "llm_exc option"

fun send_attempts :: "'t llm_transport \<Rightarrow> nat \<Rightarrow> llm_exc option \<Rightarrow> llm_request \<Rightarrow> 't gateway \<Rightarrow> attempt \<times> 't gateway" where
  "send_attempts tr 0 last_exc rq g = (Exhausted last_exc, g)"
| "send_attempts tr (Suc n) last_exc rq g =
     (let (r, g') = net_complete tr rq g
      in case r of
           Inr result \<Rightarrow> (Done result, g')
         | Inl e \<Rightarrow> if is_transient e then send_attempts tr n (Some e) rq g' else (Raised e, g'))"

definition send :: "gw_config \<Rightarrow> 't llm_transport \<Rightarrow> llm_request \<Rightarrow> 't gateway \<Rightarrow> (llm_exc + transport_result \<times> bool) \<times> 't gateway" where
  "send cfg tr rq g =
     (let (a, g1) = send_attempts tr (nat (gc_max_retries cfg + 1)) None rq g
      in case a of
           Done result \<Rightarrow> (Inr (result, False), g1)
         | Raised e \<Rightarrow> (Inl e, g1)
         | Exhausted last_exc \<Rightarrow>
             (case gc_fallback_model cfg of
                Some fallback \<Rightarrow>
                  if fallback \<noteq> [] \<and> fallback \<noteq> lr_model rq
                  then let (r, g2) = net_complete tr (rq\<lparr>lr_model := fallback\<rparr>) g1
                       in (case r of
                             Inr result \<Rightarrow> (Inr (result, True), g2)
                           | Inl e \<Rightarrow> (Inl (if is_transient e then LLMGatewayError (Some e) else e), g2))
                  else (Inl (LLMGatewayError last_exc), g1)
              | None \<Rightarrow> (Inl (LLMGatewayError last_exc), g1)))"

definition charge :: "string \<Rightarrow> 't gateway \<Rightarrow> llm_exc + 't gateway" where
  "charge tenant g = (case gw_quota g of
     None \<Rightarrow> Inr g
   | Some q \<Rightarrow> (case check_and_charge tenant q of Inl e \<Rightarrow> Inl e | Inr q' \<Rightarrow> Inr (g\<lparr>gw_quota := Some q'\<rparr>)))"

definition outbound_request :: "gw_config \<Rightarrow> llm_request \<Rightarrow> llm_request \<times> string list" where
  "outbound_request cfg rq =
     (if gc_redact cfg
      then let (messages, found) = redact_messages (lr_messages rq)
           in (rq\<lparr>lr_messages := messages\<rparr>, sorted_list_of_set found)
      else (rq, []))"

definition call :: "gw_config \<Rightarrow> 't llm_transport \<Rightarrow> int \<Rightarrow> llm_request \<Rightarrow> 't gateway \<Rightarrow> (llm_exc + llm_response) \<times> 't gateway" where
  "call cfg tr latency_ms rq g =
     (case charge (lr_tenant_id rq) g of
        Inl e \<Rightarrow> (Inl e, g)
      | Inr g1 \<Rightarrow>
          let (out, redacted_pii) = outbound_request cfg rq;
              (r, g2) = send cfg tr out g1
          in (case r of
                Inl e \<Rightarrow> (Inl e, g2)
              | Inr (result, fell_back) \<Rightarrow>
                  let served = or_else (Some (tr_actual_model result)) (lr_model out);
                      (cost, tracker) = cost_record (lr_tenant_id rq) served (tr_prompt_tokens result)
                        (tr_completion_tokens result) (gw_cost g2)
                  in (Inr \<lparr>rs_content = tr_content result, rs_model = served, rs_prompt_tokens = tr_prompt_tokens result,
                           rs_completion_tokens = tr_completion_tokens result, rs_cost_usd = cost, rs_latency_ms = latency_ms,
                           rs_finish_reason = tr_finish_reason result, rs_redacted_pii = redacted_pii, rs_fell_back = fell_back,
                           rs_cache_read = tr_cache_read result, rs_cache_creation = tr_cache_creation result\<rparr>,
                      g2\<lparr>gw_cost := tracker\<rparr>)))"

text \<open>The delta loop: the non-empty texts before the terminal delta, that delta, and the error that ends the stream instead.\<close>

fun stream_loop :: "stream_delta list \<Rightarrow> llm_exc option \<Rightarrow> string list \<times> stream_delta option \<times> llm_exc option" where
  "stream_loop [] err = ([], None, err)"
| "stream_loop (d # ds) err =
     (if sd_final d then ([], Some d, None)
      else let (pieces, rest) = stream_loop ds err in (if sd_text d = [] then pieces else sd_text d # pieces, rest))"

definition delta_chunk :: "string \<Rightarrow> llm_stream_chunk" where
  "delta_chunk t = \<lparr>ch_delta = t, ch_done = False, ch_response = None\<rparr>"

text \<open>\<open>call_stream\<close>, read to its end: the chunks it yields and the exception it raises, if it does.\<close>

definition call_stream :: "gw_config \<Rightarrow> 't llm_transport \<Rightarrow> int \<Rightarrow> llm_request \<Rightarrow> 't gateway \<Rightarrow>
    (llm_stream_chunk list \<times> llm_exc option) \<times> 't gateway" where
  "call_stream cfg tr latency_ms rq g =
     (case charge (lr_tenant_id rq) g of
        Inl e \<Rightarrow> (([], Some e), g)
      | Inr g1 \<Rightarrow>
          let (out, redacted_pii) = outbound_request cfg rq;
              ((deltas, err), net) = t_stream tr (gw_net g1) out;
              g2 = g1\<lparr>gw_net := net, gw_sent := gw_sent g1 @ [OutStream out]\<rparr>;
              (pieces, final, failed) = stream_loop deltas err
          in (case failed of
                Some e \<Rightarrow> ((map delta_chunk pieces, Some (LLMGatewayError (Some e))), g2)
              | None \<Rightarrow>
                  let pt = (case final of None \<Rightarrow> 0 | Some d \<Rightarrow> sd_prompt_tokens d);
                      ct = (case final of None \<Rightarrow> 0 | Some d \<Rightarrow> sd_completion_tokens d);
                      served = or_else (map_option sd_actual_model final) (lr_model out);
                      (cost, tracker) = cost_record (lr_tenant_id rq) served pt ct (gw_cost g2)
                  in ((map delta_chunk pieces @
                       [\<lparr>ch_delta = [], ch_done = True, ch_response = Some
                          \<lparr>rs_content = concat pieces, rs_model = served, rs_prompt_tokens = pt, rs_completion_tokens = ct,
                           rs_cost_usd = cost, rs_latency_ms = latency_ms,
                           rs_finish_reason = (case final of None \<Rightarrow> ''stop'' | Some d \<Rightarrow> sd_finish_reason d),
                           rs_redacted_pii = redacted_pii, rs_fell_back = False,
                           rs_cache_read = (case final of None \<Rightarrow> 0 | Some d \<Rightarrow> sd_cache_read d),
                           rs_cache_creation = (case final of None \<Rightarrow> 0 | Some d \<Rightarrow> sd_cache_creation d)\<rparr>\<rparr>], None),
                      g2\<lparr>gw_cost := tracker\<rparr>)))"

definition embed :: "'t llm_transport \<Rightarrow> string list \<Rightarrow> string \<Rightarrow> string \<Rightarrow> int option \<Rightarrow> 't gateway \<Rightarrow>
    (llm_exc + rat list list) \<times> 't gateway" where
  "embed tr texts model tenant dimensions g =
     (if tenant = [] then (Inl (ValueError ''embed requires a tenant_id''), g)
      else case charge tenant g of
        Inl e \<Rightarrow> (Inl e, g)
      | Inr g1 \<Rightarrow>
          let (r, net) = t_embed tr (gw_net g1) texts model dimensions;
              g2 = g1\<lparr>gw_net := net, gw_sent := gw_sent g1 @ [OutEmbed tenant texts model dimensions]\<rparr>
          in (case r of
                Inl e \<Rightarrow> (Inl e, g2)
              | Inr vectors \<Rightarrow> (Inr vectors,
                  g2\<lparr>gw_cost := snd (cost_record tenant model (sum_list (map (\<lambda>t. max 1 (int (length t div 4))) texts)) 0
                       (gw_cost g2))\<rparr>)))"

section \<open>Runs of the gateway\<close>

datatype gw_op =
    GCall int llm_request
  | GStream int llm_request
  | GEmbed "string list" string string "int option"
  | GResetWindow
  | GSetTenantLimit string int

text \<open>What a completed operation is billed: tenant, serving model and token counts, as its result states them.\<close>

type_synonym bill = "string \<times> string \<times> int \<times> int"

definition response_bill :: "string \<Rightarrow> llm_response \<Rightarrow> bill" where
  "response_bill tenant r = (tenant, rs_model r, rs_prompt_tokens r, rs_completion_tokens r)"

fun gw_step :: "gw_config \<Rightarrow> 't llm_transport \<Rightarrow> gw_op \<Rightarrow> 't gateway \<Rightarrow> bill list \<times> 't gateway" where
  "gw_step cfg tr (GCall ms rq) g =
     (let (r, g') = call cfg tr ms rq g
      in (case r of Inl e \<Rightarrow> [] | Inr rs \<Rightarrow> [response_bill (lr_tenant_id rq) rs], g'))"
| "gw_step cfg tr (GStream ms rq) g =
     (let ((chunks, err), g') = call_stream cfg tr ms rq g
      in (concat (map (\<lambda>ch. case ch_response ch of None \<Rightarrow> [] | Some rs \<Rightarrow> [response_bill (lr_tenant_id rq) rs]) chunks), g'))"
| "gw_step cfg tr (GEmbed texts model tenant dims) g =
     (let (r, g') = embed tr texts model tenant dims g
      in (case r of Inl e \<Rightarrow> [] | Inr v \<Rightarrow> [(tenant, model, sum_list (map estimate_tokens texts), 0)], g'))"
| "gw_step cfg tr GResetWindow g = ([], g\<lparr>gw_quota := map_option reset_window (gw_quota g)\<rparr>)"
| "gw_step cfg tr (GSetTenantLimit t l) g = ([], g\<lparr>gw_quota := map_option (set_tenant_limit t l) (gw_quota g)\<rparr>)"

fun gw_run :: "gw_config \<Rightarrow> 't llm_transport \<Rightarrow> gw_op list \<Rightarrow> 't gateway \<Rightarrow> bill list \<times> 't gateway" where
  "gw_run cfg tr [] g = ([], g)"
| "gw_run cfg tr (op # ops) g =
     (let (bs, g') = gw_step cfg tr op g; (bs', g'') = gw_run cfg tr ops g' in (bs @ bs', g''))"

section \<open>What leaves\<close>

lemma net_complete_frame:
  "net_complete tr rq g = (r, g') \<Longrightarrow>
     gw_sent g' = gw_sent g @ [OutComplete rq] \<and> gw_quota g' = gw_quota g \<and> gw_cost g' = gw_cost g"
  by (auto simp: net_complete_def split: prod.splits)

lemma send_attempts_frame:
  "send_attempts tr n le rq g = (a, g') \<Longrightarrow>
     (\<exists>k \<le> n. gw_sent g' = gw_sent g @ replicate k (OutComplete rq)) \<and> gw_quota g' = gw_quota g \<and> gw_cost g' = gw_cost g"
proof (induction n arbitrary: le g)
  case 0
  then show ?case
    by auto
next
  case (Suc n)
  obtain r g1 where n: "net_complete tr rq g = (r, g1)"
    by fastforce
  note f = net_complete_frame [OF n]
  show ?case
  proof (cases "\<exists>e. r = Inl e \<and> is_transient e")
    case True
    then obtain e where "send_attempts tr n (Some e) rq g1 = (a, g')"
      using Suc.prems n by auto
    then obtain k where "k \<le> n" "gw_sent g' = gw_sent g1 @ replicate k (OutComplete rq)"
        "gw_quota g' = gw_quota g1" "gw_cost g' = gw_cost g1"
      using Suc.IH by blast
    then show ?thesis
      using f by (intro conjI exI [of _ "Suc k"]) auto
  next
    case False
    then have "g' = g1"
      using Suc.prems n by (auto split: sum.splits if_splits)
    then show ?thesis
      using f by (intro conjI exI [of _ "Suc 0"]) auto
  qed
qed

lemma send_frame:
  assumes "send cfg tr rq g = (r, g')"
  shows "(\<exists>k \<le> nat (gc_max_retries cfg + 1). \<exists>fb. gw_sent g' = gw_sent g @ replicate k (OutComplete rq) @ fb \<and>
      (fb = [] \<or> (\<exists>m. gc_fallback_model cfg = Some m \<and> m \<noteq> lr_model rq \<and> fb = [OutComplete (rq\<lparr>lr_model := m\<rparr>)]))) \<and>
    gw_quota g' = gw_quota g \<and> gw_cost g' = gw_cost g"
proof -
  obtain a g1 where a: "send_attempts tr (nat (gc_max_retries cfg + 1)) None rq g = (a, g1)"
    by fastforce
  obtain k where k: "k \<le> nat (gc_max_retries cfg + 1)" "gw_sent g1 = gw_sent g @ replicate k (OutComplete rq)"
      "gw_quota g1 = gw_quota g" "gw_cost g1 = gw_cost g"
    using send_attempts_frame [OF a] by blast
  show ?thesis
  proof (cases "g' = g1")
    case True
    then show ?thesis
      using k by (intro conjI exI [of _ k] exI [of _ "[]"]) auto
  next
    case False
    then obtain m r2 where m: "gc_fallback_model cfg = Some m" "m \<noteq> lr_model rq"
        "net_complete tr (rq\<lparr>lr_model := m\<rparr>) g1 = (r2, g')"
      using assms a by (auto simp: send_def Let_def split: attempt.splits option.splits if_splits prod.splits sum.splits)
    then show ?thesis
      using k net_complete_frame [OF m(3)]
      by (intro conjI exI [of _ k] exI [of _ "[OutComplete (rq\<lparr>lr_model := m\<rparr>)]"]) auto
  qed
qed

text \<open>No structural PII, in the sense of the redaction patterns.\<close>

definition clean_text :: "string \<Rightarrow> bool" where
  "clean_text t \<longleftrightarrow> \<not> re_search EMAIL t \<and> \<not> re_search CREDIT_CARD t \<and> \<not> re_search SSN t \<and> \<not> re_search IP_ADDRESS t"

fun prompt_clean :: "outbound \<Rightarrow> bool" where
  "prompt_clean (OutComplete rq) = list_all (clean_text \<circ> lm_content) (lr_messages rq)"
| "prompt_clean (OutStream rq) = list_all (clean_text \<circ> lm_content) (lr_messages rq)"
| "prompt_clean (OutEmbed _ _ _ _) = True"

fun out_tenant :: "outbound \<Rightarrow> string" where
  "out_tenant (OutComplete rq) = lr_tenant_id rq"
| "out_tenant (OutStream rq) = lr_tenant_id rq"
| "out_tenant (OutEmbed t _ _ _) = t"

lemma outbound_request_fields:
  "lr_tenant_id (fst (outbound_request cfg rq)) = lr_tenant_id rq" "lr_model (fst (outbound_request cfg rq)) = lr_model rq"
  by (simp_all add: outbound_request_def split: prod.splits)

lemma outbound_request_clean:
  "gc_redact cfg \<Longrightarrow> list_all (clean_text \<circ> lm_content) (lr_messages (fst (outbound_request cfg rq)))"
  using redact_text_clean
  by (auto simp: outbound_request_def redact_messages_def clean_text_def redact_message_content list_all_iff)

text \<open>
  What one operation does to the gateway: it sends at most \<open>egress_max\<close> requests, all for its own tenant and, with redaction
  on, clean; it sends nothing unless the quota admits it; and the ledger grows by the bill of its result.
\<close>

definition egress_max :: "gw_config \<Rightarrow> nat" where
  "egress_max cfg = nat (gc_max_retries cfg + 1) + 1"

fun op_tenant :: "gw_op \<Rightarrow> string option" where
  "op_tenant (GCall ms rq) = Some (lr_tenant_id rq)"
| "op_tenant (GStream ms rq) = Some (lr_tenant_id rq)"
| "op_tenant (GEmbed texts model tenant dims) = Some tenant"
| "op_tenant _ = None"

definition bill_record :: "cost_tracker \<Rightarrow> bill \<Rightarrow> cost_tracker" where
  "bill_record c b = (case b of (tenant, model, pt, ct) \<Rightarrow> snd (cost_record tenant model pt ct c))"

definition charged :: "string \<Rightarrow> quota_guard option \<Rightarrow> quota_guard option \<Rightarrow> bool" where
  "charged tenant before after \<longleftrightarrow> (case before of
     None \<Rightarrow> after = None
   | Some q \<Rightarrow> (\<exists>q'. check_and_charge tenant q = Inr q' \<and> after = Some q'))"

definition served :: "gw_config \<Rightarrow> string \<Rightarrow> 't gateway \<Rightarrow> bill list \<Rightarrow> 't gateway \<Rightarrow> bool" where
  "served cfg tenant g bs g' \<longleftrightarrow>
     (\<exists>new. gw_sent g' = gw_sent g @ new \<and> length new \<le> egress_max cfg \<and> (\<forall>o' \<in> set new. out_tenant o' = tenant \<and> (gc_redact cfg \<longrightarrow> prompt_clean o'))
        \<and> (new = [] \<or> charged tenant (gw_quota g) (gw_quota g')))
     \<and> (gw_quota g' = gw_quota g \<or> charged tenant (gw_quota g) (gw_quota g'))
     \<and> gw_cost g' = foldl bill_record (gw_cost g) bs"

lemma charge_frame:
  "charge tenant g = Inr g1 \<Longrightarrow> charged tenant (gw_quota g) (gw_quota g1) \<and> gw_sent g1 = gw_sent g \<and> gw_cost g1 = gw_cost g \<and> gw_net g1 = gw_net g"
  by (auto simp: charge_def charged_def split: option.splits sum.splits)

lemma served_refused: "served cfg tenant g [] g"
  by (auto simp: served_def)

lemma call_served:
  assumes "call cfg tr ms rq g = (r, g')"
  shows "served cfg (lr_tenant_id rq) g (case r of Inl e \<Rightarrow> [] | Inr rs \<Rightarrow> [response_bill (lr_tenant_id rq) rs]) g'"
proof (cases "charge (lr_tenant_id rq) g")
  case (Inl e)
  then show ?thesis
    using assms by (auto simp: call_def served_refused)
next
  case (Inr g1)
  note c = charge_frame [OF Inr]
  let ?out = "fst (outbound_request cfg rq)"
  obtain r2 g2 where s: "send cfg tr ?out g1 = (r2, g2)"
    by fastforce
  obtain k fb where k: "k \<le> nat (gc_max_retries cfg + 1)" "gw_sent g2 = gw_sent g1 @ replicate k (OutComplete ?out) @ fb"
      "fb = [] \<or> (\<exists>m. fb = [OutComplete (?out\<lparr>lr_model := m\<rparr>)])" "gw_quota g2 = gw_quota g1" "gw_cost g2 = gw_cost g1"
    using send_frame [OF s] by blast
  have "\<forall>o' \<in> set (replicate k (OutComplete ?out) @ fb). out_tenant o' = lr_tenant_id rq \<and> (gc_redact cfg \<longrightarrow> prompt_clean o')"
    using k(3) outbound_request_clean [of cfg rq] by (auto simp: outbound_request_fields)
  moreover have "length (replicate k (OutComplete ?out) @ fb) \<le> egress_max cfg"
    using k(1,3) by (auto simp: egress_max_def)
  moreover have "gw_sent g' = gw_sent g2" "gw_quota g' = gw_quota g2"
      "gw_cost g' = foldl bill_record (gw_cost g2) (case r of Inl e \<Rightarrow> [] | Inr rs \<Rightarrow> [response_bill (lr_tenant_id rq) rs])"
    using assms Inr s
    by (auto simp: call_def Let_def response_bill_def bill_record_def split: prod.splits sum.splits)
  ultimately show ?thesis
    unfolding served_def using c k(2,4,5) by metis
qed

definition stream_bills :: "string \<Rightarrow> llm_stream_chunk list \<Rightarrow> bill list" where
  "stream_bills tenant chunks =
     concat (map (\<lambda>ch. case ch_response ch of None \<Rightarrow> [] | Some rs \<Rightarrow> [response_bill tenant rs]) chunks)"

lemma stream_bills_deltas [simp]: "stream_bills tenant (map delta_chunk ps) = []"
  by (simp add: stream_bills_def delta_chunk_def)

lemma stream_bills_append: "stream_bills tenant (xs @ ys) = stream_bills tenant xs @ stream_bills tenant ys"
  by (simp add: stream_bills_def)

lemma call_stream_served:
  assumes "call_stream cfg tr ms rq g = ((chunks, err), g')"
  shows "served cfg (lr_tenant_id rq) g (stream_bills (lr_tenant_id rq) chunks) g'"
proof (cases "charge (lr_tenant_id rq) g")
  case (Inl e)
  then show ?thesis
    using assms by (auto simp: call_stream_def served_refused stream_bills_def)
next
  case (Inr g1)
  note c = charge_frame [OF Inr]
  let ?out = "fst (outbound_request cfg rq)"
  have g': "gw_sent g' = gw_sent g1 @ [OutStream ?out]" "gw_quota g' = gw_quota g1"
      "gw_cost g' = foldl bill_record (gw_cost g1) (stream_bills (lr_tenant_id rq) chunks)"
    using assms Inr
    by (auto simp: call_stream_def Let_def stream_bills_append stream_bills_def [of _ "[_]"] response_bill_def bill_record_def
        split: prod.splits option.splits)
  have "out_tenant (OutStream ?out) = lr_tenant_id rq \<and> (gc_redact cfg \<longrightarrow> prompt_clean (OutStream ?out))"
    using outbound_request_clean [of cfg rq] by (simp add: outbound_request_fields)
  then show ?thesis
    unfolding served_def using c g' by (auto simp: egress_max_def)
qed

lemma embed_served:
  assumes "embed tr texts model tenant dims g = (r, g')"
  shows "served cfg tenant g (case r of Inl e \<Rightarrow> [] | Inr v \<Rightarrow> [(tenant, model, sum_list (map estimate_tokens texts), 0)]) g'"
proof (cases "tenant = [] \<or> (\<exists>e. charge tenant g = Inl e)")
  case True
  then show ?thesis
    using assms by (auto simp: embed_def served_refused split: if_splits)
next
  case False
  then obtain g1 where g1: "charge tenant g = Inr g1"
    by (cases "charge tenant g") auto
  have g': "gw_sent g' = gw_sent g1 @ [OutEmbed tenant texts model dims]" "gw_quota g' = gw_quota g1"
      "gw_cost g' = foldl bill_record (gw_cost g1)
        (case r of Inl e \<Rightarrow> [] | Inr v \<Rightarrow> [(tenant, model, sum_list (map estimate_tokens texts), 0)])"
    using assms False g1
    by (auto simp: embed_def Let_def bill_record_def estimate_tokens_def cong: map_cong split: prod.splits sum.splits)
  show ?thesis
    unfolding served_def using charge_frame [OF g1] g' by (auto simp: egress_max_def)
qed

lemma gw_step_served:
  assumes "op_tenant op = Some tenant" and "gw_step cfg tr op g = (bs, g')"
  shows "served cfg tenant g bs g'"
proof (cases op)
  case (GCall ms rq)
  then show ?thesis
    using assms call_served [of cfg tr ms rq g] by (auto split: prod.splits)
next
  case (GStream ms rq)
  then show ?thesis
    using assms call_stream_served [of cfg tr ms rq g] by (auto simp: stream_bills_def split: prod.splits)
next
  case (GEmbed texts model t dims)
  then show ?thesis
    using assms embed_served [of tr texts model t dims g] by (auto split: prod.splits)
qed (use assms in auto)

lemma gw_step_admin:
  assumes "op_tenant op = None" and "gw_step cfg tr op g = (bs, g')"
  shows "bs = []" "gw_sent g' = gw_sent g" "gw_cost g' = gw_cost g"
  using assms by (cases op; auto)+



lemma gw_step_clean:
  assumes "gc_redact cfg" and "gw_step cfg tr op g = (bs, g')" and "list_all prompt_clean (gw_sent g)"
  shows "list_all prompt_clean (gw_sent g')"
  using gw_step_served [of op _ cfg tr g bs g'] gw_step_admin [of op cfg tr g bs g'] assms
  by (cases "op_tenant op") (auto simp: served_def list_all_iff)

lemma gw_run_clean:
  "gc_redact cfg \<Longrightarrow> gw_run cfg tr ops g = (bs, g') \<Longrightarrow> list_all prompt_clean (gw_sent g) \<Longrightarrow> list_all prompt_clean (gw_sent g')"
proof (induction ops arbitrary: g bs)
  case (Cons op ops)
  then show ?case
    using gw_step_clean by (fastforce split: prod.splits)
qed simp

section \<open>Quota over a window\<close>

lemma check_and_charge_frame:
  assumes "check_and_charge tenant q = Inr q'"
  shows "limit_for q' t = limit_for q t"
    and "quota_used q' t = (if t = tenant then quota_used q t + 1 else quota_used q t)"
    and "0 < limit_for q tenant \<Longrightarrow> quota_used q' tenant \<le> limit_for q tenant"
  using assms by (auto simp: check_and_charge_def limit_for_def quota_used_def update_conv' cong: option.case_cong split: if_splits)

definition sent_for :: "string \<Rightarrow> 't gateway \<Rightarrow> nat" where
  "sent_for t g = length (filter (\<lambda>o'. out_tenant o' = t) (gw_sent g))"

text \<open>One window: limits stay, usage only grows and stays within a positive limit, and each request sent is paid for.\<close>

definition in_window :: "gw_config \<Rightarrow> string \<Rightarrow> 't gateway \<Rightarrow> quota_guard \<Rightarrow> 't gateway \<Rightarrow> quota_guard \<Rightarrow> bool" where
  "in_window cfg t g q g' q' \<longleftrightarrow> limit_for q' t = limit_for q t \<and> quota_used q t \<le> quota_used q' t
     \<and> (0 < limit_for q t \<longrightarrow> quota_used q t \<le> limit_for q t \<longrightarrow> quota_used q' t \<le> limit_for q t)
     \<and> sent_for t g' \<le> sent_for t g + egress_max cfg * nat (quota_used q' t - quota_used q t)"

lemma in_window_refl: "in_window cfg t g q g q"
  by (simp add: in_window_def)

lemma in_window_trans:
  assumes "in_window cfg t g q g1 q1" and "in_window cfg t g1 q1 g2 q2"
  shows "in_window cfg t g q g2 q2"
proof -
  have "nat (quota_used q2 t - quota_used q t) = nat (quota_used q1 t - quota_used q t) + nat (quota_used q2 t - quota_used q1 t)"
    using assms by (auto simp: in_window_def)
  then have "egress_max cfg * nat (quota_used q2 t - quota_used q t)
      = egress_max cfg * nat (quota_used q1 t - quota_used q t) + egress_max cfg * nat (quota_used q2 t - quota_used q1 t)"
    by (simp add: distrib_left)
  then show ?thesis
    using assms unfolding in_window_def by linarith
qed

lemma served_in_window:
  assumes "served cfg tenant g bs g'" and "gw_quota g = Some q"
  shows "\<exists>q'. gw_quota g' = Some q' \<and> in_window cfg t g q g' q'"
proof -
  obtain new where new: "gw_sent g' = gw_sent g @ new" "length new \<le> egress_max cfg" "\<forall>o' \<in> set new. out_tenant o' = tenant"
      "new = [] \<or> charged tenant (gw_quota g) (gw_quota g')"
    using assms(1) unfolding served_def by blast
  have for_t: "sent_for t g' = sent_for t g + (if t = tenant then length new else 0)"
    using new(1,3) by (auto simp: sent_for_def filter_id_conv)
  show ?thesis
  proof (cases "charged tenant (gw_quota g) (gw_quota g')")
    case True
    then obtain q' where q': "check_and_charge tenant q = Inr q'" "gw_quota g' = Some q'"
      using assms(2) by (auto simp: charged_def)
    note f = check_and_charge_frame [OF q'(1)]
    show ?thesis
      using q'(2) f(1) [of t] f(2) [of t] f(3) for_t new(2) by (auto simp: in_window_def)
  next
    case False
    then have "gw_quota g' = Some q" and "sent_for t g' = sent_for t g"
      using assms new(4) for_t by (auto simp: served_def)
    then show ?thesis
      by (simp add: in_window_def)
  qed
qed

lemma gw_run_in_window:
  "list_all (\<lambda>op. op_tenant op \<noteq> None) ops \<Longrightarrow> gw_quota g = Some q \<Longrightarrow> gw_run cfg tr ops g = (bs, g') \<Longrightarrow>
     \<exists>q'. gw_quota g' = Some q' \<and> in_window cfg t g q g' q'"
proof (induction ops arbitrary: g q bs)
  case Nil
  then show ?case
    using in_window_refl by auto
next
  case (Cons op ops)
  obtain b1 g1 b2 where s: "gw_step cfg tr op g = (b1, g1)" "gw_run cfg tr ops g1 = (b2, g')"
    using Cons.prems(3) by (auto split: prod.splits)
  obtain tenant where "op_tenant op = Some tenant"
    using Cons.prems(1) by auto
  then obtain q1 where q1: "gw_quota g1 = Some q1" "in_window cfg t g q g1 q1"
    using served_in_window [OF gw_step_served [OF _ s(1)] Cons.prems(2)] by blast
  then show ?case
    using Cons.IH [OF _ q1(1) s(2)] Cons.prems(1) in_window_trans by fastforce
qed

section \<open>The ledger\<close>












section \<open>Streaming and not streaming\<close>

text \<open>
  What a transport promises about its two ways to answer, while it is ready: one completion, delivered whole or as texts
  followed by a terminal delta with the same counters.
\<close>

locale streaming_transport =
  fixes tr :: "'t llm_transport"
    and ready :: "'t \<Rightarrow> bool"
  assumes both: "ready n \<Longrightarrow> \<exists>res ds d n'. t_complete tr n rq = (Inr res, n') \<and> t_stream tr n rq = ((ds @ [d], None), n')
      \<and> (\<forall>x \<in> set ds. \<not> sd_final x) \<and> concat (map sd_text ds) = tr_content res \<and> sd_final d
      \<and> sd_prompt_tokens d = tr_prompt_tokens res \<and> sd_completion_tokens d = tr_completion_tokens res
      \<and> sd_finish_reason d = tr_finish_reason res \<and> sd_actual_model d = tr_actual_model res
      \<and> sd_cache_read d = tr_cache_read res \<and> sd_cache_creation d = tr_cache_creation res"
begin

lemma stream_loop_final:
  "\<forall>x \<in> set ds. \<not> sd_final x \<Longrightarrow> sd_final d \<Longrightarrow>
     stream_loop (ds @ [d]) err = (filter (\<lambda>t. t \<noteq> []) (map sd_text ds), Some d, None)"
  by (induction ds) simp_all

lemma concat_nonempty: "concat (filter (\<lambda>t. t \<noteq> []) ts) = concat ts"
  by (induction ts) simp_all

lemma send_ready:
  assumes "ready (gw_net g)" and "0 \<le> gc_max_retries cfg" and "t_complete tr (gw_net g) rq = (Inr res, n')"
  shows "send cfg tr rq g = (Inr (res, False), g\<lparr>gw_net := n', gw_sent := gw_sent g @ [OutComplete rq]\<rparr>)"
proof -
  obtain k where "nat (gc_max_retries cfg + 1) = Suc k"
    using assms(2) by (metis Suc_nat_eq_nat_zadd1 add.commute)
  then show ?thesis
    using assms(3) by (simp add: send_def net_complete_def)
qed

lemma stream_agrees:
  assumes "ready (gw_net g)" and "0 \<le> gc_max_retries cfg" and "charge (lr_tenant_id rq) g = Inr g0"
  obtains rs g1 pieces g2 where "call cfg tr ms rq g = (Inr rs, g1)"
    "call_stream cfg tr ms rq g = ((map delta_chunk pieces @ [\<lparr>ch_delta = [], ch_done = True, ch_response = Some rs\<rparr>], None), g2)"
    "concat pieces = rs_content rs" "gw_cost g2 = gw_cost g1" "gw_quota g2 = gw_quota g1" "gw_net g2 = gw_net g1"
proof -
  have g0: "gw_net g0 = gw_net g"
    using charge_frame [OF assms(3)] by simp
  obtain out pii where out: "outbound_request cfg rq = (out, pii)"
    by fastforce
  obtain res ds d n' where b: "t_complete tr (gw_net g0) out = (Inr res, n')" "t_stream tr (gw_net g0) out = ((ds @ [d], None), n')"
      "\<forall>x \<in> set ds. \<not> sd_final x" "concat (map sd_text ds) = tr_content res" "sd_final d"
      "sd_prompt_tokens d = tr_prompt_tokens res" "sd_completion_tokens d = tr_completion_tokens res"
      "sd_finish_reason d = tr_finish_reason res" "sd_actual_model d = tr_actual_model res"
      "sd_cache_read d = tr_cache_read res" "sd_cache_creation d = tr_cache_creation res"
    using both [of "gw_net g" out] assms(1) g0 by auto
  have s: "send cfg tr out g0 = (Inr (res, False), g0\<lparr>gw_net := n', gw_sent := gw_sent g0 @ [OutComplete out]\<rparr>)"
    using send_ready [OF _ assms(2) b(1)] assms(1) g0 by simp
  let ?pieces = "filter (\<lambda>t. t \<noteq> []) (map sd_text ds)"
  obtain cost tracker where cr: "cost_record (lr_tenant_id rq) (or_else (Some (tr_actual_model res)) (lr_model out))
      (tr_prompt_tokens res) (tr_completion_tokens res) (gw_cost g0) = (cost, tracker)"
    by fastforce
  show thesis
  proof (rule that [where pieces = ?pieces])
    show "call cfg tr ms rq g = (Inr \<lparr>rs_content = tr_content res,
        rs_model = or_else (Some (tr_actual_model res)) (lr_model out), rs_prompt_tokens = tr_prompt_tokens res,
        rs_completion_tokens = tr_completion_tokens res, rs_cost_usd = cost, rs_latency_ms = ms,
        rs_finish_reason = tr_finish_reason res, rs_redacted_pii = pii, rs_fell_back = False,
        rs_cache_read = tr_cache_read res, rs_cache_creation = tr_cache_creation res\<rparr>,
        g0\<lparr>gw_net := n', gw_sent := gw_sent g0 @ [OutComplete out], gw_cost := tracker\<rparr>)"
      using assms(3) out s cr by (simp add: call_def)
    show "call_stream cfg tr ms rq g = ((map delta_chunk ?pieces @ [\<lparr>ch_delta = [], ch_done = True, ch_response = Some
        \<lparr>rs_content = tr_content res,
        rs_model = or_else (Some (tr_actual_model res)) (lr_model out), rs_prompt_tokens = tr_prompt_tokens res,
        rs_completion_tokens = tr_completion_tokens res, rs_cost_usd = cost, rs_latency_ms = ms,
        rs_finish_reason = tr_finish_reason res, rs_redacted_pii = pii, rs_fell_back = False,
        rs_cache_read = tr_cache_read res, rs_cache_creation = tr_cache_creation res\<rparr>\<rparr>], None),
        g0\<lparr>gw_net := n', gw_sent := gw_sent g0 @ [OutStream out], gw_cost := tracker\<rparr>)"
      using assms(3) out b cr stream_loop_final [OF b(3,5)] by (simp add: call_stream_def Let_def concat_nonempty)
  qed (use b(4) in \<open>simp_all add: concat_nonempty\<close>)
qed

end

text \<open>The deterministic transport keeps that promise once it has no failure left to simulate.\<close>

interpretation echo: streaming_transport "echo_transport sha256 ec" "\<lambda>n. n \<le> 0"
proof
  fix n :: int and rq
  assume n: "n \<le> 0"
  let ?ps = "echo_pieces (split_on CHR '' '' (echo_content ec rq))"
  have "concat (map sd_text (map text_delta ?ps)) = echo_content ec rq"
    by (simp add: text_delta_def comp_def echo_pieces_concat join_split_on)
  then show "\<exists>res ds d n'. t_complete (echo_transport sha256 ec) n rq = (Inr res, n')
      \<and> t_stream (echo_transport sha256 ec) n rq = ((ds @ [d], None), n')
      \<and> (\<forall>x \<in> set ds. \<not> sd_final x) \<and> concat (map sd_text ds) = tr_content res \<and> sd_final d
      \<and> sd_prompt_tokens d = tr_prompt_tokens res \<and> sd_completion_tokens d = tr_completion_tokens res
      \<and> sd_finish_reason d = tr_finish_reason res \<and> sd_actual_model d = tr_actual_model res
      \<and> sd_cache_read d = tr_cache_read res \<and> sd_cache_creation d = tr_cache_creation res"
    using n by (auto simp: echo_transport_def echo_complete_def echo_stream_def text_delta_def Let_def)
qed

section \<open>Properties\<close>

text \<open>
  C28: With redaction on, whatever sequence of calls, streams, embeddings, window resets and limit changes a gateway serves, and
  whatever its transport answers (errors, retries and fail-over included), no completion or streaming request that leaves it
  holds an e-mail address, a card number, a social security number or an IPv4 address in any message, as the redaction patterns
  define them.
\<close>

theorem gateway_egress_clean:
  "gc_redact cfg \<Longrightarrow> gw_sent g = [] \<Longrightarrow> list_all prompt_clean (gw_sent (snd (gw_run cfg tr ops g)))"
  using gw_run_clean [of cfg tr ops g "fst (gw_run cfg tr ops g)" "snd (gw_run cfg tr ops g)"] by simp

text \<open>
  C29: within one quota window (no reset, no limit change), with quotas wired, a tenant with a positive limit it has not yet passed
  gets at most \<open>max_retries + 2\<close> requests to the provider for each call its budget still admits, however many calls, streams
  and embeddings are asked for and however the provider fails; and its usage never passes its limit.
\<close>

theorem quota_bounds_egress:
  assumes "list_all (\<lambda>op. op_tenant op \<noteq> None) ops" and "gw_quota g = Some q" and "0 < limit_for q t"
    and "quota_used q t \<le> limit_for q t" and "gw_run cfg tr ops g = (bs, g')"
  shows "length (filter (\<lambda>o'. out_tenant o' = t) (gw_sent g')) \<le> length (filter (\<lambda>o'. out_tenant o' = t) (gw_sent g))
      + (nat (gc_max_retries cfg + 1) + 1) * nat (limit_for q t - quota_used q t)
    \<and> (\<exists>q'. gw_quota g' = Some q' \<and> quota_used q' t \<le> limit_for q' t)"
proof -
  obtain q' where q': "gw_quota g' = Some q'" "in_window cfg t g q g' q'"
    using gw_run_in_window [OF assms(1,2,5)] by blast
  then have "quota_used q' t \<le> limit_for q t" and "limit_for q' t = limit_for q t"
    using assms(3,4) by (auto simp: in_window_def)
  moreover from this have "egress_max cfg * nat (quota_used q' t - quota_used q t) \<le> egress_max cfg * nat (limit_for q t - quota_used q t)"
    by (intro mult_le_mono) auto
  ultimately show ?thesis
    using q' by (auto simp: in_window_def sent_for_def egress_max_def)
qed


text \<open>
  Streaming through the gateway over the deterministic transport is the same call, delivered in pieces: the terminal chunk
  carries the response \<open>call\<close> returns, the deltas concatenate to its content, and cost tracker and quota end up the same.
\<close>

theorem echo_stream_agrees:
  assumes "gw_net g \<le> 0" and "0 \<le> gc_max_retries cfg" and "charge (lr_tenant_id rq) g = Inr g0"
  shows "\<exists>rs g1 pieces g2. call cfg (echo_transport sha256 ec) ms rq g = (Inr rs, g1)
    \<and> call_stream cfg (echo_transport sha256 ec) ms rq g
        = ((map delta_chunk pieces @ [\<lparr>ch_delta = [], ch_done = True, ch_response = Some rs\<rparr>], None), g2)
    \<and> concat pieces = rs_content rs \<and> gw_cost g2 = gw_cost g1 \<and> gw_quota g2 = gw_quota g1"
  using echo.stream_agrees [OF assms] by metis

text \<open>No transient transport error reaches the caller of \<open>call\<close>: after the retries and the fail-over it is a gateway error.\<close>

lemma send_attempts_raised: "send_attempts tr n le rq g = (Raised e, g') \<Longrightarrow> \<not> is_transient e"
  by (induction n arbitrary: le g) (auto simp: Let_def split: prod.splits sum.splits if_splits)

lemma call_error_not_transient: "call cfg tr ms rq g = (Inl e, g') \<Longrightarrow> \<not> is_transient e"
  by (auto simp: call_def send_def charge_def check_and_charge_def Let_def is_transient_def dest: send_attempts_raised
      split: sum.splits prod.splits option.splits attempt.splits if_splits)

text \<open>A stream that breaks off is charged to the quota but never to the cost tracker, whatever it delivered.\<close>

lemma broken_stream_unbilled:
  "call_stream cfg tr ms rq g = ((chunks, Some e), g') \<Longrightarrow> gw_cost g' = gw_cost g"
  by (auto simp: call_stream_def Let_def dest: charge_frame split: sum.splits prod.splits option.splits)

text \<open>When the transport names no model, a fail-over is billed to the model that failed.\<close>

lemma fallback_billed_to_primary:
  "send cfg tr (fst (outbound_request cfg rq)) g0 = (Inr (res, True), g1) \<Longrightarrow> charge (lr_tenant_id rq) g = Inr g0 \<Longrightarrow>
     tr_actual_model res = [] \<Longrightarrow> \<exists>rs g2. call cfg tr ms rq g = (Inr rs, g2) \<and> rs_fell_back rs \<and> rs_model rs = lr_model rq"
  using outbound_request_fields(2) [of cfg rq] by (auto simp: call_def Let_def or_else_def split: prod.splits)

section \<open>Samples\<close>

definition sample_cfg :: gw_config where
  "sample_cfg = \<lparr>gc_redact = True, gc_max_retries = 2, gc_fallback_model = Some ''gpt-4o''\<rparr>"

definition sample_request :: llm_request where
  "sample_request = \<lparr>lr_messages = [\<lparr>lm_role = ''user'', lm_content = ''mail bo@x.io'', lm_cache_control = False\<rparr>],
     lr_model = ''gpt-4o-mini'', lr_tenant_id = ''t1'', lr_user_id = [], lr_temperature = 0, lr_max_tokens = 1024,
     lr_response_format = FMT_TEXT, lr_request_id = []\<rparr>"

definition sample_gateway :: "int gateway" where
  "sample_gateway = \<lparr>gw_quota = Some (quota_init 2), gw_cost = [], gw_net = 0, gw_sent = []\<rparr>"

definition sample_echo :: "int llm_transport" where
  "sample_echo = echo_transport (\<lambda>_. [0]) \<lparr>ec_canned = None, ec_embed_dims = 8\<rparr>"

lemmas sample_defs = sample_cfg_def sample_request_def sample_gateway_def quota_init_def

theorem gateway_egress_clean_witness:
  "list_all prompt_clean (gw_sent (snd (gw_run sample_cfg sample_echo [GCall 5 sample_request, GStream 5 sample_request] sample_gateway)))"
  using gateway_egress_clean [of sample_cfg sample_gateway sample_echo "[GCall 5 sample_request, GStream 5 sample_request]"]
  by (simp add: sample_defs)

theorem quota_bounds_egress_witness:
  "length (filter (\<lambda>o'. out_tenant o' = ''t1'')
     (gw_sent (snd (gw_run sample_cfg sample_echo [GCall 5 sample_request, GCall 5 sample_request, GCall 5 sample_request] sample_gateway)))) \<le> 8"
  using quota_bounds_egress [of "[GCall 5 sample_request, GCall 5 sample_request, GCall 5 sample_request]" sample_gateway "quota_init 2" "''t1''"
      sample_cfg sample_echo, OF _ _ _ _ prod.collapse [symmetric]]
  by (simp add: sample_defs limit_for_def quota_used_def)


theorem echo_stream_agrees_witness:
  "\<exists>rs g1 pieces g2. call sample_cfg sample_echo 5 sample_request sample_gateway = (Inr rs, g1)
    \<and> call_stream sample_cfg sample_echo 5 sample_request sample_gateway
        = ((map delta_chunk pieces @ [\<lparr>ch_delta = [], ch_done = True, ch_response = Some rs\<rparr>], None), g2)
    \<and> concat pieces = rs_content rs \<and> gw_cost g2 = gw_cost g1 \<and> gw_quota g2 = gw_quota g1"
  unfolding sample_echo_def
  by (rule echo_stream_agrees)
    (simp_all add: sample_defs charge_def check_and_charge_def limit_for_def quota_used_def)

end
