(* ===== verification/Disambiguation.thy ===== *)
theory Disambiguation
  imports RegistryService Transport "HOL-Library.Product_Lexorder"
begin

text \<open>
  Stage 4 of the router (\<open>router/disambiguation.py\<close>): the deterministic preroute, the two disambiguators and what they make of
  the language model's answer. \<open>ask\<close> is the gateway's answer to the prompt built from the query, the candidates and the focus;
  \<open>loads\<close>, \<open>float_of\<close>, \<open>fmt\<close> (\<open>format\<close> of a float), \<open>str\<close> (of lists and dicts) and \<open>exc_text\<close> are what the code uses of Python.
\<close>

record candidate =
  cd_agent_id :: string
  cd_score :: rat

section \<open>The result\<close>

record disambiguation =
  da_selected_agent_ids :: "string list"
  da_parameters_by_agent :: "(string \<times> (string \<times> string) list) list"
  da_intents :: "json list"
  da_confidence :: rat
  da_rationale :: string

definition is_confident_match :: "disambiguation \<Rightarrow> bool" where
  "is_confident_match d = (da_selected_agent_ids d \<noteq> [])"

definition params_for :: "disambiguation \<Rightarrow> string \<Rightarrow> (string \<times> string) list" where
  "params_for d aid = (case map_of (da_parameters_by_agent d) aid of None \<Rightarrow> [] | Some ps \<Rightarrow> ps)"

definition da_no_match :: "string \<Rightarrow> disambiguation" where
  "da_no_match rationale = \<lparr>da_selected_agent_ids = [], da_parameters_by_agent = [], da_intents = [], da_confidence = 0,
     da_rationale = rationale\<rparr>"

definition da_select :: "string list \<Rightarrow> rat \<Rightarrow> string \<Rightarrow> json list \<Rightarrow> (string \<times> (string \<times> string) list) list \<Rightarrow> disambiguation" where
  "da_select agent_ids confidence rationale intents params =
     \<lparr>da_selected_agent_ids = agent_ids,
      da_parameters_by_agent = map (\<lambda>aid. (aid, sort (case map_of params aid of None \<Rightarrow> [] | Some ps \<Rightarrow> ps))) agent_ids,
      da_intents = intents, da_confidence = confidence, da_rationale = rationale\<rparr>"

section \<open>Deterministic preroute\<close>

definition DOC_NOUNS :: "string list" where
  "DOC_NOUNS = [''docs'', ''doc'', ''document'', ''documents'', ''kb'', ''article'', ''articles'', ''runbook'', ''runbooks'',
     ''playbook'', ''playbooks'', ''sop'', ''sops'']"

definition DOC_PHRASES :: "string list" where
  "DOC_PHRASES = [''knowledge base'', ''troubleshooting guide'', ''troubleshooting guides'']"

abbreviation az_char :: "char \<Rightarrow> bool" where
  "az_char c \<equiv> CHR ''a'' \<le> c \<and> c \<le> CHR ''z''"

definition ID_TOKEN :: re where
  "ID_TOKEN = RSeq (RRep 2 4 (RCls (\<lambda>c. az_char (lower_char c)))) (RMany 6 rdigit)"

definition ENTITY_ID_RE :: re where
  "ENTITY_ID_RE = rseq [RBound, ID_TOKEN, RBound]"

definition BARE_ID_RE :: re where
  "BARE_ID_RE = rseq [rspaces 0, ID_TOKEN, rspaces 0]"

definition RELATIONSHIP_RE :: re where
  "RELATIONSHIP_RE = rseq [RBound, ralts (map rword [''related'', ''linked'', ''associated'', ''connected'', ''dependent'',
     ''attached'', ''affected'']), RBound]"

definition SIMILAR_RECORD_RE :: re where
  "SIMILAR_RECORD_RE = rseq [RBound, ralts (map rword [''ticket'', ''tickets'', ''incident'', ''incidents'', ''case'', ''cases'',
     ''duplicate'', ''duplicates'', ''similar'', ''peer'', ''peers'', ''recurring'']
     @ [RSeq (rword ''resembl'') (RMany 0 (RCls word_char))]), RBound]"

definition NON_COMPONENT_SERVICES :: "string list" where
  "NON_COMPONENT_SERVICES = [''incident'', ''request'', ''knowledge'', ''catalog'', ''onboarding'']"

text \<open>A row of the service schema file, as the vocabulary of linked components reads it.\<close>

record schema_service =
  ss_service_id :: string
  ss_id_prefix :: string
  ss_alias_prefixes :: "string list"
  ss_nl_terms :: "string list"

definition component_tokens :: "schema_service \<Rightarrow> string list" where
  "component_tokens s =
     (let sid = lower (ss_service_id s) in
      if sid \<in> set NON_COMPONENT_SERVICES then []
      else concat (map (\<lambda>src. filter (\<lambda>tok. 1 < length tok) (re_findall (RMany 1 (RCls az_char)) (lower src)))
             ([sid, ss_id_prefix s] @ ss_alias_prefixes s @ ss_nl_terms s)))"

definition linked_component_terms :: "schema_service list \<Rightarrow> string set" where
  "linked_component_terms services = set (concat (map (\<lambda>tok. [tok, tok @ ''s'']) (concat (map component_tokens services))))"

definition SUMMARY_AGENT :: string where
  "SUMMARY_AGENT = ''uc01_summarization''"

definition KB_AGENT :: string where
  "KB_AGENT = ''uc03_kb_lookup''"

definition deterministic_preroute :: "string set \<Rightarrow> string \<Rightarrow> string set \<Rightarrow> bool \<Rightarrow> (string \<times> string \<times> string) option" where
  "deterministic_preroute terms query_text valid_ids has_focus =
     (let q = strip query_text; q_lower = lower q in
      if q = [] then None
      else if re_fullmatch BARE_ID_RE q \<and> SUMMARY_AGENT \<in> valid_ids
      then Some (SUMMARY_AGENT, ''summary'', ''P1: bare entity id -> entity-summary agent'')
      else if has_focus \<and> SUMMARY_AGENT \<in> valid_ids \<and> re_search RELATIONSHIP_RE q_lower
        \<and> list_ex (\<lambda>t. t \<in> terms) (re_findall (RMany 1 (RCls az_char)) q_lower) \<and> \<not> re_search SIMILAR_RECORD_RE q_lower
      then Some (SUMMARY_AGENT, ''field_read'', ''P3: linked/related component of focused record -> record read'')
      else if \<not> re_search ENTITY_ID_RE q then None
      else let words = re_findall (RSeq (RCls az_char) (RMany 0 (RCls (\<lambda>c. az_char c \<or> c = CHR ''-'')))) q_lower in
        if list_ex (\<lambda>w. w \<in> set DOC_NOUNS) words \<and> KB_AGENT \<in> valid_ids
        then Some (KB_AGENT, ''kb_search'', ''P2: explicit doc-noun + entity id -> KB agent'')
        else if list_ex (contains q_lower) DOC_PHRASES \<and> KB_AGENT \<in> valid_ids
        then Some (KB_AGENT, ''kb_search'', ''P2: explicit doc-phrase + entity id -> KB agent'')
        else None)"

lemma preroute_valid: "deterministic_preroute terms q valid foc = Some (a, i, r) \<Longrightarrow> a \<in> valid"
  by (auto simp: deterministic_preroute_def Let_def split: if_splits)

section \<open>ThresholdDisambiguator\<close>

record da_env =
  de_fmt :: "string \<Rightarrow> rat \<Rightarrow> string"
  de_str :: "json \<Rightarrow> string"
  de_loads :: "string \<Rightarrow> json option"
  de_float_of :: "json \<Rightarrow> llm_exc + rat"
  de_exc_text :: "llm_exc \<Rightarrow> string"
  de_ask :: "string \<Rightarrow> candidate list \<Rightarrow> llm_exc + string"
  de_terms :: "string set"

definition threshold_disambiguate :: "da_env \<Rightarrow> rat \<Rightarrow> string \<Rightarrow> candidate list \<Rightarrow> llm_exc + disambiguation" where
  "threshold_disambiguate env flr query_text candidates =
     (case candidates of
        [] \<Rightarrow> Inr (da_no_match ''no candidates survived the funnel'')
      | first # _ \<Rightarrow>
          if cd_score first < flr
          then Inr (da_no_match (''top candidate '' @ quoted (cd_agent_id first) @ '' score '' @ de_fmt env ''.2f'' (cd_score first)
                 @ '' is below the confidence floor '' @ de_fmt env [] flr))
          else Inr (da_select [cd_agent_id first] (cd_score first)
                 (''top-scoring candidate above the '' @ de_fmt env [] flr @ '' floor'') [] []))"

section \<open>LlmDisambiguator\<close>

text \<open>\<open>for x in v\<close> over a decoded value, and whether an element can be looked up in a set.\<close>

fun py_iter :: "json \<Rightarrow> llm_exc + json list" where
  "py_iter (JList xs) = Inr xs"
| "py_iter (JStr s) = Inr (map (\<lambda>c. JStr [c]) s)"
| "py_iter (JObj kvs) = Inr (map (JStr \<circ> fst) kvs)"
| "py_iter _ = Inl TypeError"

fun hashable :: "json \<Rightarrow> bool" where
  "hashable (JList _) = False"
| "hashable (JObj _) = False"
| "hashable _ = True"

text \<open>\<open>max(candidates, key=score)\<close>: the first of the best.\<close>

fun top_candidate :: "candidate \<Rightarrow> candidate list \<Rightarrow> candidate" where
  "top_candidate best [] = best"
| "top_candidate best (c # cs) = top_candidate (if cd_score best < cd_score c then c else best) cs"

definition kb_suffixed :: "string \<Rightarrow> bool" where
  "kb_suffixed a = suffix ''_kb_lookup'' a"

definition floor_dispatch :: "da_env \<Rightarrow> candidate list \<Rightarrow> json \<Rightarrow> llm_exc + disambiguation option" where
  "floor_dispatch env candidates doc =
     (case candidates of
        [] \<Rightarrow> Inr None
      | c # cs \<Rightarrow>
          sbind (py_get doc ''intents'') (\<lambda>i. sbind (py_iter (py_or i (JList []))) (\<lambda>intents.
            if ''off_domain'' \<in> set (map (\<lambda>x. lower (strip (json_str (de_str env) x))) intents) then Inr None
            else let first = top_candidate c cs in
              if cd_score first < 1 / 10 then Inr None
              else let kb = find (\<lambda>x. kb_suffixed (cd_agent_id x) \<and> 1 / 10 \<le> cd_score x) candidates;
                       chosen = (case kb of None \<Rightarrow> first | Some x \<Rightarrow> x)
                   in Inr (Some (da_select [cd_agent_id chosen] (cd_score chosen)
                        (case kb of
                           Some _ \<Rightarrow> ''supervisor dispatch-by-default: stage-3 retriever surfaced a viable in-domain set; stage-4 LLM hedged (no_match). Defaulted to the knowledge agent (teach-before-provision) - it reports its own no-result if nothing is found.''
                         | None \<Rightarrow> ''supervisor dispatch-by-default: stage-3 retriever surfaced this agent above the signal floor; stage-4 LLM hedged (no_match). The agent reports its own no-result if its lookup yields nothing.'')
                        (if kb_suffixed (cd_agent_id chosen) then [JStr ''kb_search''] else []) [])))))"

record da_config =
  dc_registry :: "registry option"
  dc_abstain_min_score :: "rat option"
  dc_abstain_min_margin :: rat

text \<open>\<open>_active_agent_ids\<close>: the ids the store lists, empty when there is no registry or it cannot be read.\<close>

definition active_agent_ids :: "da_config \<Rightarrow> string set" where
  "active_agent_ids dc = (case dc_registry dc of
     None \<Rightarrow> {}
   | Some reg \<Rightarrow> (case fb_list_ids (agents reg) of Inl _ \<Rightarrow> {} | Inr ids \<Rightarrow> set ids))"

definition abstain_check :: "da_env \<Rightarrow> da_config \<Rightarrow> candidate list \<Rightarrow> disambiguation option" where
  "abstain_check env dc candidates =
     (case dc_abstain_min_score dc of
        None \<Rightarrow> None
      | Some flr \<Rightarrow>
          (case sort_key (\<lambda>c. - cd_score c) candidates of
             [] \<Rightarrow> None
           | first # rest \<Rightarrow>
               if cd_score first < flr
               then Some (da_no_match (''abstain (weak match): top candidate '' @ quoted (cd_agent_id first) @ '' score ''
                      @ de_fmt env ''.2f'' (cd_score first) @ '' < floor '' @ de_fmt env ''.2f'' flr
                      @ '' - ask the user to clarify rather than route''))
               else (case rest of
                       [] \<Rightarrow> None
                     | second # _ \<Rightarrow>
                         if 0 < dc_abstain_min_margin dc \<and> cd_score first - cd_score second < dc_abstain_min_margin dc
                         then Some (da_no_match (''abstain (ambiguous): top two ('' @ quoted (cd_agent_id first) @ '', ''
                                @ quoted (cd_agent_id second) @ '') within '' @ de_fmt env ''.2f'' (cd_score first - cd_score second)
                                @ '' < margin '' @ de_fmt env ''.2f'' (dc_abstain_min_margin dc)
                                @ '' - ask the user to clarify''))
                         else None)))"

text \<open>What the code makes of the decoded answer, and the exceptions it turns into a refusal.\<close>

definition select_from_doc :: "da_env \<Rightarrow> string set \<Rightarrow> candidate list \<Rightarrow> json \<Rightarrow> llm_exc + disambiguation" where
  "select_from_doc env valid_ids candidates doc =
     sbind (py_get doc ''selected_agent_ids'') (\<lambda>s. sbind (py_iter (py_or s (JList []))) (\<lambda>xs.
       if \<not> list_all hashable xs then Inl TypeError
       else let selected = [a. JStr a \<leftarrow> xs, a \<in> valid_ids] in
         if selected = [] then
           sbind (floor_dispatch env candidates doc) (\<lambda>flr. Inr (case flr of
              Some d \<Rightarrow> d
            | None \<Rightarrow> da_no_match (json_str (de_str env) (py_or (jget doc ''rationale'') (JStr ''no candidate matched the intent'')))))
         else
           sbind (de_float_of env (py_or (jget doc ''confidence'') (JInt 0))) (\<lambda>confidence.
           sbind (py_iter (py_or (jget doc ''intents'') (JList []))) (\<lambda>intents.
             Inr (da_select selected confidence
               (json_str (de_str env) (case jfield doc ''rationale'' of None \<Rightarrow> JStr [] | Some r \<Rightarrow> r)) intents [])))))"

fun caught :: "llm_exc \<Rightarrow> bool" where
  "caught (LLMGatewayError _) = True"
| "caught (QuotaExceededError _) = True"
| "caught (ValueError _) = True"
| "caught KeyError = True"
| "caught TypeError = True"
| "caught _ = False"

definition call_and_select :: "da_env \<Rightarrow> string \<Rightarrow> string set \<Rightarrow> candidate list \<Rightarrow> llm_exc + disambiguation" where
  "call_and_select env query_text valid_ids candidates =
     (case sbind (de_ask env query_text candidates) (\<lambda>content.
             case de_loads env content of
               None \<Rightarrow> Inl (ValueError ''json'')
             | Some doc \<Rightarrow> select_from_doc env valid_ids candidates doc) of
        Inr d \<Rightarrow> Inr d
      | Inl e \<Rightarrow> if caught e then Inr (da_no_match (''disambiguation failed: '' @ de_exc_text env e)) else Inl e)"

definition disambiguate :: "da_env \<Rightarrow> da_config \<Rightarrow> string \<Rightarrow> candidate list \<Rightarrow> llm_exc + disambiguation" where
  "disambiguate env dc query_text candidates =
     (if candidates = [] then Inr (da_no_match ''no candidates survived the funnel'')
      else let valid_ids = set (map cd_agent_id candidates);
               pool = (if active_agent_ids dc = {} then valid_ids else active_agent_ids dc)
           in case deterministic_preroute (de_terms env) query_text pool False of
                Some (agent_id, intent, rationale) \<Rightarrow> Inr (da_select [agent_id] (95 / 100) rationale [JStr intent] [])
              | None \<Rightarrow>
                  (case abstain_check env dc candidates of
                     Some d \<Rightarrow> Inr d
                   | None \<Rightarrow> call_and_select env query_text valid_ids candidates))"

section \<open>What stage 4 may select\<close>

text \<open>
  The contract the router relies on: only offered candidates are selected. The threshold disambiguator keeps it, and so does the
  language-model disambiguator without a registry; with one, its preroute selects from every listed agent instead.
\<close>

locale closed_disambiguator =
  fixes pick :: "string \<Rightarrow> candidate list \<Rightarrow> llm_exc + disambiguation"
  assumes closed: "pick q cs = Inr d \<Longrightarrow> set (da_selected_agent_ids d) \<subseteq> cd_agent_id ` set cs"
begin

lemma selected_offered: "pick q cs = Inr d \<Longrightarrow> a \<in> set (da_selected_agent_ids d) \<Longrightarrow> \<exists>c \<in> set cs. cd_agent_id c = a"
  using closed by fastforce

lemma nothing_offered: "pick q [] = Inr d \<Longrightarrow> \<not> is_confident_match d"
  using closed [of q "[]" d] by (simp add: is_confident_match_def)

end

lemma selected_no_match [simp]: "da_selected_agent_ids (da_no_match r) = []"
  by (simp add: da_no_match_def)

lemma selected_select [simp]: "da_selected_agent_ids (da_select ids c r is ps) = ids"
  by (simp add: da_select_def)

lemma top_candidate_in: "top_candidate best cs \<in> insert best (set cs)"
proof (induction cs arbitrary: best)
  case (Cons c cs)
  then show ?case
    using Cons.IH [of "if cd_score best < cd_score c then c else best"] by (auto split: if_splits)
qed simp

lemma floor_dispatch_closed:
  assumes "floor_dispatch env cs doc = Inr (Some d)"
  shows "set (da_selected_agent_ids d) \<subseteq> cd_agent_id ` set cs"
proof (cases cs)
  case Nil
  then show ?thesis
    using assms by (simp add: floor_dispatch_def)
next
  case (Cons c rest)
  let ?kb = "find (\<lambda>x. kb_suffixed (cd_agent_id x) \<and> 1 / 10 \<le> cd_score x) cs"
  have "da_selected_agent_ids d = [cd_agent_id (case ?kb of None \<Rightarrow> top_candidate c rest | Some x \<Rightarrow> x)]"
    using assms Cons by (auto simp: floor_dispatch_def Let_def split: if_splits)
  moreover have "(case ?kb of None \<Rightarrow> top_candidate c rest | Some x \<Rightarrow> x) \<in> set cs"
    using top_candidate_in [of c rest] Cons by (auto simp: find_Some_iff split: option.splits)
  ultimately show ?thesis
    by simp
qed

lemma select_from_doc_closed:
  assumes "select_from_doc env (set (map cd_agent_id cs)) cs doc = Inr d"
  shows "set (da_selected_agent_ids d) \<subseteq> cd_agent_id ` set cs"
  using assms floor_dispatch_closed [of env cs doc]
  by (auto simp: select_from_doc_def Let_def split: if_splits option.splits)

lemma call_and_select_closed:
  assumes "call_and_select env q (set (map cd_agent_id cs)) cs = Inr d"
  shows "set (da_selected_agent_ids d) \<subseteq> cd_agent_id ` set cs"
proof -
  consider "da_selected_agent_ids d = []" | doc where "select_from_doc env (set (map cd_agent_id cs)) cs doc = Inr d"
    using assms by (auto simp: call_and_select_def split: sum.splits if_splits option.splits)
  then show ?thesis
    using select_from_doc_closed by cases auto
qed

lemma abstain_check_closed: "abstain_check env dc cs = Some d \<Longrightarrow> da_selected_agent_ids d = []"
  by (auto simp: abstain_check_def split: option.splits list.splits if_splits)

lemma disambiguate_closed:
  assumes "active_agent_ids dc = {}" and "disambiguate env dc q cs = Inr d"
  shows "set (da_selected_agent_ids d) \<subseteq> cd_agent_id ` set cs"
proof (cases "cs = []")
  case True
  then show ?thesis
    using assms(2) by (auto simp: disambiguate_def)
next
  case False
  let ?pre = "deterministic_preroute (de_terms env) q (set (map cd_agent_id cs)) False"
  show ?thesis
  proof (cases ?pre)
    case None
    then show ?thesis
      using assms False abstain_check_closed call_and_select_closed [of env q cs d]
      by (auto simp: disambiguate_def Let_def split: option.splits)
  next
    case (Some t)
    then obtain a i r where t: "?pre = Some (a, i, r)"
      by (cases t) auto
    then show ?thesis
      using assms False preroute_valid [OF t] by (auto simp: disambiguate_def)
  qed
qed

interpretation threshold: closed_disambiguator "threshold_disambiguate env flr"
  by unfold_locales (auto simp: threshold_disambiguate_def split: list.splits if_splits)

interpretation unregistered: closed_disambiguator "disambiguate env \<lparr>dc_registry = None, dc_abstain_min_score = ms, dc_abstain_min_margin = mm\<rparr>"
  by unfold_locales (rule disambiguate_closed; simp add: active_agent_ids_def)

text \<open>With a registry, a query that names a record and a documentation noun goes to the knowledge agent whatever was offered.\<close>

lemma preroute_ignores_offer:
  assumes "cs \<noteq> []" and "active_agent_ids dc \<noteq> {}"
    and "deterministic_preroute (de_terms env) q (active_agent_ids dc) False = Some (a, i, r)"
  shows "disambiguate env dc q cs = Inr (da_select [a] (95 / 100) r [JStr i] [])"
  using assms by (simp add: disambiguate_def)

text \<open>An answer that decodes to something other than an object is not turned into a refusal: it raises.\<close>

lemma non_object_answer_raises:
  "de_ask env q cs = Inr content \<Longrightarrow> de_loads env content = Some (JList xs) \<Longrightarrow> call_and_select env q valid cs = Inl AttributeError"
  by (simp add: call_and_select_def select_from_doc_def)

end
