(* ===== verification/RouteCache.thy ===== *)
theory RouteCache
  imports RoutePlan Conditions TtlStore "HOL-Library.Product_Lexorder"
begin

text \<open>
  The router's caches (\<open>router/route_cache.py\<close>): key composition, (de)serialisation of a decision, and the in-memory variants,
  which meet the contract of \<open>TtlStore\<close> with an entry served up to and including the end of its time to live. The digests
  are parameters.
\<close>

section \<open>Keys\<close>

definition norm_query :: "string \<Rightarrow> string" where
  "norm_query s = join '' '' (split_words (lower (strip s)))"

record signals_payload =
  sp_role :: string
  sp_tenant :: string
  sp_entities :: "(string \<times> string) list"
  sp_caps :: "string list"
  sp_focus :: bool
  sp_intents :: "string list option"

definition signals_payload_of :: "request_signals \<Rightarrow> signals_payload" where
  "signals_payload_of s = \<lparr>sp_role = rs_role s, sp_tenant = rs_tenant_id s, sp_entities = sort (rs_present_entities s),
     sp_caps = sorted_list_of_set (rs_tenant_capabilities s), sp_focus = rs_has_active_focus s,
     sp_intents = (case rs_intents s of None \<Rightarrow> None | Some is \<Rightarrow> if is = {} then None else Some (sorted_list_of_set is))\<rparr>"

record conversation_turn =
  ct_role :: string
  ct_content :: string

text \<open>The digests: of the signals payload, of a history, and of the joined key text.\<close>

record key_digests =
  kd_signals :: "signals_payload \<Rightarrow> string"
  kd_history :: "(string \<times> string) list \<Rightarrow> string"
  kd_text :: "string \<Rightarrow> string"

definition signals_digest :: "key_digests \<Rightarrow> request_signals \<Rightarrow> string" where
  "signals_digest kd s = kd_signals kd (signals_payload_of s)"

definition conversation_digest :: "key_digests \<Rightarrow> conversation_turn list \<Rightarrow> string" where
  "conversation_digest kd history =
     (if history = [] then ''0'' else kd_history kd (map (\<lambda>t. (ct_role t, ct_content t)) history))"

definition unit_sep :: string where
  "unit_sep = [CHR 0x1F]"

type_synonym hex_digest = string

definition route_cache_key ::
    "key_digests \<Rightarrow> string \<Rightarrow> string \<Rightarrow> string \<Rightarrow> string \<Rightarrow> string \<Rightarrow> hex_digest \<Rightarrow> hex_digest \<Rightarrow> hex_digest \<Rightarrow> hex_digest" where
  "route_cache_key kd query role domain focus_entity_id focus_service_id sig_digest conv_digest registry_fingerprint =
     kd_text kd (join unit_sep [''rc1'', norm_query query, role, domain, focus_entity_id, focus_service_id, sig_digest,
       conv_digest, registry_fingerprint])"

definition embedding_cache_key :: "key_digests \<Rightarrow> string \<Rightarrow> string \<Rightarrow> int \<Rightarrow> string" where
  "embedding_cache_key kd t model dimensions =
     kd_text kd (''ec1'' @ unit_sep @ model @ unit_sep @ int_str dimensions @ unit_sep @ norm_query t)"

section \<open>Serialisation\<close>

definition strings_json :: "string list \<Rightarrow> json" where
  "strings_json xs = JList (map JStr xs)"

definition dict_json :: "(string \<times> string) list \<Rightarrow> json" where
  "dict_json kvs = JObj (map (\<lambda>(k, v). (k, JStr v)) kvs)"

definition serialize_route :: "sub_query_route \<Rightarrow> json" where
  "serialize_route r = JObj [
     (''sub_query_id'', JStr (sq_id r)),
     (''agent_ids'', strings_json (sq_agent_ids r)),
     (''parameters_by_agent'', JObj (map (\<lambda>(a, p). (a, dict_json p)) (sq_parameters_by_agent r))),
     (''depends_on_subqueries'', strings_json (sq_depends_on r)),
     (''bindings'', JList (map (\<lambda>(f, fld, p). strings_json [f, fld, p]) (sq_bindings r)))]"

definition serialize_decision :: "string \<Rightarrow> sub_query_route list \<Rightarrow> string list \<Rightarrow> string \<Rightarrow> json" where
  "serialize_decision outcome routes unrouted reason = JObj [
     (''outcome'', JStr outcome), (''reason'', JStr reason), (''unrouted'', strings_json unrouted),
     (''routes'', JList (map serialize_route routes))]"

text \<open>
  Reading an entry back. \<open>None\<close> is a raised exception; values of other types than those that are serialised count as
  malformed too.
\<close>

fun json_string :: "json \<Rightarrow> string option" where
  "json_string (JStr s) = Some s"
| "json_string _ = None"

fun all_some :: "('a \<Rightarrow> 'b option) \<Rightarrow> 'a list \<Rightarrow> 'b list option" where
  "all_some f [] = Some []"
| "all_some f (x # xs) = (case f x of None \<Rightarrow> None | Some y \<Rightarrow> map_option ((#) y) (all_some f xs))"

fun json_strings :: "json \<Rightarrow> string list option" where
  "json_strings (JList xs) = all_some json_string xs"
| "json_strings _ = None"

fun json_dict :: "json \<Rightarrow> (string \<times> string) list option" where
  "json_dict (JObj kvs) = all_some (\<lambda>(k, v). map_option (Pair k) (json_string v)) kvs"
| "json_dict _ = None"

fun json_triple :: "json \<Rightarrow> (string \<times> string \<times> string) option" where
  "json_triple j = (case json_strings j of Some [a, b, c] \<Rightarrow> Some (a, b, c) | _ \<Rightarrow> None)"

fun json_dict_of :: "(json \<Rightarrow> 'a option) \<Rightarrow> json \<Rightarrow> (string \<times> 'a) list option" where
  "json_dict_of f (JObj kvs) = all_some (\<lambda>(k, v). map_option (Pair k) (f v)) kvs"
| "json_dict_of f _ = None"

fun json_list_of :: "(json \<Rightarrow> 'a option) \<Rightarrow> json \<Rightarrow> 'a list option" where
  "json_list_of f (JList xs) = all_some f xs"
| "json_list_of f _ = None"

text \<open>\<open>d.get(k) or empty\<close>.\<close>

definition get_or :: "json \<Rightarrow> string \<Rightarrow> json \<Rightarrow> json" where
  "get_or d k e = (if truthy (jget d k) then jget d k else e)"

definition deserialize_route :: "json \<Rightarrow> sub_query_route option" where
  "deserialize_route d =
     Option.bind (Option.bind (jfield d ''sub_query_id'') json_string) (\<lambda>i.
     Option.bind (Option.bind (jfield d ''agent_ids'') json_strings) (\<lambda>ags.
     Option.bind (json_dict_of json_dict (get_or d ''parameters_by_agent'' (JObj []))) (\<lambda>ps.
     Option.bind (json_strings (get_or d ''depends_on_subqueries'' (JList []))) (\<lambda>deps.
     Option.bind (json_list_of json_triple (get_or d ''bindings'' (JList []))) (\<lambda>bs.
       Some \<lparr>sq_id = i, sq_agent_ids = ags, sq_parameters_by_agent = ps, sq_depends_on = deps, sq_bindings = bs\<rparr>)))))"

definition deserialize_routes :: "json list \<Rightarrow> sub_query_route list option" where
  "deserialize_routes ds = all_some deserialize_route ds"

lemma all_some_map: "(\<And>x. x \<in> set xs \<Longrightarrow> f (g x) = Some x) \<Longrightarrow> all_some f (map g xs) = Some xs"
  by (induction xs) auto

lemma json_strings_json [simp]: "json_strings (strings_json xs) = Some xs"
  by (simp add: strings_json_def all_some_map)

lemma json_dict_json [simp]: "json_dict (dict_json kvs) = Some kvs"
  unfolding dict_json_def json_dict.simps by (rule all_some_map) auto

lemma json_triple_json: "json_triple (strings_json [a, b, c]) = Some (a, b, c)"
  by simp

lemma get_or_same: "\<not> truthy (jget d k) \<Longrightarrow> jget d k = e \<Longrightarrow> get_or d k e = jget d k"
  by (simp add: get_or_def)

lemma deserialize_serialize_route: "deserialize_route (serialize_route r) = Some r"
proof -
  have "json_dict_of json_dict (get_or (serialize_route r) ''parameters_by_agent'' (JObj [])) = Some (sq_parameters_by_agent r)"
    using all_some_map [of "sq_parameters_by_agent r" "\<lambda>(k, v). map_option (Pair k) (json_dict v)" "\<lambda>(a, p). (a, dict_json p)"]
    by (auto simp: get_or_def serialize_route_def)
  moreover have "json_strings (get_or (serialize_route r) ''depends_on_subqueries'' (JList [])) = Some (sq_depends_on r)"
    using json_strings_json [of "sq_depends_on r"] by (auto simp: get_or_def serialize_route_def strings_json_def)
  moreover have "json_list_of json_triple (get_or (serialize_route r) ''bindings'' (JList [])) = Some (sq_bindings r)"
    using all_some_map [of "sq_bindings r" json_triple "\<lambda>(f, fld, p). strings_json [f, fld, p]"]
    by (auto simp: get_or_def serialize_route_def)
  ultimately show ?thesis
    using json_strings_json [of "sq_agent_ids r"] by (simp add: deserialize_route_def) (simp add: serialize_route_def)
qed

lemma deserialize_serialize: "deserialize_routes (map serialize_route rs) = Some rs"
  unfolding deserialize_routes_def by (rule all_some_map) (rule deserialize_serialize_route)

section \<open>In-memory caches\<close>

type_synonym ('v, 't) ttl_rows = "(string \<times> 't \<times> 'v) list"

definition rows_get :: "'t :: linordered_idom \<Rightarrow> ('v, 't) ttl_rows \<Rightarrow> 't \<Rightarrow> string \<Rightarrow> 'v option \<times> ('v, 't) ttl_rows" where
  "rows_get ttl rows now k = (case map_of rows k of
     None \<Rightarrow> (None, rows)
   | Some (stored_at, v) \<Rightarrow> if now - stored_at > ttl then (None, AList.delete k rows) else (Some v, rows))"

definition rows_put :: "('v, 't) ttl_rows \<Rightarrow> 't \<Rightarrow> string \<Rightarrow> 'v \<Rightarrow> ('v, 't) ttl_rows" where
  "rows_put rows now k v = AList.update k (now, v) rows"

definition rows_live :: "'t :: linordered_idom \<Rightarrow> ('v, 't) ttl_rows \<Rightarrow> 't \<Rightarrow> string \<Rightarrow> 'v option" where
  "rows_live ttl rows now k = (case map_of rows k of
     None \<Rightarrow> None | Some (stored_at, v) \<Rightarrow> if now - stored_at > ttl then None else Some v)"

interpretation rows: ttl_store "rows_get ttl" rows_put "rows_live ttl" "\<lambda>v. v" "\<lambda>_. True" "\<lambda>t t'. t' - t \<le> ttl" for ttl
  by unfold_locales
    (auto simp: rows_get_def rows_put_def rows_live_def delete_conv update_conv option.map_id0 split: option.splits if_splits)

text \<open>The key of a decision: tenant and digest; a digest holds no colon.\<close>

definition decision_row :: "string \<Rightarrow> string \<Rightarrow> string" where
  "decision_row tenant key = tenant @ '':'' @ key"

definition route_get :: "'t :: linordered_idom \<Rightarrow> (json, 't) ttl_rows \<Rightarrow> 't \<Rightarrow> string \<Rightarrow> string \<Rightarrow> json option \<times> (json, 't) ttl_rows" where
  "route_get ttl rows now tenant key = rows_get ttl rows now (decision_row tenant key)"

definition route_put :: "(json, 't) ttl_rows \<Rightarrow> 't \<Rightarrow> string \<Rightarrow> string \<Rightarrow> json \<Rightarrow> (json, 't) ttl_rows" where
  "route_put rows now tenant key v = rows_put rows now (decision_row tenant key) v"

lemma decision_row_inject:
  assumes "CHR '':'' \<notin> set key" and "CHR '':'' \<notin> set key'"
  shows "decision_row tenant key = decision_row tenant' key' \<longleftrightarrow> tenant = tenant' \<and> key = key'"
proof
  assume eq: "decision_row tenant key = decision_row tenant' key'"
  have "takeWhile (\<lambda>c. c \<noteq> CHR '':'') (rev (decision_row tenant k)) = rev k" if "CHR '':'' \<notin> set k" for tenant k
    using that by (auto simp: decision_row_def takeWhile_append)
  then have "rev key = rev key'"
    using eq assms by metis
  then show "tenant = tenant' \<and> key = key'"
    using eq by (simp add: decision_row_def)
qed auto

end
