(* ===== verification/Router.thy ===== *)
theory Router
  imports Disambiguation RouteCache Authz EntityId
begin

text \<open>
  The routing funnel (\<open>router/router.py\<close>) with glossary normalisation (\<open>router/glossary.py\<close>) and the follow-up test of
  \<open>router/rewrite.py\<close>. The constructor's collaborators are fields of \<open>router_env\<close>: retriever, decomposer, rewriter, splitter and
  disambiguator are functions, as the protocols they implement; registry, authorisation service, entity normaliser, route cache
  and plan assembly are the models of the other theories. Diagnostic lines are left out of the results that are computed. The
  state holds the two caches, the memoised registry fingerprint and the clock, which \<open>re_tick\<close> advances at every reading.
\<close>

section \<open>Glossary\<close>

type_synonym glossary = "(string \<times> string) list"

definition glossary_from_entries :: "(string option \<times> string list) list \<Rightarrow> string + glossary" where
  "glossary_from_entries entries = sfold (\<lambda>m (canonical, synonyms).
     case canonical of
       None \<Rightarrow> Inl ''glossary entry without `canonical`''
     | Some c \<Rightarrow> if c = [] then Inl ''glossary entry without `canonical`''
                 else Inr (foldl (\<lambda>d s. AList.update (lower s) c d) m synonyms)) [] entries"

definition overlaid_with :: "glossary \<Rightarrow> (string \<times> string) list \<Rightarrow> glossary" where
  "overlaid_with g tenant_entries = foldl (\<lambda>d (k, v). AList.update (lower k) v d) g tenant_entries"

definition glossary_pairs :: "glossary \<Rightarrow> (re \<times> string) list" where
  "glossary_pairs g = map (\<lambda>s. (rseq [RBound, rword_ci s, RBound], the (map_of g s)))
     (sort_key (\<lambda>s. - int (length s)) (map fst g))"

definition glossary_normalize :: "glossary \<Rightarrow> string \<Rightarrow> string" where
  "glossary_normalize g t = (if t = [] then t else foldl (\<lambda>out (pattern, canonical). re_sub (\<lambda>_. canonical) pattern out) t (glossary_pairs g))"

section \<open>References to a record in focus\<close>

definition RECORD_WORDS :: "re list" where
  "RECORD_WORDS = map rword_ci [''problem'', ''change'', ''incident'', ''request'', ''ci'']
     @ [rseq [rword_ci ''cmdb'', ropt (RCls (\<lambda>c. is_space c \<or> c = CHR ''_'' \<or> c = CHR ''-'')), rword_ci ''ci'']]
     @ map rword_ci [''asset'', ''kb'', ''article'', ''ticket'', ''record'']"

definition RELATION_WORDS :: re where
  "RELATION_WORDS = ralts (map rword_ci [''linked'', ''related'', ''affected'', ''parent'', ''child''])"

definition PRONOUN_RE :: re where
  "PRONOUN_RE = rseq [RBound, ralts (map rword_ci [''it'', ''its'', ''this'', ''that'', ''the same'', ''the earlier'', ''the previous'']
     @ [RSeq (rword_ci ''the '') (ralts (map rword_ci [''incident'', ''ticket'', ''change'', ''problem'', ''request'', ''asset'',
          ''article'', ''record'']))]), RBound]"

definition FOLLOWUP_LINKED_RE :: re where
  "FOLLOWUP_LINKED_RE = rseq [RBound,
     ropt (ralts (map (\<lambda>w. RSeq (rword_ci w) (rspaces 1)) [''the'', ''its'', ''any''])),
     RELATION_WORDS, rspaces 1, ralts RECORD_WORDS, ropt (RCls (\<lambda>c. lower_char c = CHR ''s'')), RBound]"

definition is_followup_reference :: "string \<Rightarrow> bool" where
  "is_followup_reference t = (t \<noteq> [] \<and> (re_search PRONOUN_RE t \<or> re_search FOLLOWUP_LINKED_RE t))"

definition LINKED_REF_RE :: re where
  "LINKED_REF_RE = rseq [RBound, ralts (map rword_ci [''the'', ''its'']), rspaces 1, RELATION_WORDS, rspaces 1,
     ralts RECORD_WORDS, RBound]"

definition references_linked_record :: "string \<Rightarrow> bool" where
  "references_linked_record t = (t \<noteq> [] \<and> re_search LINKED_REF_RE t)"

fun first_user_entity :: "normalizer \<Rightarrow> conversation_turn list \<Rightarrow> (string \<times> string) option" where
  "first_user_entity nz [] = None"
| "first_user_entity nz (t # ts) =
     (if ct_role t \<noteq> ''user'' then first_user_entity nz ts
      else case xt_entities (extract_ids nz (ct_content t)) of
        [] \<Rightarrow> first_user_entity nz ts
      | e # _ \<Rightarrow> Some (ne_entity_id e, ne_service_id e))"

definition extract_focus_from_history :: "normalizer \<Rightarrow> conversation_turn list \<Rightarrow> (string \<times> string) option" where
  "extract_focus_from_history nz history = first_user_entity nz (rev history)"

section \<open>Configuration and state\<close>

record sub_query =
  sub_id :: string
  sub_text :: string
  sub_depends_on :: "string list"
  sub_bindings :: "(string \<times> string \<times> string) list"

definition sub_query_init :: "sub_query \<Rightarrow> llm_exc + sub_query" where
  "sub_query_init s =
     (if sub_id s = [] then Inl (ValueError ''SubQuery.id is mandatory'')
      else if sub_id s \<in> set (sub_depends_on s) then Inl (ValueError (''sub-query '' @ sub_id s @ '' cannot depend on itself''))
      else Inr s)"

record rewrite_result =
  rw_text :: string
  rw_changed :: bool
  rw_rationale :: string

definition rewrite_unchanged :: "string \<Rightarrow> rewrite_result" where
  "rewrite_unchanged t = \<lparr>rw_text = t, rw_changed = False, rw_rationale = ''no reference to resolve''\<rparr>"

text \<open>The fields of the request context the router reads, an absent one being empty.\<close>

record request_ctx =
  rc_domain :: string
  rc_focus_entity_id :: string
  rc_focus_service_id :: string

record 't router_env =
  re_registry :: registry
  re_glossary :: glossary
  re_normalizer :: normalizer
  re_terms :: "string set"
  re_retrieve :: "string \<Rightarrow> string \<Rightarrow> int \<Rightarrow> candidate list"
  re_disambiguate :: "request_ctx \<Rightarrow> string \<Rightarrow> candidate list \<Rightarrow> llm_exc + disambiguation"
  re_decompose :: "request_ctx \<Rightarrow> string \<Rightarrow> llm_exc + sub_query list"
  re_rewrite :: "request_ctx \<Rightarrow> conversation_turn list \<Rightarrow> string \<Rightarrow> llm_exc + rewrite_result"
  re_split :: "(request_ctx \<Rightarrow> conversation_turn list \<Rightarrow> string \<Rightarrow> llm_exc + sub_query list) option"
  re_authz :: authz_service
  re_authz_digest :: "key_payload \<Rightarrow> string"
  re_top_k :: int
  re_confidence_skip :: "(rat \<times> rat) option"
  re_route_ttl :: "'t option"
  re_digests :: key_digests
  re_registry_digest :: "agent_record list \<Rightarrow> tool_record list \<Rightarrow> string"
  re_tick :: "'t \<Rightarrow> 't"

text \<open>The deterministic defaults of the constructor.\<close>

definition passthrough_decompose :: "request_ctx \<Rightarrow> string \<Rightarrow> llm_exc + sub_query list" where
  "passthrough_decompose ctx message = Inr [\<lparr>sub_id = ''sq1'', sub_text = message, sub_depends_on = [], sub_bindings = []\<rparr>]"

definition passthrough_rewrite :: "request_ctx \<Rightarrow> conversation_turn list \<Rightarrow> string \<Rightarrow> llm_exc + rewrite_result" where
  "passthrough_rewrite ctx history t = Inr (rewrite_unchanged t)"

record 't router_state =
  rst_decisions :: "'t decision_cache"
  rst_routes :: "(json, 't) ttl_rows"
  rst_fingerprint :: "string option"
  rst_now :: 't

datatype router_error =
    RtRegistry reg_error
  | RtCondition cond_error
  | RtAuthz authz_error
  | RtPlan plan_error
  | RtRaised llm_exc
  | RtNoReturn

section \<open>Binding entities to parameters\<close>

definition ENTITY_FIELD_NAMES :: "string list" where
  "ENTITY_FIELD_NAMES = [''ticket_id'', ''article_id'', ''entity_id'', ''incident_id'', ''request_id'', ''problem_id'', ''change_id'',
     ''asset_id'', ''ci_id'', ''kb_id'']"

definition PARAM_ACCEPTS :: "(string \<times> string list) list" where
  "PARAM_ACCEPTS = [
     (''ticket_id'', [''incident'', ''request'', ''problem'', ''change'', ''asset'', ''cmdb_ci'']),
     (''incident_id'', [''incident'']), (''request_id'', [''request'']), (''problem_id'', [''problem'']),
     (''change_id'', [''change'']), (''asset_id'', [''asset'']), (''ci_id'', [''cmdb_ci'', ''asset'']),
     (''article_id'', [''knowledge'']), (''kb_id'', [''knowledge'']),
     (''entity_id'', [''incident'', ''request'', ''problem'', ''change'', ''asset'', ''cmdb_ci'', ''knowledge''])]"

type_synonym params = "(string \<times> string) list"

definition bound_value :: "params \<Rightarrow> string \<Rightarrow> string" where
  "bound_value out k = (case map_of out k of None \<Rightarrow> [] | Some v \<Rightarrow> v)"

definition derive_for_chat :: "normalizer \<Rightarrow> string \<Rightarrow> string \<Rightarrow> string option" where
  "derive_for_chat nz target_field source_value =
     (if target_field = ''service_id'' \<and> source_value \<noteq> []
      then map_option ne_service_id (nr_entity (normalize_token nz source_value)) else None)"

definition bind_field :: "normalizer \<Rightarrow> string \<Rightarrow> params \<Rightarrow> fast_path_input_field \<Rightarrow> params" where
  "bind_field nz entity_id out field =
     (if bound_value out (fpf_name field) \<noteq> [] then out
      else if fpf_name field \<in> set ENTITY_FIELD_NAMES then AList.update (fpf_name field) entity_id out
      else case fpf_auto_derive_from field of
        None \<Rightarrow> out
      | Some src \<Rightarrow>
          if src = [] then out
          else (case map_of out src of
                  None \<Rightarrow> out
                | Some v \<Rightarrow> (case derive_for_chat nz (fpf_name field) v of
                               None \<Rightarrow> out
                             | Some d \<Rightarrow> if d = [] then out else AList.update (fpf_name field) d out)))"

definition first_compatible_entity :: "(string \<times> string) list \<Rightarrow> string list \<Rightarrow> (string \<times> string) option" where
  "first_compatible_entity present services = find (\<lambda>(eid, esvc). services = [] \<or> esvc \<in> set services) present"

definition bind_fast_path_fields :: "normalizer \<Rightarrow> agent_record \<Rightarrow> (string \<times> string) list \<Rightarrow> params \<Rightarrow> params" where
  "bind_fast_path_fields nz a present out =
     (case ag_fast_path a of
        None \<Rightarrow> out
      | Some fp \<Rightarrow>
          (case first_compatible_entity present (at_service (ag_abac_tags a)) of
             None \<Rightarrow> out
           | Some (eid, _) \<Rightarrow> foldl (bind_field nz eid) out (fp_input_fields fp)))"

definition bind_tool_param :: "(string \<times> string) list \<Rightarrow> params \<Rightarrow> tool_parameter \<Rightarrow> params" where
  "bind_tool_param present out p =
     (if tp_name p \<notin> set ENTITY_FIELD_NAMES \<or> bound_value out (tp_name p) \<noteq> [] then out
      else let accepts = (case map_of PARAM_ACCEPTS (tp_name p) of None \<Rightarrow> [] | Some ss \<Rightarrow> ss) in
        case find (\<lambda>(eid, esvc). accepts = [] \<or> esvc \<in> set accepts) present of
          None \<Rightarrow> out
        | Some (eid, _) \<Rightarrow> AList.update (tp_name p) eid out)"

definition resolve_tool :: "registry \<Rightarrow> tool_ref \<Rightarrow> tool_record option" where
  "resolve_tool reg tref = (case tools_get_optional reg (tr_tool_id tref) None of Inl _ \<Rightarrow> None | Inr t \<Rightarrow> t)"

definition bind_tool_params :: "registry \<Rightarrow> agent_record \<Rightarrow> (string \<times> string) list \<Rightarrow> params \<Rightarrow> params" where
  "bind_tool_params reg a present out =
     foldl (\<lambda>d tref. case resolve_tool reg tref of None \<Rightarrow> d | Some t \<Rightarrow> foldl (bind_tool_param present) d (tl_parameters t))
       out (ag_tool_refs a)"

definition bind_entities_to_fast_path :: "registry \<Rightarrow> normalizer \<Rightarrow> agent_record option \<Rightarrow> params \<Rightarrow> (string \<times> string) list \<Rightarrow> params" where
  "bind_entities_to_fast_path reg nz agent existing present =
     (case agent of
        None \<Rightarrow> existing
      | Some a \<Rightarrow> if present = [] then existing
                  else bind_tool_params reg a present (bind_fast_path_fields nz a present existing))"

definition chat_bind :: "'t router_env \<Rightarrow> string \<Rightarrow> request_signals \<Rightarrow> string \<Rightarrow> params \<Rightarrow> router_error + params" where
  "chat_bind env agent_id signals t base =
     (case agents_get_optional (re_registry env) agent_id of
        Inl e \<Rightarrow> Inl (RtRegistry e)
      | Inr agent \<Rightarrow>
          let bound = bind_entities_to_fast_path (re_registry env) (re_normalizer env) agent base (rs_present_entities signals)
          in Inr (if t = [] then bound
                  else let b1 = AList.update ''user_message'' t bound
                       in if map_of b1 ''query'' = None then AList.update ''query'' t b1 else b1))"

section \<open>The funnel of one sub-query\<close>

record funnel_outcome =
  fo_agent_ids :: "string list"
  fo_parameters_by_agent :: "(string \<times> params) list"
  fo_reason :: string
  fo_policy_denied :: bool

definition fo_failed :: "string \<Rightarrow> bool \<Rightarrow> funnel_outcome" where
  "fo_failed reason denied = \<lparr>fo_agent_ids = [], fo_parameters_by_agent = [], fo_reason = reason, fo_policy_denied = denied\<rparr>"

definition fo_routed :: "string list \<Rightarrow> (string \<times> params) list \<Rightarrow> funnel_outcome" where
  "fo_routed ids ps = \<lparr>fo_agent_ids = ids, fo_parameters_by_agent = ps, fo_reason = [], fo_policy_denied = False\<rparr>"

definition chat_eligible :: "'t router_env \<Rightarrow> string \<Rightarrow> router_error + bool" where
  "chat_eligible env agent_id = (case agents_get_optional (re_registry env) agent_id of
     Inl e \<Rightarrow> Inl (RtRegistry e) | Inr None \<Rightarrow> Inr True | Inr (Some a) \<Rightarrow> Inr (ag_chat_router_eligible a))"

fun eligible_candidates :: "'t router_env \<Rightarrow> candidate list \<Rightarrow> router_error + candidate list" where
  "eligible_candidates env [] = Inr []"
| "eligible_candidates env (c # cs) = sbind (chat_eligible env (cd_agent_id c)) (\<lambda>ok.
     sbind (eligible_candidates env cs) (\<lambda>rest. Inr (if ok then c # rest else rest)))"

text \<open>One authorisation check: the lookup and the store of a new decision read the clock.\<close>

definition router_check :: "'t :: linordered_idom router_env \<Rightarrow> principal \<Rightarrow> resource_descriptor \<Rightarrow> 't router_state \<Rightarrow>
    (authz_error + authz_decision) \<times> 't router_state" where
  "router_check env p r st =
     (let now = rst_now st; later = re_tick env now;
          (res, c) = check (re_authz_digest env) (re_authz env) (rst_decisions st) now later p r
      in (res, st\<lparr>rst_decisions := c, rst_now := later\<rparr>))"

fun stage3_filter :: "'t :: linordered_idom router_env \<Rightarrow> principal \<Rightarrow> request_signals \<Rightarrow> candidate list \<Rightarrow> 't router_state \<Rightarrow>
    (router_error + (candidate \<times> ternary) list \<times> bool) \<times> 't router_state" where
  "stage3_filter env p signals [] st = (Inr ([], False), st)"
| "stage3_filter env p signals (c # cs) st =
     (case agents_get_optional (re_registry env) (cd_agent_id c) of
        Inl e \<Rightarrow> (Inl (RtRegistry e), st)
      | Inr None \<Rightarrow> stage3_filter env p signals cs st
      | Inr (Some a) \<Rightarrow>
          (case evaluate_condition (ag_activation_condition a) signals of
             Inl e \<Rightarrow> (Inl (RtCondition e), st)
           | Inr verdict \<Rightarrow>
               if verdict = FAIL then stage3_filter env p signals cs st
               else (case from_agent_record a (p_tenant_id p) of
                       Inl e \<Rightarrow> (Inl (RtAuthz e), st)
                     | Inr r \<Rightarrow>
                         let (res, st1) = router_check env p r st in
                         (case res of
                            Inl e \<Rightarrow> (Inl (RtAuthz e), st1)
                          | Inr d \<Rightarrow>
                              let (rest, st2) = stage3_filter env p signals cs st1
                              in (sbind rest (\<lambda>(sv, denied). Inr (if allowed d then ((c, verdict) # sv, denied) else (sv, True))), st2)))))"

definition route_to :: "'t router_env \<Rightarrow> string \<Rightarrow> request_signals \<Rightarrow> string \<Rightarrow> router_error + funnel_outcome" where
  "route_to env agent_id signals t =
     sbind (chat_bind env agent_id signals t []) (\<lambda>bound. Inr (fo_routed [agent_id] [(agent_id, bound)]))"

definition try_preroute :: "'t router_env \<Rightarrow> candidate list \<Rightarrow> request_signals \<Rightarrow> string \<Rightarrow> string \<Rightarrow> string \<Rightarrow> bool \<Rightarrow>
    router_error + funnel_outcome option" where
  "try_preroute env survivors signals t normalized original_text has_focus =
     (let preroute_text = (if original_text = [] then normalized else original_text) in
      case deterministic_preroute (re_terms env) preroute_text (set (map cd_agent_id survivors)) has_focus of
        None \<Rightarrow> Inr None
      | Some (agent_id, _, _) \<Rightarrow> sbind (route_to env agent_id signals t) (\<lambda>fo. Inr (Some fo)))"

definition try_confidence_skip :: "'t router_env \<Rightarrow> (candidate \<times> ternary) list \<Rightarrow> request_signals \<Rightarrow> string \<Rightarrow>
    router_error + funnel_outcome option" where
  "try_confidence_skip env verdicts signals t =
     (case (re_confidence_skip env, verdicts) of
        (Some (min_score, min_margin), (first, verdict) # (second, _) # _) \<Rightarrow>
          if verdict = PASS \<and> min_score \<le> cd_score first \<and> min_margin \<le> cd_score first - cd_score second
          then sbind (route_to env (cd_agent_id first) signals t) (\<lambda>fo. Inr (Some fo))
          else Inr None
      | _ \<Rightarrow> Inr None)"

definition declined_outcome :: "'t router_env \<Rightarrow> disambiguation \<Rightarrow> (candidate \<times> ternary) list \<Rightarrow> request_signals \<Rightarrow> string \<Rightarrow>
    router_error + funnel_outcome" where
  "declined_outcome env result verdicts signals t =
     (case map fst (filter (\<lambda>(c, v). v = PASS) verdicts) of
        [sole] \<Rightarrow> route_to env (cd_agent_id sole) signals t
      | _ \<Rightarrow> Inr (fo_failed (if da_rationale result = [] then ''no confident match'' else da_rationale result) False))"

definition intent_tokens :: "json list \<Rightarrow> string set" where
  "intent_tokens js = {s. JStr s \<in> set js}"

lemma intent_tokens_code [code]: "intent_tokens js = set [s. JStr s \<leftarrow> js]"
  by (force simp: intent_tokens_def split: json.splits)

fun still_admitted :: "'t router_env \<Rightarrow> request_signals \<Rightarrow> string list \<Rightarrow> router_error + string list" where
  "still_admitted env resolved [] = Inr []"
| "still_admitted env resolved (agent_id # ids) =
     (case agents_get_optional (re_registry env) agent_id of
        Inl e \<Rightarrow> Inl (RtRegistry e)
      | Inr None \<Rightarrow> still_admitted env resolved ids
      | Inr (Some a) \<Rightarrow>
          (case survives_filter (ag_activation_condition a) resolved of
             Inl e \<Rightarrow> Inl (RtCondition e)
           | Inr ok \<Rightarrow> sbind (still_admitted env resolved ids) (\<lambda>rest. Inr (if ok then agent_id # rest else rest))))"

definition resolve_chosen :: "'t router_env \<Rightarrow> disambiguation \<Rightarrow> request_signals \<Rightarrow> router_error + string list" where
  "resolve_chosen env result signals =
     (if da_intents result = [] then Inr (da_selected_agent_ids result)
      else if \<not> list_all hashable (da_intents result) then Inl (RtRaised TypeError)
      else still_admitted env (with_intents signals (intent_tokens (da_intents result))) (da_selected_agent_ids result))"

definition bind_chosen_params :: "'t router_env \<Rightarrow> disambiguation \<Rightarrow> request_signals \<Rightarrow> string \<Rightarrow> string list \<Rightarrow>
    router_error + (string \<times> params) list" where
  "bind_chosen_params env result signals t chosen =
     sfold (\<lambda>ps a. sbind (chat_bind env a signals t (params_for result a)) (\<lambda>b. Inr (AList.update a b ps))) [] chosen"

definition stage4_disambiguate :: "'t router_env \<Rightarrow> request_ctx \<Rightarrow> string \<Rightarrow> (candidate \<times> ternary) list \<Rightarrow> request_signals \<Rightarrow> string \<Rightarrow>
    router_error + funnel_outcome" where
  "stage4_disambiguate env rctx normalized verdicts signals t =
     (case re_disambiguate env rctx normalized (map fst verdicts) of
        Inl e \<Rightarrow> Inl (RtRaised e)
      | Inr result \<Rightarrow>
          if \<not> is_confident_match result then declined_outcome env result verdicts signals t
          else sbind (resolve_chosen env result signals) (\<lambda>chosen.
                 if chosen = [] then Inr (fo_failed ''selected agent(s) failed the intent-resolved check'' False)
                 else sbind (bind_chosen_params env result signals t chosen) (\<lambda>ps. Inr (fo_routed chosen ps))))"

definition after_stage3 :: "'t router_env \<Rightarrow> request_ctx \<Rightarrow> string \<Rightarrow> string \<Rightarrow> string \<Rightarrow> request_signals \<Rightarrow> (candidate \<times> ternary) list \<Rightarrow> bool \<Rightarrow>
    router_error + funnel_outcome" where
  "after_stage3 env rctx t normalized original_text signals verdicts denied =
     (if verdicts = [] then
        Inr (fo_failed (if denied then ''every candidate was denied by access policy''
                        else ''no candidate passed the activation-condition filter'') denied)
      else
        sbind (try_preroute env (map fst verdicts) signals t normalized original_text (strip (rc_focus_entity_id rctx) \<noteq> [])) (\<lambda>pre.
          case pre of
            Some fo \<Rightarrow> Inr fo
          | None \<Rightarrow>
              (case verdicts of
                 [(sole, _)] \<Rightarrow> route_to env (cd_agent_id sole) signals t
               | _ \<Rightarrow>
                   sbind (try_confidence_skip env verdicts signals t) (\<lambda>skip.
                     case skip of
                       Some fo \<Rightarrow> Inr fo
                     | None \<Rightarrow> stage4_disambiguate env rctx normalized verdicts signals t))))"

definition funnel :: "'t :: linordered_idom router_env \<Rightarrow> principal \<Rightarrow> request_ctx \<Rightarrow> request_signals \<Rightarrow> string \<Rightarrow> string \<Rightarrow> 't router_state \<Rightarrow>
    (router_error + funnel_outcome) \<times> 't router_state" where
  "funnel env p rctx signals t original_text st =
     (let normalized = glossary_normalize (re_glossary env) t;
          candidates = re_retrieve env normalized (p_tenant_id p) (re_top_k env)
      in if candidates = [] then (Inr (fo_failed ''no candidates retrieved'' False), st)
         else case eligible_candidates env candidates of
           Inl e \<Rightarrow> (Inl e, st)
         | Inr cands \<Rightarrow>
             if cands = [] then (Inr (fo_failed ''no chat-eligible candidates'' False), st)
             else let (r, st') = stage3_filter env p signals cands st
                  in (sbind r (\<lambda>(verdicts, denied). after_stage3 env rctx t normalized original_text signals verdicts denied), st'))"

section \<open>Sub-queries\<close>

definition scope_subquery_signals :: "'t router_env \<Rightarrow> sub_query \<Rightarrow> rewrite_result \<Rightarrow> request_signals \<Rightarrow> request_ctx \<Rightarrow>
    conversation_turn list \<Rightarrow> request_signals" where
  "scope_subquery_signals env sq rewrite signals rctx history =
     (let t = (if rw_changed rewrite then rw_text rewrite else sub_text sq);
          found = xt_entities (extract_ids (re_normalizer env) t);
          focus_id = strip (rc_focus_entity_id rctx); focus_service = strip (rc_focus_service_id rctx)
      in signals\<lparr>rs_present_entities :=
           (if found \<noteq> [] then map (\<lambda>e. (ne_entity_id e, ne_service_id e)) found
            else if focus_id \<noteq> [] \<and> focus_service \<noteq> [] \<and> is_followup_reference t then [(focus_id, focus_service)]
            else if references_linked_record t
            then (case extract_focus_from_history (re_normalizer env) history of None \<Rightarrow> [] | Some f \<Rightarrow> [f])
            else [])\<rparr>)"

definition route_subquery :: "'t :: linordered_idom router_env \<Rightarrow> principal \<Rightarrow> request_ctx \<Rightarrow> request_signals \<Rightarrow> conversation_turn list \<Rightarrow>
    string option \<Rightarrow> sub_query \<Rightarrow> 't router_state \<Rightarrow> (router_error + funnel_outcome) \<times> 't router_state" where
  "route_subquery env p rctx signals history speculative sq st =
     (case (case re_split env of
              Some _ \<Rightarrow> Inr (rewrite_unchanged (sub_text sq))
            | None \<Rightarrow> re_rewrite env rctx history (case speculative of Some q \<Rightarrow> q | None \<Rightarrow> sub_text sq)) of
        Inl e \<Rightarrow> (Inl (RtRaised e), st)
      | Inr rewrite \<Rightarrow>
          funnel env p rctx (scope_subquery_signals env sq rewrite signals rctx history) (rw_text rewrite) (sub_text sq) st)"

text \<open>The loop over the sub-queries: routes, texts that did not route, their reasons, whether one was denied.\<close>

fun route_subqueries :: "'t :: linordered_idom router_env \<Rightarrow> principal \<Rightarrow> request_ctx \<Rightarrow> request_signals \<Rightarrow> conversation_turn list \<Rightarrow>
    string option \<Rightarrow> sub_query list \<Rightarrow> 't router_state \<Rightarrow>
    (router_error + sub_query_route list \<times> string list \<times> string list \<times> bool) \<times> 't router_state" where
  "route_subqueries env p rctx signals history speculative [] st = (Inr ([], [], [], False), st)"
| "route_subqueries env p rctx signals history speculative (sq # sqs) st =
     (let (r, st1) = route_subquery env p rctx signals history speculative sq st in
      case r of
        Inl e \<Rightarrow> (Inl e, st1)
      | Inr fo \<Rightarrow>
          let (rest, st2) = route_subqueries env p rctx signals history speculative sqs st1
          in (sbind rest (\<lambda>(routes, unrouted, reasons, denied). Inr (
                if fo_agent_ids fo \<noteq> []
                then (\<lparr>sq_id = sub_id sq, sq_agent_ids = fo_agent_ids fo, sq_parameters_by_agent = fo_parameters_by_agent fo,
                       sq_depends_on = sub_depends_on sq, sq_bindings = sub_bindings sq\<rparr> # routes, unrouted, reasons, denied)
                else (routes, sub_text sq # unrouted, fo_reason fo # reasons, fo_policy_denied fo \<or> denied))), st2))"

section \<open>The route cache\<close>

text \<open>\<open>RegistryService.routing_fingerprint\<close>: a digest of the active records, computed once.\<close>

definition routing_fingerprint :: "'t router_env \<Rightarrow> 't router_state \<Rightarrow> (reg_error + string) \<times> 't router_state" where
  "routing_fingerprint env st =
     (case rst_fingerprint st of
        Some fp \<Rightarrow> (Inr fp, st)
      | None \<Rightarrow>
          (case sbind (list_active agent_schema_ok (agents (re_registry env))) (\<lambda>as.
                 sbind (list_active tool_schema_ok (tools (re_registry env))) (\<lambda>ts.
                   Inr (re_registry_digest env (sort_key rec_id as) (sort_key rec_id ts)))) of
             Inl e \<Rightarrow> (Inl e, st)
           | Inr fp \<Rightarrow> (Inr fp, st\<lparr>rst_fingerprint := Some fp\<rparr>)))"

definition router_cache_key :: "'t router_env \<Rightarrow> string \<Rightarrow> principal \<Rightarrow> request_signals \<Rightarrow> conversation_turn list \<Rightarrow> request_ctx \<Rightarrow>
    't router_state \<Rightarrow> string option \<times> 't router_state" where
  "router_cache_key env query p signals history rctx st =
     (case re_route_ttl env of
        None \<Rightarrow> (None, st)
      | Some _ \<Rightarrow>
          (case routing_fingerprint env st of
             (Inl e, st1) \<Rightarrow> (None, st1)
           | (Inr fp, st1) \<Rightarrow>
               (Some (route_cache_key (re_digests env) query (p_role p) (rc_domain rctx) (rc_focus_entity_id rctx)
                        (rc_focus_service_id rctx) (signals_digest (re_digests env) signals)
                        (conversation_digest (re_digests env) history) fp), st1)))"

definition result_from_cache :: "registry \<Rightarrow> json \<Rightarrow> route_result option" where
  "result_from_cache reg hit =
     (let outcome = jget hit ''outcome'';
          reason = (case jget hit ''reason'' of JStr s \<Rightarrow> s | _ \<Rightarrow> []);
          diag = [''route-cache: hit'']
      in if outcome = JStr ''routed'' then
           Option.bind (Option.bind (json_list_of Some (get_or hit ''routes'' (JList []))) deserialize_routes) (\<lambda>routes.
             if routes = [] then None
             else case assemble_plan routes reg of
               Some (Inr plan) \<Rightarrow> map_option (routed plan diag) (json_strings (get_or hit ''unrouted'' (JList [])))
             | _ \<Rightarrow> None)
         else if outcome = JStr ''policy_denied'' then Some (policy_denied reason diag)
         else if outcome = JStr ''no_match'' then Some (no_match reason diag)
         else None)"

definition route_cache_lookup :: "'t :: linordered_idom router_env \<Rightarrow> string option \<Rightarrow> principal \<Rightarrow> 't router_state \<Rightarrow>
    route_result option \<times> 't router_state" where
  "route_cache_lookup env cache_key p st =
     (case (re_route_ttl env, cache_key) of
        (Some ttl, Some key) \<Rightarrow>
          let (hit, rows) = route_get ttl (rst_routes st) (rst_now st) (p_tenant_id p) key
          in (Option.bind hit (result_from_cache (re_registry env)), st\<lparr>rst_routes := rows, rst_now := re_tick env (rst_now st)\<rparr>)
      | _ \<Rightarrow> (None, st))"

definition route_cache_store :: "'t router_env \<Rightarrow> string option \<Rightarrow> principal \<Rightarrow> string \<Rightarrow> sub_query_route list \<Rightarrow> string list \<Rightarrow> string \<Rightarrow>
    't router_state \<Rightarrow> 't router_state" where
  "route_cache_store env cache_key p outcome routes unrouted reason st =
     (case (re_route_ttl env, cache_key) of
        (Some ttl, Some key) \<Rightarrow>
          st\<lparr>rst_routes := route_put (rst_routes st) (rst_now st) (p_tenant_id p) key
               (serialize_decision outcome routes unrouted reason), rst_now := re_tick env (rst_now st)\<rparr>
      | _ \<Rightarrow> st)"

section \<open>Routing a message\<close>

definition finalize_route :: "'t router_env \<Rightarrow> principal \<Rightarrow> string option \<Rightarrow> nat \<Rightarrow> sub_query_route list \<Rightarrow> string list \<Rightarrow> string list \<Rightarrow> bool \<Rightarrow>
    't router_state \<Rightarrow> (router_error + route_result) \<times> 't router_state" where
  "finalize_route env p cache_key subquery_count routes unrouted reasons denied st =
     (if routes = [] then
        let reason = (if subquery_count = 1 \<and> reasons \<noteq> [] then hd reasons else ''no sub-query produced a confident route'')
        in (Inr (if denied then policy_denied reason [] else no_match reason []),
            route_cache_store env cache_key p (if denied then ''policy_denied'' else ''no_match'') [] [] reason st)
      else
        (case assemble_plan routes (re_registry env) of
           None \<Rightarrow> Inl RtNoReturn
         | Some (Inl e) \<Rightarrow> Inl (RtPlan e)
         | Some (Inr plan) \<Rightarrow> Inr (routed plan [] unrouted),
         route_cache_store env cache_key p ''routed'' routes unrouted [] st))"

definition split_message :: "'t router_env \<Rightarrow> request_ctx \<Rightarrow> conversation_turn list \<Rightarrow> string \<Rightarrow> llm_exc + sub_query list \<times> string option" where
  "split_message env rctx history query =
     (case re_split env of
        Some split \<Rightarrow> sbind (split rctx history query) (\<lambda>sqs. Inr (sqs, None))
      | None \<Rightarrow> sbind (re_decompose env rctx query) (\<lambda>sqs.
          Inr (sqs, case sqs of [sq] \<Rightarrow> if strip (sub_text sq) = strip query then Some query else None | _ \<Rightarrow> None)))"

definition route :: "'t :: linordered_idom router_env \<Rightarrow> principal \<Rightarrow> request_ctx \<Rightarrow> request_signals \<Rightarrow> conversation_turn list \<Rightarrow> string \<Rightarrow>
    't router_state \<Rightarrow> (router_error + route_result) \<times> 't router_state" where
  "route env p rctx signals history query st =
     (if strip query = [] then (Inr (no_match ''empty query'' [''stage0: empty query'']), st)
      else
        let (cache_key, st1) = router_cache_key env query p signals history rctx st;
            (cached, st2) = route_cache_lookup env cache_key p st1
        in case cached of
             Some result \<Rightarrow> (Inr result, st2)
           | None \<Rightarrow>
               (case split_message env rctx history query of
                  Inl e \<Rightarrow> (Inl (RtRaised e), st2)
                | Inr (sqs, speculative) \<Rightarrow>
                    let (r, st3) = route_subqueries env p rctx signals history speculative sqs st2
                    in (case r of
                          Inl e \<Rightarrow> (Inl e, st3)
                        | Inr (routes, unrouted, reasons, denied) \<Rightarrow>
                            finalize_route env p cache_key (length sqs) routes unrouted reasons denied st3)))"

end
