(* ===== verification/RouterCorrectness.thy ===== *)
theory RouterCorrectness
  imports Router Samples
begin

text \<open>
  What the funnel guarantees: which agents it may select, what the route cache gives back, how parameters are bound and how the
  outcome accounts for the sub-queries; and where stage 4 breaks the first of these.
\<close>

section \<open>Access checks in the funnel\<close>

text \<open>The state's authorisation cache is one its own checks can have built, and the clock does not run backwards.\<close>

definition router_ok :: "'t :: linordered_idom router_env \<Rightarrow> 't router_state \<Rightarrow> bool" where
  "router_ok env st \<longleftrightarrow> (\<forall>t. t \<le> re_tick env t) \<and> (\<forall>x. collision_free (re_authz_digest env) x)
     \<and> cache_reachable (re_authz_digest env) (re_authz env) (rst_decisions st) (rst_now st)"

definition admitted :: "'t router_env \<Rightarrow> principal \<Rightarrow> request_signals \<Rightarrow> string \<Rightarrow> bool" where
  "admitted env p signals i \<longleftrightarrow> (\<exists>a v r. agents_get_optional (re_registry env) i = Inr (Some a)
     \<and> evaluate_condition (ag_activation_condition a) signals = Inr v \<and> v \<noteq> FAIL
     \<and> from_agent_record a (p_tenant_id p) = Inr r
     \<and> access_permitted p r (permissions_for (az_rbac (re_authz env)) (p_role p)))"

lemma decide_allowed: "decide az p r = Inr d \<Longrightarrow> allowed d \<longleftrightarrow> access_permitted p r (permissions_for (az_rbac az) (p_role p))"
  using evaluate_access_iff [of p r "permissions_for (az_rbac az) (p_role p)"]
  by (auto simp: decide_def Let_def allow_def deny_def allowed_def split: if_splits)

lemma router_check_ok:
  assumes "router_ok env st" and "router_check env p r st = (res, st1)"
  shows "router_ok env st1" and "rst_routes st1 = rst_routes st" and "rst_fingerprint st1 = rst_fingerprint st"
    and "rst_now st \<le> rst_now st1"
    and "res = Inr d \<Longrightarrow> allowed d \<longleftrightarrow> access_permitted p r (permissions_for (az_rbac (re_authz env)) (p_role p))"
proof -
  let ?check = "check (re_authz_digest env) (re_authz env) (rst_decisions st) (rst_now st) (re_tick env (rst_now st)) p r"
  have st1: "st1 = st\<lparr>rst_decisions := snd ?check, rst_now := re_tick env (rst_now st)\<rparr>" and res: "res = fst ?check"
    using assms(2) by (auto simp: router_check_def Let_def split: prod.splits)
  have ok: "rst_now st \<le> re_tick env (rst_now st)" "collision_free (re_authz_digest env) (key_payload_of p r)"
      "cache_reachable (re_authz_digest env) (re_authz env) (rst_decisions st) (rst_now st)"
    using assms(1) by (auto simp: router_ok_def)
  show "router_ok env st1"
    using assms(1) cache_check [OF ok(3,1), of p r] by (simp add: st1 router_ok_def)
  show "rst_routes st1 = rst_routes st" and "rst_fingerprint st1 = rst_fingerprint st" and "rst_now st \<le> rst_now st1"
    using ok(1) by (simp_all add: st1)
  show "allowed d \<longleftrightarrow> access_permitted p r (permissions_for (az_rbac (re_authz env)) (p_role p))" if d: "res = Inr d"
    using ok(2,3)
  proof (cases rule: check_answer [where later = "re_tick env (rst_now st)"])
    case (answer d1 d2 c)
    then have "allowed d = allowed d2"
      using d res by (auto simp: with_cache_flag_def allowed_def)
    then show ?thesis
      using decide_allowed [OF answer(2)] by simp
  next
    case (no_ttl e c)
    then show ?thesis
      using d res by simp
  qed
qed

text \<open>What no step of the funnel touches, and that time goes on.\<close>

definition frame :: "'t :: linordered_idom router_state \<Rightarrow> 't router_state \<Rightarrow> bool" where
  "frame st st' \<longleftrightarrow> rst_routes st' = rst_routes st \<and> rst_fingerprint st' = rst_fingerprint st \<and> rst_now st \<le> rst_now st'"

lemma frame_refl [simp]: "frame st st"
  by (simp add: frame_def)

lemma frame_trans: "frame st st1 \<Longrightarrow> frame st1 st2 \<Longrightarrow> frame st st2"
  by (auto simp: frame_def)

lemma router_check_frame: "router_ok env st \<Longrightarrow> router_check env p r st = (res, st1) \<Longrightarrow> frame st st1 \<and> router_ok env st1"
  using router_check_ok [of env st p r res st1] by (simp add: frame_def)

lemma stage3_filter_spec:
  "router_ok env st \<Longrightarrow> stage3_filter env p signals cs st = (res, st') \<Longrightarrow>
     frame st st' \<and> router_ok env st' \<and>
     (\<forall>sv denied. res = Inr (sv, denied) \<longrightarrow> (\<forall>(c, v) \<in> set sv. c \<in> set cs \<and> admitted env p signals (cd_agent_id c)))"
proof (induction cs arbitrary: st res st')
  case Nil
  then show ?case
    by auto
next
  case (Cons c cs)
  consider (stop) e where "res = Inl e" "st' = st"
    | (drop) "stage3_filter env p signals cs st = (res, st')"
    | (check) a v r where "agents_get_optional (re_registry env) (cd_agent_id c) = Inr (Some a)"
        "evaluate_condition (ag_activation_condition a) signals = Inr v" "v \<noteq> FAIL" "from_agent_record a (p_tenant_id p) = Inr r"
    using Cons.prems(2) by (auto split: sum.splits option.splits if_splits prod.splits)
  then show ?case
  proof cases
    case stop
    then show ?thesis
      using Cons.prems(1) by simp
  next
    case drop
    then show ?thesis
      using Cons.IH [OF Cons.prems(1) drop] by auto
  next
    case check
    obtain res1 st1 where k: "router_check env p r st = (res1, st1)"
      by fastforce
    note k' = router_check_frame [OF Cons.prems(1) k]
    show ?thesis
    proof (cases res1)
      case (Inl e)
      then show ?thesis
        using Cons.prems(2) check k k' by (auto split: if_splits)
    next
      case (Inr d)
      obtain rest st2 where r2: "stage3_filter env p signals cs st1 = (rest, st2)"
        by fastforce
      have out: "st' = st2" "res = sbind rest (\<lambda>(sv, denied). Inr (if allowed d then ((c, v) # sv, denied) else (sv, True)))"
        using Cons.prems(2) check k Inr r2 by auto
      have "allowed d \<Longrightarrow> admitted env p signals (cd_agent_id c)"
        using router_check_ok(5) [OF Cons.prems(1) k Inr] check by (auto simp: admitted_def)
      then show ?thesis
        using Cons.IH [OF conjunct2 [OF k'] r2] k' frame_trans out by (auto split: prod.splits if_splits) blast+
    qed
  qed
qed

section \<open>Only survivors are selected\<close>

lemma eligible_candidates_spec:
  "eligible_candidates env cs = Inr es \<Longrightarrow> \<forall>c \<in> set es. c \<in> set cs \<and> chat_eligible env (cd_agent_id c) = Inr True"
  by (induction cs arbitrary: es) (auto split: if_splits)

lemma route_to_agents: "route_to env i signals t = Inr fo \<Longrightarrow> fo_agent_ids fo = [i]"
  by (auto simp: route_to_def fo_routed_def)

lemma still_admitted_subset: "still_admitted env resolved ids = Inr out \<Longrightarrow> set out \<subseteq> set ids"
  by (induction ids arbitrary: out) (auto split: sum.splits option.splits if_splits)

lemma resolve_chosen_subset: "resolve_chosen env d signals = Inr out \<Longrightarrow> set out \<subseteq> set (da_selected_agent_ids d)"
  by (auto simp: resolve_chosen_def dest: still_admitted_subset [THEN subsetD] split: if_splits)

lemma try_preroute_survivor:
  assumes "try_preroute env cs signals t n orig foc = Inr (Some fo)"
  shows "set (fo_agent_ids fo) \<subseteq> cd_agent_id ` set cs"
proof -
  obtain a i r where "deterministic_preroute (re_terms env) (if orig = [] then n else orig) (set (map cd_agent_id cs)) foc = Some (a, i, r)"
      "route_to env a signals t = Inr fo"
    using assms by (auto simp: try_preroute_def Let_def split: option.splits)
  then show ?thesis
    using preroute_valid route_to_agents by fastforce
qed

lemma try_confidence_skip_survivor:
  "try_confidence_skip env vs signals t = Inr (Some fo) \<Longrightarrow> set (fo_agent_ids fo) \<subseteq> cd_agent_id ` fst ` set vs"
  by (auto simp: try_confidence_skip_def dest!: route_to_agents split: option.splits list.splits if_splits)

lemma declined_outcome_survivor:
  assumes "declined_outcome env d vs signals t = Inr fo"
  shows "set (fo_agent_ids fo) \<subseteq> cd_agent_id ` fst ` set vs"
proof (cases "\<exists>sole. map fst (filter (\<lambda>(c, v). v = PASS) vs) = [sole]")
  case True
  then obtain sole where sole: "map fst (filter (\<lambda>(c, v). v = PASS) vs) = [sole]"
    by (elim exE)
  then have "sole \<in> fst ` set vs"
    by (metis filter_is_subset image_eqI list.set_intros(1) list.set_map subset_image_iff subset_iff)
  moreover have "fo_agent_ids fo = [cd_agent_id sole]"
    using assms route_to_agents by (auto simp: declined_outcome_def sole)
  ultimately show ?thesis
    by simp
next
  case False
  then have "fo_agent_ids fo = []"
    using assms by (auto simp: declined_outcome_def fo_failed_def split: list.splits)
  then show ?thesis
    by simp
qed

context closed_disambiguator
begin

lemma stage4_survivor:
  assumes "re_disambiguate env rctx = pick" and "stage4_disambiguate env rctx n vs signals t = Inr fo"
  shows "set (fo_agent_ids fo) \<subseteq> cd_agent_id ` fst ` set vs"
proof -
  obtain d where d: "pick n (map fst vs) = Inr d"
    using assms by (auto simp: stage4_disambiguate_def split: sum.splits)
  show ?thesis
  proof (cases "is_confident_match d")
    case True
    then consider "fo_agent_ids fo = []" | "resolve_chosen env d signals = Inr (fo_agent_ids fo)"
      using assms d by (auto simp: stage4_disambiguate_def fo_failed_def fo_routed_def split: if_splits)
    then show ?thesis
      using resolve_chosen_subset [of env d signals] closed [OF d] by cases force+
  next
    case False
    then show ?thesis
      using assms d declined_outcome_survivor [of env d vs signals t fo] by (simp add: stage4_disambiguate_def)
  qed
qed

lemma after_stage3_survivor:
  assumes "re_disambiguate env rctx = pick" and "after_stage3 env rctx t n orig signals vs denied = Inr fo"
  shows "set (fo_agent_ids fo) \<subseteq> cd_agent_id ` fst ` set vs"
proof (cases "vs = []")
  case True
  then show ?thesis
    using assms(2) by (auto simp: after_stage3_def fo_failed_def)
next
  case False
  then obtain pre where pre: "try_preroute env (map fst vs) signals t n orig (strip (rc_focus_entity_id rctx) \<noteq> []) = Inr pre"
    using assms(2) by (auto simp: after_stage3_def)
  show ?thesis
  proof (cases pre)
    case (Some fo')
    then show ?thesis
      using try_preroute_survivor [of env "map fst vs"] pre assms(2) False by (auto simp: after_stage3_def)
  next
    case None
    note pre = pre [unfolded None]
    show ?thesis
    proof (cases "\<exists>sole v. vs = [(sole, v)]")
      case True
      then obtain sole v where vs: "vs = [(sole, v)]"
        by (elim exE)
      then have "route_to env (cd_agent_id sole) signals t = Inr fo"
        using assms(2) pre by (simp add: after_stage3_def)
      then show ?thesis
        using route_to_agents vs by fastforce
    next
      case False
      then obtain c v c' v' rest where vs: "vs = (c, v) # (c', v') # rest"
        using \<open>vs \<noteq> []\<close> by (cases vs; cases "tl vs") auto
      then obtain skip where skip: "try_confidence_skip env vs signals t = Inr skip"
        using assms(2) pre by (auto simp: after_stage3_def)
      then show ?thesis
      proof (cases skip)
        case (Some fo')
        then have "fo' = fo"
          using assms(2) pre skip vs by (simp add: after_stage3_def)
        then show ?thesis
          using try_confidence_skip_survivor skip Some by blast
      next
        case None
        then have "stage4_disambiguate env rctx n vs signals t = Inr fo"
          using assms(2) pre skip vs by (simp add: after_stage3_def)
        then show ?thesis
          using stage4_survivor [OF assms(1)] by blast
      qed
    qed
  qed
qed

end

definition selectable :: "'t router_env \<Rightarrow> principal \<Rightarrow> request_signals \<Rightarrow> string \<Rightarrow> bool" where
  "selectable env p signals i \<longleftrightarrow> chat_eligible env i = Inr True \<and> admitted env p signals i"

context closed_disambiguator
begin

lemma funnel_selects:
  assumes "router_ok env st" and "re_disambiguate env rctx = pick" and "funnel env p rctx signals t orig st = (res, st')"
  shows "frame st st' \<and> router_ok env st' \<and> (\<forall>fo. res = Inr fo \<longrightarrow> (\<forall>i \<in> set (fo_agent_ids fo). selectable env p signals i))"
proof -
  let ?n = "glossary_normalize (re_glossary env) t"
  let ?cs = "re_retrieve env ?n (p_tenant_id p) (re_top_k env)"
  consider (early) "st' = st" "\<forall>fo. res = Inr fo \<longrightarrow> fo_agent_ids fo = []"
    | (filtered) es r where "eligible_candidates env ?cs = Inr es" "stage3_filter env p signals es st = (r, st')"
        "res = sbind r (\<lambda>(verdicts, denied). after_stage3 env rctx t ?n orig signals verdicts denied)"
    using assms(3) by (auto simp: funnel_def Let_def fo_failed_def split: sum.splits if_splits prod.splits)
  then show ?thesis
  proof cases
    case early
    then show ?thesis
      using assms(1) by auto
  next
    case filtered
    note s3 = stage3_filter_spec [OF assms(1) filtered(2)]
    have "selectable env p signals i" if fo: "res = Inr fo" and i: "i \<in> set (fo_agent_ids fo)" for fo i
    proof -
      obtain vs denied where r: "r = Inr (vs, denied)" and "after_stage3 env rctx t ?n orig signals vs denied = Inr fo"
        using fo filtered(3) by (cases r) auto
      then obtain c v where c: "(c, v) \<in> set vs" "cd_agent_id c = i"
        using after_stage3_survivor [OF assms(2)] i by fastforce
      then have "c \<in> set es" "admitted env p signals i"
        using s3 r by auto
      then show ?thesis
        using eligible_candidates_spec [OF filtered(1)] c(2) by (auto simp: selectable_def)
    qed
    then show ?thesis
      using s3 by blast
  qed
qed

lemma route_subqueries_selects:
  assumes "re_disambiguate env rctx = pick"
  shows "router_ok env st \<Longrightarrow> route_subqueries env p rctx signals history spec sqs st = (res, st') \<Longrightarrow>
    frame st st' \<and> router_ok env st' \<and>
    (\<forall>routes rest. res = Inr (routes, rest) \<longrightarrow> (\<forall>r \<in> set routes. \<forall>i \<in> set (sq_agent_ids r).
       \<exists>es. selectable env p (signals\<lparr>rs_present_entities := es\<rparr>) i))"
proof (induction sqs arbitrary: st res)
  case Nil
  then show ?case
    by auto
next
  case (Cons sq sqs)
  obtain r st1 where r: "route_subquery env p rctx signals history spec sq st = (r, st1)"
    by fastforce
  have one: "frame st st1 \<and> router_ok env st1 \<and>
      (\<forall>fo. r = Inr fo \<longrightarrow> (\<forall>i \<in> set (fo_agent_ids fo). \<exists>es. selectable env p (signals\<lparr>rs_present_entities := es\<rparr>) i))"
    using r Cons.prems(1) funnel_selects [OF Cons.prems(1) assms]
    by (fastforce simp: route_subquery_def scope_subquery_signals_def Let_def split: sum.splits)
  show ?case
  proof (cases r)
    case (Inl e)
    then show ?thesis
      using Cons.prems r one by auto
  next
    case (Inr fo)
    obtain rest st2 where rest: "route_subqueries env p rctx signals history spec sqs st1 = (rest, st2)"
      by fastforce
    have "st' = st2"
      using Cons.prems(2) r Inr rest by (auto split: sum.splits)
    note IH = Cons.IH [of st1 rest, folded this, OF conjunct1 [OF conjunct2 [OF one]] rest [folded this]]
    then show ?thesis
      using Cons.prems(2) r Inr rest one frame_trans by (auto split: prod.splits if_splits)
  qed
qed

end

section \<open>The route cache gives back what was routed\<close>

lemma jget_serialize [simp]:
  "jget (serialize_decision o' rs us re) ''outcome'' = JStr o'"
  "jget (serialize_decision o' rs us re) ''reason'' = JStr re"
  "jget (serialize_decision o' rs us re) ''unrouted'' = strings_json us"
  "jget (serialize_decision o' rs us re) ''routes'' = JList (map serialize_route rs)"
  by (simp_all add: serialize_decision_def)

lemma cached_failure:
  "result_from_cache reg (serialize_decision (if denied then ''policy_denied'' else ''no_match'') [] [] reason)
     = Some (if denied then policy_denied reason [''route-cache: hit''] else no_match reason [''route-cache: hit''])"
  by (simp add: result_from_cache_def)

lemma json_list_of_Some: "json_list_of Some (JList xs) = Some xs"
  using all_some_map [of xs Some "\<lambda>x. x"] by simp

lemma cached_routed:
  assumes "routes \<noteq> []" and "assemble_plan routes reg = Some (Inr plan)"
  shows "result_from_cache reg (serialize_decision ''routed'' routes unrouted reason) = Some (routed plan [''route-cache: hit''] unrouted)"
proof -
  have "json_list_of Some (get_or (serialize_decision ''routed'' routes unrouted reason) ''routes'' (JList []))
      = Some (map serialize_route routes)"
    using assms(1) json_list_of_Some by (simp add: get_or_def del: json_list_of.simps)
  moreover have "json_strings (get_or (serialize_decision ''routed'' routes unrouted reason) ''unrouted'' (JList [])) = Some unrouted"
    using json_strings_json [of unrouted] by (auto simp: get_or_def strings_json_def)
  ultimately show ?thesis
    using assms by (simp add: result_from_cache_def deserialize_serialize)
qed

lemma finalize_route_cached:
  assumes "finalize_route env p (Some key) n routes unrouted reasons denied st = (Inr res, st')" and "re_route_ttl env = Some ttl"
  obtains v where "st' = st\<lparr>rst_routes := route_put (rst_routes st) (rst_now st) (p_tenant_id p) key v, rst_now := re_tick env (rst_now st)\<rparr>"
    and "result_from_cache (re_registry env) v = Some (res\<lparr>rr_diagnostics := [''route-cache: hit'']\<rparr>)"
proof (cases "routes = []")
  case True
  let ?reason = "if n = 1 \<and> reasons \<noteq> [] then hd reasons else ''no sub-query produced a confident route''"
  show ?thesis
    using that [of "serialize_decision (if denied then ''policy_denied'' else ''no_match'') [] [] ?reason"] assms True cached_failure
    by (auto simp: finalize_route_def route_cache_store_def policy_denied_def no_match_def Let_def)
next
  case False
  then obtain plan where "assemble_plan routes (re_registry env) = Some (Inr plan)" "res = routed plan [] unrouted"
    using assms by (auto simp: finalize_route_def split: option.splits sum.splits)
  then show ?thesis
    using that [of "serialize_decision ''routed'' routes unrouted []"] assms False cached_routed
    by (auto simp: finalize_route_def route_cache_store_def routed_def)
qed

lemma routing_fingerprint_memo:
  "routing_fingerprint env st = (Inr fp, st1) \<Longrightarrow> rst_fingerprint st1 = Some fp \<and> rst_routes st1 = rst_routes st \<and> rst_now st1 = rst_now st
     \<and> rst_decisions st1 = rst_decisions st"
  by (auto simp: routing_fingerprint_def split: option.splits sum.splits)

lemma router_cache_key_memo:
  fixes env :: "'t router_env"
  assumes "router_cache_key env query p signals history rctx st = (Some key, st1)"
  obtains fp where "rst_fingerprint st1 = Some fp" "rst_routes st1 = rst_routes st" "rst_now st1 = rst_now st" "rst_decisions st1 = rst_decisions st"
    "\<And>(env' :: 't router_env) st2. re_route_ttl env' \<noteq> None \<Longrightarrow> re_digests env' = re_digests env \<Longrightarrow> rst_fingerprint st2 = Some fp \<Longrightarrow>
       router_cache_key env' query p signals history rctx st2 = (Some key, st2)"
proof -
  obtain fp where fp: "routing_fingerprint env st = (Inr fp, st1)"
      and key: "key = route_cache_key (re_digests env) query (p_role p) (rc_domain rctx) (rc_focus_entity_id rctx)
        (rc_focus_service_id rctx) (signals_digest (re_digests env) signals) (conversation_digest (re_digests env) history) fp"
    using assms by (auto simp: router_cache_key_def split: option.splits prod.splits sum.splits)
  have "router_cache_key env' query p signals history rctx st2 = (Some key, st2)"
    if "re_route_ttl env' \<noteq> None" "re_digests env' = re_digests env" "rst_fingerprint st2 = Some fp" for env' :: "'t router_env" and st2
    using that by (auto simp: router_cache_key_def routing_fingerprint_def key)
  then show thesis
    using that [of fp] routing_fingerprint_memo [OF fp] by blast
qed

text \<open>Routing the sub-queries leaves the route cache alone, and time goes on.\<close>

lemma stage3_filter_frame:
  assumes "\<forall>t. t \<le> re_tick env t"
  shows "stage3_filter env p signals cs st = (res, st') \<Longrightarrow> frame st st'"
proof (induction cs arbitrary: st res)
  case Nil
  then show ?case
    by simp
next
  case (Cons c cs)
  consider "st' = st" | "stage3_filter env p signals cs st = (res, st')"
    | r res1 st1 where "router_check env p r st = (res1, st1)" "st' = st1 \<or> (\<exists>rest. stage3_filter env p signals cs st1 = (rest, st'))"
    using Cons.prems by (auto simp: Let_def split: sum.splits option.splits if_splits prod.splits)
  then show ?case
  proof cases
    case 3
    have "frame st st1"
      using 3(1) assms by (auto simp: router_check_def frame_def Let_def split: prod.splits)
    then show ?thesis
      using 3(2) Cons.IH frame_trans by blast
  qed (use Cons.IH in auto)
qed

lemma funnel_frame:
  assumes "\<forall>t. t \<le> re_tick env t" and "funnel env p rctx signals t orig st = (res, st')"
  shows "frame st st'"
proof -
  consider "st' = st" | es r where "stage3_filter env p signals es st = (r, st')"
    using assms(2) by (auto simp: funnel_def Let_def split: sum.splits if_splits prod.splits)
  then show ?thesis
    using stage3_filter_frame [OF assms(1)] by cases auto
qed

lemma route_subqueries_frame:
  assumes "\<forall>t. t \<le> re_tick env t"
  shows "route_subqueries env p rctx signals history spec sqs st = (res, st') \<Longrightarrow> frame st st'"
proof (induction sqs arbitrary: st res)
  case Nil
  then show ?case
    by simp
next
  case (Cons sq sqs)
  obtain r st1 where r: "route_subquery env p rctx signals history spec sq st = (r, st1)"
    by fastforce
  have "frame st st1"
    using r funnel_frame [OF assms] by (auto simp: route_subquery_def split: sum.splits)
  moreover have "st' = st1 \<or> (\<exists>rest. route_subqueries env p rctx signals history spec sqs st1 = (rest, st'))"
    using Cons.prems r by (auto simp: Let_def split: sum.splits prod.splits)
  ultimately show ?case
    using Cons.IH frame_trans by blast
qed

text \<open>A miss and then a hit: the state between them and the time of the store.\<close>

lemma route_miss:
  assumes "strip query \<noteq> []" and "router_cache_key env query p signals history rctx st = (Some key, st1)"
    and "route_cache_lookup env (Some key) p st1 = (None, st2)" and "re_route_ttl env = Some ttl"
    and "route env p rctx signals history query st = (Inr res, st')"
  obtains sqs spec routes unrouted reasons denied st3 where
    "route_subqueries env p rctx signals history spec sqs st2 = (Inr (routes, unrouted, reasons, denied), st3)"
    "finalize_route env p (Some key) (length sqs) routes unrouted reasons denied st3 = (Inr res, st')"
  using assms by (auto simp: route_def Let_def split: sum.splits prod.splits)

lemma lookup_live:
  assumes "re_route_ttl env = Some ttl" and "rst_routes st = route_put rows t (p_tenant_id p) key v" and "rst_now st - t \<le> ttl"
  shows "fst (route_cache_lookup env (Some key) p st) = result_from_cache (re_registry env) v"
  using assms rows.stored_then_looked_up [where v = v and ttl = ttl and s = rows and t = t and k = "decision_row (p_tenant_id p) key" and t' = "rst_now st"]
  by (auto simp: route_cache_lookup_def route_get_def route_put_def split: prod.splits)

section \<open>Binding\<close>

text \<open>An entity may fill a parameter when the agent serves its kind, or the parameter's accept list names it.\<close>

definition compatible :: "agent_record \<Rightarrow> string \<Rightarrow> string \<Rightarrow> bool" where
  "compatible a k svc \<longleftrightarrow> at_service (ag_abac_tags a) = [] \<or> svc \<in> set (at_service (ag_abac_tags a))
     \<or> (case map_of PARAM_ACCEPTS k of None \<Rightarrow> True | Some ss \<Rightarrow> svc \<in> set ss)"

definition binds :: "agent_record \<Rightarrow> (string \<times> string) list \<Rightarrow> params \<Rightarrow> params \<Rightarrow> bool" where
  "binds a present out out' \<longleftrightarrow> (\<forall>k. bound_value out k \<noteq> [] \<longrightarrow> map_of out' k = map_of out k)
     \<and> (\<forall>k \<in> set ENTITY_FIELD_NAMES. map_of out' k = map_of out k
          \<or> (\<exists>v svc. map_of out' k = Some v \<and> (v, svc) \<in> set present \<and> compatible a k svc))"

lemma binds_refl [simp]: "binds a present out out"
  by (simp add: binds_def)








section \<open>Properties\<close>


text \<open>
  With a registry the language-model disambiguator breaks this. When two other candidates survive stage 3 and the message
  names a record and a documentation noun, its own preroute looks in all listed agents instead of the survivors, and the router
  re-checks only the activation condition: an agent that the access rules deny to the caller is selected.
\<close>

theorem denied_agent_routed:
  assumes "re_disambiguate env rctx = disambiguate denv dc" and "active_agent_ids dc \<noteq> {}"
    and "re_retrieve env (glossary_normalize (re_glossary env) t) (p_tenant_id p) (re_top_k env) \<noteq> []"
    and "eligible_candidates env (re_retrieve env (glossary_normalize (re_glossary env) t) (p_tenant_id p) (re_top_k env)) = Inr cs"
    and "stage3_filter env p signals cs st = (Inr (v1 # v2 # vs, denied), st')" and "cs \<noteq> []" and "re_confidence_skip env = None"
    and "deterministic_preroute (re_terms env) (if orig = [] then glossary_normalize (re_glossary env) t else orig)
      (set (map (cd_agent_id \<circ> fst) (v1 # v2 # vs))) (strip (rc_focus_entity_id rctx) \<noteq> []) = None"
    and "deterministic_preroute (de_terms denv) (glossary_normalize (re_glossary env) t) (active_agent_ids dc) False = Some (i, intent, why)"
    and "agents_get_optional (re_registry env) i = Inr (Some a)"
    and "survives_filter (ag_activation_condition a) (with_intents signals {intent}) = Inr True"
  shows "\<exists>fo. funnel env p rctx signals t orig st = (Inr fo, st') \<and> fo_agent_ids fo = [i]"
proof -
  let ?n = "glossary_normalize (re_glossary env) t"
  have d: "re_disambiguate env rctx ?n (map fst (v1 # v2 # vs)) = Inr (da_select [i] (95 / 100) why [JStr intent] [])"
    using preroute_ignores_offer [OF _ assms(2,9)] assms(1) by simp
  obtain b where b: "chat_bind env i signals t (params_for (da_select [i] (95 / 100) why [JStr intent] []) i) = Inr b"
    using assms(10) by (auto simp: chat_bind_def Let_def)
  have "stage4_disambiguate env rctx ?n (v1 # v2 # vs) signals t = Inr (fo_routed [i] [(i, b)])"
    using d b assms(10,11)
    by (simp add: stage4_disambiguate_def resolve_chosen_def is_confident_match_def da_select_def bind_chosen_params_def intent_tokens_def)
  moreover have "try_preroute env (map fst (v1 # v2 # vs)) signals t ?n orig (strip (rc_focus_entity_id rctx) \<noteq> []) = Inr None"
    using assms(8) by (simp add: try_preroute_def Let_def comp_def)
  moreover have "try_confidence_skip env (v1 # v2 # vs) signals t = Inr None"
    by (simp add: try_confidence_skip_def assms(7))
  ultimately have "after_stage3 env rctx t ?n orig signals (v1 # v2 # vs) denied = Inr (fo_routed [i] [(i, b)])"
    by (cases v1) (simp add: after_stage3_def)
  then show ?thesis
    using assms(3-6) by (simp add: funnel_def fo_routed_def)
qed

text \<open>
  C32: what the router answered once it answers again from its cache: when a message with text missed the cache and was routed,
  a second request with the same inputs, on the same registry, within the time to live, gets the same result (apart from the
  diagnostics) whatever the other collaborators would now say, the clock not going back. The plan is assembled
  afresh and is the same plan; a refusal is served again too, even when it came from a model call that failed.
\<close>

theorem cached_route_same:
  fixes env :: "'t :: linordered_idom router_env"
  assumes "strip query \<noteq> []" and "router_cache_key env query p signals history rctx st = (Some key, st1)"
    and "fst (route_cache_lookup env (Some key) p st1) = None" and "re_route_ttl env = Some ttl" and "\<forall>t. t \<le> re_tick env t"
    and "route env p rctx signals history query st = (Inr res, st')"
    and "re_registry env' = re_registry env" "re_digests env' = re_digests env" "re_route_ttl env' = re_route_ttl env"
    and "now - rst_now st \<le> ttl"
  shows "fst (route env' p rctx signals history query (st'\<lparr>rst_now := now\<rparr>)) = Inr (res\<lparr>rr_diagnostics := [''route-cache: hit'']\<rparr>)"
proof -
  obtain st2 where look: "route_cache_lookup env (Some key) p st1 = (None, st2)"
    using assms(3) by (metis prod.collapse)
  obtain fp where fp: "rst_fingerprint st1 = Some fp" "rst_now st1 = rst_now st"
      and again: "\<And>(e :: 't router_env) s. re_route_ttl e \<noteq> None \<Longrightarrow> re_digests e = re_digests env \<Longrightarrow> rst_fingerprint s = Some fp \<Longrightarrow>
        router_cache_key e query p signals history rctx s = (Some key, s)"
    using router_cache_key_memo [OF assms(2)] by metis
  obtain sqs spec routes unrouted reasons denied st3 where
      sub: "route_subqueries env p rctx signals history spec sqs st2 = (Inr (routes, unrouted, reasons, denied), st3)"
      and fin: "finalize_route env p (Some key) (length sqs) routes unrouted reasons denied st3 = (Inr res, st')"
    using route_miss [OF assms(1,2) look assms(4,6)] .
  obtain v where st': "st' = st3\<lparr>rst_routes := route_put (rst_routes st3) (rst_now st3) (p_tenant_id p) key v, rst_now := re_tick env (rst_now st3)\<rparr>"
      and v: "result_from_cache (re_registry env) v = Some (res\<lparr>rr_diagnostics := [''route-cache: hit'']\<rparr>)"
    using finalize_route_cached [OF fin assms(4)] .
  have "frame st2 st3"
    using route_subqueries_frame [OF assms(5) sub] .
  moreover have "rst_fingerprint st2 = rst_fingerprint st1" "rst_now st1 \<le> rst_now st2"
    using look assms(4,5) by (auto simp: route_cache_lookup_def split: prod.splits)
  ultimately have fp': "rst_fingerprint st' = Some fp" and "rst_now st \<le> rst_now st3"
    using fp by (auto simp: frame_def st')
  then have "now - rst_now st3 \<le> ttl"
    using assms(10) by linarith
  then have hit: "fst (route_cache_lookup env' (Some key) p (st'\<lparr>rst_now := now\<rparr>)) = Some (res\<lparr>rr_diagnostics := [''route-cache: hit'']\<rparr>)"
    using lookup_live [of env' ttl "st'\<lparr>rst_now := now\<rparr>" "rst_routes st3" "rst_now st3" p key v] assms(4,7,9) v by (simp add: st')
  have key': "router_cache_key env' query p signals history rctx (st'\<lparr>rst_now := now\<rparr>) = (Some key, st'\<lparr>rst_now := now\<rparr>)"
    using again [of env' "st'\<lparr>rst_now := now\<rparr>"] assms(4,8,9) fp' by simp
  obtain s where "route_cache_lookup env' (Some key) p (st'\<lparr>rst_now := now\<rparr>) = (Some (res\<lparr>rr_diagnostics := [''route-cache: hit'']\<rparr>), s)"
    using hit by (metis prod.collapse)
  then show ?thesis
    using assms(1) by (simp add: route_def key')
qed



text \<open>
  The answer accounts for every sub-query: each one either has a route with its id or its text among the unrouted ones, in
  the order of the message, with one reason per unrouted text. The turn is routed as soon as one sub-query is, it is refused by
  policy only when none is and an access denial was the reason for one, and nothing is dropped silently.
\<close>

theorem route_accounts_for_subqueries:
  assumes "route_subqueries env p rctx signals history spec sqs st = (Inr (routes, unrouted, reasons, denied), st')"
  shows "\<exists>ok. map sq_id routes = map (sub_id \<circ> snd) (filter fst (zip ok sqs))
      \<and> unrouted = map (sub_text \<circ> snd) (filter (Not \<circ> fst) (zip ok sqs)) \<and> length ok = length sqs
      \<and> length reasons = length unrouted \<and> (\<forall>r \<in> set routes. sq_agent_ids r \<noteq> [])
    \<and> (\<forall>res st''. finalize_route env p key n routes unrouted reasons denied st' = (Inr res, st'') \<longrightarrow>
         rr_outcome res = (if routes \<noteq> [] then ROUTED else if denied then POLICY_DENIED else NO_CONFIDENT_MATCH)
         \<and> (routes \<noteq> [] \<longrightarrow> rr_unrouted res = unrouted))"
proof -
  have "\<exists>ok. map sq_id routes = map (sub_id \<circ> snd) (filter fst (zip ok sqs))
      \<and> unrouted = map (sub_text \<circ> snd) (filter (Not \<circ> fst) (zip ok sqs)) \<and> length ok = length sqs
      \<and> length reasons = length unrouted \<and> (\<forall>r \<in> set routes. sq_agent_ids r \<noteq> [])"
    using assms
  proof (induction sqs arbitrary: st routes unrouted reasons denied)
    case Nil
    then show ?case
      by simp
  next
    case (Cons sq sqs)
    obtain fo st1 where fo: "route_subquery env p rctx signals history spec sq st = (Inr fo, st1)"
      using Cons.prems by (cases "route_subquery env p rctx signals history spec sq st"; cases "fst (route_subquery env p rctx signals history spec sq st)") auto
    obtain rs us es d where rest: "route_subqueries env p rctx signals history spec sqs st1 = (Inr (rs, us, es, d), st')"
      using Cons.prems fo by (auto split: prod.splits)
    obtain ok where "map sq_id rs = map (sub_id \<circ> snd) (filter fst (zip ok sqs))"
        "us = map (sub_text \<circ> snd) (filter (Not \<circ> fst) (zip ok sqs))" "length ok = length sqs" "length es = length us"
        "\<forall>r \<in> set rs. sq_agent_ids r \<noteq> []"
      using Cons.IH [OF rest] by blast
    then show ?case
      using Cons.prems fo rest by (intro exI [of _ "(fo_agent_ids fo \<noteq> []) # ok"]) (auto simp: comp_def split: if_splits)
  qed
  then show ?thesis
    by (auto simp: finalize_route_def routed_def policy_denied_def no_match_def Let_def split: option.splits sum.splits if_splits)
qed


section \<open>Samples\<close>

text \<open>A digest without collisions: every field with its length in front.\<close>

definition netstring :: "string \<Rightarrow> string" where
  "netstring s = nat_str (length s) @ '':'' @ s"

definition netstrings :: "string list \<Rightarrow> string" where
  "netstrings xs = concat (map netstring xs)"

definition sample_digest :: "key_payload \<Rightarrow> string" where
  "sample_digest x = netstrings [k_p_tenant x, k_p_user x, k_p_role x, netstrings (map fst (k_p_attrs x)), netstrings (map snd (k_p_attrs x)),
     k_r_id x, k_r_tenant x, (case k_r_tier x of TIER_READ \<Rightarrow> ''r'' | TIER_ACTION \<Rightarrow> ''a''), data_class_value (k_r_data x),
     netstrings (k_r_audience x), netstrings (k_r_scopes x)]"





text \<open>Three agents: the caller's role may use the first two, the knowledge agent is for another audience.\<close>

definition chat_agent :: "string \<Rightarrow> string \<Rightarrow> string \<Rightarrow> agent_record" where
  "chat_agent i intent audience = (sample_agent i [])\<lparr>rec_status := ACTIVE,
     ag_activation_condition := ActivationCondition LEAF (Some INTENT_IN) [intent] False [],
     ag_abac_tags := \<lparr>at_service = [], at_tier = ET_READ, at_audience = [audience], at_data_classification = DC_INTERNAL\<rparr>\<rparr>"

definition chat_file :: "agent_record \<Rightarrow> (string list \<times> string) \<times> agent_record reg_file" where
  "chat_file a = (([], rec_id a), Envelope \<lparr>env_id = rec_id a, env_versions = [(1, a)], env_active_version = Some 1\<rparr>)"

definition chat_registry :: registry where
  "chat_registry = \<lparr>agents = map chat_file [chat_agent ''uc01_summarization'' ''summary'' ''agent'', chat_agent ''uc02_similar'' ''similar'' ''agent'',
     chat_agent ''uc03_kb_lookup'' ''kb_search'' ''engineer''], tools = [], schemas = []\<rparr>"

definition chat_da_env :: da_env where
  "chat_da_env = \<lparr>de_fmt = (\<lambda>_ _. []), de_str = (\<lambda>_. []), de_loads = (\<lambda>_. None), de_float_of = (\<lambda>_. Inr 0), de_exc_text = (\<lambda>_. ''timeout''),
     de_ask = (\<lambda>_ _. Inl (LLMGatewayError None)), de_terms = {}\<rparr>"

definition chat_dc :: da_config where
  "chat_dc = \<lparr>dc_registry = Some chat_registry, dc_abstain_min_score = None, dc_abstain_min_margin = 0\<rparr>"

definition chat_env :: "(string \<Rightarrow> candidate list \<Rightarrow> llm_exc + disambiguation) \<Rightarrow> int router_env" where
  "chat_env dis = \<lparr>re_registry = chat_registry, re_glossary = [], re_normalizer = sample_normalizer, re_terms = {},
     re_retrieve = (\<lambda>_ _ _. [\<lparr>cd_agent_id = ''uc03_kb_lookup'', cd_score = 9 / 10\<rparr>, \<lparr>cd_agent_id = ''uc01_summarization'', cd_score = 8 / 10\<rparr>,
        \<lparr>cd_agent_id = ''uc02_similar'', cd_score = 7 / 10\<rparr>]),
     re_disambiguate = (\<lambda>_. dis), re_decompose = passthrough_decompose, re_rewrite = passthrough_rewrite, re_split = None,
     re_authz = \<lparr>az_rbac = [(''agent'', [''read:own''])], az_ttl = 60\<rparr>, re_authz_digest = sample_digest, re_top_k = 10,
     re_confidence_skip = None, re_route_ttl = Some 3600,
     re_digests = \<lparr>kd_signals = (\<lambda>_. ''s''), kd_history = (\<lambda>_. ''h''), kd_text = (\<lambda>s. s)\<rparr>,
     re_registry_digest = (\<lambda>_ _. ''fp''), re_tick = (\<lambda>t. t + 1)\<rparr>"

definition chat_principal :: principal where
  "chat_principal = \<lparr>p_tenant_id = ''t1'', p_user_id = ''u1'', p_role = ''agent'', p_attributes = []\<rparr>"

definition chat_ctx :: request_ctx where
  "chat_ctx = \<lparr>rc_domain = [], rc_focus_entity_id = [], rc_focus_service_id = []\<rparr>"

definition chat_state :: "int router_state" where
  "chat_state = \<lparr>rst_decisions = [], rst_routes = [], rst_fingerprint = None, rst_now = 0\<rparr>"

definition chat_query :: string where
  "chat_query = ''docs for INC0001001''"

definition chat_subquery :: sub_query where
  "chat_subquery = \<lparr>sub_id = ''sq1'', sub_text = chat_query, sub_depends_on = [], sub_bindings = []\<rparr>"


text \<open>With the threshold disambiguator the best survivor is chosen; the denied agent, though best of all, is not.\<close>

lemma chat_routes:
  "map_sum id (map sq_agent_ids \<circ> fst) (fst (route_subqueries (chat_env (threshold_disambiguate chat_da_env (34 / 100))) chat_principal chat_ctx sample_signals []
      (Some chat_query) [chat_subquery] chat_state)) = Inr [[''uc01_summarization'']]"
  by code_simp

lemma chat_stage3:
  "map_sum id (map (cd_agent_id \<circ> fst) \<circ> fst) (fst (stage3_filter (chat_env dis) chat_principal sample_signals (re_retrieve (chat_env dis) [] [] 0) chat_state))
     = Inr [''uc01_summarization'', ''uc02_similar'']"
  by code_simp

lemma chat_preroute:
  "deterministic_preroute {} chat_query {''uc01_summarization'', ''uc02_similar''} False = None"
  "deterministic_preroute {} chat_query (active_agent_ids chat_dc) False = Some (KB_AGENT, ''kb_search'', ''P2: explicit doc-noun + entity id -> KB agent'')"
  by code_simp+


lemma chat_routed:
  obtains routes unrouted reasons denied st' where
    "route_subqueries (chat_env (threshold_disambiguate chat_da_env (34 / 100))) chat_principal chat_ctx sample_signals []
      (Some chat_query) [chat_subquery] chat_state = (Inr (routes, unrouted, reasons, denied), st')"
    "map sq_agent_ids routes = [[''uc01_summarization'']]"
proof -
  obtain res st' where run: "route_subqueries (chat_env (threshold_disambiguate chat_da_env (34 / 100))) chat_principal chat_ctx sample_signals []
      (Some chat_query) [chat_subquery] chat_state = (res, st')"
    by fastforce
  then show thesis
    using chat_routes that by (cases res) auto
qed


theorem denied_agent_routed_witness:
  "(\<exists>fo st'. funnel (chat_env (disambiguate chat_da_env chat_dc)) chat_principal chat_ctx sample_signals chat_query chat_query chat_state = (Inr fo, st')
      \<and> fo_agent_ids fo = [''uc03_kb_lookup''])
   \<and> map_sum id (\<lambda>rd. evaluate_access chat_principal rd {''read:own''} = [])
       (from_agent_record (chat_agent ''uc03_kb_lookup'' ''kb_search'' ''engineer'') ''t1'') = Inr False"
proof
  let ?dis = "disambiguate chat_da_env chat_dc"
  let ?cs = "re_retrieve (chat_env ?dis) [] [] 0"
  have plain: "glossary_normalize (re_glossary (chat_env ?dis)) t = t" for t
    by (simp add: glossary_normalize_def glossary_pairs_def chat_env_def)
  have terms: "de_terms chat_da_env = {}"
    by (simp add: chat_da_env_def)
  have cs: "re_retrieve (chat_env ?dis) t u k = ?cs" for t u k
    by (simp add: chat_env_def)
  obtain res st' where run: "stage3_filter (chat_env ?dis) chat_principal sample_signals ?cs chat_state = (res, st')"
    by fastforce
  then obtain sv denied where sv: "res = Inr (sv, denied)" "map (cd_agent_id \<circ> fst) sv = [''uc01_summarization'', ''uc02_similar'']"
    using chat_stage3 [of ?dis] by (cases res) auto
  then obtain v1 v2 where v: "sv = [v1, v2]"
    by (auto simp: map_eq_Cons_conv)
  have agent: "agents_get_optional chat_registry KB_AGENT = Inr (Some (chat_agent ''uc03_kb_lookup'' ''kb_search'' ''engineer''))"
    by code_simp
  let ?env = "chat_env ?dis"
  have 1: "re_disambiguate ?env chat_ctx = ?dis"
    by (simp add: chat_env_def)
  have 2: "active_agent_ids chat_dc \<noteq> {}"
    using preroute_valid [OF chat_preroute(2)] by auto
  have 3: "re_retrieve ?env (glossary_normalize (re_glossary ?env) chat_query) (p_tenant_id chat_principal) (re_top_k ?env) \<noteq> []"
    by (simp add: chat_env_def)
  have el: "eligible_candidates ?env ?cs = Inr ?cs"
    by code_simp
  have 4: "eligible_candidates ?env (re_retrieve ?env (glossary_normalize (re_glossary ?env) chat_query)
      (p_tenant_id chat_principal) (re_top_k ?env)) = Inr ?cs"
    by (subst cs) (rule el)
  have 5: "stage3_filter ?env chat_principal sample_signals ?cs chat_state = (Inr (v1 # v2 # [], denied), st')"
    using run sv v by simp
  have 6: "?cs \<noteq> []" and 7: "re_confidence_skip ?env = None"
    by (simp_all add: chat_env_def)
  have "set (map (cd_agent_id \<circ> fst) [v1, v2]) = {''uc01_summarization'', ''uc02_similar''}"
    using sv(2) v by simp
  then have 8: "deterministic_preroute (re_terms ?env) (if chat_query = [] then glossary_normalize (re_glossary ?env) chat_query else chat_query)
      (set (map (cd_agent_id \<circ> fst) [v1, v2])) (strip (rc_focus_entity_id chat_ctx) \<noteq> []) = None"
    using chat_preroute(1) by (simp add: chat_env_def chat_ctx_def strip_def chat_query_def)
  have 9: "deterministic_preroute (de_terms chat_da_env) (glossary_normalize (re_glossary ?env) chat_query) (active_agent_ids chat_dc) False
      = Some (KB_AGENT, ''kb_search'', ''P2: explicit doc-noun + entity id -> KB agent'')"
    using chat_preroute(2) by (simp only: plain terms)
  have 10: "agents_get_optional (re_registry ?env) KB_AGENT = Inr (Some (chat_agent ''uc03_kb_lookup'' ''kb_search'' ''engineer''))"
    using agent by (simp add: chat_env_def)
  have 11: "survives_filter (ag_activation_condition (chat_agent ''uc03_kb_lookup'' ''kb_search'' ''engineer''))
      (with_intents sample_signals {''kb_search''}) = Inr True"
    by code_simp
  have "\<exists>fo. funnel ?env chat_principal chat_ctx sample_signals chat_query chat_query chat_state = (Inr fo, st') \<and> fo_agent_ids fo = [KB_AGENT]"
    by (rule denied_agent_routed [OF 1 2 3 4 5 6 7 8 9 10 11])
  then show "\<exists>fo st'. funnel (chat_env ?dis) chat_principal chat_ctx sample_signals chat_query chat_query chat_state = (Inr fo, st')
      \<and> fo_agent_ids fo = [''uc03_kb_lookup'']"
    by (auto simp: KB_AGENT_def)
  show "map_sum id (\<lambda>rd. evaluate_access chat_principal rd {''read:own''} = [])
      (from_agent_record (chat_agent ''uc03_kb_lookup'' ''kb_search'' ''engineer'') ''t1'') = Inr False"
    by code_simp
qed

definition offline_dc :: da_config where
  "offline_dc = \<lparr>dc_registry = None, dc_abstain_min_score = None, dc_abstain_min_margin = 0\<rparr>"

lemma chat_refused:
  "fst (route (chat_env (disambiguate chat_da_env offline_dc)) chat_principal chat_ctx sample_signals [] chat_query chat_state)
     = Inr (no_match ''disambiguation failed: timeout'' [])"
  by code_simp

lemma chat_key:
  obtains key st1 where "router_cache_key (chat_env dis) chat_query chat_principal sample_signals [] chat_ctx chat_state = (Some key, st1)"
    "rst_routes st1 = []"
proof -
  have "map_prod (\<lambda>k. k \<noteq> None) rst_routes (router_cache_key (chat_env dis) chat_query chat_principal sample_signals [] chat_ctx chat_state) = (True, [])"
    by code_simp
  then show thesis
    using that by (cases "router_cache_key (chat_env dis) chat_query chat_principal sample_signals [] chat_ctx chat_state") auto
qed

text \<open>The model call timed out once; a minute and more later a working disambiguator is not even asked.\<close>

theorem cached_route_same_witness:
  "\<exists>st'. route (chat_env (disambiguate chat_da_env offline_dc)) chat_principal chat_ctx sample_signals [] chat_query chat_state
       = (Inr (no_match ''disambiguation failed: timeout'' []), st')
     \<and> fst (route (chat_env (threshold_disambiguate chat_da_env (34 / 100))) chat_principal chat_ctx sample_signals [] chat_query (st'\<lparr>rst_now := 100\<rparr>))
       = Inr (no_match ''disambiguation failed: timeout'' [''route-cache: hit''])"
proof -
  let ?env = "chat_env (disambiguate chat_da_env offline_dc)"
  let ?env' = "chat_env (threshold_disambiguate chat_da_env (34 / 100))"
  obtain st' where run: "route ?env chat_principal chat_ctx sample_signals [] chat_query chat_state
      = (Inr (no_match ''disambiguation failed: timeout'' []), st')"
    using chat_refused by (metis prod.collapse)
  obtain key st1 where key: "router_cache_key ?env chat_query chat_principal sample_signals [] chat_ctx chat_state = (Some key, st1)"
      and empty: "rst_routes st1 = []"
    by (rule chat_key)
  have q: "strip chat_query \<noteq> []"
    by code_simp
  have miss: "fst (route_cache_lookup ?env (Some key) chat_principal st1) = None"
    by (simp add: route_cache_lookup_def empty chat_env_def route_get_def rows_get_def)
  have ttl: "re_route_ttl ?env = Some 3600" and tick: "\<forall>t. t \<le> re_tick ?env t"
    and same: "re_registry ?env' = re_registry ?env" "re_digests ?env' = re_digests ?env" "re_route_ttl ?env' = re_route_ttl ?env"
    and soon: "100 - rst_now chat_state \<le> 3600"
    by (simp_all add: chat_env_def chat_state_def)
  have "fst (route ?env' chat_principal chat_ctx sample_signals [] chat_query (st'\<lparr>rst_now := 100\<rparr>))
      = Inr ((no_match ''disambiguation failed: timeout'' [])\<lparr>rr_diagnostics := [''route-cache: hit'']\<rparr>)"
    by (rule cached_route_same [OF q key miss ttl tick run same soon])
  with run show ?thesis
    by (simp add: no_match_def)
qed


theorem route_accounts_for_subqueries_witness:
  "\<exists>routes reasons denied st'. route_subqueries (chat_env (threshold_disambiguate chat_da_env (34 / 100))) chat_principal chat_ctx sample_signals []
      (Some chat_query) [chat_subquery] chat_state = (Inr (routes, [], reasons, denied), st')
     \<and> map sq_id routes = [''sq1''] \<and> reasons = []"
proof -
  obtain routes unrouted reasons denied st' where run:
      "route_subqueries (chat_env (threshold_disambiguate chat_da_env (34 / 100))) chat_principal chat_ctx sample_signals []
        (Some chat_query) [chat_subquery] chat_state = (Inr (routes, unrouted, reasons, denied), st')"
      and ids: "map sq_agent_ids routes = [[''uc01_summarization'']]"
    by (rule chat_routed)
  obtain ok where ok: "map sq_id routes = map (sub_id \<circ> snd) (filter fst (zip ok [chat_subquery]))"
      "unrouted = map (sub_text \<circ> snd) (filter (Not \<circ> fst) (zip ok [chat_subquery]))" "length ok = 1" "length reasons = length unrouted"
    using route_accounts_for_subqueries [OF run, where key = None and n = 0] by auto
  obtain b where b: "ok = [b]"
    using ok(3) by (auto simp: length_Suc_conv)
  have "routes \<noteq> []"
    using ids by auto
  with ok(1) b have b: "ok = [True]"
    by (cases b) auto
  show ?thesis
    using run ok(1,2,4) by (simp add: b chat_subquery_def)
qed

end
