(* ===== verification/Rewrite.thy ===== *)
theory Rewrite
  imports Router
begin

text \<open>
  The reference resolver of the router (\<open>router/rewrite.py\<close>): one call to the language model, then a chain of deterministic guards
  over its answer. The gateway call with its fixed system prompt is \<open>rw_ask\<close>, \<open>json.loads\<close> is \<open>rw_loads\<close>, \<open>str\<close> on lists and
  dictionaries is \<open>rw_str\<close>; the id normaliser loaded from the registry file is \<open>rw_normalizer\<close>, \<open>None\<close> when it cannot be
  loaded. Dashes of the prompt are written in ASCII.
\<close>

section \<open>Record ids in texts and conversations\<close>

definition record_ids :: "normalizer option \<Rightarrow> string \<Rightarrow> string list" where
  "record_ids nz t =
     (if t = [] then []
      else case nz of None \<Rightarrow> [] | Some n \<Rightarrow> map ne_entity_id (xt_entities (extract_ids n t)))"

definition CLARIFICATION_MARKERS :: "string list" where
  "CLARIFICATION_MARKERS = [''which ticket'', ''which record'', ''please share its id'', ''please share the record id'',
     ''please send the record id'', ''share its id'']"

definition is_clarification_prompt :: "string \<Rightarrow> bool" where
  "is_clarification_prompt content_lower = list_ex (\<lambda>m. contains m content_lower) CLARIFICATION_MARKERS"

definition collect_turn_ids :: "normalizer option \<Rightarrow> conversation_turn \<Rightarrow> string \<times> string list" where
  "collect_turn_ids nz turn =
     (if ct_content turn = [] then ([], [])
      else let role = lower (ct_role turn) in
        if role = ''assistant'' \<and> is_clarification_prompt (lower (ct_content turn)) then (role, [])
        else (role, record_ids nz (ct_content turn)))"

definition push_new :: "string list \<Rightarrow> string \<Rightarrow> string list" where
  "push_new out h = (if h \<in> set out then out else out @ [h])"

definition dedup_preserve_order :: "string list \<Rightarrow> string list" where
  "dedup_preserve_order ids = foldl push_new [] ids"

definition focus_step :: "normalizer option \<Rightarrow> string list \<times> string list \<Rightarrow> conversation_turn \<Rightarrow> string list \<times> string list" where
  "focus_step nz acc turn =
     (let (user_ids, asst_ids) = acc; (role, ids) = collect_turn_ids nz turn in
      if role = ''assistant''
      then (user_ids, foldl (\<lambda>out h. if h \<in> set user_ids then out else push_new out h) asst_ids ids)
      else (foldl push_new user_ids ids, asst_ids))"

definition history_focus_ids :: "normalizer option \<Rightarrow> conversation_turn list \<Rightarrow> string list" where
  "history_focus_ids nz history =
     (let (user_ids, asst_ids) = foldl (focus_step nz) ([], []) (rev history) in dedup_preserve_order (user_ids @ asst_ids))"

definition history_focus_ids_user_only :: "normalizer option \<Rightarrow> conversation_turn list \<Rightarrow> string list" where
  "history_focus_ids_user_only nz history = foldl (\<lambda>out turn.
     if lower (ct_role turn) \<noteq> ''user'' \<or> ct_content turn = [] then out
     else foldl push_new out (record_ids nz (ct_content turn))) [] (rev history)"

section \<open>Patterns\<close>

definition CANONICAL_ID_RE :: re where
  "CANONICAL_ID_RE = rseq [RBound, RRep 2 4 (RCls is_upper), RMany 6 rdigit, RBound]"

definition WORD_RE :: re where
  "WORD_RE = rseq [RBound, RMany 1 (RCls word_char), RBound]"

definition NEAR_CANONICAL_RE :: re where
  "NEAR_CANONICAL_RE = rseq [RBound, RRep 2 5 (RCls az_char), rspaces 0, RMany 1 rdigit, RBound]"

definition LINKED_PHRASE_RE :: re where
  "LINKED_PHRASE_RE = rseq [RBound,
     ralts (map rword_ci [''the'', ''its'', ''the related'', ''the linked'', ''the parent'', ''the affected'']), rspaces 1,
     ropt (ralts (map rword_ci [''linked'', ''related'', ''parent''] @ [RSeq (rword_ci ''affected'') (rspaces 1)])),
     ralts (map rword_ci [''problem'', ''change'', ''incident'', ''ticket'', ''ci'', ''kb'', ''article'', ''asset'', ''request'']), RBound]"

text \<open>\<open>_BARE_DIGIT_RE\<close> with its group: three to seven digits between white space.\<close>

definition bare_digits :: "string \<Rightarrow> string option" where
  "bare_digits s = (let d = strip s in if 3 \<le> length d \<and> length d \<le> 7 \<and> list_all is_dec d then Some d else None)"

definition zfill :: "nat \<Rightarrow> string \<Rightarrow> string" where
  "zfill n d = replicate (n - length d) CHR ''0'' @ d"

text \<open>The groups of \<open>^([A-Z]{2,5})\<close> and of \<open>^([A-Z]{2,5})(\d{4,})$\<close>.\<close>

definition id_prefix :: "string \<Rightarrow> string option" where
  "id_prefix s = (let p = takeWhile is_upper (take 5 s) in if 2 \<le> length p then Some p else None)"

definition id_parts :: "string \<Rightarrow> (string \<times> string) option" where
  "id_parts s =
     (let p = takeWhile is_upper s; rest = dropWhile is_upper s;
          d = (if rest \<noteq> [] \<and> last rest = CHR 0x0A then butlast rest else rest)
      in if 2 \<le> length p \<and> length p \<le> 5 \<and> 4 \<le> length d \<and> list_all is_dec d then Some (p, d) else None)"

section \<open>Guards\<close>

text \<open>\<open>str.replace\<close>.\<close>

function replace_from :: "string \<Rightarrow> string \<Rightarrow> string \<Rightarrow> string" where
  "replace_from old new [] = []"
| "replace_from old new (c # cs) =
     (if prefix old (c # cs) then new @ replace_from old new (drop (length old - 1) cs) else c # replace_from old new cs)"
  by pat_completeness auto

termination
  by (relation "measure (\<lambda>(old, new, s). length s)") auto

definition py_replace :: "string \<Rightarrow> string \<Rightarrow> string \<Rightarrow> string" where
  "py_replace s old new = (if old = [] then new @ concat (map (\<lambda>c. c # new) s) else replace_from old new s)"

definition complete_bare_digit_id :: "normalizer option \<Rightarrow> string \<Rightarrow> conversation_turn list \<Rightarrow> string" where
  "complete_bare_digit_id nz original history =
     (if original = [] \<or> history = [] then []
      else case bare_digits original of
        None \<Rightarrow> []
      | Some digits \<Rightarrow>
          (case history_focus_ids nz history of
             [] \<Rightarrow> []
           | focus_id # _ \<Rightarrow>
               if focus_id = [] then []
               else (case id_prefix focus_id of None \<Rightarrow> [] | Some p \<Rightarrow> p @ zfill 7 digits)))"

definition history_prefixes :: "normalizer option \<Rightarrow> conversation_turn list \<Rightarrow> string set" where
  "history_prefixes nz history = set (List.map_filter id_prefix (concat (map (record_ids nz \<circ> ct_content) history)))"

definition bare_digit_allowed_ids :: "normalizer option \<Rightarrow> string \<Rightarrow> string set \<Rightarrow> conversation_turn list \<Rightarrow> string set" where
  "bare_digit_allowed_ids nz original new_ids history =
     (case bare_digits original of
        None \<Rightarrow> {}
      | Some d \<Rightarrow> Set.filter (\<lambda>n. case id_parts n of
            None \<Rightarrow> False
          | Some (p, body) \<Rightarrow> dropWhile (\<lambda>c. c = CHR ''0'') body = dropWhile (\<lambda>c. c = CHR ''0'') (zfill 7 d)
              \<and> p \<in> history_prefixes nz history) new_ids)"

definition allowed_ids :: "normalizer option \<Rightarrow> string \<Rightarrow> string \<Rightarrow> conversation_turn list \<Rightarrow> string set" where
  "allowed_ids nz original rewritten history =
     set (record_ids nz original) \<union> set (history_focus_ids nz history)
       \<union> bare_digit_allowed_ids nz original (set (record_ids nz rewritten)) history"

definition reject_hallucinated_ids :: "normalizer option \<Rightarrow> string \<Rightarrow> conversation_turn list \<Rightarrow> string \<Rightarrow> string" where
  "reject_hallucinated_ids nz original history rewritten =
     (let new_ids = set (record_ids nz rewritten) in
      if new_ids = {} then rewritten
      else if new_ids - allowed_ids nz original rewritten history = {} then rewritten
      else original)"

definition enforce_linked_phrase_guard :: "normalizer option \<Rightarrow> string \<Rightarrow> conversation_turn list \<Rightarrow> string \<Rightarrow> string" where
  "enforce_linked_phrase_guard nz original history rewritten =
     (if \<not> re_search LINKED_PHRASE_RE original then rewritten
      else if set (record_ids nz rewritten) - set (record_ids nz original) = {} then rewritten
      else case history_focus_ids nz history of
        [] \<Rightarrow> original
      | focus_id # _ \<Rightarrow> if focus_id = [] then original else original @ '' of '' @ focus_id)"

definition reject_focus_injection :: "normalizer option \<Rightarrow> string \<Rightarrow> string \<Rightarrow> string" where
  "reject_focus_injection nz original rewritten =
     (if set (record_ids nz rewritten) - set (record_ids nz original) = {} then rewritten
      else if re_search NEAR_CANONICAL_RE original then original
      else if re_search PRONOUN_RE original then rewritten
      else if length (re_findall WORD_RE original) \<le> 4 then rewritten
      else original)"

definition content_words :: "string \<Rightarrow> string list" where
  "content_words t = remdups (filter (\<lambda>w. 4 \<le> length w) (re_findall WORD_RE (lower t)))"

definition reject_topic_replacement :: "string \<Rightarrow> string \<Rightarrow> string" where
  "reject_topic_replacement original rewritten =
     (if length (content_words original) < 2 then rewritten
      else if set (content_words original) \<inter> set (content_words rewritten) \<noteq> {} then rewritten
      else original)"

text \<open>
  Both focus guards end alike: the first id of the rewrite that the message does not name is replaced by the focus, unless the
  focus is there already.
\<close>

definition anchor_to :: "normalizer option \<Rightarrow> string \<Rightarrow> string \<Rightarrow> string \<Rightarrow> string" where
  "anchor_to nz original rewritten focus =
     (let ids = record_ids nz rewritten in
      if ids = [] \<or> focus \<in> set ids then rewritten
      else case find (\<lambda>stale. stale \<noteq> focus \<and> stale \<notin> set (record_ids nz original)) ids of
        None \<Rightarrow> rewritten
      | Some stale \<Rightarrow> py_replace rewritten stale focus)"

definition enforce_authoritative_focus :: "normalizer option \<Rightarrow> string \<Rightarrow> string \<Rightarrow> string \<Rightarrow> string" where
  "enforce_authoritative_focus nz original rewritten focus =
     (if rewritten = [] \<or> rewritten = original \<or> focus = [] then rewritten else anchor_to nz original rewritten focus)"

definition focus_bound :: "string \<Rightarrow> bool" where
  "focus_bound original \<longleftrightarrow> re_search FOLLOWUP_LINKED_RE original \<or> re_search PRONOUN_RE original \<or> length (re_findall WORD_RE original) \<le> 4"

definition enforce_most_recent_focus :: "normalizer option \<Rightarrow> string \<Rightarrow> string \<Rightarrow> conversation_turn list \<Rightarrow> string" where
  "enforce_most_recent_focus nz original rewritten history =
     (if rewritten = [] \<or> rewritten = original \<or> \<not> focus_bound original then rewritten
      else case history_focus_ids_user_only nz history of
        [] \<Rightarrow> rewritten
      | most_recent # _ \<Rightarrow> anchor_to nz original rewritten most_recent)"

definition enforce_focus :: "normalizer option \<Rightarrow> string \<Rightarrow> string \<Rightarrow> conversation_turn list \<Rightarrow> request_ctx \<Rightarrow> string" where
  "enforce_focus nz t rewritten history ctx =
     (let focus = strip (rc_focus_entity_id ctx) in
      if focus \<noteq> [] then enforce_authoritative_focus nz t rewritten focus
      else enforce_most_recent_focus nz t rewritten history)"

text \<open>One revert guard of the loop, and the loop.\<close>

definition guard_step :: "string \<Rightarrow> string \<times> bool \<Rightarrow> (string \<Rightarrow> string) \<Rightarrow> string \<times> bool" where
  "guard_step t acc guard = (let (rewritten, changed) = acc in if changed then (guard rewritten, guard rewritten \<noteq> t) else acc)"

definition revert_guards :: "normalizer option \<Rightarrow> string \<Rightarrow> conversation_turn list \<Rightarrow> (string \<Rightarrow> string) list" where
  "revert_guards nz t history =
     [reject_hallucinated_ids nz t history, enforce_linked_phrase_guard nz t history, reject_focus_injection nz t, reject_topic_replacement t]"

definition apply_rewrite_guards ::
    "normalizer option \<Rightarrow> string \<Rightarrow> string \<Rightarrow> bool \<Rightarrow> conversation_turn list \<Rightarrow> request_ctx \<Rightarrow> string \<times> bool" where
  "apply_rewrite_guards nz t rewritten changed history ctx =
     (let (r0, c0) = (if changed \<and> re_search CANONICAL_ID_RE t then (t, False) else (rewritten, changed));
          completed = (if c0 then [] else complete_bare_digit_id nz t history);
          (r1, c1) = (if completed \<noteq> [] \<and> completed \<noteq> t then (completed, True) else (r0, c0));
          (r2, c2) = foldl (guard_step t) (r1, c1) (revert_guards nz t history);
          r3 = (if c2 \<and> set (record_ids nz r2) - set (record_ids nz t) = {} then t else r2);
          r4 = enforce_focus nz t r3 history ctx
      in (r4, r4 \<noteq> t))"

section \<open>LlmRewriter\<close>

record rw_env =
  rw_normalizer :: "normalizer option"
  rw_ask :: "request_ctx \<Rightarrow> string \<Rightarrow> llm_exc + string"
  rw_loads :: "string \<Rightarrow> json option"
  rw_str :: "json \<Rightarrow> string"

definition conversation_text :: "conversation_turn list \<Rightarrow> string" where
  "conversation_text history =
     (let convo = join [CHR 0x0A] (map (\<lambda>t. ct_role t @ '': '' @ ct_content t) history)
      in if convo = [] then ''(no prior turns)'' else convo)"

definition rewrite_focus_block :: "string \<Rightarrow> string \<Rightarrow> string" where
  "rewrite_focus_block focus_id focus_service =
     (if focus_id = [] then []
      else [CHR 0x0A, CHR 0x0A] @ ''CURRENT FOCUS (authoritative - computed deterministically):'' @ [CHR 0x0A]
        @ ''  entity_id: '' @ focus_id @ [CHR 0x0A]
        @ ''  service:   '' @ (if focus_service = [] then ''unknown'' else focus_service) @ [CHR 0x0A]
        @ ''When the message uses a pronoun ('it', 'this', 'that'), a bare attribute name ('priority'), or a linked-record ''
        @ ''phrase ('the linked X', 'the related X', 'the affected X'), attach the CURRENT FOCUS id above - never any other id ''
        @ ''from history. The current focus is the most recent record the user named; any other id mentioned by the assistant ''
        @ ''in summaries is NOT focus.'' @ [CHR 0x0A])"

definition rewrite_user_block :: "string \<Rightarrow> conversation_turn list \<Rightarrow> request_ctx \<Rightarrow> string" where
  "rewrite_user_block t history ctx = ''Conversation so far:'' @ [CHR 0x0A] @ conversation_text history
     @ rewrite_focus_block (strip (rc_focus_entity_id ctx)) (strip (rc_focus_service_id ctx))
     @ [CHR 0x0A, CHR 0x0A] @ ''Message to resolve:'' @ [CHR 0x0A] @ t"

definition read_rewrite :: "rw_env \<Rightarrow> request_ctx \<Rightarrow> conversation_turn list \<Rightarrow> string \<Rightarrow> json \<Rightarrow> llm_exc + rewrite_result" where
  "read_rewrite env ctx history t doc =
     sbind (py_get doc ''rewritten'') (\<lambda>r.
       let rewritten = json_str (rw_str env) (py_or r (JStr t));
           changed = (truthy (jget doc ''changed'') \<and> rewritten \<noteq> t);
           (final, ch) = apply_rewrite_guards (rw_normalizer env) t rewritten changed history ctx
       in Inr \<lparr>rw_text = final, rw_changed = ch,
            rw_rationale = json_str (rw_str env) (case jfield doc ''rationale'' of None \<Rightarrow> JStr [] | Some x \<Rightarrow> x)\<rparr>)"

definition rewrite :: "rw_env \<Rightarrow> request_ctx \<Rightarrow> conversation_turn list \<Rightarrow> string \<Rightarrow> llm_exc + rewrite_result" where
  "rewrite env ctx history t =
     (case sbind (rw_ask env ctx (rewrite_user_block t history ctx)) (\<lambda>content.
             case rw_loads env content of
               None \<Rightarrow> Inl (ValueError ''json'')
             | Some doc \<Rightarrow> read_rewrite env ctx history t doc) of
        Inr r \<Rightarrow> Inr r
      | Inl e \<Rightarrow> if caught e then Inr (rewrite_unchanged t) else Inl e)"

section \<open>What the guards let through\<close>

text \<open>A text of digits and white space names no record: completing bare digits and a canonical id in the message exclude each other.\<close>

lemma re_search_position: "re_search_from r prev s \<Longrightarrow> \<exists>a u v. s = u @ v \<and> rmatch r (a, v) \<noteq> []"
proof (induction s arbitrary: prev)
  case Nil
  then show ?case
    by (intro exI [of _ prev]) (auto simp: match_here_def split: list.splits)
next
  case (Cons c cs)
  show ?case
  proof (cases "match_here r (prev, c # cs) = None")
    case True
    with Cons obtain a u v where "cs = u @ v" "rmatch r (a, v) \<noteq> []"
      by fastforce
    then show ?thesis
      by (metis append_Cons)
  next
    case False
    then have "rmatch r (prev, c # cs) \<noteq> []"
      by (auto simp: match_here_def)
    then show ?thesis
      by (metis append_Nil)
  qed
qed

lemma canonical_has_upper: "re_search CANONICAL_ID_RE s \<Longrightarrow> \<exists>c \<in> set s. is_upper c"
proof -
  assume "re_search CANONICAL_ID_RE s"
  then obtain a u v where s: "s = u @ v" and m: "rmatch CANONICAL_ID_RE (a, v) \<noteq> []"
    unfolding re_search_def by (blast dest: re_search_position)
  then obtain c cs where "v = c # cs" "is_upper c"
    by (cases v) (auto simp: CANONICAL_ID_RE_def numeral_eq_Suc split: if_splits)
  with s show ?thesis
    by auto
qed

lemma set_strip: "c \<in> set s \<Longrightarrow> c \<in> set (strip s) \<or> is_space c"
  unfolding strip_def by (metis Un_iff set_append set_rev set_takeWhileD takeWhile_dropWhile_id)

lemma bare_digits_no_id: "bare_digits s = Some d \<Longrightarrow> \<not> re_search CANONICAL_ID_RE s"
proof
  assume d: "bare_digits s = Some d" and "re_search CANONICAL_ID_RE s"
  then obtain c where c: "c \<in> set s" "is_upper c"
    using canonical_has_upper by blast
  from d have "list_all is_dec (strip s)"
    by (auto simp: bare_digits_def Let_def split: if_splits)
  with c set_strip [OF c(1)] have "is_dec c \<or> is_space c"
    by (auto simp: list_all_iff)
  with c(2) show False
    by (auto simp: is_dec_def is_space_def char_between_def less_eq_char_def Let_def)
qed

lemma completion_needs_no_id: "re_search CANONICAL_ID_RE t \<Longrightarrow> complete_bare_digit_id nz t history = []"
  by (auto simp: complete_bare_digit_id_def dest: bare_digits_no_id split: option.splits)

text \<open>
  \<open>grounded\<close>: the rewrite is the model's text and names no record beyond the message, the conversation and the completion of its
  own digits, or it is the message with the newest record of the conversation appended.
\<close>

definition grounded :: "normalizer option \<Rightarrow> string \<Rightarrow> string \<Rightarrow> conversation_turn list \<Rightarrow> string \<Rightarrow> bool" where
  "grounded nz t r history b \<longleftrightarrow>
     b = r \<and> set (record_ids nz b) \<subseteq> allowed_ids nz t b history
     \<or> re_search LINKED_PHRASE_RE t \<and> (\<exists>f fs. history_focus_ids nz history = f # fs \<and> b = t @ '' of '' @ f)"

definition resolves :: "normalizer option \<Rightarrow> string \<Rightarrow> string \<Rightarrow> bool" where
  "resolves nz t b \<longleftrightarrow>
     \<not> set (record_ids nz b) \<subseteq> set (record_ids nz t) \<and> \<not> re_search NEAR_CANONICAL_RE t
     \<and> (re_search PRONOUN_RE t \<or> length (re_findall WORD_RE t) \<le> 4)
     \<and> (length (content_words t) < 2 \<or> set (content_words t) \<inter> set (content_words b) \<noteq> {})"


lemma guard_chain:
  "foldl (guard_step t) (r, True) (revert_guards nz t history) =
     (let g1 = reject_hallucinated_ids nz t history r;
          g2 = (if g1 \<noteq> t then enforce_linked_phrase_guard nz t history g1 else g1);
          g3 = (if g2 \<noteq> t then reject_focus_injection nz t g2 else g2);
          g4 = (if g3 \<noteq> t then reject_topic_replacement t g3 else g3)
      in (g4, g4 \<noteq> t))"
  by (simp add: revert_guards_def guard_step_def Let_def)

lemma guard_results:
  "reject_hallucinated_ids nz t history r = b \<Longrightarrow> b = t \<or> b = r \<and> set (record_ids nz b) \<subseteq> allowed_ids nz t b history"
  "enforce_linked_phrase_guard nz t history r = b \<Longrightarrow> b = t \<or> b = r
     \<or> re_search LINKED_PHRASE_RE t \<and> (\<exists>f fs. history_focus_ids nz history = f # fs \<and> b = t @ '' of '' @ f)"
  "reject_focus_injection nz t r = b \<Longrightarrow> b = t \<or> b = r \<and> (set (record_ids nz b) \<subseteq> set (record_ids nz t)
     \<or> \<not> re_search NEAR_CANONICAL_RE t \<and> (re_search PRONOUN_RE t \<or> length (re_findall WORD_RE t) \<le> 4))"
  "reject_topic_replacement t r = b \<Longrightarrow> b = t \<or> b = r \<and>
     (length (content_words t) < 2 \<or> set (content_words t) \<inter> set (content_words b) \<noteq> {})"
  by (auto simp: reject_hallucinated_ids_def enforce_linked_phrase_guard_def reject_focus_injection_def reject_topic_replacement_def Let_def
      split: if_splits list.splits)

text \<open>Whatever leaves the revert guards and the check for new ids is the message or a grounded resolution of it.\<close>

lemma chain_resolves:
  assumes "foldl (guard_step t) (r, True) (revert_guards nz t history) = (b, c)" and "\<not> set (record_ids nz b) \<subseteq> set (record_ids nz t)"
  shows "grounded nz t r history b \<and> resolves nz t b"
proof -
  obtain g1 g2 g3 where g: "g1 = reject_hallucinated_ids nz t history r"
      "g2 = (if g1 \<noteq> t then enforce_linked_phrase_guard nz t history g1 else g1)"
      "g3 = (if g2 \<noteq> t then reject_focus_injection nz t g2 else g2)"
      "b = (if g3 \<noteq> t then reject_topic_replacement t g3 else g3)"
    using assms(1) unfolding guard_chain Let_def by blast
  have b: "b \<noteq> t"
    using assms(2) by auto
  then have 4: "b = g3" "length (content_words t) < 2 \<or> set (content_words t) \<inter> set (content_words b) \<noteq> {}"
    using guard_results(4) [of t g3 b] g(4) by (auto split: if_splits)
  then have 3: "b = g2" "\<not> re_search NEAR_CANONICAL_RE t \<and> (re_search PRONOUN_RE t \<or> length (re_findall WORD_RE t) \<le> 4)"
    using guard_results(3) [of nz t g2 b] g(3) b assms(2) by (auto split: if_splits)
  then have "grounded nz t r history b"
    using guard_results(1) [OF g(1) [symmetric]] guard_results(2) [of nz t history g1 b] g(2) b by (auto simp: grounded_def split: if_splits)
  with 3 4 show ?thesis
    using assms(2) by (simp add: resolves_def)
qed




text \<open>
  The guards hang on the model's own flag. When the answer says \<open>changed: false\<close> but carries another text, no guard looks at
  it: without a focus to enforce it is returned as it stands, reported as a change, whatever records it invents.
\<close>

theorem unflagged_rewrite_unguarded:
  assumes "rw_ask env ctx (rewrite_user_block t history ctx) = Inr content" and "rw_loads env content = Some (JObj kvs)"
    and "map_of kvs ''rewritten'' = Some (JStr r)" and "r \<noteq> []" and "r \<noteq> t" and "map_of kvs ''changed'' = Some (JBool False)"
    and "bare_digits t = None" and "strip (rc_focus_entity_id ctx) = []" and "history_focus_ids_user_only (rw_normalizer env) history = []"
  shows "\<exists>why. rewrite env ctx history t = Inr \<lparr>rw_text = r, rw_changed = True, rw_rationale = why\<rparr>"
proof -
  let ?nz = "rw_normalizer env"
  have "foldl (guard_step t) (r, False) (revert_guards ?nz t history) = (r, False)"
    by (simp add: revert_guards_def guard_step_def)
  moreover have "complete_bare_digit_id ?nz t history = []"
    using assms(7) by (simp add: complete_bare_digit_id_def)
  ultimately have "apply_rewrite_guards ?nz t r False history ctx = (r, True)"
    using assms(5,8,9) by (simp add: apply_rewrite_guards_def enforce_focus_def enforce_most_recent_focus_def Let_def)
  then show ?thesis
    using assms(1-6) by (simp add: rewrite_def read_rewrite_def py_or_def)
qed

section \<open>Instances\<close>

text \<open>Two incidents were named; the model picks the older one and the newer one is the focus.\<close>

definition drift_history :: "conversation_turn list" where
  "drift_history = [\<lparr>ct_role = ''user'', ct_content = ''INC0001004''\<rparr>,
     \<lparr>ct_role = ''assistant'', ct_content = ''it is open''\<rparr>, \<lparr>ct_role = ''user'', ct_content = ''INC0001005''\<rparr>]"

definition drift_ctx :: request_ctx where
  "drift_ctx = \<lparr>rc_domain = [], rc_focus_entity_id = ''INC0001005'', rc_focus_service_id = ''incident''\<rparr>"

abbreviation sample_nz :: "normalizer option" where
  "sample_nz \<equiv> Some sample_normalizer"

lemma ids_message: "record_ids sample_nz ''who owns it'' = []"
  by code_simp

lemma ids_older: "record_ids sample_nz ''who owns INC0001004'' = [''INC0001004'']"
  by code_simp

lemma ids_spelled: "record_ids sample_nz ''who owns inc-0001004'' = [''INC0001004'']"
  by code_simp

lemma ids_first: "record_ids sample_nz ''INC0001004'' = [''INC0001004'']"
  by code_simp

lemma ids_reply: "record_ids sample_nz ''it is open'' = []"
  by code_simp

lemma ids_second: "record_ids sample_nz ''INC0001005'' = [''INC0001005'']"
  by code_simp

lemmas drift_ids = ids_message ids_older ids_spelled ids_first ids_reply ids_second

lemma drift_focus_ids: "history_focus_ids sample_nz drift_history = [''INC0001005'', ''INC0001004'']"
proof -
  have "\<not> is_clarification_prompt (lower ''it is open'')" "lower ''user'' = ''user''" "lower ''assistant'' = ''assistant''"
    by code_simp+
  then show ?thesis
    by (simp add: history_focus_ids_def drift_history_def focus_step_def collect_turn_ids_def drift_ids push_new_def dedup_preserve_order_def)
qed

lemma drift_patterns:
  "\<not> re_search CANONICAL_ID_RE ''who owns it''" "\<not> re_search LINKED_PHRASE_RE ''who owns it''"
  "\<not> re_search NEAR_CANONICAL_RE ''who owns it''" "re_search PRONOUN_RE ''who owns it''" "content_words ''who owns it'' = [''owns'']"
  by code_simp+

lemmas guard_defs = guard_chain reject_hallucinated_ids_def allowed_ids_def enforce_linked_phrase_guard_def reject_focus_injection_def
  reject_topic_replacement_def enforce_focus_def enforce_authoritative_focus_def enforce_most_recent_focus_def anchor_to_def

lemma drift_focus: "strip (rc_focus_entity_id drift_ctx) = ''INC0001005''"
  by code_simp

lemma drift_replaced:
  "py_replace ''who owns INC0001004'' ''INC0001004'' ''INC0001005'' = ''who owns INC0001005''"
  "py_replace ''who owns inc-0001004'' ''INC0001004'' ''INC0001005'' = ''who owns inc-0001004''"
  by code_simp+



text \<open>An empty conversation and an invented incident: reverted when flagged as a change, passed on when not.\<close>

definition invented :: string where
  "invented = ''what is the priority of INC0009999''"

definition unflagged_env :: rw_env where
  "unflagged_env = \<lparr>rw_normalizer = Some sample_normalizer, rw_ask = (\<lambda>_ _. Inr []),
     rw_loads = (\<lambda>_. Some (JObj [(''rewritten'', JStr invented), (''changed'', JBool False)])), rw_str = (\<lambda>_. [])\<rparr>"

definition fresh_ctx :: request_ctx where
  "fresh_ctx = \<lparr>rc_domain = [], rc_focus_entity_id = [], rc_focus_service_id = []\<rparr>"

lemma flagged_reverted:
  "apply_rewrite_guards sample_nz ''what is the priority'' invented True [] fresh_ctx = (''what is the priority'', False)"
proof -
  have "record_ids sample_nz invented = [''INC0009999'']" "record_ids sample_nz ''what is the priority'' = []"
      "\<not> re_search CANONICAL_ID_RE ''what is the priority''" "bare_digits ''what is the priority'' = None"
      "strip (rc_focus_entity_id fresh_ctx) = []"
    by code_simp+
  then show ?thesis
    by (simp add: apply_rewrite_guards_def guard_defs history_focus_ids_def dedup_preserve_order_def bare_digit_allowed_ids_def)
qed

theorem unflagged_rewrite_unguarded_witness:
  "\<exists>why. rewrite unflagged_env fresh_ctx [] ''what is the priority'' = Inr \<lparr>rw_text = invented, rw_changed = True, rw_rationale = why\<rparr>"
proof (rule unflagged_rewrite_unguarded)
  show "rw_ask unflagged_env fresh_ctx (rewrite_user_block ''what is the priority'' [] fresh_ctx) = Inr []"
    by (simp add: unflagged_env_def)
  show "rw_loads unflagged_env [] = Some (JObj [(''rewritten'', JStr invented), (''changed'', JBool False)])"
    by (simp add: unflagged_env_def)
  show "bare_digits ''what is the priority'' = None"
    by code_simp
  show "strip (rc_focus_entity_id fresh_ctx) = []"
    by (simp add: fresh_ctx_def strip_def)
  show "history_focus_ids_user_only (rw_normalizer unflagged_env) [] = []"
    by (simp add: history_focus_ids_user_only_def)
qed (simp_all add: invented_def)

text \<open>
  The near-canonical pattern also matches an ordinary word before a number, so a pronoun in such a message stays unresolved; the
  linked phrases of the documentation match only with the article; an id in another spelling survives the focus guard.
\<close>

lemma number_blocks_resolution:
  assumes "re_search NEAR_CANONICAL_RE t"
  shows "apply_rewrite_guards nz t r True history ctx = (t, False)"
proof -
  obtain b c where chain: "foldl (guard_step t) (r, True) (revert_guards nz t history) = (b, c)"
    by fastforce
  then have "c = (b \<noteq> t)"
    unfolding guard_chain Let_def by blast
  moreover have "set (record_ids nz b) \<subseteq> set (record_ids nz t)"
    using chain_resolves [OF chain] assms by (auto simp: resolves_def)
  moreover have "foldl (guard_step t) (t, False) (revert_guards nz t history) = (t, False)"
    by (simp add: revert_guards_def guard_step_def)
  ultimately show ?thesis
    using chain by (simp add: apply_rewrite_guards_def completion_needs_no_id enforce_focus_def enforce_authoritative_focus_def
        enforce_most_recent_focus_def Let_def)
qed

lemma number_is_near_canonical: "re_search NEAR_CANONICAL_RE ''sum it up in 3 lines''" "re_search PRONOUN_RE ''sum it up in 3 lines''"
  by code_simp+

lemma possessive_not_linked:
  "\<not> re_search LINKED_PHRASE_RE ''its related change''" "re_search LINKED_PHRASE_RE ''the related change''"
  by code_simp+

lemma spelled_id_not_corrected:
  "apply_rewrite_guards sample_nz ''who owns it'' ''who owns inc-0001004'' True drift_history drift_ctx = (''who owns inc-0001004'', True)"
  by (simp add: apply_rewrite_guards_def guard_defs drift_ids drift_focus_ids drift_patterns drift_focus drift_replaced)

end
