(* ===== verification/Spec2Isabelle.thy ===== *)
theory Spec2Isabelle
  imports TurnCorrectness RegistryCorrectness Conditions StepRunner Memory Breaker GateCorrectness FastPath Gateway RouterCorrectness Rewrite
begin

text \<open>
  Verification of the OneOps orchestration core (Python, \<open>src/src/oneops\<close>).

  The program answers a user's turn in an IT service desk. A \<^emph>\<open>registry\<close> of versioned agent and tool
  records says what may run. The \<^emph>\<open>router\<close> resolves references in a message, splits it into sub-queries, selects agents for
  each in a funnel of retrieval, conditions, access control and disambiguation, and assembles a dependency-ordered plan;
  decisions are cached. A call that names its agent takes the \<^emph>\<open>fast path\<close> instead. Every language-model request passes the
  \<^emph>\<open>gateway\<close>: quota, redaction, retries, cost. The \<^emph>\<open>executor\<close> runs the plan in waves: each step passes
  policy, bindings, before-hooks (an authorisation re-check among them) and the approval gate, then a
  \<^emph>\<open>step runner\<close> selects a tool and calls its handler through the \<^emph>\<open>tool runner\<close>; results may
  generate further steps; at the end the results are aggregated and the turn is recorded in the
  \<^emph>\<open>session\<close> log. Requests to other processes go through retries and a \<^emph>\<open>circuit breaker\<close>.
  The largest use case, \<^emph>\<open>catalog fulfilment\<close>, opens service requests, holds them for approval where the
  approval matrix says so, and executes their task graphs.

  \<^bold>\<open>Theories and the code they model\<close>

  \<^item> \<open>Prelude\<close>: Python values, strings, regular expressions, insertion-ordered dictionaries, errors
    as sums, generic lemmas, and the collections \<open>py_simps\<close> and \<open>invs\<close>.
  \<^item> \<open>RegistryModels\<close>: \<open>registry/models.py\<close>, records as Isabelle records, enums as datatypes, the
    validators that span fields. \<open>RegistryStore\<close>: \<open>registry/store.py\<close>, the backend protocol as a locale
    interpreted on the directory tree of \<open>FileBackend\<close>, and the versioned store with its lifecycle.
    \<open>DependencyCycle\<close> and \<open>RegistryService\<close>: \<open>registry/service.py\<close>, the cycle search with its explicit
    stack and colours, and the integrity check. \<open>RegistryCorrectness\<close>: their theorems.
  \<^item> \<open>EntityId\<close>: \<open>router/entity_id.py\<close>, the four scanning passes. \<open>Conditions\<close>: \<open>router/conditions.py\<close>
    and the request signals. \<open>RoutePlan\<close>: \<open>router/plan.py\<close>, exclusions, dependency expansion, ordering
    of the sub-queries, bindings. \<open>FastPath\<close>: \<open>router/fast_path.py\<close>.
  \<^item> \<open>Regex\<close>: Python's regular expressions as lists of matches in backtracking order, search, substitution, \<open>findall\<close>.
  \<^item> \<open>Disambiguation\<close>: \<open>router/disambiguation.py\<close>, both disambiguators behind a locale of what they may select.
    \<open>RouteCache\<close>: \<open>router/route_cache.py\<close>. \<open>Router\<close>: \<open>router/router.py\<close> and \<open>router/glossary.py\<close>, the funnel, the
    binding of parameters, the cached decision. \<open>RouterCorrectness\<close>: their theorems. \<open>Rewrite\<close>: \<open>router/rewrite.py\<close>, the
    model's rewrite and the chain of guards over it.
  \<^item> \<open>Redaction\<close>, \<open>Transport\<close>, \<open>Gateway\<close>: \<open>llm/redaction.py\<close>, \<open>llm/models.py\<close> and \<open>llm/transport.py\<close>, \<open>llm/quota.py\<close>,
    \<open>llm/cost.py\<close> and \<open>llm/gateway.py\<close>; streaming transports are a locale interpreted on the echo transport.
  \<^item> \<open>TtlStore\<close>: the contract of the three in-process caches with lazy expiry, a locale.
    \<open>Authz\<close>: \<open>authz/\<close>, roles, attribute rules, decision cache, check. \<open>PolicyEngine\<close>: \<open>policy_engine/\<close>.
  \<^item> \<open>ExecState\<close>, \<open>Hooks\<close>, \<open>Executor\<close>: \<open>executor/state.py\<close>, \<open>executor/hooks.py\<close>, \<open>executor/nodes.py\<close>
    and \<open>executor/graph.py\<close>: the graph state and its reducers, the hook registry, the step pipeline, the
    wave loop, aggregation, focus and the boundary. \<open>TurnCorrectness\<close>: the theorems about a whole turn.
  \<^item> \<open>ToolContext\<close>, \<open>ToolRunner\<close>: \<open>tenancy/context.py\<close> and \<open>toolrunner/\<close>. \<open>Elicitation\<close>:
    \<open>executor/entity_elicitation.py\<close>. \<open>StepRunner\<close>: \<open>executor/step_runner.py\<close>.
  \<^item> \<open>Session\<close>: \<open>session/backend.py\<close>, \<open>session/store.py\<close> and the turn recording of \<open>executor/nodes.py\<close>;
    the event log and the hot window are locales interpreted on the in-memory backends.
    \<open>Memory\<close>: \<open>executor/memory.py\<close> and \<open>load_session\<close>.
  \<^item> \<open>Breaker\<close>: \<open>adapters/nats_resilience.py\<close>.
  \<^item> \<open>FulfilDb\<close>: the tables and statements of \<open>use_cases/uc08_fulfillment/db.py\<close> with the enums of
    \<open>contracts.py\<close>. \<open>Fulfillment\<close>: \<open>executor.py\<close>, readiness, failure cascade, the wave loop, retries,
    recovery, compensation; \<open>FulfilCorrectness\<close>: their theorems. \<open>FulfilPlan\<close>: \<open>core.py\<close>, templates, variable
    substitution, plans. \<open>Approval\<close>: \<open>approval.py\<close>, the matrix, the approvers, one decision.
    \<open>ServiceRequest\<close>: \<open>tools.py\<close> and \<open>api/uc08_approval_routes.py\<close>; \<open>GateCorrectness\<close>: the approval
    gate as a step relation over opened requests and decisions.
  \<^item> \<open>Samples\<close>, \<open>ExecSamples\<close>: concrete registries, plans and states on which the theorems are applied.

  \<^bold>\<open>What the theorems show\<close>

  An intact registry always plans, in dependency order (this theory); a turn runs every planned step
  exactly once and ends, unless the recursion limit of the graph aborts it, which it cannot do to a plan of at
  most sixteen levels; a handler runs only behind its gates, and the answer accounts for every step
  (\<open>TurnCorrectness\<close>); versions are numbered without a gap and the active pointer names a live one, the only ACTIVE one
  unless a record was submitted as ACTIVE, and the cycle search decides
  (\<open>RegistryCorrectness\<close>); the cached authorisation check implements the access rules and denies by
  default; a redelivered tool call replays its result instead of running again; tool faults stay
  inside results; chosen tools belong to the agent when its fast path is enabled; ids in a message are all reported, well-formed or
  not; the window over a session's log is the end of that log, until a retention run prunes a session whose window is
  cached, and a turn appends exactly its two events; trimming never drops turns silently; the breaker counts exactly the recent outcomes and
  fails fast, and retries are bounded and return only what was replied. A fulfilment starts a task only when its dependencies are done and
  skips exactly the tasks that depend on a failed one; a request is dispatched at most once, and one that was
  parked only after its assigned approver approved it, whatever is interleaved; the idempotency key is shown
  to break this when it is used. The router chooses only agents that are active, may be reached from chat, pass their condition
  and are permitted to the caller, except that a disambiguator with a registry is shown to route a denied agent; a cached
  decision is the decision that was made, failures of the model included; every sub-query is routed or reported; a rewrite
  resolves references or is reverted, except that an answer not flagged as a change is shown to escape the guards. No request
  leaves the gateway with an address or number the redaction knows, a tenant's budget bounds what it sends, and the
  cost ledger agrees with the results. The fast path accepts only typed, declared inputs.

  \<^bold>\<open>Fuel and bounds\<close>

  The recursive searches carry fuel and return \<open>None\<close> without it; enough fuel is proved in each case:
  the number of agent records plus two for the dependency expansion, the number of routes plus two for
  the sub-query ordering, and the successor of the sum of the step budgets for the wave loop (every wave
  uses up part of the budget of a step). \<open>wave_loop\<close> is the same loop under LangGraph's recursion limit: a round
  costs two supersteps and the end of a turn three, so a loop of \<open>w\<close> rounds needs \<open>2 * w + 3\<close> of them, and a turn whose steps wait
  at most \<open>n\<close> levels deep takes at most \<open>n\<close> plus the generation depth rounds. How many supersteps LangGraph charges
  for itself is the parameter \<open>charge\<close>. The cycle search and the failure cascade of a fulfilment are
  \<open>partial_function\<close>s whose termination on every graph is a theorem; a fulfilment runs at most the 64 waves
  the code allows. Python integers are \<open>int\<close>; no machine width occurs in this code. Clock
  readings are elements of an ordered ring or rationals.

  \<^bold>\<open>Parameters\<close>

  Code outside the repository is an argument of the definitions that use it: the digest of a cache key,
  the module importer, tool handlers, the language-model gateway, \<open>json.loads\<close>, \<open>getattr\<close> on foreign
  objects, clocks, random numbers, the message bus, the summariser, the integration adapters, the ids the
  database layer generates, the order in which the database returns rows, the replacement fields of
  \<open>str.format\<close> beyond plain names, the HTTP client of the model provider, the digests of cache keys, the formatting of
  floats, and the retriever and decomposer of the router, functions of the types of their protocols. Floats are rationals and
  the character classes of patterns are the ASCII ones.

  \<^bold>\<open>Limits of the model\<close>

  Record ids are the strings the record schema admits: the file backend searches for an id with a glob, and ids with glob
  characters or slashes are outside. Handler outputs are JSON values, which every serialiser accepts. After-hooks change
  a result in place, as the built-in ones do. Ratios and clock readings of the breaker are exact.

  \<^bold>\<open>Not modelled\<close>

  Logs, traces, metrics; single-field bounds that pydantic enforces on registry records; descriptive skill cards; the
  external stores (Postgres, Dragonfly) except through the protocols they implement; the
  prompts, whose answers are inputs here, with the vector search, the splitting of a message and the other use cases; the diagnostic
  lines of a route and the scheduling of its speculative calls; the other HTTP
  routes, workers and configuration. Statements of one database transaction are one atomic step, and the tasks of one
  fulfilment wave run one after the other. Dashes and ellipses in messages are written in ASCII.
\<close>

text \<open>
  C1: on a registry built by store operations whose integrity check passed, planning active agents
  always returns. A returned plan has distinct step ids, every step stands after all the steps it
  waits for, only active agents run, every selected agent that survives the exclusions is planned,
  and a step is fed only from steps it waits for. The only errors are: no routed sub-query, a real
  cycle between sub-queries, a registry error raised while resolving a declared binding.
\<close>

theorem intact_registry_plans:
  assumes "store_reachable agent_schema_ok (agents reg)" and "check_integrity reg = Some (Inr ())"
    and "\<forall>r \<in> set routes. set (sq_agent_ids r) \<subseteq> active_ids reg"
  shows "\<exists>q. assemble_plan routes reg = Some q
    \<and> (let rs = filter (\<lambda>r. sq_agent_ids r \<noteq> []) routes in
       case q of
         Inl e \<Rightarrow> (e = NoRoutedSubqueries \<and> rs = [])
            \<or> (\<exists>x. e = SubQueryCycle x \<and> (x, x) \<in> (sq_edges (routes_by_id rs))\<^sup>+)
            \<or> (\<exists>x. e = PlanRegistry x \<and> (\<exists>r \<in> set rs. sq_bindings r \<noteq> []))
       | Inr p \<Rightarrow> plan_wf (rp_steps p) \<and> set (plan_agent_ids p) \<subseteq> active_ids reg
            \<and> (\<forall>r \<in> ran (routes_by_id rs). route_covered reg r (rp_steps p))
            \<and> (\<forall>s \<in> set (rp_steps p). pb_from_step ` set (ps_parameter_bindings s) \<subseteq> set (ps_depends_on s)))"
proof -
  have "agent_dag reg"
    using integrity_gives_dag [OF reachable_store_ok [OF assms(1)] assms(2)] by (simp add: agent_dag_def)
  from assemble_plan_total [OF this assms(3)] show ?thesis unfolding Let_def .
qed

theorem intact_registry_plans_witness:
  "\<exists>p. assemble_plan [sample_route] sample_registry = Some (Inr p) \<and> plan_wf (rp_steps p)
     \<and> plan_agent_ids p = [''b'', ''a'']"
proof -
  have "''a'' \<in> active_ids sample_registry"
    unfolding active_ids_def mem_Collect_eq by (rule exI [of _ "projr (agents_get sample_registry ''a'')"]) code_simp
  then have "\<forall>r \<in> set [sample_route]. set (sq_agent_ids r) \<subseteq> active_ids sample_registry"
    by (simp add: sample_route_def)
  note plan = intact_registry_plans [OF sample_reachable sample_integrity this]
  obtain p where "assemble_plan [sample_route] sample_registry = Some (Inr p)" "plan_agent_ids p = [''b'', ''a'']"
    using map_result_Inr [OF sample_plan] by blast
  with plan show ?thesis by (simp add: Let_def)
qed

end
